(* ===== verification/Kernel_Prelude.thy ===== *)
theory Kernel_Prelude
  imports Main "HOL-Library.Word" "HOL-Library.Signed_Division"
    "HOL-Library.Monad_Syntax"
begin

unbundle bit_operations_syntax

section \<open>Vocabulary shared by the component theories\<close>

text \<open>
  The drivers of this repository are C code that runs against the Linux kernel interface.
  This theory fixes what the component theories have in common: error numbers and outcomes
  of a system call, C integer conversions, memory cells, the answers of the allocator and
  of the user-copy routines, the layout of ioctl numbers, and the interfaces (locales) that
  several components share.
\<close>

text \<open>The definitions of the numeric constants of the code, for proofs that need their values.\<close>

named_theorems code_consts

subsection \<open>Outcomes\<close>

datatype errno =
  EPERM | ENOENT | EIO | EAGAIN | ENOMEM | EFAULT | EBUSY | ENODEV | EINVAL | ENOTTY
| ERESTARTSYS | EOPNOTSUPP | ENOIOCTLCMD | EIOCBQUEUED

text \<open>
  A handler returns a value, returns a negative error number, or sleeps and is never woken
  in the given environment (\<open>Blocked\<close>). Code that does something C gives no meaning to (an
  access outside an object, a division by zero, a bad \<open>kfree\<close>) has the value \<open>None\<close> of
  an option type around all of this.
\<close>

datatype 'a outcome = Ret 'a | Fail errno | Blocked

subsection \<open>C integers\<close>

text \<open>
  Integers of the C code are modelled by their mathematical value; every conversion to a
  narrower or differently signed type is written out with these functions.
\<close>

definition u32 :: "int \<Rightarrow> int" where
  "u32 x = x mod 2 ^ 32"

definition u64 :: "int \<Rightarrow> int" where
  "u64 x = x mod 2 ^ 64"

definition s32 :: "int \<Rightarrow> int" where
  "s32 x = (x + 2 ^ 31) mod 2 ^ 32 - 2 ^ 31"

definition s64 :: "int \<Rightarrow> int" where
  "s64 x = (x + 2 ^ 63) mod 2 ^ 64 - 2 ^ 63"

lemma u32_id [simp]: "0 \<le> x \<Longrightarrow> x < 2 ^ 32 \<Longrightarrow> u32 x = x"
  by (simp add: u32_def)

lemma u64_id [simp]: "0 \<le> x \<Longrightarrow> x < 2 ^ 64 \<Longrightarrow> u64 x = x"
  by (simp add: u64_def)

lemma s32_id [simp]: "- (2 ^ 31) \<le> x \<Longrightarrow> x < 2 ^ 31 \<Longrightarrow> s32 x = x"
  by (simp add: s32_def)

lemma s64_id [simp]: "- (2 ^ 63) \<le> x \<Longrightarrow> x < 2 ^ 63 \<Longrightarrow> s64 x = x"
  by (simp add: s64_def)

lemma u32_bounds: "0 \<le> u32 x" "u32 x < 2 ^ 32"
  by (simp_all add: u32_def)

lemma u64_bounds: "0 \<le> u64 x" "u64 x < 2 ^ 64"
  by (simp_all add: u64_def)

lemma s32_bounds: "- (2 ^ 31) \<le> s32 x" "s32 x < 2 ^ 31"
proof -
  have "0 \<le> (x + 2 ^ 31) mod 2 ^ 32" and "(x + 2 ^ 31) mod 2 ^ 32 < (2 :: int) ^ 32"
    by simp_all
  then show "- (2 ^ 31) \<le> s32 x" "s32 x < 2 ^ 31"
    by (simp_all add: s32_def)
qed

lemma s64_bounds: "- (2 ^ 63) \<le> s64 x" "s64 x < 2 ^ 63"
proof -
  have "0 \<le> (x + 2 ^ 63) mod 2 ^ 64" and "(x + 2 ^ 63) mod 2 ^ 64 < (2 :: int) ^ 64"
    by simp_all
  then show "- (2 ^ 63) \<le> s64 x" "s64 x < 2 ^ 63"
    by (simp_all add: s64_def)
qed

lemma s64_u64 [simp]: "s64 (u64 x) = s64 x"
  unfolding s64_def u64_def by (simp only: mod_add_left_eq)

lemma s32_u32 [simp]: "s32 (u32 x) = s32 x"
  unfolding s32_def u32_def by (simp only: mod_add_left_eq)

text \<open>Division of C: \<open>sdiv\<close> and \<open>smod\<close> truncate towards zero.\<close>

lemma sdiv_nonneg: "0 \<le> a \<Longrightarrow> 0 < b \<Longrightarrow> (a :: int) sdiv b = a div b"
  by (cases "a = 0") (auto simp: signed_divide_int_def sgn_if)

lemma smod_nonneg: "0 \<le> a \<Longrightarrow> 0 < b \<Longrightarrow> (a :: int) smod b = a mod b"
  by (cases "a = 0") (auto simp: signed_modulo_int_def sgn_if)

lemma int_div_less:
  assumes "(f :: int) < n * c" "0 < c"
  shows "f div c < n"
proof (rule ccontr)
  assume "\<not> ?thesis"
  then have "n * c \<le> (f div c) * c" using assms(2) by (intro mult_right_mono) auto
  moreover have "(f div c) * c \<le> f"
    using div_mult_mod_eq[of f c] pos_mod_sign[OF assms(2), of f] by linarith
  ultimately show False using assms(1) by linarith
qed

lemma nat_int_diffs [simp]:
  "nat (int a - int b) = a - b" "nat (int a - (int b + int c)) = a - (b + c)"
  "nat (int a + int b) = a + b"
  by linarith+

subsection \<open>Memory\<close>

text \<open>A cell of memory that nothing has written yet is \<open>None\<close>.\<close>

type_synonym byte = "8 word"
type_synonym cell = "byte option"

text \<open>
  The allocator is not part of the repository. Its answers are an argument of the code that
  calls it: \<open>True\<close> for a call that succeeds. An exhausted list of answers is a failure.
\<close>

type_synonym allocs = "bool list"

fun kmalloc :: "allocs \<Rightarrow> bool \<times> allocs" where
  "kmalloc [] = (False, [])"
| "kmalloc (b # bs) = (b, bs)"

text \<open>\<open>memcpy\<close> of \<open>new\<close> to offset \<open>off\<close> of a block.\<close>

definition mem_write :: "nat \<Rightarrow> 'a list \<Rightarrow> 'a list \<Rightarrow> 'a list" where
  "mem_write off new xs = take off xs @ new @ drop (off + length new) xs"

lemma length_mem_write [simp]: "off + length new \<le> length xs \<Longrightarrow> length (mem_write off new xs) = length xs"
  by (simp add: mem_write_def)

lemma nth_mem_write:
  assumes "off + length new \<le> length xs" "i < length xs"
  shows "mem_write off new xs ! i =
    (if off \<le> i \<and> i < off + length new then new ! (i - off) else xs ! i)"
  using assms by (auto simp: mem_write_def nth_append min_def)

lemma mem_write_Nil [simp]: "mem_write off [] xs = xs"
  by (simp add: mem_write_def)

lemma take_drop_mem_write [simp]:
  "off + length new \<le> length xs \<Longrightarrow> take (length new) (drop off (mem_write off new xs)) = new"
  by (simp add: mem_write_def)

text \<open>
  A heap maps the address of each live block to its cells. A null pointer is \<open>None\<close>. The
  allocator \<open>alloc\<close> is a parameter: it may refuse, and what it returns is not in use. A
  block of size 0 is a block of its own (the kernel returns one fixed address that it never
  dereferences, which \<open>kfree\<close> accepts).
\<close>

type_synonym heap = "nat \<Rightarrow> cell list option"
type_synonym allocator = "heap \<Rightarrow> nat \<Rightarrow> nat option"

definition fresh_alloc :: "allocator \<Rightarrow> bool" where
  "fresh_alloc alloc \<longleftrightarrow> (\<forall>h n a. alloc h n = Some a \<longrightarrow> h a = None)"

text \<open>Fresh memory has no defined contents.\<close>

definition heap_new :: "nat \<Rightarrow> nat \<Rightarrow> heap \<Rightarrow> heap" where
  "heap_new a n h = h(a \<mapsto> replicate n None)"

definition kfree :: "nat option \<Rightarrow> heap \<Rightarrow> heap option" where
  "kfree p h = (case p of None \<Rightarrow> Some h
     | Some a \<Rightarrow> if h a = None then None else Some (h(a := None)))"

definition heap_load :: "nat option \<Rightarrow> nat \<Rightarrow> nat \<Rightarrow> heap \<Rightarrow> cell list option" where
  "heap_load p off n h = do {
     a \<leftarrow> p;
     blk \<leftarrow> h a;
     if off + n \<le> length blk then Some (take n (drop off blk)) else None }"

definition heap_store :: "nat option \<Rightarrow> nat \<Rightarrow> cell list \<Rightarrow> heap \<Rightarrow> heap option" where
  "heap_store p off new h = do {
     a \<leftarrow> p;
     blk \<leftarrow> h a;
     if off + length new \<le> length blk then Some (h(a \<mapsto> mem_write off new blk)) else None }"

text \<open>An allocator of 64 blocks, to run the model on concrete inputs.\<close>

definition first_free :: allocator where
  "first_free h n = find (\<lambda>a. h a = None) [0..<64]"

lemma fresh_first_free: "fresh_alloc first_free"
  by (auto simp: fresh_alloc_def first_free_def find_Some_iff)

text \<open>
  \<open>copy_from_user\<close> reports how many bytes it could not copy and clears that tail of the
  destination; \<open>left\<close> is this report (0 for success).
\<close>

definition user_bytes :: "nat \<Rightarrow> byte list \<Rightarrow> cell list" where
  "user_bytes left src =
     map Some (take (length src - left) src @ replicate (min left (length src)) 0)"

lemma length_user_bytes [simp]: "length (user_bytes left src) = length src"
  by (simp add: user_bytes_def)

lemma user_bytes_0 [simp]: "user_bytes 0 src = map Some src"
  by (simp add: user_bytes_def)

text \<open>
  What the kernel answers during one call of a handler: whether a signal interrupts the
  wait for the lock, the answers of the allocator, and how many bytes a copy from or to the
  user leaves uncopied.
\<close>

record kenv =
  signal :: bool
  allocs :: allocs
  uleft :: nat

definition good_env :: "kenv \<Rightarrow> bool" where
  "good_env k \<longleftrightarrow> \<not> signal k \<and> uleft k = 0"

subsection \<open>Numbers of ioctl commands\<close>

text \<open>The fields of a command: direction (2 bits), size (14), type (8), number (8).\<close>

definition ioc :: "nat \<Rightarrow> nat \<Rightarrow> nat \<Rightarrow> nat \<Rightarrow> nat" where
  "ioc dir ty nr sz = dir * 2 ^ 30 + sz * 2 ^ 16 + ty * 2 ^ 8 + nr"

definition ioc_type :: "nat \<Rightarrow> nat" where
  "ioc_type cmd = (cmd div 2 ^ 8) mod 2 ^ 8"

definition ioc_nr :: "nat \<Rightarrow> nat" where
  "ioc_nr cmd = cmd mod 2 ^ 8"

definition ioc_size :: "nat \<Rightarrow> nat" where
  "ioc_size cmd = (cmd div 2 ^ 16) mod 2 ^ 14"

definition ioc_dir :: "nat \<Rightarrow> nat" where
  "ioc_dir cmd = (cmd div 2 ^ 30) mod 2 ^ 2"

lemmas ioc_defs = ioc_def ioc_type_def ioc_nr_def ioc_size_def ioc_dir_def

text \<open>Directions: none, write (from the process), read (to the process), both.\<close>

abbreviation io_cmd :: "nat \<Rightarrow> nat \<Rightarrow> nat" where
  "io_cmd ty nr \<equiv> ioc 0 ty nr 0"

abbreviation iow_cmd :: "nat \<Rightarrow> nat \<Rightarrow> nat \<Rightarrow> nat" where
  "iow_cmd ty nr sz \<equiv> ioc 1 ty nr sz"

abbreviation ior_cmd :: "nat \<Rightarrow> nat \<Rightarrow> nat \<Rightarrow> nat" where
  "ior_cmd ty nr sz \<equiv> ioc 2 ty nr sz"

abbreviation iowr_cmd :: "nat \<Rightarrow> nat \<Rightarrow> nat \<Rightarrow> nat" where
  "iowr_cmd ty nr sz \<equiv> ioc 3 ty nr sz"

subsection \<open>Indices of a ring\<close>

lemma mod_wrap:
  "(a :: nat) < n \<Longrightarrow> b \<le> n \<Longrightarrow> (a + b) mod n = (if a + b < n then a + b else a + b - n)"
  by (simp add: mod_if)

lemma Suc_mod_wrap: "(a :: nat) < n \<Longrightarrow> Suc a mod n = (if Suc a = n then 0 else Suc a)"
  by (simp add: mod_if)

lemma diff_mod_wrap:
  "(a :: nat) < n \<Longrightarrow> b < n \<Longrightarrow> (a + n - b) mod n = (if b \<le> a then a - b else a + n - b)"
  by (simp add: mod_if)

subsection \<open>The last elements of a list\<close>

definition take_last :: "nat \<Rightarrow> 'a list \<Rightarrow> 'a list" where
  "take_last n xs = drop (length xs - n) xs"

lemma length_take_last [simp]: "length (take_last n xs) = min n (length xs)"
  by (simp add: take_last_def)

lemma take_last_all [simp]: "length xs \<le> n \<Longrightarrow> take_last n xs = xs"
  by (simp add: take_last_def)

lemma take_last_snoc: "0 < n \<Longrightarrow> take_last n (take_last n xs @ [x]) = take_last n (xs @ [x])"
  by (cases "length xs \<le> n") (auto simp: take_last_def Suc_diff_le)

lemma map_take_last: "map f (take_last n xs) = take_last n (map f xs)"
  by (simp add: take_last_def drop_map)

end
