(* ===== verification/Device_Interfaces.thy ===== *)
theory Device_Interfaces
  imports Kernel_Prelude
begin

section \<open>Interfaces between components\<close>

text \<open>
  Contracts that several components of the repository share, as locales: a labelled
  transition system with an invariant, one whose schedules are bounded, a set of event handlers that never fail from a good state,
  a first-in first-out channel, a refinement of steps, a device that only some may open, a device that is read
  piece by piece up to its end, and a bounded log of entries that is searched by the offset
  into the concatenation of its entries. Each is interpreted on the model's own operations in the theory of the component
  that provides it.
\<close>

subsection \<open>Runs of labelled steps\<close>

inductive run :: "('s \<Rightarrow> 'l \<Rightarrow> 's \<Rightarrow> bool) \<Rightarrow> 's \<Rightarrow> 'l list \<Rightarrow> 's \<Rightarrow> bool" for step where
  run_Nil: "run step s [] s"
| run_Cons: "step s l t \<Longrightarrow> run step t ls u \<Longrightarrow> run step s (l # ls) u"

inductive_cases run_NilE: "run step s [] u"
inductive_cases run_ConsE: "run step s (l # ls) u"

lemma run_append: "run step s ls t \<Longrightarrow> run step t ms u \<Longrightarrow> run step s (ls @ ms) u"
  by (induction rule: run.induct) (auto intro: run.intros)

locale invariant_system =
  fixes step :: "'s \<Rightarrow> 'l \<Rightarrow> 's \<Rightarrow> bool"
    and inv :: "'s \<Rightarrow> bool"
  assumes inv_step: "inv s \<Longrightarrow> step s l t \<Longrightarrow> inv t"
begin

lemma inv_run: "run step s ls u \<Longrightarrow> inv s \<Longrightarrow> inv u"
  by (induction rule: run.induct) (auto intro: inv_step)

end

text \<open>
  A system whose steps use up a weight: every schedule has at most so many steps that count. The
  steps that do not count are the environment's.
\<close>

locale weighted_system = invariant_system step inv
  for step :: "'s \<Rightarrow> 'l \<Rightarrow> 's \<Rightarrow> bool" and inv :: "'s \<Rightarrow> bool" +
  fixes weight :: "'s \<Rightarrow> nat"
    and counts :: "'l \<Rightarrow> bool"
  assumes weight_step: "inv s \<Longrightarrow> step s l t \<Longrightarrow> weight t + (if counts l then 1 else 0) \<le> weight s"
begin

lemma run_weight: "run step s ls u \<Longrightarrow> inv s \<Longrightarrow> length (filter counts ls) + weight u \<le> weight s"
proof (induction rule: run.induct)
  case (run_Cons s l t ls u)
  have "weight t + (if counts l then 1 else 0) \<le> weight s" using run_Cons weight_step by blast
  moreover have "length (filter counts ls) + weight u \<le> weight t" using run_Cons inv_step by blast
  ultimately show ?case by (simp split: if_splits)
qed simp

end

text \<open>
  A component driven by events whose handlers could fail to return: \<open>None\<close> stands for a
  hang or undefined behaviour. Events that the environment does not issue in a state are
  skipped.
\<close>

fun exec_all :: "('l \<Rightarrow> 's \<Rightarrow> 's option) \<Rightarrow> ('s \<Rightarrow> 'l \<Rightarrow> bool) \<Rightarrow> 'l list \<Rightarrow> 's \<Rightarrow> 's option" where
  "exec_all exec enabled [] s = Some s"
| "exec_all exec enabled (l # ls) s =
     (if enabled s l then (case exec l s of None \<Rightarrow> None | Some t \<Rightarrow> exec_all exec enabled ls t)
      else exec_all exec enabled ls s)"

locale safe_handlers =
  fixes exec :: "'l \<Rightarrow> 's \<Rightarrow> 's option"
    and enabled :: "'s \<Rightarrow> 'l \<Rightarrow> bool"
    and inv :: "'s \<Rightarrow> bool"
  assumes exec_safe: "inv s \<Longrightarrow> enabled s l \<Longrightarrow> \<exists>t. exec l s = Some t \<and> inv t"
begin

lemma exec_all_safe: "inv s \<Longrightarrow> \<exists>t. exec_all exec enabled ls s = Some t \<and> inv t"
proof (induction ls arbitrary: s)
  case (Cons l ls)
  then show ?case using exec_safe[of s l] by (cases "enabled s l") auto
qed simp

end

text \<open>A channel: what went in comes out in the same order, nothing twice and nothing lost.\<close>

locale fifo_channel = invariant_system step inv
  for step :: "'s \<Rightarrow> 'l \<Rightarrow> 's \<Rightarrow> bool" and inv :: "'s \<Rightarrow> bool" +
  fixes contents :: "'s \<Rightarrow> 'a list"
    and put :: "'l \<Rightarrow> 'a list"
    and got :: "'l \<Rightarrow> 'a list"
  assumes step_contents: "inv s \<Longrightarrow> step s l t \<Longrightarrow> contents s @ put l = got l @ contents t"
begin

lemma run_contents:
  "run step s ls u \<Longrightarrow> inv s \<Longrightarrow>
    contents s @ concat (map put ls) = concat (map got ls) @ contents u"
proof (induction rule: run.induct)
  case (run_Nil s)
  then show ?case by simp
next
  case (run_Cons s l t ls u)
  have "contents s @ put l = got l @ contents t"
    using run_Cons by (auto intro: step_contents)
  moreover have "contents t @ concat (map put ls) = concat (map got ls) @ contents u"
    using run_Cons inv_step by blast
  ultimately show ?case by simp (metis append_assoc)
qed

lemma run_got_prefix:
  "run step s ls u \<Longrightarrow> inv s \<Longrightarrow> contents s = [] \<Longrightarrow>
    \<exists>rest. concat (map put ls) = concat (map got ls) @ rest"
  using run_contents[of s ls u] by simp

end

text \<open>Runs of a component against its abstract operations.\<close>

locale simulation =
  fixes step :: "'s \<Rightarrow> 'l \<Rightarrow> 's \<Rightarrow> bool"
    and spec :: "'l \<Rightarrow> 'a \<Rightarrow> 'a"
    and rep :: "'s \<Rightarrow> 'a \<Rightarrow> bool"
  assumes sim_step: "rep s a \<Longrightarrow> step s l t \<Longrightarrow> rep t (spec l a)"
begin

lemma sim_run: "run step s ls u \<Longrightarrow> rep s a \<Longrightarrow> rep u (fold spec ls a)"
  by (induction arbitrary: a rule: run.induct) (auto dest: sim_step)

end

text \<open>
  A sequence of calls that each return an answer, or \<open>None\<close> when one of them never returns or has no
  meaning.
\<close>

fun exec_calls :: "('c \<Rightarrow> 's \<Rightarrow> ('s \<times> 'r) option) \<Rightarrow> 'c list \<Rightarrow> 's \<Rightarrow> ('r list \<times> 's) option" where
  "exec_calls exec [] s = Some ([], s)"
| "exec_calls exec (c # cs) s =
     (case exec c s of
        None \<Rightarrow> None
      | Some (s', r) \<Rightarrow> map_option (\<lambda>(rs, u). (r # rs, u)) (exec_calls exec cs s'))"

lemma exec_calls_append:
  "exec_calls exec cs s = Some (rs, t) \<Longrightarrow> exec_calls exec ds t = Some (qs, u) \<Longrightarrow>
    exec_calls exec (cs @ ds) s = Some (rs @ qs, u)"
  by (induction cs arbitrary: s rs) (auto split: option.splits)

text \<open>
  Calls against a specification that says which answers are allowed and what they do to the abstract state.
  A call may use up some of a budget (the bytes that it stores, say), within which the numbers
  of the implementation do not overflow.
\<close>

locale call_refinement =
  fixes exec :: "'c \<Rightarrow> 's \<Rightarrow> ('s \<times> 'r) option"
    and spec :: "'a \<Rightarrow> 'c \<times> 'r \<Rightarrow> 'a \<Rightarrow> bool"
    and rep :: "nat \<Rightarrow> 's \<Rightarrow> 'a \<Rightarrow> bool"
    and cost :: "'c \<Rightarrow> nat"
    and ok :: "'c \<Rightarrow> bool"
    and budget :: nat
  assumes call_refines: "rep used s a \<Longrightarrow> ok c \<Longrightarrow> used + cost c < budget \<Longrightarrow>
    \<exists>s' r a'. exec c s = Some (s', r) \<and> spec a (c, r) a' \<and> rep (used + cost c) s' a'"
begin

lemma calls_refine:
  "rep used s a \<Longrightarrow> list_all ok cs \<Longrightarrow> used + sum_list (map cost cs) < budget \<Longrightarrow>
    \<exists>rs s' a'. exec_calls exec cs s = Some (rs, s') \<and> length rs = length cs \<and>
      run spec a (zip cs rs) a' \<and> rep (used + sum_list (map cost cs)) s' a'"
proof (induction cs arbitrary: used s a)
  case Nil
  then show ?case by (auto intro: run_Nil)
next
  case (Cons c cs)
  then obtain s1 r a1 where step: "exec c s = Some (s1, r)" "spec a (c, r) a1" "rep (used + cost c) s1 a1"
    using call_refines[of used s a c] by auto
  from Cons.IH[OF step(3)] Cons.prems obtain rs s' a' where
    "exec_calls exec cs s1 = Some (rs, s')" "length rs = length cs" "run spec a1 (zip cs rs) a'"
    "rep (used + cost c + sum_list (map cost cs)) s' a'" by auto
  with step show ?case
    by (intro exI[of _ "r # rs"] exI[of _ s'] exI[of _ a']) (auto intro: run_Cons simp: add.assoc)
qed

end

subsection \<open>Guards of open\<close>

text \<open>
  A counted open that admits a process only under a condition on the state, which stays the
  same while the device is open. \<open>enter\<close> is \<open>None\<close> for a refused open.
\<close>

locale open_guard =
  fixes enter :: "'s \<Rightarrow> 'u \<Rightarrow> 's option"
    and leave :: "'s \<Rightarrow> 's"
    and opens :: "'s \<Rightarrow> int"
    and allowed :: "'s \<Rightarrow> 'u \<Rightarrow> bool"
    and room :: "'s \<Rightarrow> bool"
    and sane :: "'s \<Rightarrow> bool"
  assumes enter_opens: "room s \<Longrightarrow> enter s u = Some t \<Longrightarrow> opens t = opens s + 1"
    and enter_allowed: "room s \<Longrightarrow> enter s u = Some t \<Longrightarrow> allowed t u"
    and enter_keeps: "room s \<Longrightarrow> enter s u = Some t \<Longrightarrow> 0 < opens s \<Longrightarrow> allowed t v = allowed s v"
    and enter_sane: "room s \<Longrightarrow> enter s u = Some t \<Longrightarrow> sane t"
    and leave_sane: "sane s \<Longrightarrow> 0 < opens s \<Longrightarrow> sane (leave s)"
    and leave_opens: "sane s \<Longrightarrow> 0 < opens s \<Longrightarrow> opens (leave s) = opens s - 1"
    and leave_allowed: "0 < opens s \<Longrightarrow> allowed (leave s) v = allowed s v"
begin

text \<open>The device together with the processes that have it open.\<close>

inductive guard_step :: "'s \<times> 'u list \<Rightarrow> 'u \<times> bool \<Rightarrow> 's \<times> 'u list \<Rightarrow> bool" where
  guard_open: "room s \<Longrightarrow> enter s u = Some t \<Longrightarrow> guard_step (s, us) (u, True) (t, u # us)"
| guard_close: "u \<in> set us \<Longrightarrow> guard_step (s, us) (u, False) (leave s, remove1 u us)"

definition guard_inv :: "'s \<times> 'u list \<Rightarrow> bool" where
  "guard_inv g \<longleftrightarrow> sane (fst g) \<and> opens (fst g) = int (length (snd g)) \<and> (\<forall>u \<in> set (snd g). allowed (fst g) u)"

lemma guard_inv_step:
  assumes inv: "guard_inv g" and step: "guard_step g l g'"
  shows "guard_inv g'"
  using step
proof cases
  case (guard_open s u t us)
  have "\<forall>v \<in> set us. allowed t v"
  proof (cases "us = []")
    case False
    then have "0 < opens s" using inv guard_open by (simp add: guard_inv_def)
    then show ?thesis using inv guard_open(1) enter_keeps[OF guard_open(4,5)]
      by (simp add: guard_inv_def)
  qed simp
  then show ?thesis
    using inv guard_open(1,3) enter_opens[OF guard_open(4,5)] enter_allowed[OF guard_open(4,5)]
      enter_sane[OF guard_open(4,5)]
    by (simp add: guard_inv_def)
next
  case (guard_close u us s)
  then have "us \<noteq> []" by auto
  then have "0 < opens s" using inv guard_close(1) by (simp add: guard_inv_def)
  moreover have "int (length (remove1 u us)) = int (length us) - 1"
    using length_pos_if_in_set[OF guard_close(4)]
    unfolding length_remove1 if_P[OF guard_close(4)] by linarith
  ultimately show ?thesis
    using inv guard_close(1,3) set_remove1_subset[of u us]
    by (auto simp: guard_inv_def leave_opens leave_allowed leave_sane)
qed

lemma guard_run: "run guard_step g ls g' \<Longrightarrow> guard_inv g \<Longrightarrow> guard_inv g'"
  by (induction rule: run.induct) (auto intro: guard_inv_step)

end

subsection \<open>Reading a device to its end\<close>

text \<open>
  The loop of a reader that stops at the first empty answer, as a program does that calls
  \<open>read\<close> until it returns 0. \<open>fuel\<close> bounds the number of calls.
\<close>

fun read_all :: "(nat \<Rightarrow> nat \<Rightarrow> 'a list) \<Rightarrow> nat \<Rightarrow> nat \<Rightarrow> nat \<Rightarrow> 'a list option" where
  "read_all rd 0 pos n = None"
| "read_all rd (Suc fuel) pos n =
     (let got = rd pos n in
      if got = [] then Some []
      else map_option ((@) got) (read_all rd fuel (pos + length got) n))"

locale read_device =
  fixes rd :: "'s \<Rightarrow> nat \<Rightarrow> nat \<Rightarrow> 'a list"
    and ok :: "'s \<Rightarrow> bool"
    and content :: "'s \<Rightarrow> 'a list"
  assumes rd_prefix: "ok s \<Longrightarrow> pos \<le> length (content s) \<Longrightarrow> \<exists>k \<le> n. rd s pos n = take k (drop pos (content s))"
    and rd_progress: "ok s \<Longrightarrow> 0 < n \<Longrightarrow> pos < length (content s) \<Longrightarrow> rd s pos n \<noteq> []"
begin

lemma rd_split:
  "ok s \<Longrightarrow> pos \<le> length (content s) \<Longrightarrow>
    rd s pos n @ drop (pos + length (rd s pos n)) (content s) = drop pos (content s)"
proof -
  assume "ok s" "pos \<le> length (content s)"
  then obtain k where k: "rd s pos n = take k (drop pos (content s))"
    using rd_prefix by blast
  show ?thesis
  proof (cases "k \<le> length (content s) - pos")
    case True
    then show ?thesis by (simp add: k add.commute flip: drop_drop)
  next
    case False
    then show ?thesis by (simp add: k)
  qed
qed

lemma rd_length: "ok s \<Longrightarrow> pos \<le> length (content s) \<Longrightarrow> length (rd s pos n) \<le> n"
  using rd_prefix[of s pos n] by auto

lemma rd_within:
  "ok s \<Longrightarrow> pos \<le> length (content s) \<Longrightarrow> pos + length (rd s pos n) \<le> length (content s)"
  using rd_prefix[of s pos n] by auto

lemma rd_end: "ok s \<Longrightarrow> rd s (length (content s)) n = []"
  using rd_prefix[of s "length (content s)" n] by auto

lemma read_all_content:
  "ok s \<Longrightarrow> 0 < n \<Longrightarrow> pos \<le> length (content s) \<Longrightarrow> length (content s) - pos < fuel \<Longrightarrow>
    read_all (rd s) fuel pos n = Some (drop pos (content s))"
proof (induction fuel arbitrary: pos)
  case 0
  then show ?case by simp
next
  case (Suc fuel)
  show ?case
  proof (cases "pos < length (content s)")
    case True
    let ?g = "rd s pos n"
    have ne: "?g \<noteq> []" using Suc.prems True by (simp add: rd_progress)
    then have "length (content s) - (pos + length ?g) < fuel"
      using Suc.prems True by (cases ?g) auto
    then have "read_all (rd s) fuel (pos + length ?g) n =
        Some (drop (pos + length ?g) (content s))"
      using Suc.IH[of "pos + length ?g"] Suc.prems rd_within[of s pos n] by simp
    with ne show ?thesis using rd_split[OF Suc.prems(1,3), of n] by (simp add: Let_def)
  next
    case False
    then have "pos = length (content s)" using Suc.prems by simp
    then show ?thesis using rd_end[OF Suc.prems(1), of n] by simp
  qed
qed

end

subsection \<open>A bounded log searched by offset\<close>

text \<open>The list position and the offset in it of byte \<open>off\<close> of blocks of the given sizes.\<close>

fun locate :: "nat list \<Rightarrow> nat \<Rightarrow> (nat \<times> nat) option" where
  "locate [] off = None"
| "locate (s # ss) off =
     (if off < s then Some (0, off)
      else map_option (\<lambda>(k, i). (Suc k, i)) (locate ss (off - s)))"

lemma locate_None: "locate ss off = None \<longleftrightarrow> sum_list ss \<le> off"
proof (induction ss arbitrary: off)
  case (Cons a ss)
  have "locate (a # ss) off = None \<longleftrightarrow> \<not> off < a \<and> locate ss (off - a) = None"
    by simp
  also have "\<dots> \<longleftrightarrow> \<not> off < a \<and> sum_list ss \<le> off - a"
    by (simp only: Cons.IH)
  also have "\<dots> \<longleftrightarrow> sum_list (a # ss) \<le> off"
    by (auto simp only: sum_list.Cons)
  finally show ?case .
qed simp

lemma locate_Some:
  "locate ss off = Some (k, i) \<Longrightarrow>
    k < length ss \<and> i < ss ! k \<and> off = sum_list (take k ss) + i"
proof (induction ss arbitrary: off k)
  case Nil
  then show ?case by simp
next
  case (Cons a ss)
  show ?case
  proof (cases "off < a")
    case True
    then show ?thesis using Cons.prems by simp
  next
    case False
    then obtain k' where "locate ss (off - a) = Some (k', i)" "k = Suc k'"
      using Cons.prems by auto
    with Cons.IH[OF this(1)] have "off - a = sum_list (take k' ss) + i" "k' < length ss" "i < ss ! k'"
      by simp_all
    with False \<open>k = Suc k'\<close> show ?thesis by simp
  qed
qed

lemma locate_drop:
  "locate (map length xs) off = Some (k, i) \<Longrightarrow>
    drop off (concat xs) = drop i (xs ! k) @ concat (drop (Suc k) xs)"
  by (induction xs arbitrary: off k) (auto split: if_splits)

locale entry_log =
  fixes init :: 'b
    and add :: "'b \<Rightarrow> 'e \<Rightarrow> 'b"
    and find :: "'b \<Rightarrow> nat \<Rightarrow> ('e \<times> nat) option"
    and inv :: "'b \<Rightarrow> bool"
    and items :: "'b \<Rightarrow> 'e list"
    and size_of :: "'e \<Rightarrow> nat"
    and cap :: nat
  assumes cap_pos: "0 < cap"
    and inv_init: "inv init"
    and items_init: "items init = []"
    and inv_add: "inv b \<Longrightarrow> inv (add b e)"
    and items_add: "inv b \<Longrightarrow> items (add b e) = take_last cap (items b @ [e])"
    and find_items: "inv b \<Longrightarrow>
      find b off = map_option (\<lambda>(k, i). (items b ! k, i)) (locate (map size_of (items b)) off)"
begin

lemma inv_fold: "inv b \<Longrightarrow> inv (foldl add b es)"
  by (induction es arbitrary: b) (auto intro: inv_add)

lemma items_fold:
  "inv b \<Longrightarrow> length (items b) \<le> cap \<Longrightarrow> items (foldl add b es) = take_last cap (items b @ es)"
proof (induction es rule: rev_induct)
  case Nil
  then show ?case by simp
next
  case (snoc e es)
  then show ?case
    using inv_fold[of b es] take_last_snoc[OF cap_pos, of "items b @ es" e]
    by (simp add: items_add)
qed

lemma items_log: "items (foldl add init es) = take_last cap es"
  using items_fold[OF inv_init, of es] by (simp add: items_init)

lemma find_None: "inv b \<Longrightarrow> find b off = None \<longleftrightarrow> sum_list (map size_of (items b)) \<le> off"
  by (simp add: find_items locate_None)

lemma find_Some:
  assumes "inv b" "find b off = Some (e, i)"
  obtains k where "k < length (items b)" "e = items b ! k" "i < size_of e"
    "off = sum_list (take k (map size_of (items b))) + i"
proof -
  obtain k where k: "locate (map size_of (items b)) off = Some (k, i)" "e = items b ! k"
    using assms by (auto simp: find_items)
  with locate_Some[OF k(1)] show thesis
    using that by auto
qed

text \<open>With the data of an entry, the bytes of the concatenation from the offset on.\<close>

lemma find_bytes:
  assumes "inv b" "find b off = Some (e, i)"
    and len: "\<And>x. x \<in> set (items b) \<Longrightarrow> length (data x) = size_of x"
  shows "\<exists>rest. drop off (concat (map data (items b))) = drop i (data e) @ rest"
proof -
  have m: "map size_of (items b) = map length (map data (items b))"
    using len by simp
  obtain k where k: "locate (map size_of (items b)) off = Some (k, i)" "e = items b ! k"
    using assms(1,2) by (auto simp: find_items)
  then have "k < length (items b)"
    using locate_Some by fastforce
  with k locate_drop[of "map data (items b)" off k i] show ?thesis
    unfolding m by auto
qed

end

end
