(* ===== verification/Aesd_Circular_Buffer.thy ===== *)
theory Aesd_Circular_Buffer
  imports Device_Interfaces
begin

section \<open>The circular buffer of write commands\<close>

text \<open>
  \<open>aesd-char-driver/aesd-circular-buffer.c\<close> and its header: a ring of the ten most recent
  write commands. Pointers to kernel memory are \<open>nat option\<close> (\<open>None\<close> is NULL); a pointer
  to an element of the ring is the index of the element. Sizes and offsets are \<open>nat\<close>: the
  only subtraction of the code is guarded, and a sum of sizes of live blocks fits a
  \<open>size_t\<close>. Indices are \<open>uint8_t\<close> values, which stay below ten (the invariant).
\<close>

subsection \<open>Data\<close>

definition AESDCHAR_MAX_WRITE_OPERATIONS_SUPPORTED :: nat where
  "AESDCHAR_MAX_WRITE_OPERATIONS_SUPPORTED = 10"

record aesd_buffer_entry =
  buffptr :: "nat option"
  entry_size :: nat

record aesd_circular_buffer =
  entry :: "aesd_buffer_entry list"
  in_offs :: nat
  out_offs :: nat
  full :: bool

abbreviation (input) max_ops :: nat where
  "max_ops \<equiv> AESDCHAR_MAX_WRITE_OPERATIONS_SUPPORTED"

subsection \<open>Operations\<close>

text \<open>The loop of the search, from ring position \<open>idx\<close> with \<open>ctr\<close> elements passed.\<close>

function find_entry_loop ::
  "aesd_circular_buffer \<Rightarrow> nat \<Rightarrow> nat \<Rightarrow> nat \<Rightarrow> nat \<Rightarrow> (nat \<times> nat) option" where
  "find_entry_loop b max_valid_entry ctr idx char_offset =
     (if ctr < max_valid_entry then
        (if char_offset < entry_size (entry b ! idx) then Some (idx, char_offset)
         else find_entry_loop b max_valid_entry (Suc ctr) ((idx + 1) mod max_ops)
                (char_offset - entry_size (entry b ! idx)))
      else None)"
  by pat_completeness auto
termination
  by (relation "measure (\<lambda>(b, m, c, i, off). m - c)") auto

declare find_entry_loop.simps [simp del]

definition max_valid_entry :: "aesd_circular_buffer \<Rightarrow> nat" where
  "max_valid_entry b =
     (if full b then max_ops
      else (in_offs b + max_ops - out_offs b) mod max_ops)"

text \<open>The index of the element found and \<open>*entry_offset_byte_rtn\<close>, or NULL.\<close>

definition aesd_circular_buffer_find_entry_offset_for_fpos ::
  "aesd_circular_buffer \<Rightarrow> nat \<Rightarrow> (nat \<times> nat) option" where
  "aesd_circular_buffer_find_entry_offset_for_fpos b char_offset =
     (if \<not> full b \<and> in_offs b = out_offs b then None
      else find_entry_loop b (max_valid_entry b) 0 (out_offs b) char_offset)"

text \<open>The new buffer and the pointer of the element that was overwritten (or NULL).\<close>

definition aesd_circular_buffer_add_entry ::
  "aesd_circular_buffer \<Rightarrow> aesd_buffer_entry \<Rightarrow> nat option \<times> aesd_circular_buffer" where
  "aesd_circular_buffer_add_entry b add_entry =
     (let retval = (if full b then buffptr (entry b ! out_offs b) else None);
          b1 = b\<lparr>entry := (entry b)[in_offs b := add_entry]\<rparr>;
          b2 = b1\<lparr>in_offs := (in_offs b1 + 1) mod max_ops\<rparr>;
          b3 = (if full b2 then b2\<lparr>out_offs := (out_offs b2 + 1) mod max_ops\<rparr> else b2);
          b4 = (if in_offs b3 = out_offs b3 then b3\<lparr>full := True\<rparr> else b3)
      in (retval, b4))"

definition aesd_circular_buffer_init :: aesd_circular_buffer where
  "aesd_circular_buffer_init =
     \<lparr>entry = replicate max_ops \<lparr>buffptr = None, entry_size = 0\<rparr>,
      in_offs = 0, out_offs = 0, full = False\<rparr>"

text \<open>\<open>AESD_CIRCULAR_BUFFER_FOREACH\<close>: all ten slots, used or not, in array order.\<close>

definition AESD_CIRCULAR_BUFFER_FOREACH ::
  "(aesd_buffer_entry \<Rightarrow> 's \<Rightarrow> 's) \<Rightarrow> aesd_circular_buffer \<Rightarrow> 's \<Rightarrow> 's" where
  "AESD_CIRCULAR_BUFFER_FOREACH f b s = fold (\<lambda>i. f (entry b ! i)) [0..<max_ops] s"

subsection \<open>Invariant and abstraction\<close>

definition ring_inv :: "aesd_circular_buffer \<Rightarrow> bool" where
  "ring_inv b \<longleftrightarrow> length (entry b) = 10 \<and> in_offs b < 10 \<and> out_offs b < 10 \<and>
     (full b \<longrightarrow> in_offs b = out_offs b)"

text \<open>The commands held, oldest first.\<close>

definition ring_list :: "aesd_circular_buffer \<Rightarrow> aesd_buffer_entry list" where
  "ring_list b = map (\<lambda>i. entry b ! ((out_offs b + i) mod 10)) [0..<max_valid_entry b]"

lemmas ring_simps = AESDCHAR_MAX_WRITE_OPERATIONS_SUPPORTED_def max_valid_entry_def

lemma ring_inv_init [simp]: "ring_inv aesd_circular_buffer_init"
  by (simp add: ring_inv_def aesd_circular_buffer_init_def ring_simps)

lemma ring_list_init [simp]: "ring_list aesd_circular_buffer_init = []"
  by (simp add: ring_list_def aesd_circular_buffer_init_def ring_simps)

lemma length_ring_list: "length (ring_list b) = max_valid_entry b"
  by (simp add: ring_list_def)

lemma ring_inv_add:
  assumes "ring_inv b"
  shows "ring_inv (snd (aesd_circular_buffer_add_entry b e))"
  using assms
  by (auto simp: ring_inv_def aesd_circular_buffer_add_entry_def ring_simps Let_def)


text \<open>What an addition does to each component.\<close>

lemma add_entry_proj:
  assumes "ring_inv b"
  shows "entry (snd (aesd_circular_buffer_add_entry b e)) = (entry b)[in_offs b := e]"
    and "in_offs (snd (aesd_circular_buffer_add_entry b e)) = Suc (in_offs b) mod 10"
    and "out_offs (snd (aesd_circular_buffer_add_entry b e)) =
      (if full b then Suc (out_offs b) mod 10 else out_offs b)"
    and "full (snd (aesd_circular_buffer_add_entry b e)) \<longleftrightarrow>
      full b \<or> Suc (in_offs b) mod 10 = out_offs b"
  using assms
  by (simp_all add: aesd_circular_buffer_add_entry_def ring_inv_def ring_simps Let_def)

lemma nth_ring_list:
  "i < max_valid_entry b \<Longrightarrow> ring_list b ! i = entry b ! ((out_offs b + i) mod 10)"
  by (simp add: ring_list_def)

lemma max_valid_entry_le: "ring_inv b \<Longrightarrow> max_valid_entry b \<le> 10"
  by (simp add: ring_simps less_imp_le)

lemma in_offs_eq:
  assumes "ring_inv b"
  shows "in_offs b = (out_offs b + max_valid_entry b) mod 10"
proof (cases "full b")
  case True
  then show ?thesis using assms by (simp add: ring_inv_def ring_simps)
next
  case False
  moreover have b: "in_offs b < 10" "out_offs b < 10"
    using assms by (auto simp: ring_inv_def)
  ultimately have "max_valid_entry b =
      (if out_offs b \<le> in_offs b then in_offs b - out_offs b else in_offs b + 10 - out_offs b)"
    by (simp add: ring_simps diff_mod_wrap)
  with b show ?thesis by (simp add: mod_wrap)
qed

lemma max_valid_entry_add:
  assumes "ring_inv b"
  shows "max_valid_entry (snd (aesd_circular_buffer_add_entry b e)) =
    min 10 (Suc (max_valid_entry b))"
proof (cases "full b")
  case True
  then show ?thesis using add_entry_proj[OF assms] by (simp add: ring_simps)
next
  case False
  have b: "in_offs b < 10" "out_offs b < 10"
    using assms by (auto simp: ring_inv_def)
  have v: "max_valid_entry b =
      (if out_offs b \<le> in_offs b then in_offs b - out_offs b else in_offs b + 10 - out_offs b)"
    using False b by (simp add: ring_simps diff_mod_wrap)
  show ?thesis
  proof (cases "Suc (in_offs b) mod 10 = out_offs b")
    case True
    with b v have "max_valid_entry b = 9" by (auto simp: Suc_mod_wrap split: if_splits)
    then show ?thesis using True add_entry_proj[OF assms] by (simp add: ring_simps)
  next
    case nf: False
    then have "max_valid_entry (snd (aesd_circular_buffer_add_entry b e)) =
      (Suc (in_offs b) mod 10 + 10 - out_offs b) mod 10"
      using False add_entry_proj[OF assms] by (simp add: ring_simps)
    with nf b v show ?thesis
      by (auto simp: diff_mod_wrap Suc_mod_wrap split: if_splits)
  qed
qed

text \<open>The element written goes behind the others; a full ring loses its oldest element.\<close>

lemma ring_list_add:
  assumes inv: "ring_inv b"
  shows "ring_list (snd (aesd_circular_buffer_add_entry b e)) = take_last 10 (ring_list b @ [e])"
    (is "?l = ?r")
proof (rule nth_equalityI)
  let ?n = "max_valid_entry b"
  note pr = add_entry_proj[OF inv] and le = max_valid_entry_le[OF inv]
  have ob: "out_offs b < 10" "length (entry b) = 10"
    using inv by (auto simp: ring_inv_def)
  have fulln: "full b \<longleftrightarrow> ?n = 10"
    using ob by (simp add: ring_simps order_less_imp_not_eq)
  show "length ?l = length ?r"
    by (simp add: length_ring_list max_valid_entry_add[OF inv])
  fix i assume "i < length ?l"
  then have i: "i < 10" "i \<le> ?n"
    by (auto simp: length_ring_list max_valid_entry_add[OF inv])
  have l: "?l ! i = (entry b)[in_offs b := e] !
      ((out_offs (snd (aesd_circular_buffer_add_entry b e)) + i) mod 10)"
    using i by (simp add: nth_ring_list max_valid_entry_add[OF inv] pr(1))
  show "?l ! i = ?r ! i"
  proof (cases "full b")
    case True
    then have n: "?n = 10" by (simp add: fulln)
    have ix: "(Suc (out_offs b) mod 10 + i) mod 10 = (out_offs b + Suc i) mod 10"
      by (simp add: mod_add_left_eq)
    have hit: "in_offs b = (out_offs b + Suc i) mod 10 \<longleftrightarrow> i = 9"
      using i ob(1) in_offs_eq[OF inv] unfolding n
      by (simp only: mod_wrap[OF ob(1), of "Suc i"]) (auto split: if_splits)
    have r: "?r ! i = (if i = 9 then e else entry b ! ((out_offs b + Suc i) mod 10))"
      using i by (simp add: take_last_def nth_append length_ring_list n nth_ring_list)
    have "in_offs b = out_offs b" using inv True by (simp add: ring_inv_def)
    then show ?thesis using hit by (simp add: l pr(3) True ix r ob nth_list_update)
  next
    case False
    then have n: "?n < 10" using le by (simp add: fulln)
    have hit: "in_offs b = (out_offs b + i) mod 10 \<longleftrightarrow> i = ?n"
      using i n ob(1) in_offs_eq[OF inv] by (auto simp: mod_wrap)
    have r: "?r ! i = (if i = ?n then e else entry b ! ((out_offs b + i) mod 10))"
      using i n by (simp add: take_last_def nth_append length_ring_list nth_ring_list)
    have "in_offs b < 10" using inv by (simp add: ring_inv_def)
    then have w: "(entry b)[in_offs b := e] ! ((out_offs b + i) mod 10) =
        (if in_offs b = (out_offs b + i) mod 10 then e else entry b ! ((out_offs b + i) mod 10))"
      using ob by (auto simp: nth_list_update)
    show ?thesis unfolding l pr(3) r using False hit w by simp
  qed
qed

text \<open>The search walks the held commands in order.\<close>

lemma find_entry_loop_locate:
  assumes inv: "ring_inv b"
  shows "ctr \<le> max_valid_entry b \<Longrightarrow>
    find_entry_loop b (max_valid_entry b) ctr ((out_offs b + ctr) mod 10) off =
    map_option (\<lambda>(k, i). ((out_offs b + ctr + k) mod 10, i))
      (locate (map entry_size (drop ctr (ring_list b))) off)"
proof (induction "max_valid_entry b - ctr" arbitrary: ctr off)
  case 0
  then have "ctr = max_valid_entry b" by simp
  then show ?case
    by (simp add: find_entry_loop.simps[of b _ "max_valid_entry b"] length_ring_list)
next
  case (Suc d)
  let ?x = "entry b ! ((out_offs b + ctr) mod 10)"
  have lt: "ctr < max_valid_entry b" using Suc.hyps(2) by simp
  have dr: "drop ctr (ring_list b) = ?x # drop (Suc ctr) (ring_list b)"
    using lt by (simp add: length_ring_list nth_ring_list flip: Cons_nth_drop_Suc)
  have ix: "((out_offs b + ctr) mod 10 + 1) mod 10 = (out_offs b + Suc ctr) mod 10"
    by (simp add: mod_add_left_eq mod_Suc_eq)
  have rest: "find_entry_loop b (max_valid_entry b) (Suc ctr) ((out_offs b + Suc ctr) mod 10)
      (off - entry_size ?x) =
    map_option (\<lambda>(k, i). ((out_offs b + Suc ctr + k) mod 10, i))
      (locate (map entry_size (drop (Suc ctr) (ring_list b))) (off - entry_size ?x))"
    using Suc.hyps(2) lt by (intro Suc.hyps(1)) auto
  show ?case
    using lt rest unfolding dr
    by (subst find_entry_loop.simps)
      (simp add: ring_simps(1) ix[simplified] option.map_comp comp_def split_def)
qed

lemma max_valid_entry_0: "ring_inv b \<Longrightarrow> \<not> full b \<Longrightarrow> in_offs b = out_offs b \<Longrightarrow> max_valid_entry b = 0"
  by (simp add: ring_simps)

lemma find_entry_offset_locate:
  assumes "ring_inv b"
  shows "aesd_circular_buffer_find_entry_offset_for_fpos b off =
    map_option (\<lambda>(k, i). ((out_offs b + k) mod 10, i)) (locate (map entry_size (ring_list b)) off)"
proof (cases "\<not> full b \<and> in_offs b = out_offs b")
  case True
  then have "ring_list b = []"
    using max_valid_entry_0[OF assms] length_ring_list[of b] by simp
  then show ?thesis
    using True by (simp add: aesd_circular_buffer_find_entry_offset_for_fpos_def)
next
  case False
  then show ?thesis
    using assms find_entry_loop_locate[OF assms, of 0 off]
    by (auto simp: aesd_circular_buffer_find_entry_offset_for_fpos_def ring_inv_def)
qed

text \<open>The element found, as the caller dereferences it.\<close>

definition find_entry :: "aesd_circular_buffer \<Rightarrow> nat \<Rightarrow> (aesd_buffer_entry \<times> nat) option" where
  "find_entry b off =
     map_option (\<lambda>(i, o'). (entry b ! i, o')) (aesd_circular_buffer_find_entry_offset_for_fpos b off)"

lemma find_entry_items:
  assumes "ring_inv b"
  shows "find_entry b off =
    map_option (\<lambda>(k, i). (ring_list b ! k, i)) (locate (map entry_size (ring_list b)) off)"
proof (cases "locate (map entry_size (ring_list b)) off")
  case None
  then show ?thesis by (simp add: find_entry_def find_entry_offset_locate[OF assms])
next
  case (Some p)
  then obtain k i where p: "locate (map entry_size (ring_list b)) off = Some (k, i)"
    by (cases p) auto
  then have "k < max_valid_entry b"
    using locate_Some[OF p] by (simp add: length_ring_list)
  then show ?thesis
    using p by (simp add: find_entry_def find_entry_offset_locate[OF assms] nth_ring_list)
qed

interpretation ring: entry_log aesd_circular_buffer_init
  "\<lambda>b e. snd (aesd_circular_buffer_add_entry b e)" find_entry ring_inv ring_list entry_size 10
proof (rule entry_log.intro, goal_cases)
  case (4 b e) then show ?case by (rule ring_inv_add)
next
  case (5 b e) then show ?case by (rule ring_list_add)
next
  case (6 b off) then show ?case by (rule find_entry_items)
qed simp_all

text \<open>The element overwritten by an addition is the oldest one of a full ring.\<close>

lemma add_entry_fst:
  "ring_inv b \<Longrightarrow> fst (aesd_circular_buffer_add_entry b e) =
    (if full b then buffptr (hd (ring_list b)) else None)"
  by (auto simp: aesd_circular_buffer_add_entry_def Let_def ring_inv_def ring_list_def ring_simps
      upt_conv_Cons)

lemma full_iff: "ring_inv b \<Longrightarrow> full b \<longleftrightarrow> length (ring_list b) = 10"
  by (auto simp: length_ring_list ring_simps ring_inv_def order_less_imp_not_eq)

text \<open>\<open>FOREACH\<close> over an empty ring of \<open>kfree\<close> candidates and the held elements.\<close>

lemma FOREACH_fold: "length (entry b) = 10 \<Longrightarrow> AESD_CIRCULAR_BUFFER_FOREACH f b s = fold f (entry b) s"
proof -
  assume "length (entry b) = 10"
  then have e: "entry b = map (\<lambda>i. entry b ! i) [0..<10]"
    by (metis map_nth)
  have "AESD_CIRCULAR_BUFFER_FOREACH f b s = fold f (map (\<lambda>i. entry b ! i) [0..<10]) s"
    by (simp add: AESD_CIRCULAR_BUFFER_FOREACH_def ring_simps fold_map comp_def del: upt_Suc)
  then show ?thesis unfolding e[symmetric] .
qed

subsection \<open>Slots that were never used\<close>

text \<open>
  The loops over all ten slots (\<open>FOREACH\<close> and the seek command of the driver) tell used from
  unused slots by their pointer: seen from \<open>out_offs\<close>, the slots are the commands held
  followed by null slots.
\<close>

abbreviation null_entry :: aesd_buffer_entry where
  "null_entry \<equiv> \<lparr>buffptr = None, entry_size = 0\<rparr>"

definition ring_clean :: "aesd_circular_buffer \<Rightarrow> bool" where
  "ring_clean b \<longleftrightarrow> (\<not> full b \<longrightarrow> out_offs b = 0 \<and>
     (\<forall>i \<in> {in_offs b..<10}. entry b ! i = null_entry))"

lemma ring_clean_init: "ring_clean aesd_circular_buffer_init"
  by (auto simp: ring_clean_def aesd_circular_buffer_init_def ring_simps)

lemma ring_clean_add:
  "ring_inv b \<Longrightarrow> ring_clean b \<Longrightarrow> ring_clean (snd (aesd_circular_buffer_add_entry b e))"
  by (auto simp: ring_clean_def add_entry_proj Suc_mod_wrap ring_inv_def nth_list_update
      split: if_splits)

lemma ring_view:
  assumes inv: "ring_inv b" and clean: "ring_clean b"
  shows "rotate (out_offs b) (entry b) =
    ring_list b @ replicate (10 - length (ring_list b)) null_entry"
proof (rule nth_equalityI)
  show "length (rotate (out_offs b) (entry b)) =
      length (ring_list b @ replicate (10 - length (ring_list b)) null_entry)"
    using max_valid_entry_le[OF inv] inv by (simp add: length_ring_list ring_inv_def)
  fix i assume "i < length (rotate (out_offs b) (entry b))"
  then have i: "i < 10" "length (entry b) = 10" using inv by (simp_all add: ring_inv_def)
  have l: "rotate (out_offs b) (entry b) ! i = entry b ! ((out_offs b + i) mod 10)"
    using i by (simp add: nth_rotate add.commute)
  show "rotate (out_offs b) (entry b) ! i =
      (ring_list b @ replicate (10 - length (ring_list b)) null_entry) ! i"
  proof (cases "i < max_valid_entry b")
    case True
    then show ?thesis by (simp add: l nth_append length_ring_list nth_ring_list)
  next
    case False
    then have "\<not> full b" using i by (auto simp: ring_simps)
    moreover from this have "in_offs b = max_valid_entry b" "out_offs b = 0"
      using clean inv by (simp_all add: ring_clean_def ring_inv_def ring_simps)
    ultimately show ?thesis
      using False i clean by (simp add: l nth_append length_ring_list ring_clean_def)
  qed
qed

lemma sum_list_rotate: "sum_list (map f (rotate n xs)) = (sum_list (map f xs) :: nat)"
proof -
  have "sum_list (map f xs) =
      sum_list (map f (take (n mod length xs) xs @ drop (n mod length xs) xs))"
    by simp
  then show ?thesis by (simp add: rotate_drop_take del: append_take_drop_id)
qed

lemma set_entry:
  assumes "ring_inv b" "ring_clean b"
  shows "set (entry b) \<subseteq> set (ring_list b) \<union> {null_entry}" "set (ring_list b) \<subseteq> set (entry b)"
proof -
  have "set (entry b) = set (rotate (out_offs b) (entry b))" by simp
  then show "set (entry b) \<subseteq> set (ring_list b) \<union> {null_entry}" "set (ring_list b) \<subseteq> set (entry b)"
    by (auto simp: ring_view[OF assms])
qed

subsection \<open>Properties\<close>

text \<open>C5. After any sequence of additions to an initialised ring, the ring holds exactly the
  last ten commands in the order of their writes, and its invariant holds.\<close>

theorem ring_keeps_last_ten:
  "ring_inv (foldl (\<lambda>b e. snd (aesd_circular_buffer_add_entry b e)) aesd_circular_buffer_init es) \<and>
   ring_list (foldl (\<lambda>b e. snd (aesd_circular_buffer_add_entry b e)) aesd_circular_buffer_init es) =
     take_last 10 es"
  using ring.items_log[of es] ring.inv_fold[OF ring_inv_init, of es] by simp

text \<open>C6. The search for a file position in a well-formed ring returns the ring index of the
  command that holds this byte of the concatenated commands and the offset in it, and NULL
  exactly for the positions beyond the data.\<close>

theorem find_entry_offset_correct:
  assumes "ring_inv b"
  shows "case aesd_circular_buffer_find_entry_offset_for_fpos b off of
      None \<Rightarrow> sum_list (map entry_size (ring_list b)) \<le> off
    | Some (idx, i) \<Rightarrow> \<exists>k < length (ring_list b). idx = (out_offs b + k) mod 10 \<and>
        entry b ! idx = ring_list b ! k \<and> i < entry_size (ring_list b ! k) \<and>
        off = sum_list (map entry_size (take k (ring_list b))) + i"
proof (cases "locate (map entry_size (ring_list b)) off")
  case None
  then have "sum_list (map entry_size (ring_list b)) \<le> off" by (simp add: locate_None)
  then show ?thesis by (simp add: find_entry_offset_locate[OF assms] None)
next
  case (Some p)
  then obtain k i where p: "locate (map entry_size (ring_list b)) off = Some (k, i)"
    by (cases p) auto
  have q: "aesd_circular_buffer_find_entry_offset_for_fpos b off = Some ((out_offs b + k) mod 10, i)"
    by (simp only: find_entry_offset_locate[OF assms] p option.map split)
  from locate_Some[OF p] show ?thesis
    unfolding q by (auto simp: length_ring_list nth_ring_list take_map)
qed

definition demo_ring :: aesd_circular_buffer where
  "demo_ring = foldl (\<lambda>b e. snd (aesd_circular_buffer_add_entry b e)) aesd_circular_buffer_init
     (map (\<lambda>k. \<lparr>buffptr = Some k, entry_size = k\<rparr>) [1..<13])"

lemma ring_inv_demo: "ring_inv demo_ring"
  unfolding demo_ring_def by (rule ring.inv_fold[OF ring_inv_init])

theorem find_entry_offset_correct_witness:
  "aesd_circular_buffer_find_entry_offset_for_fpos demo_ring 5 = Some (3, 2) \<and>
   (case aesd_circular_buffer_find_entry_offset_for_fpos demo_ring 5 of
      None \<Rightarrow> sum_list (map entry_size (ring_list demo_ring)) \<le> 5
    | Some (idx, i) \<Rightarrow> \<exists>k < length (ring_list demo_ring). idx = (out_offs demo_ring + k) mod 10 \<and>
        entry demo_ring ! idx = ring_list demo_ring ! k \<and> i < entry_size (ring_list demo_ring ! k) \<and>
        5 = sum_list (map entry_size (take k (ring_list demo_ring))) + i)"
proof
  show "aesd_circular_buffer_find_entry_offset_for_fpos demo_ring 5 = Some (3, 2)"
    by code_simp
qed (rule find_entry_offset_correct[OF ring_inv_demo])

end
