(* ===== verification/Aesd_Driver.thy ===== *)
theory Aesd_Driver
  imports Aesd_Circular_Buffer
begin

section \<open>The aesdchar driver\<close>

text \<open>
  \<open>aesd-char-driver/main.c\<close>, \<open>aesdchar.h\<close> and \<open>aesd_ioctl.h\<close>. The state is the device
  structure with the ring of commands and the partial command, and the heap of the blocks
  the module allocated. A handler gets the file position and returns the new one. A handler
  holds the mutex of the device from its first to its last access, so it is one step.
\<close>

subsection \<open>Data\<close>

record aesd_dev =
  buffer :: aesd_circular_buffer
  buffer_partial :: "nat option"
  size_partial :: nat

record aesd_state =
  aesd_device :: aesd_dev
  kheap :: heap

text \<open>\<open>AESD_IOC_MAGIC\<close>, \<open>AESDCHAR_IOCSEEKTO\<close> (the structure has two 32-bit members).\<close>

record aesd_seekto =
  write_cmd :: nat
  write_cmd_offset :: nat

definition AESD_IOC_MAGIC :: nat where
  "AESD_IOC_MAGIC = 0x16"

definition AESDCHAR_IOCSEEKTO :: nat where
  "AESDCHAR_IOCSEEKTO = iowr_cmd AESD_IOC_MAGIC 1 8"

definition AESDCHAR_IOC_MAXNR :: nat where
  "AESDCHAR_IOC_MAXNR = 1"

subsection \<open>Open, release and read\<close>

text \<open>\<open>filp->private_data\<close> after the call and the return value.\<close>

definition aesd_open :: "aesd_state \<Rightarrow> aesd_dev option \<times> int" where
  "aesd_open s = (Some (aesd_device s), 0)"

definition aesd_release :: "aesd_state \<Rightarrow> aesd_state \<times> int" where
  "aesd_release s = (s, 0)"

lemma find_offset_within:
  "find_entry_loop b m c idx off = Some (i, off') \<Longrightarrow> off' < entry_size (entry b ! i)"
proof (induction b m c idx off rule: find_entry_loop.induct)
  case (1 b m c idx off)
  show ?case
    using 1(2) by (subst (asm) find_entry_loop.simps) (auto split: if_splits dest: 1(1))
qed

text \<open>
  The copy loop. The search for the next element stands at the end of the loop body and
  before the loop in the code; here it is at the head of the loop. \<open>room\<close> is the number of
  bytes of the user's buffer that can be written; a copy that goes beyond it fails.
\<close>

function aesd_read_loop ::
  "aesd_dev \<Rightarrow> heap \<Rightarrow> nat \<Rightarrow> nat \<Rightarrow> int \<Rightarrow> nat \<Rightarrow> cell list \<Rightarrow> (int \<times> cell list outcome) option" where
  "aesd_read_loop dev h room count f_pos bytes_copied buf =
     (case aesd_circular_buffer_find_entry_offset_for_fpos (buffer dev) (nat (u64 f_pos)) of
        None \<Rightarrow> Some (f_pos, Ret buf)
      | Some (i, entry_offset) \<Rightarrow>
          if bytes_copied < count then
            (let e = entry (buffer dev) ! i;
                 bytes_available = entry_size e - entry_offset;
                 bytes_to_copy = min (count - bytes_copied) bytes_available
             in (case heap_load (buffptr e) entry_offset bytes_to_copy h of
                   None \<Rightarrow> None
                 | Some bytes \<Rightarrow>
                     if room < bytes_copied + bytes_to_copy then Some (f_pos, Fail EFAULT)
                     else aesd_read_loop dev h room count (s64 (f_pos + int bytes_to_copy))
                            (bytes_copied + bytes_to_copy) (buf @ bytes)))
          else Some (f_pos, Ret buf))"
  by pat_completeness auto
termination
proof (relation "measure (\<lambda>(dev, h, room, count, f, c, buf). count - c)", goal_cases)
  case (2 dev h room count f_pos c buf p i off e avail n bytes)
  have "off < entry_size e" using 2
    by (auto simp: aesd_circular_buffer_find_entry_offset_for_fpos_def split: if_splits
        dest: find_offset_within)
  moreover have "c < count" "n = min (count - c) (entry_size e - off)"
    using 2 by simp_all
  ultimately have "count - (c + n) < count - c" by linarith
  then show ?case by simp
qed simp

declare aesd_read_loop.simps [simp del]

text \<open>The new position and the bytes copied (the return value is their number).\<close>

definition aesd_read :: "nat \<Rightarrow> nat \<Rightarrow> aesd_state \<Rightarrow> int \<Rightarrow> (int \<times> cell list outcome) option" where
  "aesd_read room count s f_pos =
     (case aesd_circular_buffer_find_entry_offset_for_fpos (buffer (aesd_device s))
             (nat (u64 f_pos)) of
        None \<Rightarrow> Some (f_pos, Ret [])
      | Some _ \<Rightarrow> aesd_read_loop (aesd_device s) (kheap s) room count f_pos 0 [])"

subsection \<open>Write\<close>

fun found_newline :: "cell list \<Rightarrow> bool" where
  "found_newline [] = False"
| "found_newline (c # cs) = (if c = Some 10 then True else found_newline cs)"

text \<open>The old partial command goes to the front of the new block and is freed.\<close>

definition aesd_move_partial :: "aesd_dev \<Rightarrow> nat \<Rightarrow> heap \<Rightarrow> heap option" where
  "aesd_move_partial dev newbuf h =
     (case buffer_partial dev of
        None \<Rightarrow> Some h
      | Some p \<Rightarrow> do {
          old \<leftarrow> heap_load (Some p) 0 (size_partial dev) h;
          h' \<leftarrow> heap_store (Some newbuf) 0 old h;
          kfree (Some p) h' })"

text \<open>The partial command becomes the newest element of the ring.\<close>

definition aesd_finalize :: "aesd_state \<Rightarrow> aesd_state option" where
  "aesd_finalize s =
     (let dev = aesd_device s;
          e = \<lparr>buffptr = buffer_partial dev, entry_size = size_partial dev\<rparr>;
          (old_buff, b) = aesd_circular_buffer_add_entry (buffer dev) e
      in do {
        h \<leftarrow> kfree old_buff (kheap s);
        Some (s\<lparr>aesd_device := dev\<lparr>buffer := b, buffer_partial := None, size_partial := 0\<rparr>,
                kheap := h\<rparr>) })"

text \<open>
  \<open>src\<close> are the \<open>count\<close> bytes of the user, \<open>fault\<close> tells that they cannot be read.
\<close>

definition aesd_write ::
  "allocator \<Rightarrow> bool \<Rightarrow> byte list \<Rightarrow> aesd_state \<Rightarrow> int \<Rightarrow> (aesd_state \<times> int \<times> nat outcome) option" where
  "aesd_write alloc fault src s f_pos =
     (let count = length src; dev = aesd_device s in
      case alloc (kheap s) count of
        None \<Rightarrow> Some (s, f_pos, Fail ENOMEM)
      | Some kbuf \<Rightarrow>
         (let h1 = heap_new kbuf count (kheap s) in
          if fault then do {
            h2 \<leftarrow> kfree (Some kbuf) h1;
            Some (s\<lparr>kheap := h2\<rparr>, f_pos, Fail EFAULT) }
          else do {
            h2 \<leftarrow> heap_store (Some kbuf) 0 (map Some src) h1;
            bytes \<leftarrow> heap_load (Some kbuf) 0 count h2;
            (case alloc h2 (size_partial dev + count) of
               None \<Rightarrow> do {
                 h3 \<leftarrow> kfree (Some kbuf) h2;
                 Some (s\<lparr>kheap := h3\<rparr>, f_pos, Fail ENOMEM) }
             | Some newbuf \<Rightarrow> do {
                 h4 \<leftarrow> aesd_move_partial dev newbuf
                        (heap_new newbuf (size_partial dev + count) h2);
                 new \<leftarrow> heap_load (Some kbuf) 0 count h4;
                 h5 \<leftarrow> heap_store (Some newbuf) (size_partial dev) new h4;
                 h6 \<leftarrow> kfree (Some kbuf) h5;
                 s' \<leftarrow> (let s1 = s\<lparr>aesd_device := dev\<lparr>buffer_partial := Some newbuf,
                                  size_partial := size_partial dev + count\<rparr>, kheap := h6\<rparr>
                        in if found_newline bytes then aesd_finalize s1 else Some s1);
                 Some (s', s64 (f_pos + int count), Ret count) }) }))"

subsection \<open>Seeking\<close>

definition aesd_total_size :: "aesd_circular_buffer \<Rightarrow> nat" where
  "aesd_total_size b =
     AESD_CIRCULAR_BUFFER_FOREACH
       (\<lambda>e total_size. if buffptr e \<noteq> None then total_size + entry_size e else total_size) b 0"

text \<open>\<open>SEEK_SET\<close>, \<open>SEEK_CUR\<close> and \<open>SEEK_END\<close> are 0, 1 and 2.\<close>

definition aesd_llseek :: "aesd_state \<Rightarrow> int \<Rightarrow> int \<Rightarrow> int \<Rightarrow> int \<times> int outcome" where
  "aesd_llseek s f_pos offset whence =
     (let total_size = int (aesd_total_size (buffer (aesd_device s)));
          seek = (\<lambda>newpos.
            if newpos < 0 then (f_pos, Fail EINVAL)
            else (let p = (if total_size < newpos then s64 total_size else newpos)
                  in (p, Ret p)))
      in if whence = 0 then seek offset
         else if whence = 1 then seek (s64 (f_pos + offset))
         else if whence = 2 then seek (s64 (u64 (total_size + offset)))
         else (f_pos, Fail EINVAL))"

text \<open>The loop of the seek command: the index of the last element visited and the offset.\<close>

function aesd_seek_loop ::
  "aesd_circular_buffer \<Rightarrow> nat \<Rightarrow> nat \<Rightarrow> nat \<Rightarrow> nat \<Rightarrow> nat \<Rightarrow> nat \<times> nat" where
  "aesd_seek_loop b cmd_no i cur offset index =
     (if i < max_ops then
        (let cur' = (out_offs b + i) mod max_ops; e = entry b ! cur' in
         if buffptr e = None then aesd_seek_loop b cmd_no (Suc i) cur' offset index
         else if index = cmd_no then (cur', offset)
         else aesd_seek_loop b cmd_no (Suc i) cur' (offset + entry_size e) (index + 1))
      else (cur, offset))"
  by pat_completeness auto
termination
  by (relation "measure (\<lambda>(b, w, i, c, off, x). max_ops - i)") auto

declare aesd_seek_loop.simps [simp del]

text \<open>\<open>seekto\<close> is what the user passed, \<open>None\<close> when it cannot be read.\<close>

definition aesd_unlocked_ioctl ::
  "nat \<Rightarrow> aesd_seekto option \<Rightarrow> aesd_state \<Rightarrow> int \<Rightarrow> int \<times> int outcome" where
  "aesd_unlocked_ioctl cmd seekto s f_pos =
     (if ioc_type cmd \<noteq> AESD_IOC_MAGIC then (f_pos, Fail ENOTTY)
      else if AESDCHAR_IOC_MAXNR < ioc_nr cmd then (f_pos, Fail ENOTTY)
      else if cmd = AESDCHAR_IOCSEEKTO then
        (case seekto of
           None \<Rightarrow> (f_pos, Fail EFAULT)
         | Some st \<Rightarrow>
            (let b = buffer (aesd_device s);
                 (cur, offset) = aesd_seek_loop b (write_cmd st) 0 0 0 0;
                 e = entry b ! cur
             in if buffptr e = None then (f_pos, Fail EINVAL)
                else if entry_size e \<le> write_cmd_offset st then (f_pos, Fail EINVAL)
                else (s64 (int (offset + write_cmd_offset st)), Ret 0)))
      else (f_pos, Fail ENOTTY))"

subsection \<open>Loading and unloading the module\<close>

text \<open>What the module holds in the kernel besides its memory.\<close>

record aesd_module =
  dev_state :: aesd_state
  chrdev_region :: bool
  cdev_added :: bool

definition aesd_setup_cdev :: "int \<Rightarrow> aesd_module \<Rightarrow> aesd_module \<times> int" where
  "aesd_setup_cdev err m = (m\<lparr>cdev_added := (err = 0)\<rparr>, err)"

definition aesd_dev_zero :: aesd_dev where
  "aesd_dev_zero = \<lparr>buffer = aesd_circular_buffer_init, buffer_partial = None, size_partial = 0\<rparr>"

text \<open>\<open>result\<close> and \<open>err\<close> are the answers of \<open>alloc_chrdev_region\<close> and \<open>cdev_add\<close>.\<close>

definition aesd_init_module :: "int \<Rightarrow> int \<Rightarrow> aesd_module \<Rightarrow> aesd_module \<times> int" where
  "aesd_init_module result err m =
     (if result < 0 then (m, result)
      else
        (let m1 = m\<lparr>chrdev_region := True\<rparr>;
             m2 = m1\<lparr>dev_state := (dev_state m1)\<lparr>aesd_device := aesd_dev_zero\<rparr>\<rparr>;
             (m3, result) = aesd_setup_cdev err m2;
             m4 = (if result \<noteq> 0 then m3\<lparr>chrdev_region := False\<rparr> else m3);
             dev = aesd_device (dev_state m4)
         in (m4\<lparr>dev_state := (dev_state m4)\<lparr>aesd_device :=
               dev\<lparr>buffer := aesd_circular_buffer_init\<rparr>\<rparr>\<rparr>, result)))"

definition aesd_free_entries :: "aesd_circular_buffer \<Rightarrow> heap \<Rightarrow> heap option" where
  "aesd_free_entries b h =
     AESD_CIRCULAR_BUFFER_FOREACH (\<lambda>e r. do { h \<leftarrow> r; kfree (buffptr e) h }) b (Some h)"

definition aesd_cleanup_module :: "aesd_module \<Rightarrow> aesd_module option" where
  "aesd_cleanup_module m =
     (let s = dev_state m; dev = aesd_device s in do {
        h1 \<leftarrow> kfree (buffer_partial dev) (kheap s);
        h2 \<leftarrow> aesd_free_entries (buffer dev) h1;
        Some (m\<lparr>dev_state := s\<lparr>kheap := h2\<rparr>, chrdev_region := False, cdev_added := False\<rparr>) })"

end
