(* ===== verification/Aesd_Driver_Correct.thy ===== *)
theory Aesd_Driver_Correct
  imports Aesd_Driver
begin

section \<open>Correctness of the aesdchar driver\<close>

text \<open>
  The abstract device is the list of the commands held and the bytes of the command that is
  still open. \<open>aesd_rep\<close> relates it to ring and heap: the heap consists of exactly the
  blocks of the held commands and of the partial command, each owned once, so that the
  preservation of \<open>aesd_rep\<close> also excludes leaks, double frees and dangling pointers.
\<close>

subsection \<open>Abstract device\<close>

type_synonym log = "byte list list \<times> byte list"

definition log_write :: "byte list \<Rightarrow> log \<Rightarrow> log" where
  "log_write src l = (case l of (cmds, pend) \<Rightarrow>
     if 10 \<in> set src then (take_last 10 (cmds @ [pend @ src]), []) else (cmds, pend @ src))"

definition log_bytes :: "log \<Rightarrow> byte list" where
  "log_bytes l = concat (fst l)"

subsection \<open>Representation\<close>

definition holds :: "heap \<Rightarrow> aesd_buffer_entry \<Rightarrow> byte list \<Rightarrow> bool" where
  "holds h e d \<longleftrightarrow> (\<exists>a. buffptr e = Some a \<and> h a = Some (map Some d)) \<and>
     entry_size e = length d \<and> d \<noteq> []"

definition opt_list :: "'a option \<Rightarrow> 'a list" where
  "opt_list p = (case p of None \<Rightarrow> [] | Some a \<Rightarrow> [a])"

lemma opt_list_simps [simp]: "opt_list None = []" "opt_list (Some a) = [a]"
  by (simp_all add: opt_list_def)

definition ring_ptrs :: "aesd_circular_buffer \<Rightarrow> nat list" where
  "ring_ptrs b = map (the \<circ> buffptr) (ring_list b)"

definition partial_rep :: "heap \<Rightarrow> aesd_dev \<Rightarrow> byte list \<Rightarrow> bool" where
  "partial_rep h dev pend \<longleftrightarrow> size_partial dev = length pend \<and>
     (case buffer_partial dev of None \<Rightarrow> pend = [] | Some a \<Rightarrow> h a = Some (map Some pend))"

definition dev_rep :: "heap \<Rightarrow> aesd_dev \<Rightarrow> log \<Rightarrow> bool" where
  "dev_rep h dev l \<longleftrightarrow>
     ring_inv (buffer dev) \<and> ring_clean (buffer dev) \<and>
     list_all2 (holds h) (ring_list (buffer dev)) (fst l) \<and> partial_rep h dev (snd l) \<and>
     distinct (ring_ptrs (buffer dev) @ opt_list (buffer_partial dev)) \<and>
     dom h = set (ring_ptrs (buffer dev)) \<union> set (opt_list (buffer_partial dev))"

abbreviation aesd_rep :: "aesd_state \<Rightarrow> log \<Rightarrow> bool" where
  "aesd_rep s l \<equiv> dev_rep (kheap s) (aesd_device s) l"

lemma holds_cong: "h a = h' a \<Longrightarrow> buffptr e = Some a \<Longrightarrow> holds h e d = holds h' e d"
  by (simp add: holds_def)

lemma holds_list_cong:
  assumes "list_all2 (holds h) es ds" "\<And>a. a \<in> set (map (the \<circ> buffptr) es) \<Longrightarrow> h' a = h a"
  shows "list_all2 (holds h') es ds"
  using assms by (induction rule: list_all2_induct) (auto simp: holds_def)

lemma list_all2_take_last:
  "list_all2 P xs ys \<Longrightarrow> list_all2 P (take_last n xs) (take_last n ys)"
  by (metis list_all2_dropI list_all2_lengthD take_last_def)

lemma dev_rep_len: "dev_rep h dev l \<Longrightarrow> length (fst l) = length (ring_list (buffer dev))"
  by (auto simp: dev_rep_def dest: list_all2_lengthD)

lemma dev_rep_entry:
  assumes "dev_rep h dev l" "k < length (fst l)"
  obtains a where "buffptr (ring_list (buffer dev) ! k) = Some a"
    "h a = Some (map Some (fst l ! k))" "entry_size (ring_list (buffer dev) ! k) = length (fst l ! k)"
    "fst l ! k \<noteq> []"
  using assms dev_rep_len[OF assms(1)]
  by (auto simp: dev_rep_def list_all2_conv_all_nth holds_def)

lemma dev_rep_sizes: "dev_rep h dev l \<Longrightarrow> map entry_size (ring_list (buffer dev)) = map length (fst l)"
  by (auto simp: dev_rep_def list_all2_conv_all_nth holds_def intro!: nth_equalityI)

subsection \<open>Reading\<close>

lemma find_rep:
  assumes "dev_rep h dev l"
  shows "aesd_circular_buffer_find_entry_offset_for_fpos (buffer dev) off =
    map_option (\<lambda>(k, i). ((out_offs (buffer dev) + k) mod 10, i)) (locate (map length (fst l)) off)"
  using assms find_entry_offset_locate[of "buffer dev" off] dev_rep_sizes[OF assms]
  by (simp add: dev_rep_def)

lemma heap_load_sub:
  "p = Some a \<Longrightarrow> h a = Some (map Some d) \<Longrightarrow> off + n \<le> length d \<Longrightarrow>
    heap_load p off n h = Some (map Some (take n (drop off d)))"
  by (simp add: heap_load_def take_map drop_map)

text \<open>
  The loop delivers the concatenated bytes from the position on, as many as asked for; it
  fails when they do not all fit into the writable part of the user's buffer.
\<close>

lemma aesd_read_loop_ok:
  assumes rep: "dev_rep h dev l" and len: "length (log_bytes l) < 2 ^ 62"
  shows "c \<le> count \<Longrightarrow> c \<le> room \<Longrightarrow> 0 \<le> f \<Longrightarrow> f < 2 ^ 62 \<Longrightarrow>
    \<exists>f'. aesd_read_loop dev h room count f c buf =
    (let got = take (count - c) (drop (nat f) (log_bytes l))
     in if c + length got \<le> room then Some (f + int (length got), Ret (buf @ map Some got))
        else Some (f', Fail EFAULT))"
proof (induction "count - c" arbitrary: f c buf rule: less_induct)
  case less
  have u: "nat (u64 f) = nat f" using less.prems by simp
  show ?case
  proof (cases "locate (map length (fst l)) (nat f)")
    case None
    then have "length (log_bytes l) \<le> nat f"
      by (simp add: locate_None log_bytes_def length_concat)
    then show ?thesis using less.prems(2)
      by (simp add: aesd_read_loop.simps[of dev h room count f] u find_rep[OF rep] None)
  next
    case (Some p)
    then obtain k i where loc: "locate (map length (fst l)) (nat f) = Some (k, i)"
      by (cases p) auto
    let ?b = "buffer dev" and ?D = "drop (nat f) (log_bytes l)"
    have k: "k < length (fst l)" "i < length (fst l ! k)"
      using locate_Some[OF loc] by auto
    have find: "aesd_circular_buffer_find_entry_offset_for_fpos ?b (nat (u64 f)) =
        Some ((out_offs ?b + k) mod 10, i)"
      by (simp add: find_rep[OF rep] u loc)
    have e: "entry ?b ! ((out_offs ?b + k) mod 10) = ring_list ?b ! k"
      using k dev_rep_len[OF rep] by (simp add: length_ring_list nth_ring_list)
    obtain a where a: "buffptr (ring_list ?b ! k) = Some a"
      "h a = Some (map Some (fst l ! k))" "entry_size (ring_list ?b ! k) = length (fst l ! k)"
      using dev_rep_entry[OF rep k(1)] by metis
    obtain rest where D: "?D = drop i (fst l ! k) @ rest"
      using locate_drop[OF loc] by (auto simp: log_bytes_def)
    show ?thesis
    proof (cases "c < count")
      case False
      then show ?thesis using less.prems
        by (simp add: aesd_read_loop.simps[of dev h room count f] find[unfolded u])
    next
      case True
      let ?n = "min (count - c) (length (fst l ! k) - i)"
      have n: "0 < ?n" "c + ?n \<le> count" "i + ?n \<le> length (fst l ! k)"
        using True k by auto
      have "?n \<le> length ?D" using D by simp
      then have "nat f + ?n \<le> length (log_bytes l)"
        using n(1) unfolding length_drop by linarith
      then have f': "f + int ?n < 2 ^ 62" "s64 (f + int ?n) = f + int ?n"
        using less.prems(3) len by (simp_all del: of_nat_min)
      have load: "heap_load (buffptr (ring_list ?b ! k)) i ?n h = Some (map Some (take ?n ?D))"
        using heap_load_sub[where h = h, OF a(1,2) n(3)] by (simp add: D)
      have dn: "drop (nat (f + int ?n)) (log_bytes l) = drop ?n ?D"
        using less.prems(3) by (simp add: nat_add_distrib add.commute del: of_nat_min)
      have tn: "length (take ?n ?D) = ?n"
        using \<open>?n \<le> length ?D\<close> by (simp only: length_take min_absorb2)
      have tk: "take (count - c) ?D = take ?n ?D @ take (count - (c + ?n)) (drop ?n ?D)"
        using n(2) by (simp flip: take_add del: drop_drop)
      show ?thesis
      proof (cases "c + ?n \<le> room")
        case fits: True
        obtain f' where IH: "aesd_read_loop dev h room count (f + int ?n) (c + ?n) (buf @ map Some (take ?n ?D)) =
            (let got = take (count - (c + ?n)) (drop (nat (f + int ?n)) (log_bytes l))
             in if c + ?n + length got \<le> room
                then Some (f + int ?n + int (length got), Ret ((buf @ map Some (take ?n ?D)) @ map Some got))
                else Some (f', Fail EFAULT))"
        proof -
          have "count - (c + ?n) < count - c" "0 \<le> f + int ?n" using less.prems n by linarith+
          from less.hyps[OF this(1) n(2) fits this(2) f'(1)] show ?thesis using that by blast
        qed
        have "\<not> room < c + ?n" using fits by linarith
        then have nr: "(room < c + ?n) = False" by blast
        have step: "aesd_read_loop dev h room count f c buf =
            aesd_read_loop dev h room count (f + int ?n) (c + ?n) (buf @ map Some (take ?n ?D))"
          using True f'
          by (subst aesd_read_loop.simps)
            (simp only: find option.case prod.case Let_def e a(3) load if_True if_False nr)
        show ?thesis
          unfolding step IH dn tk
          by (intro exI[of _ f'])
            (simp only: Let_def length_append tn of_nat_add map_append append_assoc add.assoc)
      next
        case False
        have "aesd_read_loop dev h room count f c buf = Some (f, Fail EFAULT)"
          using True False
          by (subst aesd_read_loop.simps)
            (simp only: find option.case prod.case Let_def e a(3) load if_True not_le)
        moreover have "\<not> c + length (take (count - c) ?D) \<le> room"
          using False unfolding tk length_append tn by linarith
        ultimately show ?thesis by (simp only: Let_def if_False option.inject prod.inject simp_thms ex_simps)
      qed
    qed
  qed
qed

lemma aesd_read_full:
  assumes rep: "aesd_rep s l" and len: "length (log_bytes l) < 2 ^ 62"
    and pre: "0 \<le> f" "f < 2 ^ 62"
  shows "\<exists>f'. aesd_read room count s f =
    (let got = take count (drop (nat f) (log_bytes l))
     in if length got \<le> room then Some (f + int (length got), Ret (map Some got))
        else Some (f', Fail EFAULT))"
proof -
  let ?dev = "aesd_device s"
  have u: "nat (u64 f) = nat f" using pre by simp
  show ?thesis
  proof (cases "aesd_circular_buffer_find_entry_offset_for_fpos (buffer ?dev) (nat f)")
    case None
    then have "locate (map length (fst l)) (nat f) = None"
      by (simp add: find_rep[OF rep])
    then have "length (log_bytes l) \<le> nat f"
      by (simp add: locate_None log_bytes_def length_concat)
    then show ?thesis by (simp add: aesd_read_def u None)
  next
    case (Some p)
    then have "aesd_read room count s f = aesd_read_loop ?dev (kheap s) room count f 0 []"
      by (simp add: aesd_read_def u)
    then show ?thesis
      using aesd_read_loop_ok[OF rep len, of 0 count room f "[]"] pre
      by (simp only: diff_zero add_0 append_Nil zero_le simp_thms)
  qed
qed

lemma aesd_read_ok:
  assumes "aesd_rep s l" "length (log_bytes l) < 2 ^ 62" "count \<le> room" "0 \<le> f" "f < 2 ^ 62"
  shows "aesd_read room count s f =
    (let got = take count (drop (nat f) (log_bytes l))
     in Some (f + int (length got), Ret (map Some got)))"
proof -
  have "length (take count (drop (nat f) (log_bytes l))) \<le> room" using assms(3) by simp
  then show ?thesis using aesd_read_full[OF assms(1,2,4,5), of room count] by (simp only: Let_def if_True) blast
qed

text \<open>A faulting user buffer stops the copy; the device is not an argument of the result.\<close>

lemma aesd_read_loop_safe:
  assumes rep: "dev_rep h dev l"
  shows "\<exists>r. aesd_read_loop dev h room count f c buf = Some r"
proof (induction "count - c" arbitrary: f c buf rule: less_induct)
  case less
  let ?b = "buffer dev" and ?off = "nat (u64 f)"
  show ?case
  proof (cases "locate (map length (fst l)) ?off")
    case None
    then show ?thesis by (simp add: aesd_read_loop.simps[of dev h room count f] find_rep[OF rep])
  next
    case (Some p)
    then obtain k i where loc: "locate (map length (fst l)) ?off = Some (k, i)"
      by (cases p) auto
    have k: "k < length (fst l)" "i < length (fst l ! k)"
      using locate_Some[OF loc] by auto
    have find: "aesd_circular_buffer_find_entry_offset_for_fpos ?b ?off =
        Some ((out_offs ?b + k) mod 10, i)"
      by (simp add: find_rep[OF rep] loc)
    have e: "entry ?b ! ((out_offs ?b + k) mod 10) = ring_list ?b ! k"
      using k dev_rep_len[OF rep] by (simp add: length_ring_list nth_ring_list)
    obtain a where a: "buffptr (ring_list ?b ! k) = Some a"
      "h a = Some (map Some (fst l ! k))" "entry_size (ring_list ?b ! k) = length (fst l ! k)"
      using dev_rep_entry[OF rep k(1)] by metis
    let ?n = "min (count - c) (length (fst l ! k) - i)"
    have "i + ?n \<le> length (fst l ! k)" using k by auto
    then have load: "heap_load (buffptr (ring_list ?b ! k)) i ?n h =
        Some (map Some (take ?n (drop i (fst l ! k))))"
      by (rule heap_load_sub[where h = h, OF a(1,2)])
    show ?thesis
    proof (cases "c < count \<and> c + ?n \<le> room")
      case True
      then have "count - (c + ?n) < count - c" using k(2) by linarith
      from less.hyps[OF this, of "s64 (f + int ?n)" "buf @ map Some (take ?n (drop i (fst l ! k)))"]
      obtain r where "aesd_read_loop dev h room count (s64 (f + int ?n)) (c + ?n)
          (buf @ map Some (take ?n (drop i (fst l ! k)))) = Some r" by blast
      moreover have "(room < c + ?n) = False" using True by (simp del: of_nat_min)
      ultimately show ?thesis using True
        by (subst aesd_read_loop.simps)
          (simp only: find option.case prod.case Let_def e a(3) load if_True if_False
            option.inject ex_simps simp_thms)
    next
      case False
      then show ?thesis
        by (subst aesd_read_loop.simps)
          (auto simp: find e a(3) load Let_def simp del: of_nat_min)
    qed
  qed
qed

subsection \<open>Writing\<close>

lemma found_newline_iff: "found_newline (map Some bs) \<longleftrightarrow> 10 \<in> set bs"
  by (induction bs) auto

definition drop_ptr :: "nat option \<Rightarrow> heap \<Rightarrow> heap" where
  "drop_ptr p h = (case p of None \<Rightarrow> h | Some a \<Rightarrow> h(a := None))"

lemma kfree_drop_ptr: "set (opt_list p) \<subseteq> dom h \<Longrightarrow> kfree p h = Some (drop_ptr p h)"
  by (auto simp: kfree_def drop_ptr_def split: option.splits)

lemma dom_drop_ptr [simp]: "dom (drop_ptr p h) = dom h - set (opt_list p)"
  by (auto simp: drop_ptr_def split: option.splits if_splits)

lemma drop_ptr_other [simp]: "p \<noteq> Some a \<Longrightarrow> drop_ptr p h a = h a"
  by (auto simp: drop_ptr_def split: option.splits)

lemma move_partial_ok:
  assumes rep: "partial_rep h dev pend" and fresh: "h newbuf = None"
  shows "aesd_move_partial dev newbuf (heap_new newbuf (length pend + n) h) =
    Some ((drop_ptr (buffer_partial dev) h)(newbuf \<mapsto> map Some pend @ replicate n None))"
proof (cases "buffer_partial dev")
  case None
  then show ?thesis using rep
    by (simp add: aesd_move_partial_def partial_rep_def heap_new_def drop_ptr_def)
next
  case (Some p)
  then have p: "h p = Some (map Some pend)" "size_partial dev = length pend" "p \<noteq> newbuf"
    using rep fresh by (auto simp: partial_rep_def)
  have "mem_write 0 (map Some pend) (replicate (length pend + n) None) =
      map Some pend @ replicate n None"
    by (simp add: mem_write_def)
  with p Some show ?thesis
    by (simp add: aesd_move_partial_def heap_new_def heap_load_def heap_store_def kfree_def
        drop_ptr_def fun_upd_twist)
qed

text \<open>The steps of a write up to the release of its copy of the user's data.\<close>

lemma append_steps:
  assumes rep: "dev_rep h dev (cmds, pend)" and kb: "h kbuf = None"
    and h2: "h2 = h(kbuf \<mapsto> map Some src)" and nb: "h2 newbuf = None"
    and h4: "h4 = (drop_ptr (buffer_partial dev) h2)
               (newbuf \<mapsto> map Some pend @ replicate (length src) None)"
  shows "heap_load (Some kbuf) 0 (length src) h4 = Some (map Some src)"
    and "heap_store (Some newbuf) (length pend) (map Some src) h4 =
      Some ((drop_ptr (buffer_partial dev) h2)(newbuf \<mapsto> map Some (pend @ src)))"
    and "kfree (Some kbuf) ((drop_ptr (buffer_partial dev) h2)(newbuf \<mapsto> map Some (pend @ src))) =
      Some ((drop_ptr (buffer_partial dev) h)(newbuf \<mapsto> map Some (pend @ src)))"
proof -
  have ne: "kbuf \<noteq> newbuf" using nb h2 by auto
  have pk: "buffer_partial dev \<noteq> Some kbuf"
    using rep kb by (auto simp: dev_rep_def partial_rep_def)
  then have h4k: "h4 kbuf = Some (map Some src)"
    using ne by (simp add: h4 h2)
  then show "heap_load (Some kbuf) 0 (length src) h4 = Some (map Some src)"
    by (simp add: heap_load_def)
  show "heap_store (Some newbuf) (length pend) (map Some src) h4 =
      Some ((drop_ptr (buffer_partial dev) h2)(newbuf \<mapsto> map Some (pend @ src)))"
    by (simp add: heap_store_def h4 mem_write_def)
  have "(drop_ptr (buffer_partial dev) h2)(kbuf := None) = drop_ptr (buffer_partial dev) h"
    using pk kb by (auto simp: h2 drop_ptr_def fun_eq_iff split: option.splits)
  then show "kfree (Some kbuf) ((drop_ptr (buffer_partial dev) h2)(newbuf \<mapsto> map Some (pend @ src))) =
      Some ((drop_ptr (buffer_partial dev) h)(newbuf \<mapsto> map Some (pend @ src)))"
    using ne h4k by (simp add: kfree_def h4 fun_upd_twist)
qed

lemma append_rep:
  assumes rep: "dev_rep h dev (cmds, pend)" and nb: "h newbuf = None"
  shows "dev_rep ((drop_ptr (buffer_partial dev) h)(newbuf \<mapsto> map Some (pend @ src)))
    (dev\<lparr>buffer_partial := Some newbuf, size_partial := length pend + length src\<rparr>)
    (cmds, pend @ src)"
proof -
  let ?h = "(drop_ptr (buffer_partial dev) h)(newbuf \<mapsto> map Some (pend @ src))"
  have dom: "dom h = set (ring_ptrs (buffer dev)) \<union> set (opt_list (buffer_partial dev))"
    and dis: "distinct (ring_ptrs (buffer dev) @ opt_list (buffer_partial dev))"
    using rep by (auto simp: dev_rep_def)
  have nn: "newbuf \<notin> set (ring_ptrs (buffer dev))"
    using dom nb by blast
  have "list_all2 (holds ?h) (ring_list (buffer dev)) cmds"
  proof (rule holds_list_cong)
    show "list_all2 (holds h) (ring_list (buffer dev)) cmds" using rep by (simp add: dev_rep_def)
    fix a assume "a \<in> set (map (the \<circ> buffptr) (ring_list (buffer dev)))"
    then have "a \<in> set (ring_ptrs (buffer dev))" by (simp add: ring_ptrs_def)
    moreover from this have "buffer_partial dev \<noteq> Some a" using dis by auto
    ultimately show "?h a = h a" using nn by auto
  qed
  then show ?thesis
    using rep nn dom dis by (auto simp: dev_rep_def partial_rep_def)
qed

text \<open>The partial command moves into the ring.\<close>

lemma finalize_rep:
  assumes rep: "aesd_rep s (cmds, pend)" and pend: "pend \<noteq> []"
    and part: "buffer_partial (aesd_device s) = Some a"
  shows "\<exists>s'. aesd_finalize s = Some s' \<and> aesd_rep s' (take_last 10 (cmds @ [pend]), [])"
proof -
  let ?dev = "aesd_device s" and ?h = "kheap s"
  let ?b = "buffer ?dev" and ?e = "\<lparr>buffptr = buffer_partial ?dev, entry_size = size_partial ?dev\<rparr>"
  have inv: "ring_inv ?b" and clean: "ring_clean ?b"
    and all2: "list_all2 (holds ?h) (ring_list ?b) cmds"
    and dis: "distinct (ring_ptrs ?b @ [a])" and dom: "dom ?h = set (ring_ptrs ?b @ [a])"
    and pa: "?h a = Some (map Some pend)" "size_partial ?dev = length pend"
    using rep part by (auto simp: dev_rep_def partial_rep_def)
  let ?old = "fst (aesd_circular_buffer_add_entry ?b ?e)"
    and ?b' = "snd (aesd_circular_buffer_add_entry ?b ?e)"
  let ?h' = "drop_ptr ?old ?h"
  have list': "ring_list ?b' = take_last 10 (ring_list ?b @ [?e])"
    by (rule ring_list_add[OF inv])
  have ptrs': "ring_ptrs ?b' = take_last 10 (ring_ptrs ?b @ [a])"
    unfolding ring_ptrs_def list' map_take_last by (simp add: part)
  have le: "length (ring_list ?b) \<le> 10"
    using max_valid_entry_le[OF inv] by (simp add: length_ring_list)
  have old: "set (opt_list ?old) \<subseteq> dom ?h \<and>
      dom ?h - set (opt_list ?old) = set (ring_ptrs ?b') \<and> distinct (ring_ptrs ?b') \<and>
      set (ring_ptrs ?b') \<inter> set (opt_list ?old) = {}"
  proof (cases "full ?b")
    case True
    then have len: "length (ring_list ?b) = 10" using full_iff[OF inv] by simp
    then obtain x xs where rl: "ring_list ?b = x # xs" by (cases "ring_list ?b") auto
    then obtain px where px: "buffptr x = Some px"
      using all2 by (auto simp: list_all2_Cons1 holds_def)
    have "ring_ptrs ?b = px # map (the \<circ> buffptr) xs"
      by (simp add: ring_ptrs_def rl px)
    moreover have "?old = Some px" by (simp add: add_entry_fst[OF inv] True rl px)
    moreover have "ring_ptrs ?b' = map (the \<circ> buffptr) xs @ [a]"
      using len by (subst ptrs') (simp add: ring_ptrs_def rl take_last_def px)
    ultimately show ?thesis using dis dom by auto
  next
    case False
    then have "length (ring_list ?b) < 10" using full_iff[OF inv] le by linarith
    then have "ring_ptrs ?b' = ring_ptrs ?b @ [a]"
      by (subst ptrs') (simp add: ring_ptrs_def)
    then show ?thesis using dis dom False by (simp add: add_entry_fst[OF inv])
  qed
  have "list_all2 (holds ?h) (ring_list ?b') (take_last 10 (cmds @ [pend]))"
    unfolding list' using all2 pend pa part
    by (intro list_all2_take_last list_all2_appendI) (auto simp: holds_def)
  then have "list_all2 (holds ?h') (ring_list ?b') (take_last 10 (cmds @ [pend]))"
  proof (rule holds_list_cong)
    fix c assume "c \<in> set (map (the \<circ> buffptr) (ring_list ?b'))"
    then have "c \<in> set (ring_ptrs ?b')" by (simp add: ring_ptrs_def)
    with old have "?old \<noteq> Some c" by auto
    then show "?h' c = ?h c" by simp
  qed
  moreover have "aesd_finalize s = Some (s\<lparr>aesd_device := ?dev\<lparr>buffer := ?b', buffer_partial := None,
      size_partial := 0\<rparr>, kheap := ?h'\<rparr>)"
    using old by (simp add: aesd_finalize_def Let_def split_def kfree_drop_ptr)
  moreover have "ring_inv ?b'" "ring_clean ?b'"
    using inv clean by (simp_all add: ring_inv_add ring_clean_add)
  ultimately show ?thesis
    using old by (auto simp: dev_rep_def partial_rep_def)
qed

text \<open>Every outcome of a write, with the allocator and the user's memory as they come.\<close>

lemma heap_free_new:
  "h a = None \<Longrightarrow> kfree (Some a) (h(a \<mapsto> x)) = Some h"
  by (auto simp: kfree_def)

lemma heap_fill_new: "heap_store (Some a) 0 (map Some src) (heap_new a (length src) h) =
    Some (h(a \<mapsto> map Some src))"
  by (simp add: heap_store_def heap_new_def mem_write_def)

lemma kfree_heap_new: "h a = None \<Longrightarrow> kfree (Some a) (heap_new a n h) = Some h"
  by (auto simp: kfree_def heap_new_def)

lemma heap_load_all:
  "heap_load (Some a) 0 (length src) (h(a \<mapsto> map Some src)) = Some (map Some src)"
  by (simp add: heap_load_def)

definition write_fails :: "allocator \<Rightarrow> bool \<Rightarrow> byte list \<Rightarrow> aesd_state \<Rightarrow> errno option" where
  "write_fails alloc fault src s =
     (case alloc (kheap s) (length src) of
        None \<Rightarrow> Some ENOMEM
      | Some k \<Rightarrow>
          if fault then Some EFAULT
          else if alloc ((kheap s)(k \<mapsto> map Some src)) (size_partial (aesd_device s) + length src) = None
          then Some ENOMEM else None)"

lemma aesd_write_cases:
  assumes rep: "aesd_rep s l" and alloc: "fresh_alloc alloc"
  shows "case write_fails alloc fault src s of
      Some err \<Rightarrow> aesd_write alloc fault src s f = Some (s, f, Fail err)
    | None \<Rightarrow> (\<exists>s'. aesd_write alloc fault src s f = Some (s', s64 (f + int (length src)), Ret (length src))
        \<and> aesd_rep s' (log_write src l))"
proof (cases "alloc (kheap s) (length src)")
  case None
  then show ?thesis by (simp add: write_fails_def aesd_write_def Let_def)
next
  case (Some k)
  obtain cmds pend where l: "l = (cmds, pend)" by (cases l)
  let ?h = "kheap s" and ?dev = "aesd_device s"
  define h2 where h2: "h2 = ?h(k \<mapsto> map Some src)"
  have k: "?h k = None" using alloc Some by (auto simp: fresh_alloc_def)
  have sz: "size_partial ?dev = length pend" using rep l by (simp add: dev_rep_def partial_rep_def)
  show ?thesis
  proof (cases "fault \<or> alloc h2 (size_partial ?dev + length src) = None")
    case True
    then show ?thesis using k
      by (auto simp: h2 write_fails_def aesd_write_def Let_def Some heap_fill_new heap_load_all
          heap_free_new kfree_heap_new split: option.splits)
  next
    case False
    then obtain n where n: "alloc h2 (length pend + length src) = Some n" and nf: "\<not> fault"
      by (auto simp: sz)
    have nb: "h2 n = None" using alloc n unfolding fresh_alloc_def by blast
    then have hn: "?h n = None" by (auto simp: h2 split: if_splits)
    have pr: "partial_rep h2 ?dev pend"
      using rep l k by (auto simp: h2 dev_rep_def partial_rep_def split: option.splits)
    let ?h6 = "(drop_ptr (buffer_partial ?dev) ?h)(n \<mapsto> map Some (pend @ src))"
    let ?s1 = "s\<lparr>aesd_device := ?dev\<lparr>buffer_partial := Some n, size_partial := length pend + length src\<rparr>,
      kheap := ?h6\<rparr>"
    note steps = append_steps[OF rep[unfolded l] k h2 nb refl, unfolded map_append]
    have ld: "heap_load (Some k) 0 (length src) h2 = Some (map Some src)"
      by (simp add: h2 heap_load_all)
    have st: "heap_store (Some k) 0 (map Some src) (heap_new k (length src) ?h) = Some h2"
      by (simp add: h2 heap_fill_new)
    have body: "aesd_write alloc fault src s f =
        (do { s' \<leftarrow> (if 10 \<in> set src then aesd_finalize ?s1 else Some ?s1);
              Some (s', s64 (f + int (length src)), Ret (length src)) })"
      using nf
      by (simp add: move_partial_ok[OF pr nb, of "length src"] steps aesd_write_def Let_def Some st ld n sz found_newline_iff cong: if_cong)
    have r1: "aesd_rep ?s1 (cmds, pend @ src)"
      using append_rep[OF rep[unfolded l] hn] by simp
    have "write_fails alloc fault src s = None"
      using Some nf n sz by (simp add: write_fails_def flip: h2)
    moreover have "10 \<in> set src \<Longrightarrow> \<exists>s'. aesd_finalize ?s1 = Some s' \<and>
        aesd_rep s' (take_last 10 (cmds @ [pend @ src]), [])"
      by (rule finalize_rep[OF r1]) auto
    ultimately show ?thesis
      using r1 unfolding body l log_write_def by auto
  qed
qed

subsection \<open>Seeking\<close>

lemma fold_total:
  "(\<And>e. e \<in> set es \<Longrightarrow> buffptr e = None \<Longrightarrow> entry_size e = 0) \<Longrightarrow>
    fold (\<lambda>e t. if buffptr e \<noteq> None then t + entry_size e else t) es t =
    t + sum_list (map entry_size es)"
proof (induction es arbitrary: t)
  case (Cons e es)
  then have "buffptr e = None \<Longrightarrow> entry_size e = 0" by simp
  with Cons show ?case by simp
qed simp

lemma dev_rep_nonnull: "dev_rep h dev l \<Longrightarrow> e \<in> set (ring_list (buffer dev)) \<Longrightarrow> buffptr e \<noteq> None"
  by (auto simp: dev_rep_def list_all2_conv_all_nth in_set_conv_nth holds_def)

lemma total_size_ok:
  assumes rep: "dev_rep h dev l"
  shows "aesd_total_size (buffer dev) = length (log_bytes l)"
proof -
  let ?b = "buffer dev"
  have inv: "ring_inv ?b" "ring_clean ?b" using rep by (simp_all add: dev_rep_def)
  have "aesd_total_size ?b =
      fold (\<lambda>e t. if buffptr e \<noteq> None then t + entry_size e else t) (entry ?b) 0"
    using inv by (simp add: aesd_total_size_def FOREACH_fold ring_inv_def)
  also have "\<dots> = sum_list (map entry_size (entry ?b))"
  proof (subst fold_total)
    fix e assume "e \<in> set (entry ?b)" "buffptr e = None"
    then have "e = null_entry" using set_entry(1)[OF inv] dev_rep_nonnull[OF rep] by blast
    then show "entry_size e = 0" by simp
  qed simp
  also have "\<dots> = sum_list (map entry_size (rotate (out_offs ?b) (entry ?b)))"
    by (simp add: sum_list_rotate)
  also have "\<dots> = sum_list (map entry_size (ring_list ?b))"
    by (simp add: ring_view[OF inv] sum_list_replicate)
  finally show ?thesis
    by (simp add: dev_rep_sizes[OF rep] log_bytes_def length_concat)
qed

text \<open>The entry met by the loop at step \<open>i\<close>.\<close>

lemma slot_view:
  assumes "ring_inv b" "ring_clean b" "i < 10"
  shows "entry b ! ((out_offs b + i) mod 10) =
    (if i < length (ring_list b) then ring_list b ! i else null_entry)"
proof -
  have "entry b ! ((out_offs b + i) mod 10) = rotate (out_offs b) (entry b) ! i"
    using assms by (simp add: nth_rotate ring_inv_def add.commute)
  then show ?thesis
    using assms max_valid_entry_le[OF assms(1)]
    by (simp add: ring_view nth_append length_ring_list)
qed

lemma seek_loop_ok:
  assumes rep: "dev_rep h dev l"
  defines "b \<equiv> buffer dev" and "n \<equiv> length (fst l)"
  shows "i \<le> 10 \<Longrightarrow> min i n \<le> w \<Longrightarrow> (i = 10 \<longrightarrow> cur = (out_offs b + 9) mod 10) \<Longrightarrow>
    aesd_seek_loop b w i cur (length (concat (take i (fst l)))) (min i n) =
    (if w < n then ((out_offs b + w) mod 10, length (concat (take w (fst l))))
     else ((out_offs b + 9) mod 10, length (log_bytes l)))"
proof (induction "10 - i" arbitrary: i cur)
  case 0
  then have i: "i = 10" by simp
  have "n \<le> 10"
    using rep dev_rep_len[OF rep] max_valid_entry_le[of b]
    by (simp add: dev_rep_def b_def n_def length_ring_list)
  then have "\<not> w < n" using 0 i by simp
  then show ?case
    using \<open>n \<le> 10\<close> i 0 by (simp add: aesd_seek_loop.simps[of b w 10] ring_simps log_bytes_def n_def)
next
  case (Suc d)
  let ?cur = "(out_offs b + i) mod 10" and ?off = "length (concat (take i (fst l)))"
  have i: "i < 10" using Suc by simp
  have inv: "ring_inv b" "ring_clean b" using rep by (simp_all add: dev_rep_def b_def)
  have nl: "n = length (ring_list b)" using dev_rep_len[OF rep] by (simp add: n_def b_def)
  have cur': "Suc i = 10 \<longrightarrow> ?cur = (out_offs b + 9) mod 10" by auto
  show ?case
  proof (cases "i < n")
    case False
    then have e: "entry b ! ?cur = null_entry" using slot_view[OF inv i] nl by simp
    have st: "take (Suc i) (fst l) = take i (fst l)" "min (Suc i) n = min i n"
      using False by (simp_all add: n_def)
    have "aesd_seek_loop b w i cur ?off (min i n) = aesd_seek_loop b w (Suc i) ?cur ?off (min i n)"
      using i e by (subst aesd_seek_loop.simps) (simp add: ring_simps)
    then show ?thesis
      using Suc.hyps(1)[of "Suc i" ?cur] Suc.hyps(2) Suc.prems cur' i st by simp
  next
    case True
    then have e: "entry b ! ?cur = ring_list b ! i" using slot_view[OF inv i] nl by simp
    obtain a where a: "buffptr (ring_list b ! i) = Some a"
      "entry_size (ring_list b ! i) = length (fst l ! i)"
      using dev_rep_entry[OF rep] True unfolding n_def b_def by metis
    have st: "take (Suc i) (fst l) = take i (fst l) @ [fst l ! i]" "min (Suc i) n = Suc i"
      "min i n = i"
      using True by (simp_all add: n_def take_Suc_conv_app_nth)
    show ?thesis
    proof (cases "i = w")
      case eq: True
      then show ?thesis using i e a True st
        by (subst aesd_seek_loop.simps) (simp add: ring_simps)
    next
      case ne: False
      then have "aesd_seek_loop b w i cur ?off (min i n) =
          aesd_seek_loop b w (Suc i) ?cur (?off + length (fst l ! i)) (Suc i)"
        using i e a st by (subst aesd_seek_loop.simps) (simp add: ring_simps)
      then show ?thesis
        using Suc.hyps(1)[of "Suc i" ?cur] Suc.hyps(2) Suc.prems cur' i st ne by simp
    qed
  qed
qed

lemma llseek_ok:
  assumes rep: "aesd_rep s l" and len: "length (log_bytes l) < 2 ^ 62"
    and f: "0 \<le> f" "f < 2 ^ 62" and off: "- (2 ^ 62) < off" "off < 2 ^ 62"
  shows "aesd_llseek s f off whence =
    (if whence \<in> {0, 1, 2} then
       let target = (if whence = 0 then off else if whence = 1 then f + off
                     else int (length (log_bytes l)) + off)
       in if target < 0 then (f, Fail EINVAL)
          else (min target (int (length (log_bytes l))), Ret (min target (int (length (log_bytes l)))))
     else (f, Fail EINVAL))"
proof -
  let ?L = "int (length (log_bytes l))"
  have L: "0 \<le> ?L" "?L < 2 ^ 62" using len by simp_all
  have e: "s64 (u64 (?L + off)) = ?L + off" using L off by (simp del: of_nat_less_iff)
  have c: "s64 (f + off) = f + off" "s64 ?L = ?L" using f off L by (auto simp del: of_nat_less_iff)
  show ?thesis
    unfolding aesd_llseek_def total_size_ok[OF rep] Let_def c e by (simp add: min_def)
qed

text \<open>The seek command, the case of a full ring and a command number beyond it included.\<close>

definition seek_accepted :: "byte list list \<Rightarrow> nat \<Rightarrow> nat \<Rightarrow> bool" where
  "seek_accepted cmds w off \<longleftrightarrow> w < length cmds \<and> off < length (cmds ! w)"

lemma ioctl_ok:
  assumes rep: "aesd_rep s l"
    and cmd: "cmd = AESDCHAR_IOCSEEKTO"
    and len: "length (log_bytes l) < 2 ^ 62" and off: "write_cmd_offset st < 2 ^ 32"
  defines "n \<equiv> length (fst l)" and "w \<equiv> write_cmd st" and "o' \<equiv> write_cmd_offset st"
  shows "aesd_unlocked_ioctl cmd (Some st) s f =
    (if w < n then
       (if o' < length (fst l ! w) then (int (length (concat (take w (fst l))) + o'), Ret 0)
        else (f, Fail EINVAL))
     else if n = 10 \<and> o' < length (fst l ! 9) then (int (length (log_bytes l) + o'), Ret 0)
     else (f, Fail EINVAL))"
proof -
  let ?b = "buffer (aesd_device s)"
  have c: "ioc_type cmd = AESD_IOC_MAGIC" "\<not> AESDCHAR_IOC_MAXNR < ioc_nr cmd"
    by (simp_all add: cmd AESDCHAR_IOCSEEKTO_def AESD_IOC_MAGIC_def AESDCHAR_IOC_MAXNR_def ioc_defs)
  have inv: "ring_inv ?b" "ring_clean ?b" using rep by (simp_all add: dev_rep_def)
  have nl: "n = length (ring_list ?b)" "n \<le> 10"
    using dev_rep_len[OF rep] max_valid_entry_le[OF inv(1)] by (simp_all add: n_def length_ring_list)
  have loop: "aesd_seek_loop ?b w 0 0 0 0 =
      (if w < n then ((out_offs ?b + w) mod 10, length (concat (take w (fst l))))
       else ((out_offs ?b + 9) mod 10, length (log_bytes l)))"
    using seek_loop_ok[OF rep, of 0 w 0] by (simp add: n_def)
  have small: "length (concat (take w (fst l))) \<le> length (log_bytes l)"
    by (metis append_take_drop_id concat_append le_add1 length_append log_bytes_def)
  have ent: "\<exists>a. buffptr (ring_list ?b ! k) = Some a \<and> entry_size (ring_list ?b ! k) = length (fst l ! k)"
    if "k < n" for k
    using dev_rep_entry[OF rep] that unfolding n_def by metis
  show ?thesis
  proof (cases "w < n")
    case True
    then have "entry ?b ! ((out_offs ?b + w) mod 10) = ring_list ?b ! w"
      using slot_view[OF inv, of w] nl by simp
    then show ?thesis
      using ent[OF True] True loop small len off c(1,2)
      by (auto simp: aesd_unlocked_ioctl_def cmd w_def o'_def)
  next
    case False
    then have "entry ?b ! ((out_offs ?b + 9) mod 10) = (if n = 10 then ring_list ?b ! 9 else null_entry)"
      using slot_view[OF inv, of 9] nl by auto
    then show ?thesis
      using ent[of 9] False loop len off c(1,2) by (auto simp: aesd_unlocked_ioctl_def cmd w_def o'_def)
  qed
qed

lemma ioctl_rejects:
  "cmd \<noteq> AESDCHAR_IOCSEEKTO \<Longrightarrow> aesd_unlocked_ioctl cmd st s f = (f, Fail ENOTTY)"
  by (simp add: aesd_unlocked_ioctl_def)

subsection \<open>Loading and unloading\<close>

lemma dev_rep_zero: "dev_rep Map.empty aesd_dev_zero ([], [])"
  by (simp add: dev_rep_def aesd_dev_zero_def ring_clean_init partial_rep_def ring_ptrs_def)

lemma init_ok:
  "kheap (dev_state m) = Map.empty \<Longrightarrow> 0 \<le> result \<Longrightarrow>
    aesd_rep (dev_state (fst (aesd_init_module result err m))) ([], []) \<and>
    snd (aesd_init_module result err m) = err \<and>
    chrdev_region (fst (aesd_init_module result err m)) = (err = 0) \<and>
    cdev_added (fst (aesd_init_module result err m)) = (err = 0)"
  using dev_rep_zero
  by (simp add: aesd_init_module_def aesd_setup_cdev_def Let_def aesd_dev_zero_def)

definition entry_ptrs :: "aesd_buffer_entry list \<Rightarrow> nat list" where
  "entry_ptrs es = concat (map (opt_list \<circ> buffptr) es)"

lemma fold_kfree:
  "distinct (entry_ptrs es) \<Longrightarrow> set (entry_ptrs es) \<subseteq> dom h \<Longrightarrow>
    \<exists>h'. fold (\<lambda>e r. do { h \<leftarrow> r; kfree (buffptr e) h }) es (Some h) = Some h' \<and>
      dom h' = dom h - set (entry_ptrs es)"
proof (induction es arbitrary: h)
  case (Cons e es)
  let ?h = "drop_ptr (buffptr e) h"
  have "kfree (buffptr e) h = Some ?h"
    using Cons.prems by (intro kfree_drop_ptr) (auto simp: entry_ptrs_def)
  moreover have "distinct (entry_ptrs es)" "set (entry_ptrs es) \<subseteq> dom ?h"
    using Cons.prems by (auto simp: entry_ptrs_def)
  from Cons.IH[OF this] obtain h' where
    "fold (\<lambda>e r. do { h \<leftarrow> r; kfree (buffptr e) h }) es (Some ?h) = Some h'"
    "dom h' = dom ?h - set (entry_ptrs es)" by blast
  ultimately show ?case by (auto simp: entry_ptrs_def)
qed (simp add: entry_ptrs_def)

lemma entry_ptrs_rotate:
  "distinct (entry_ptrs (rotate n es)) = distinct (entry_ptrs es)"
  "set (entry_ptrs (rotate n es)) = set (entry_ptrs es)"
proof -
  let ?x = "entry_ptrs (take (n mod length es) es)" and ?y = "entry_ptrs (drop (n mod length es) es)"
  have "entry_ptrs es = ?x @ ?y"
    by (simp add: entry_ptrs_def flip: concat_append map_append)
  moreover have "entry_ptrs (rotate n es) = ?y @ ?x"
    by (simp add: entry_ptrs_def rotate_drop_take)
  ultimately show "distinct (entry_ptrs (rotate n es)) = distinct (entry_ptrs es)"
    "set (entry_ptrs (rotate n es)) = set (entry_ptrs es)" by auto
qed

lemma entry_ptrs_view:
  assumes rep: "dev_rep h dev l"
  shows "entry_ptrs (rotate (out_offs (buffer dev)) (entry (buffer dev))) = ring_ptrs (buffer dev)"
proof -
  let ?b = "buffer dev"
  have inv: "ring_inv ?b" "ring_clean ?b" using rep by (simp_all add: dev_rep_def)
  have flat: "concat (map (opt_list \<circ> buffptr) es) = map (the \<circ> buffptr) es"
    if "\<And>e. e \<in> set es \<Longrightarrow> buffptr e \<noteq> None" for es
    using that by (induction es) (auto simp: opt_list_def split: option.splits)
  have "entry_ptrs (ring_list ?b) = ring_ptrs ?b"
    unfolding entry_ptrs_def ring_ptrs_def by (rule flat[OF dev_rep_nonnull[OF rep]])
  moreover have "entry_ptrs (replicate k null_entry) = []" for k
    by (induction k) (auto simp: entry_ptrs_def)
  ultimately show ?thesis
    by (simp add: ring_view[OF inv] entry_ptrs_def)
qed

lemma cleanup_ok:
  assumes rep: "aesd_rep (dev_state m) l"
  shows "\<exists>m'. aesd_cleanup_module m = Some m' \<and> kheap (dev_state m') = Map.empty \<and>
    \<not> chrdev_region m' \<and> \<not> cdev_added m'"
proof -
  let ?h = "kheap (dev_state m)" and ?dev = "aesd_device (dev_state m)"
  let ?b = "buffer ?dev" and ?h1 = "drop_ptr (buffer_partial ?dev) ?h"
  have dis: "distinct (ring_ptrs ?b @ opt_list (buffer_partial ?dev))"
    and dom: "dom ?h = set (ring_ptrs ?b) \<union> set (opt_list (buffer_partial ?dev))"
    and inv: "ring_inv ?b" using rep by (simp_all add: dev_rep_def)
  note ptrs = entry_ptrs_view[OF rep] and rot = entry_ptrs_rotate[of "out_offs ?b" "entry ?b"]
  have k1: "kfree (buffer_partial ?dev) ?h = Some ?h1"
    using dom by (intro kfree_drop_ptr) simp
  have "distinct (entry_ptrs (entry ?b))" "set (entry_ptrs (entry ?b)) \<subseteq> dom ?h1"
    using dis dom ptrs rot by auto
  from fold_kfree[OF this] obtain h' where
    h': "aesd_free_entries ?b ?h1 = Some h'" "dom h' = dom ?h1 - set (entry_ptrs (entry ?b))"
    using inv by (auto simp: aesd_free_entries_def FOREACH_fold ring_inv_def)
  have "dom h' = {}" using h'(2) dom ptrs rot(2) by auto
  with h' k1 show ?thesis by (simp add: aesd_cleanup_module_def Let_def)
qed

subsection \<open>Runs of the driver\<close>

text \<open>Only writes change the device. A step is labelled with the bytes and the outcome.\<close>

inductive aesd_step :: "aesd_state \<Rightarrow> byte list \<times> nat outcome \<Rightarrow> aesd_state \<Rightarrow> bool" where
  aesd_step: "fresh_alloc alloc \<Longrightarrow> aesd_write alloc fault src s f = Some (t, f', r) \<Longrightarrow>
    aesd_step s (src, r) t"

inductive_cases aesd_stepE: "aesd_step s l t"

definition log_label :: "byte list \<times> nat outcome \<Rightarrow> log \<Rightarrow> log" where
  "log_label lb l = (case lb of (src, Ret _) \<Rightarrow> log_write src l | _ \<Rightarrow> l)"

interpretation aesd: simulation aesd_step log_label aesd_rep
proof
  fix s l lb t
  assume rep: "aesd_rep s l" and "aesd_step s lb t"
  then obtain alloc fault src f f' r where st: "fresh_alloc alloc" "lb = (src, r)"
    "aesd_write alloc fault src s f = Some (t, f', r)"
    by (auto elim: aesd_stepE)
  show "aesd_rep t (log_label lb l)"
    using aesd_write_cases[OF rep st(1), of fault src f] st rep
    by (auto simp: log_label_def split: option.splits)
qed

text \<open>The held commands as a function of the state.\<close>

definition aesd_bytes :: "aesd_state \<Rightarrow> byte list" where
  "aesd_bytes s = concat (map (\<lambda>e. map the (the (kheap s (the (buffptr e)))))
     (ring_list (buffer (aesd_device s))))"

lemma aesd_bytes_rep:
  assumes "aesd_rep s l"
  shows "aesd_bytes s = log_bytes l"
proof -
  have "map (\<lambda>e. map the (the (kheap s (the (buffptr e))))) (ring_list (buffer (aesd_device s))) = fst l"
    using assms by (auto simp: dev_rep_def list_all2_conv_all_nth holds_def comp_def
        intro!: nth_equalityI)
  then show ?thesis by (simp add: aesd_bytes_def log_bytes_def)
qed

definition aesd_ready :: "aesd_state \<Rightarrow> bool" where
  "aesd_ready s \<longleftrightarrow> (\<exists>l. aesd_rep s l) \<and> length (aesd_bytes s) < 2 ^ 62"

definition aesd_answer :: "aesd_state \<Rightarrow> nat \<Rightarrow> nat \<Rightarrow> byte list" where
  "aesd_answer s pos n = (case aesd_read n n s (int pos) of
     Some (_, Ret bs) \<Rightarrow> map the bs | _ \<Rightarrow> [])"

lemma aesd_answer_ok:
  assumes "aesd_ready s" "pos \<le> length (aesd_bytes s)"
  shows "aesd_answer s pos n = take n (drop pos (aesd_bytes s))"
proof -
  obtain l where l: "aesd_rep s l" using assms by (auto simp: aesd_ready_def)
  have "length (log_bytes l) < 2 ^ 62" "int pos < 2 ^ 62"
    using assms by (auto simp: aesd_ready_def aesd_bytes_rep[OF l])
  from aesd_read_ok[OF l this(1) order_refl _ this(2), of n] show ?thesis
    by (simp add: aesd_answer_def Let_def aesd_bytes_rep[OF l] comp_def)
qed

interpretation aesd_dev: read_device aesd_answer aesd_ready aesd_bytes
proof
  fix s :: aesd_state and pos n :: nat
  assume s: "aesd_ready s"
  show "pos \<le> length (aesd_bytes s) \<Longrightarrow> \<exists>k\<le>n. aesd_answer s pos n = take k (drop pos (aesd_bytes s))"
    using aesd_answer_ok[OF s] by auto
  show "0 < n \<Longrightarrow> pos < length (aesd_bytes s) \<Longrightarrow> aesd_answer s pos n \<noteq> []"
    using aesd_answer_ok[OF s, of pos n] by simp
qed

end
