(* ===== verification/Aesd_Driver_Props.thy ===== *)
theory Aesd_Driver_Props
  imports Aesd_Driver_Correct
begin

section \<open>Properties of the aesdchar driver\<close>

text \<open>
  The properties of the driver, each over the handlers of \<open>Aesd_Driver\<close> and the abstract
  device of \<open>Aesd_Driver_Correct\<close>, with their instances on concrete states.
\<close>

subsection \<open>A concrete device\<close>

definition demo_module :: aesd_module where
  "demo_module = \<lparr>dev_state = \<lparr>aesd_device = aesd_dev_zero, kheap = Map.empty\<rparr>,
     chrdev_region = True, cdev_added = True\<rparr>"

definition demo_write :: "byte list \<Rightarrow> aesd_state \<Rightarrow> aesd_state" where
  "demo_write src s = (case aesd_write first_free False src s 0 of Some (t, _) \<Rightarrow> t | None \<Rightarrow> s)"

text \<open>The driver owns at most eleven blocks, so this allocator serves it.\<close>

lemma first_free_Some:
  assumes "card (dom h) < 64" "finite (dom h)"
  shows "\<exists>a. first_free h n = Some a"
proof (rule ccontr)
  assume "\<not> ?thesis"
  then have "find (\<lambda>a. h a = None) [0..<64] = None"
    by (simp add: first_free_def)
  then have "{0..<64} \<subseteq> dom h" by (auto simp: find_None_iff)
  from card_mono[OF assms(2) this] assms(1) show False by simp
qed

lemma dev_rep_card:
  assumes "dev_rep h dev l"
  shows "finite (dom h) \<and> card (dom h) \<le> 11"
proof -
  have dom: "dom h = set (ring_ptrs (buffer dev) @ opt_list (buffer_partial dev))"
    and "ring_inv (buffer dev)"
    using assms by (simp_all add: dev_rep_def)
  then have "length (ring_ptrs (buffer dev) @ opt_list (buffer_partial dev)) \<le> 11"
    using max_valid_entry_le[of "buffer dev"]
    by (auto simp: ring_ptrs_def length_ring_list opt_list_def split: option.splits)
  then show ?thesis unfolding dom using card_length le_trans by blast
qed

lemma first_free_serves:
  assumes "aesd_rep s l"
  shows "write_fails first_free False src s = None"
proof -
  have c: "finite (dom (kheap s))" "card (dom (kheap s)) \<le> 11"
    using dev_rep_card[OF assms] by auto
  then obtain k where k: "first_free (kheap s) (length src) = Some k"
    using first_free_Some[of "kheap s"] by fastforce
  have "card (dom ((kheap s)(k \<mapsto> map Some src))) < 64"
    using c card_insert_le_m1[of 12 "dom (kheap s)" k] by simp
  then obtain n where "first_free ((kheap s)(k \<mapsto> map Some src))
      (size_partial (aesd_device s) + length src) = Some n"
    using first_free_Some c by fastforce
  then show ?thesis by (simp add: write_fails_def k)
qed

lemma rep_demo_write:
  assumes rep: "aesd_rep s l"
  shows "aesd_rep (demo_write src s) (log_write src l)"
  using aesd_write_cases[OF rep fresh_first_free, of False src 0] first_free_serves[OF rep]
  by (auto simp: demo_write_def)

lemma rep_demo_writes: "aesd_rep s l \<Longrightarrow> aesd_rep (fold demo_write ws s) (fold log_write ws l)"
  by (induction ws arbitrary: s l) (simp_all add: rep_demo_write)

text \<open>Eleven commands of two bytes and an open one.\<close>

definition demo_cmds :: "byte list list" where
  "demo_cmds = [[65, 10], [66, 10], [67, 10], [68, 10], [69, 10], [70, 10], [71, 10], [72, 10],
     [73, 10], [74, 10], [75, 10]]"

definition demo_state :: aesd_state where
  "demo_state = fold demo_write (demo_cmds @ [[90]]) (dev_state demo_module)"

lemma rep_demo_module: "aesd_rep (dev_state demo_module) ([], [])"
  by (simp add: demo_module_def dev_rep_zero)

definition demo_log :: log where
  "demo_log = (tl demo_cmds, [90])"

lemma rep_demo: "aesd_rep demo_state demo_log"
proof -
  have "fold log_write (demo_cmds @ [[90]]) ([], []) = demo_log"
    by code_simp
  with rep_demo_writes[OF rep_demo_module, of "demo_cmds @ [[90]]"] show ?thesis
    by (simp add: demo_state_def)
qed

lemma demo_len: "length (log_bytes demo_log) = 20"
  by code_simp

subsection \<open>Writing\<close>

text \<open>C7. A write to a device that represents a log either fails with -ENOMEM or -EFAULT and
  changes nothing (its temporary block is freed again), or it appends the bytes to the open
  command, turns that into the newest held command when the bytes contain a newline, frees
  the command that falls out of a full ring, advances the position and returns the count.
  In every case memory is accessed and freed only where it is live and nothing leaks.\<close>

theorem aesd_write_refines_log:
  assumes "aesd_rep s l" "fresh_alloc alloc"
  shows "case write_fails alloc fault src s of
      Some err \<Rightarrow> aesd_write alloc fault src s f = Some (s, f, Fail err)
    | None \<Rightarrow> (\<exists>s'. aesd_write alloc fault src s f = Some (s', s64 (f + int (length src)), Ret (length src))
        \<and> aesd_rep s' (log_write src l))"
  using assms by (rule aesd_write_cases)

theorem aesd_write_refines_log_witness:
  "\<exists>s'. aesd_write first_free False [88, 10] demo_state 7 = Some (s', 9, Ret 2) \<and>
    aesd_rep s' (tl (tl demo_cmds) @ [[90, 88, 10]], [])"
proof -
  have "log_write [88, 10] demo_log = (tl (tl demo_cmds) @ [[90, 88, 10]], [])" by code_simp
  with aesd_write_refines_log[OF rep_demo fresh_first_free, of False "[88, 10]" 7]
    first_free_serves[OF rep_demo] show ?thesis by (simp add: numeral_2_eq_2)
qed

text \<open>From a freshly loaded module, after any sequence of writes with any allocator and any
  user faults, the device holds what the successful writes say: the last ten finished
  commands and the open one; and unloading the module then frees every block once.\<close>

lemma aesd_lifecycle:
  assumes "kheap (dev_state m) = Map.empty"
    and "run aesd_step (dev_state (fst (aesd_init_module 0 0 m))) ls s"
  shows "aesd_rep s (fold log_label ls ([], [])) \<and>
    (\<exists>m'. aesd_cleanup_module (m\<lparr>dev_state := s\<rparr>) = Some m' \<and>
       kheap (dev_state m') = Map.empty \<and> \<not> chrdev_region m' \<and> \<not> cdev_added m')"
proof -
  have "aesd_rep (dev_state (fst (aesd_init_module 0 0 m))) ([], [])"
    using init_ok[OF assms(1), of 0 0] by simp
  from aesd.sim_run[OF assms(2) this] have "aesd_rep s (fold log_label ls ([], []))" .
  moreover from this have "aesd_rep (dev_state (m\<lparr>dev_state := s\<rparr>)) (fold log_label ls ([], []))"
    by simp
  ultimately show ?thesis using cleanup_ok by blast
qed

lemma aesd_lifecycle_example:
  "\<exists>s. run aesd_step (dev_state (fst (aesd_init_module 0 0 demo_module))) [([88], Ret 1)] s \<and>
    aesd_rep s ([], [88])"
proof -
  let ?s0 = "dev_state (fst (aesd_init_module 0 0 demo_module))"
  have e: "kheap (dev_state demo_module) = Map.empty" by (simp add: demo_module_def)
  then have rep: "aesd_rep ?s0 ([], [])" using init_ok[of demo_module 0 0] by simp
  obtain s where "aesd_write first_free False [88] ?s0 0 = Some (s, 1, Ret 1)"
    using aesd_write_cases[OF rep fresh_first_free, of False "[88]" 0] first_free_serves[OF rep]
    by auto
  then have r: "run aesd_step ?s0 [([88], Ret 1)] s"
    by (auto intro: run.intros aesd_step fresh_first_free)
  have "fold log_label [([88], Ret 1)] ([], []) = ([], [88])" by code_simp
  with aesd_lifecycle[OF e r] r show ?thesis by auto
qed

subsection \<open>Reading and seeking\<close>

text \<open>C8. A read returns exactly the bytes of the concatenated held commands from the position
  on, up to the count, and advances the position by their number; it crosses from one command
  to the next and never touches memory outside the blocks. When the user's buffer has less
  room than that it fails with -EFAULT. It returns for any position.\<close>

theorem aesd_read_correct:
  assumes "aesd_rep s l"
  shows "(\<exists>r. aesd_read room count s f' = Some r) \<and>
    (length (log_bytes l) < 2 ^ 62 \<and> 0 \<le> f \<and> f < 2 ^ 62 \<longrightarrow>
     (let got = take count (drop (nat f) (log_bytes l))
      in if length got \<le> room
         then aesd_read room count s f = Some (f + int (length got), Ret (map Some got))
         else (\<exists>f''. aesd_read room count s f = Some (f'', Fail EFAULT))))"
proof
  show "\<exists>r. aesd_read room count s f' = Some r"
    using aesd_read_loop_safe[OF assms] by (auto simp: aesd_read_def split: option.splits)
  show "length (log_bytes l) < 2 ^ 62 \<and> 0 \<le> f \<and> f < 2 ^ 62 \<longrightarrow>
     (let got = take count (drop (nat f) (log_bytes l))
      in if length got \<le> room
         then aesd_read room count s f = Some (f + int (length got), Ret (map Some got))
         else (\<exists>f''. aesd_read room count s f = Some (f'', Fail EFAULT)))"
    using aesd_read_full[OF assms, of f room count] by (auto simp: Let_def)
qed

theorem aesd_read_correct_witness:
  "aesd_read 8 5 demo_state 3 = Some (8, Ret (map Some [10, 68, 10, 69, 10]))"
proof -
  have "take 5 (drop 3 (log_bytes demo_log)) = [10, 68, 10, 69, 10]" by code_simp
  with aesd_read_correct[OF rep_demo, of 8 5 0 3] demo_len show ?thesis
    by (simp add: Let_def)
qed

text \<open>A program that reads until the driver returns 0, with any chunk size, obtains all
  held commands, whole and in order, from where its position was.\<close>

lemma aesd_read_back:
  assumes "aesd_ready s" "0 < n" "pos \<le> length (aesd_bytes s)"
    and "length (aesd_bytes s) - pos < fuel"
  shows "read_all (aesd_answer s) fuel pos n = Some (drop pos (aesd_bytes s))"
  using assms by (rule aesd_dev.read_all_content)

lemma aesd_read_back_example:
  "read_all (aesd_answer demo_state) 30 4 3 = Some (concat (tl (tl (tl demo_cmds))))"
proof -
  have b: "aesd_bytes demo_state = log_bytes demo_log"
    by (rule aesd_bytes_rep[OF rep_demo])
  then have "aesd_ready demo_state"
    unfolding aesd_ready_def using demo_len by (intro conjI exI[of _ demo_log] rep_demo) simp
  moreover have "drop 4 (log_bytes demo_log) = concat (tl (tl (tl demo_cmds)))" by code_simp
  ultimately show ?thesis
    using aesd_read_back[of demo_state 3 4 30] demo_len b by simp
qed

text \<open>C9. A seek moves to the requested position, clipped to the number of bytes held; a
  negative target and an unknown origin are refused with -EINVAL and leave the position.\<close>

theorem aesd_llseek_correct:
  assumes "aesd_rep s l" "length (log_bytes l) < 2 ^ 62"
    and "0 \<le> f" "f < 2 ^ 62" "- (2 ^ 62) < off" "off < 2 ^ 62"
  shows "aesd_llseek s f off whence =
    (if whence \<in> {0, 1, 2} then
       let target = (if whence = 0 then off else if whence = 1 then f + off
                     else int (length (log_bytes l)) + off)
       in if target < 0 then (f, Fail EINVAL)
          else (min target (int (length (log_bytes l))), Ret (min target (int (length (log_bytes l)))))
     else (f, Fail EINVAL))"
  using assms by (rule llseek_ok)

theorem aesd_llseek_correct_witness:
  "aesd_llseek demo_state 4 (- 5) 2 = (15, Ret 15) \<and> aesd_llseek demo_state 4 (- 5) 1 = (4, Fail EINVAL)"
  using aesd_llseek_correct[OF rep_demo, of 4 "- 5" 2] aesd_llseek_correct[OF rep_demo, of 4 "- 5" 1]
    demo_len by simp

text \<open>C10. The seek command moves to the start of the given command plus the given offset when
  that command is held and the offset lies in it. Otherwise it is refused with -EINVAL,
  with one exception in the code: when the ring is full, a command number of ten or more
  leaves the loop at the newest command, whose size is then used for the check, and the
  position is set beyond the data.\<close>

theorem aesd_seekto_correct:
  assumes "aesd_rep s l" "cmd = AESDCHAR_IOCSEEKTO"
    and "length (log_bytes l) < 2 ^ 62" "write_cmd_offset st < 2 ^ 32"
  shows "aesd_unlocked_ioctl cmd (Some st) s f =
    (if write_cmd st < length (fst l) then
       (if write_cmd_offset st < length (fst l ! write_cmd st)
        then (int (length (concat (take (write_cmd st) (fst l))) + write_cmd_offset st), Ret 0)
        else (f, Fail EINVAL))
     else if length (fst l) = 10 \<and> write_cmd_offset st < length (fst l ! 9)
       then (int (length (log_bytes l) + write_cmd_offset st), Ret 0)
     else (f, Fail EINVAL))"
  using ioctl_ok[OF assms] by simp

theorem aesd_seekto_correct_witness:
  "aesd_unlocked_ioctl AESDCHAR_IOCSEEKTO (Some \<lparr>write_cmd = 2, write_cmd_offset = 1\<rparr>) demo_state 0 =
     (5, Ret 0)"
proof -
  have "length (fst demo_log) = 10" "length (fst demo_log ! 2) = 2"
    "length (concat (take 2 (fst demo_log))) = 4"
    by code_simp+
  with aesd_seekto_correct[OF rep_demo refl, of "\<lparr>write_cmd = 2, write_cmd_offset = 1\<rparr>" 0]
    demo_len show ?thesis by simp
qed

text \<open>C11. The seek command accepts a command number that does not exist when the ring is
  full: it returns 0 and the next read finds the end of the data.\<close>

theorem aesd_seekto_accepts_missing:
  assumes "aesd_rep s l" "length (log_bytes l) < 2 ^ 62" "length (fst l) = 10" "10 \<le> w" "w < 2 ^ 32"
  shows "\<exists>f'. aesd_unlocked_ioctl AESDCHAR_IOCSEEKTO (Some \<lparr>write_cmd = w, write_cmd_offset = 0\<rparr>) s f =
      (f', Ret 0) \<and> int (length (log_bytes l)) \<le> f' \<and>
    aesd_read count count s f' = Some (f', Ret [])"
proof -
  have "fst l ! 9 \<noteq> []"
    using dev_rep_entry[OF assms(1), of 9] assms(3) by auto
  then have "aesd_unlocked_ioctl AESDCHAR_IOCSEEKTO (Some \<lparr>write_cmd = w, write_cmd_offset = 0\<rparr>) s f =
      (int (length (log_bytes l)), Ret 0)"
    using ioctl_ok[OF assms(1) refl assms(2), of "\<lparr>write_cmd = w, write_cmd_offset = 0\<rparr>"] assms
    by simp
  moreover have "aesd_read count count s (int (length (log_bytes l))) =
      Some (int (length (log_bytes l)), Ret [])"
    using aesd_read_ok[OF assms(1,2), of count count "int (length (log_bytes l))"] assms(2) by simp
  ultimately show ?thesis by blast
qed

theorem aesd_seekto_accepts_missing_witness:
  "\<exists>f'. aesd_unlocked_ioctl AESDCHAR_IOCSEEKTO (Some \<lparr>write_cmd = 10, write_cmd_offset = 0\<rparr>) demo_state 0 =
     (f', Ret 0) \<and> 20 \<le> f' \<and> aesd_read 5 5 demo_state f' = Some (f', Ret [])"
proof -
  have "length (fst demo_log) = 10" by code_simp
  with aesd_seekto_accepts_missing[OF rep_demo, of 10 0 5] demo_len show ?thesis by simp
qed

end
