(* ===== verification/Aesd_System.thy ===== *)
theory Aesd_System
  imports Aesd_Driver_Props
begin

section \<open>The device as programs see it\<close>

text \<open>
  The handlers of \<open>aesd-char-driver/main.c\<close> behind the table \<open>aesd_fops\<close>, called through file
  descriptors by any number of programs, against the device of the assignment: a log of
  commands with a read position per descriptor. The kernel's part is its documented one: a read or
  write gets a copy of the position of the file, which is stored when the call succeeds and not when it
  fails, and at most \<open>MAX_RW_COUNT\<close> bytes; \<open>llseek\<close> and the ioctl work on the position of the file.
\<close>

subsection \<open>The table of operations\<close>

record 's file_operations =
  fop_open :: "'s \<Rightarrow> int"
  fop_release :: "'s \<Rightarrow> 's \<times> int"
  fop_read :: "nat \<Rightarrow> nat \<Rightarrow> 's \<Rightarrow> int \<Rightarrow> (int \<times> cell list outcome) option"
  fop_write :: "bool \<Rightarrow> byte list \<Rightarrow> 's \<Rightarrow> int \<Rightarrow> ('s \<times> int \<times> nat outcome) option"
  fop_llseek :: "'s \<Rightarrow> int \<Rightarrow> int \<Rightarrow> int \<Rightarrow> int \<times> int outcome"
  fop_unlocked_ioctl :: "nat \<Rightarrow> aesd_seekto option \<Rightarrow> 's \<Rightarrow> int \<Rightarrow> int \<times> int outcome"

definition aesd_fops :: "allocator \<Rightarrow> aesd_state file_operations" where
  "aesd_fops alloc = \<lparr>fop_open = (\<lambda>s. snd (aesd_open s)), fop_release = aesd_release,
     fop_read = aesd_read, fop_write = aesd_write alloc, fop_llseek = aesd_llseek,
     fop_unlocked_ioctl = aesd_unlocked_ioctl\<rparr>"

subsection \<open>System calls\<close>

text \<open>
  The descriptor of an open is the one that the kernel picks. \<open>room\<close> and \<open>fault\<close> describe the
  memory of the caller as in the handlers.
\<close>

datatype call =
  Open_call nat
| Close_call nat
| Read_call nat nat nat
| Write_call nat bool "byte list"
| Lseek_call nat int int
| Ioctl_call nat nat "aesd_seekto option"

datatype answer = Value int | Data "cell list" | Error errno | Bad_descriptor

definition MAX_RW_COUNT :: nat where [code_consts]: "MAX_RW_COUNT = 0x7ffff000"

record 's system =
  sys_dev :: 's
  sys_pos :: "nat \<Rightarrow> int option"

definition sys_read :: "'s file_operations \<Rightarrow> nat \<Rightarrow> int \<Rightarrow> nat \<Rightarrow> nat \<Rightarrow> 's system \<Rightarrow> ('s system \<times> answer) option" where
  "sys_read ops fd pos room count sys =
     (case fop_read ops room (min count MAX_RW_COUNT) (sys_dev sys) pos of
        None \<Rightarrow> None
      | Some (pos', r) \<Rightarrow>
          (case r of
             Ret bs \<Rightarrow> Some (sys\<lparr>sys_pos := (sys_pos sys)(fd \<mapsto> pos')\<rparr>, Data bs)
           | Fail e \<Rightarrow> Some (sys, Error e)
           | Blocked \<Rightarrow> None))"

definition sys_write :: "'s file_operations \<Rightarrow> nat \<Rightarrow> int \<Rightarrow> bool \<Rightarrow> byte list \<Rightarrow> 's system \<Rightarrow> ('s system \<times> answer) option" where
  "sys_write ops fd pos fault src sys =
     (case fop_write ops fault (take MAX_RW_COUNT src) (sys_dev sys) pos of
        None \<Rightarrow> None
      | Some (dev', pos', r) \<Rightarrow>
          (case r of
             Ret n \<Rightarrow> Some (sys\<lparr>sys_dev := dev', sys_pos := (sys_pos sys)(fd \<mapsto> pos')\<rparr>, Value (int n))
           | Fail e \<Rightarrow> Some (sys\<lparr>sys_dev := dev'\<rparr>, Error e)
           | Blocked \<Rightarrow> None))"

definition sys_move :: "nat \<Rightarrow> int \<times> int outcome \<Rightarrow> 's system \<Rightarrow> ('s system \<times> answer) option" where
  "sys_move fd res sys =
     (case res of (pos', r) \<Rightarrow>
        (case r of
           Ret v \<Rightarrow> Some (sys\<lparr>sys_pos := (sys_pos sys)(fd \<mapsto> pos')\<rparr>, Value v)
         | Fail e \<Rightarrow> Some (sys\<lparr>sys_pos := (sys_pos sys)(fd \<mapsto> pos')\<rparr>, Error e)
         | Blocked \<Rightarrow> None))"

fun call_fd :: "call \<Rightarrow> nat" where
  "call_fd (Open_call fd) = fd"
| "call_fd (Close_call fd) = fd"
| "call_fd (Read_call fd room count) = fd"
| "call_fd (Write_call fd fault src) = fd"
| "call_fd (Lseek_call fd off whence) = fd"
| "call_fd (Ioctl_call fd cmd arg) = fd"

fun file_call :: "'s file_operations \<Rightarrow> int \<Rightarrow> call \<Rightarrow> 's system \<Rightarrow> ('s system \<times> answer) option" where
  "file_call ops pos (Open_call fd) sys = Some (sys, Bad_descriptor)"
| "file_call ops pos (Close_call fd) sys =
     Some (sys\<lparr>sys_dev := fst (fop_release ops (sys_dev sys)), sys_pos := (sys_pos sys)(fd := None)\<rparr>, Value 0)"
| "file_call ops pos (Read_call fd room count) sys = sys_read ops fd pos room count sys"
| "file_call ops pos (Write_call fd fault src) sys = sys_write ops fd pos fault src sys"
| "file_call ops pos (Lseek_call fd off whence) sys =
     sys_move fd (fop_llseek ops (sys_dev sys) pos off whence) sys"
| "file_call ops pos (Ioctl_call fd cmd arg) sys =
     sys_move fd (fop_unlocked_ioctl ops cmd arg (sys_dev sys) pos) sys"

definition sys_call :: "'s file_operations \<Rightarrow> call \<Rightarrow> 's system \<Rightarrow> ('s system \<times> answer) option" where
  "sys_call ops c sys =
     (case sys_pos sys (call_fd c) of
        Some pos \<Rightarrow> file_call ops pos c sys
      | None \<Rightarrow>
          (case c of
             Open_call fd \<Rightarrow>
               if fop_open ops (sys_dev sys) = 0
               then Some (sys\<lparr>sys_pos := (sys_pos sys)(fd \<mapsto> 0)\<rparr>, Value (int fd))
               else Some (sys, Bad_descriptor)
           | _ \<Rightarrow> Some (sys, Bad_descriptor)))"

subsection \<open>The device of the assignment\<close>

text \<open>The log, and the position of each open descriptor.\<close>

type_synonym log_device = "log \<times> (nat \<Rightarrow> nat option)"

text \<open>
  Where the seek command goes: into a held command. A full ring has the exception that a number beyond its
  ten commands passes for the last one and goes behind the data.
\<close>

definition seek_goal :: "log \<Rightarrow> aesd_seekto \<Rightarrow> nat option" where
  "seek_goal l st =
     (let cmds = fst l; w = write_cmd st; off = write_cmd_offset st in
      if w < length cmds
      then (if off < length (cmds ! w) then Some (length (concat (take w cmds)) + off) else None)
      else if length cmds = 10 \<and> off < length (cmds ! 9) then Some (length (log_bytes l) + off) else None)"

definition lseek_goal :: "log \<Rightarrow> nat \<Rightarrow> int \<Rightarrow> int \<Rightarrow> nat option" where
  "lseek_goal l pos off whence =
     (let L = int (length (log_bytes l));
          target = (if whence = 0 then off else if whence = 1 then int pos + off else L + off)
      in if whence \<in> {0, 1, 2} \<and> 0 \<le> target then Some (nat (min target L)) else None)"

inductive log_call :: "log_device \<Rightarrow> call \<times> answer \<Rightarrow> log_device \<Rightarrow> bool" where
  opened: "pos fd = None \<Longrightarrow> log_call (l, pos) (Open_call fd, Value (int fd)) (l, pos(fd \<mapsto> 0))"
| closed: "pos fd = Some p \<Longrightarrow> log_call (l, pos) (Close_call fd, Value 0) (l, pos(fd := None))"
| bad: "pos (call_fd c) = None \<and> (\<forall>fd. c \<noteq> Open_call fd) \<or> pos (call_fd c) \<noteq> None \<and> c = Open_call (call_fd c) \<Longrightarrow>
    log_call (l, pos) (c, Bad_descriptor) (l, pos)"
| reads: "pos fd = Some p \<Longrightarrow> got = take (min count MAX_RW_COUNT) (drop p (log_bytes l)) \<Longrightarrow> length got \<le> room \<Longrightarrow>
    log_call (l, pos) (Read_call fd room count, Data (map Some got)) (l, pos(fd \<mapsto> p + length got))"
| read_faults: "pos fd = Some p \<Longrightarrow> room < length (take (min count MAX_RW_COUNT) (drop p (log_bytes l))) \<Longrightarrow>
    log_call (l, pos) (Read_call fd room count, Error EFAULT) (l, pos)"
| writes: "pos fd = Some p \<Longrightarrow> \<not> fault \<Longrightarrow> new = take MAX_RW_COUNT src \<Longrightarrow>
    log_call (l, pos) (Write_call fd fault src, Value (int (length new))) (log_write new l, pos(fd \<mapsto> p + length new))"
| write_refused: "pos fd = Some p \<Longrightarrow> e = ENOMEM \<or> fault \<and> e = EFAULT \<Longrightarrow>
    log_call (l, pos) (Write_call fd fault src, Error e) (l, pos)"
| lseeks: "pos fd = Some p \<Longrightarrow> lseek_goal l p off whence = Some q \<Longrightarrow>
    log_call (l, pos) (Lseek_call fd off whence, Value (int q)) (l, pos(fd \<mapsto> q))"
| lseek_fails: "pos fd = Some p \<Longrightarrow> lseek_goal l p off whence = None \<Longrightarrow>
    log_call (l, pos) (Lseek_call fd off whence, Error EINVAL) (l, pos)"
| seeks: "pos fd = Some p \<Longrightarrow> seek_goal l st = Some q \<Longrightarrow>
    log_call (l, pos) (Ioctl_call fd AESDCHAR_IOCSEEKTO (Some st), Value 0) (l, pos(fd \<mapsto> q))"
| seek_fails: "pos fd = Some p \<Longrightarrow> seek_goal l st = None \<Longrightarrow>
    log_call (l, pos) (Ioctl_call fd AESDCHAR_IOCSEEKTO (Some st), Error EINVAL) (l, pos)"
| seek_faults: "pos fd = Some p \<Longrightarrow>
    log_call (l, pos) (Ioctl_call fd AESDCHAR_IOCSEEKTO None, Error EFAULT) (l, pos)"
| no_ioctl: "pos fd = Some p \<Longrightarrow> cmd \<noteq> AESDCHAR_IOCSEEKTO \<Longrightarrow>
    log_call (l, pos) (Ioctl_call fd cmd arg, Error ENOTTY) (l, pos)"

subsection \<open>Every run of the driver is a run of the log\<close>

text \<open>
  The budget is the number of bytes that are handed to writes. Positions stay below twice that number, since
  the seek command may go behind the data by the length of a command.
\<close>

fun call_cost :: "call \<Rightarrow> nat" where
  "call_cost (Write_call fd fault src) = length (take MAX_RW_COUNT src)"
| "call_cost _ = 0"

text \<open>Offsets of a seek within 62 bits, and the two 32-bit numbers of the seek command.\<close>

fun call_ok :: "call \<Rightarrow> bool" where
  "call_ok (Lseek_call fd off whence) = (- (2 ^ 62) < off \<and> off < 2 ^ 62)"
| "call_ok (Ioctl_call fd cmd (Some st)) = (write_cmd st < 2 ^ 32 \<and> write_cmd_offset st < 2 ^ 32)"
| "call_ok _ = True"

definition log_size :: "log \<Rightarrow> nat" where
  "log_size l = length (log_bytes l) + length (snd l)"

definition sys_rep :: "nat \<Rightarrow> aesd_state system \<Rightarrow> log_device \<Rightarrow> bool" where
  "sys_rep used sys a \<longleftrightarrow> aesd_rep (sys_dev sys) (fst a) \<and> sys_pos sys = map_option int \<circ> snd a \<and>
     log_size (fst a) \<le> used \<and> (\<forall>fd p. snd a fd = Some p \<longrightarrow> p \<le> 2 * used)"

lemma length_concat_take_last: "length (concat (take_last n xs)) \<le> length (concat xs)"
proof -
  have "concat xs = concat (take (length xs - n) xs) @ concat (take_last n xs)"
    by (simp add: take_last_def flip: concat_append)
  from arg_cong[OF this, of length] show ?thesis by simp
qed

lemma log_size_write: "log_size (log_write m l) \<le> log_size l + length m"
proof -
  obtain cmds pend where "l = (cmds, pend)" by (cases l)
  then show ?thesis
    using length_concat_take_last[of 10 "cmds @ [pend @ m]"]
    by (simp add: log_size_def log_write_def log_bytes_def)
qed

lemma log_bytes_size: "length (log_bytes l) \<le> log_size l"
  by (simp add: log_size_def)

lemma seek_goal_bound:
  assumes "seek_goal l st = Some q"
  shows "q \<le> 2 * log_size l"
proof -
  have nth: "i < length (fst l) \<Longrightarrow> length (concat (take i (fst l))) + length (fst l ! i) \<le> length (log_bytes l)" for i
    using id_take_nth_drop[of i "fst l"] by (metis append_assoc concat.simps(2) concat_append le_add1 length_append log_bytes_def)
  show ?thesis
    using assms nth[of "write_cmd st"] nth[of 9] log_bytes_size[of l]
    by (auto simp: seek_goal_def Let_def split: if_splits)
qed

lemma lseek_goal_bound: "lseek_goal l p off whence = Some q \<Longrightarrow> q \<le> log_size l"
  using log_bytes_size[of l] by (auto simp: lseek_goal_def Let_def split: if_splits)

text \<open>The representation after a call that only moves the position of one descriptor.\<close>

lemma sys_rep_move:
  assumes "sys_rep used sys (l, pos)" "q \<le> 2 * used"
  shows "sys_rep used (sys\<lparr>sys_pos := (sys_pos sys)(fd \<mapsto> int q)\<rparr>) (l, pos(fd \<mapsto> q))"
  using assms by (auto simp: sys_rep_def fun_eq_iff)

lemma sys_rep_same:
  assumes "sys_rep used sys (l, pos)" "pos fd = Some p"
  shows "sys\<lparr>sys_pos := (sys_pos sys)(fd \<mapsto> int p)\<rparr> = sys"
  using assms by (cases sys) (auto simp: sys_rep_def)

lemma sys_rep_bounds:
  assumes "sys_rep used sys (l, pos)" "used < 2 ^ 61" "pos fd = Some p"
  shows "aesd_rep (sys_dev sys) l" "length (log_bytes l) < 2 ^ 62" "int p < 2 ^ 62" "sys_pos sys fd = Some (int p)"
    "p \<le> 2 * used" "log_size l \<le> used"
proof -
  show r: "aesd_rep (sys_dev sys) l" "log_size l \<le> used" "sys_pos sys fd = Some (int p)" "p \<le> 2 * used"
    using assms by (auto simp: sys_rep_def)
  show "length (log_bytes l) < 2 ^ 62" "int p < 2 ^ 62"
    using r(2,4) assms(2) log_bytes_size[of l] by simp_all
qed

lemma sys_read_refines:
  assumes "sys_rep used sys (l, pos)" "used < 2 ^ 61" "pos fd = Some p"
  shows "\<exists>s' r a'. sys_read (aesd_fops alloc) fd (int p) room count sys = Some (s', r) \<and>
    log_call (l, pos) (Read_call fd room count, r) a' \<and> sys_rep used s' a'"
proof -
  note b = sys_rep_bounds[OF assms]
  let ?got = "take (min count MAX_RW_COUNT) (drop p (log_bytes l))"
  obtain f' where r: "aesd_read room (min count MAX_RW_COUNT) (sys_dev sys) (int p) =
      (if length ?got \<le> room then Some (int p + int (length ?got), Ret (map Some ?got))
       else Some (f', Fail EFAULT))"
    using aesd_read_full[OF b(1,2) of_nat_0_le_iff b(3), of room "min count MAX_RW_COUNT"]
    unfolding Let_def nat_int by blast
  show ?thesis
  proof (cases "length ?got \<le> room")
    case True
    have "p + length ?got \<le> 2 * used"
      using b(5,6) log_bytes_size[of l] by (cases "p \<le> length (log_bytes l)") auto
    note m = sys_rep_move[OF assms(1) this, of fd]
    have "sys_read (aesd_fops alloc) fd (int p) room count sys =
        Some (sys\<lparr>sys_pos := (sys_pos sys)(fd \<mapsto> int (p + length ?got))\<rparr>, Data (map Some ?got))"
      unfolding sys_read_def aesd_fops_def file_operations.simps r if_P[OF True] by simp
    moreover have "log_call (l, pos) (Read_call fd room count, Data (map Some ?got)) (l, pos(fd \<mapsto> p + length ?got))"
      by (rule log_call.reads[where p = p]) (simp_all only: assms(3) True)
    ultimately show ?thesis using m by blast
  next
    case False
    have "sys_read (aesd_fops alloc) fd (int p) room count sys = Some (sys, Error EFAULT)"
      unfolding sys_read_def aesd_fops_def file_operations.simps r if_not_P[OF False] by simp
    moreover have "log_call (l, pos) (Read_call fd room count, Error EFAULT) (l, pos)"
      using False by (intro log_call.read_faults[where p = p] assms(3)) (simp only: not_le)
    ultimately show ?thesis using assms(1) by blast
  qed
qed

lemma sys_write_refines:
  assumes "sys_rep used sys (l, pos)" "pos fd = Some p" "fresh_alloc alloc"
    and new: "new = take MAX_RW_COUNT src" and small: "used + length new < 2 ^ 61"
  shows "\<exists>s' r a'. sys_write (aesd_fops alloc) fd (int p) fault src sys = Some (s', r) \<and>
    log_call (l, pos) (Write_call fd fault src, r) a' \<and> sys_rep (used + length new) s' a'"
proof -
  have "used < 2 ^ 61" using small by simp
  note b = sys_rep_bounds[OF assms(1) this assms(2)]
  have more: "sys_rep (used + length new) sys (l, pos)"
    using assms(1) by (fastforce simp: sys_rep_def)
  show ?thesis
  proof (cases "Aesd_Driver_Correct.write_fails alloc fault new (sys_dev sys)")
    case None
    then obtain d' where d': "aesd_write alloc fault new (sys_dev sys) (int p) =
        Some (d', s64 (int p + int (length new)), Ret (length new))" "aesd_rep d' (log_write new l)"
      using aesd_write_cases[OF b(1) assms(3), of fault new "int p"] by auto
    have "s64 (int p + int (length new)) = int (p + length new)"
      using b(5) small by (simp add: s64_id)
    then have "sys_write (aesd_fops alloc) fd (int p) fault src sys =
        Some (sys\<lparr>sys_dev := d', sys_pos := (sys_pos sys)(fd \<mapsto> int (p + length new))\<rparr>, Value (int (length new)))"
      using d'(1) by (simp add: sys_write_def aesd_fops_def new)
    moreover have "\<not> fault" using None by (auto simp: write_fails_def split: option.splits if_splits)
    then have "log_call (l, pos) (Write_call fd fault src, Value (int (length new)))
        (log_write new l, pos(fd \<mapsto> p + length new))"
      by (intro log_call.writes[where p = p] assms(2) new)
    moreover have "sys_rep (used + length new) (sys\<lparr>sys_dev := d', sys_pos := (sys_pos sys)(fd \<mapsto> int (p + length new))\<rparr>)
        (log_write new l, pos(fd \<mapsto> p + length new))"
      using more d'(2) b(5,6) log_size_write[of new l]
      by (auto simp: sys_rep_def fun_eq_iff)
    ultimately show ?thesis by blast
  next
    case (Some e)
    then have w: "aesd_write alloc fault new (sys_dev sys) (int p) = Some (sys_dev sys, int p, Fail e)"
      using aesd_write_cases[OF b(1) assms(3), of fault new "int p"] by auto
    have "sys_write (aesd_fops alloc) fd (int p) fault src sys = Some (sys, Error e)"
      using w by (simp add: sys_write_def aesd_fops_def new)
    moreover have "e = ENOMEM \<or> fault \<and> e = EFAULT"
      using Some by (auto simp: write_fails_def split: option.splits if_splits)
    then have "log_call (l, pos) (Write_call fd fault src, Error e) (l, pos)"
      by (intro log_call.write_refused[where p = p] assms(2))
    ultimately show ?thesis using more by blast
  qed
qed

lemma move_stays:
  assumes "sys_rep used sys (l, pos)" "pos fd = Some p" "res = (int p, Fail e)"
    and "log_call (l, pos) (c, Error e) (l, pos)"
  shows "\<exists>s' r a'. sys_move fd res sys = Some (s', r) \<and> log_call (l, pos) (c, r) a' \<and> sys_rep used s' a'"
proof -
  have "sys_move fd res sys = Some (sys, Error e)"
    using sys_rep_same[OF assms(1,2)] by (simp add: sys_move_def assms(3))
  then show ?thesis using assms(1,4) by blast
qed

lemma move_to:
  assumes "sys_rep used sys (l, pos)" "q \<le> 2 * used" "res = (int q, Ret v)"
    and "log_call (l, pos) (c, Value v) (l, pos(fd \<mapsto> q))"
  shows "\<exists>s' r a'. sys_move fd res sys = Some (s', r) \<and> log_call (l, pos) (c, r) a' \<and> sys_rep used s' a'"
proof -
  have "sys_move fd res sys = Some (sys\<lparr>sys_pos := (sys_pos sys)(fd \<mapsto> int q)\<rparr>, Value v)"
    by (simp add: sys_move_def assms(3))
  then show ?thesis using sys_rep_move[OF assms(1,2), of fd] assms(4) by blast
qed

lemma lseek_refines:
  assumes "sys_rep used sys (l, pos)" "used < 2 ^ 61" "pos fd = Some p" "- (2 ^ 62) < off" "off < 2 ^ 62"
  shows "\<exists>s' r a'. sys_move fd (aesd_llseek (sys_dev sys) (int p) off whence) sys = Some (s', r) \<and>
    log_call (l, pos) (Lseek_call fd off whence, r) a' \<and> sys_rep used s' a'"
proof -
  note b = sys_rep_bounds[OF assms(1-3)]
  note k = llseek_ok[OF b(1,2) of_nat_0_le_iff b(3) assms(4,5), of whence]
  show ?thesis
  proof (cases "lseek_goal l p off whence")
    case None
    then have "aesd_llseek (sys_dev sys) (int p) off whence = (int p, Fail EINVAL)"
      unfolding k by (auto simp: lseek_goal_def Let_def split: if_splits)
    moreover have "log_call (l, pos) (Lseek_call fd off whence, Error EINVAL) (l, pos)"
      by (rule log_call.lseek_fails[where p = p]) (fact assms(3) None)+
    ultimately show ?thesis by (rule move_stays[OF assms(1,3)])
  next
    case (Some q)
    then have "aesd_llseek (sys_dev sys) (int p) off whence = (int q, Ret (int q))"
      unfolding k by (auto simp: lseek_goal_def Let_def split: if_splits)
    moreover have "q \<le> 2 * used" using lseek_goal_bound[OF Some] b(6) by simp
    moreover have "log_call (l, pos) (Lseek_call fd off whence, Value (int q)) (l, pos(fd \<mapsto> q))"
      by (rule log_call.lseeks[where p = p]) (fact assms(3) Some)+
    ultimately show ?thesis using move_to[OF assms(1)] by blast
  qed
qed

lemma ioctl_refines:
  assumes "sys_rep used sys (l, pos)" "used < 2 ^ 61" "pos fd = Some p" "call_ok (Ioctl_call fd cmd arg)"
  shows "\<exists>s' r a'. sys_move fd (aesd_unlocked_ioctl cmd arg (sys_dev sys) (int p)) sys = Some (s', r) \<and>
    log_call (l, pos) (Ioctl_call fd cmd arg, r) a' \<and> sys_rep used s' a'"
proof -
  note b = sys_rep_bounds[OF assms(1-3)]
  consider (other) "cmd \<noteq> AESDCHAR_IOCSEEKTO" | (fault) "cmd = AESDCHAR_IOCSEEKTO" "arg = None"
    | (seek) st where "cmd = AESDCHAR_IOCSEEKTO" "arg = Some st" by (cases arg) auto
  then show ?thesis
  proof cases
    case other
    then have "aesd_unlocked_ioctl cmd arg (sys_dev sys) (int p) = (int p, Fail ENOTTY)"
      by (simp add: aesd_unlocked_ioctl_def)
    moreover have "log_call (l, pos) (Ioctl_call fd cmd arg, Error ENOTTY) (l, pos)"
      by (rule log_call.no_ioctl[where p = p]) (fact assms(3) other)+
    ultimately show ?thesis by (rule move_stays[OF assms(1,3)])
  next
    case fault
    then have "aesd_unlocked_ioctl cmd arg (sys_dev sys) (int p) = (int p, Fail EFAULT)"
      by (simp add: aesd_unlocked_ioctl_def AESDCHAR_IOCSEEKTO_def AESD_IOC_MAGIC_def AESDCHAR_IOC_MAXNR_def ioc_defs)
    moreover have "log_call (l, pos) (Ioctl_call fd cmd arg, Error EFAULT) (l, pos)"
      unfolding fault by (rule log_call.seek_faults[where p = p]) (fact assms(3))
    ultimately show ?thesis by (rule move_stays[OF assms(1,3)])
  next
    case seek
    have "write_cmd_offset st < 2 ^ 32" using assms(4) seek by simp
    note k = ioctl_ok[OF b(1) seek(1) b(2) this, of "int p"]
    show ?thesis
    proof (cases "seek_goal l st")
      case None
      then have "aesd_unlocked_ioctl cmd arg (sys_dev sys) (int p) = (int p, Fail EINVAL)"
        unfolding seek(2) k by (auto simp: seek_goal_def Let_def split: if_splits)
      moreover have "log_call (l, pos) (Ioctl_call fd cmd arg, Error EINVAL) (l, pos)"
        unfolding seek by (rule log_call.seek_fails[where p = p]) (fact assms(3) None)+
      ultimately show ?thesis by (rule move_stays[OF assms(1,3)])
    next
      case (Some q)
      then have "aesd_unlocked_ioctl cmd arg (sys_dev sys) (int p) = (int q, Ret 0)"
        unfolding seek(2) k by (auto simp: seek_goal_def Let_def split: if_splits)
      moreover have "q \<le> 2 * used" using seek_goal_bound[OF Some] b(6) by simp
      moreover have "log_call (l, pos) (Ioctl_call fd cmd arg, Value 0) (l, pos(fd \<mapsto> q))"
        unfolding seek by (rule log_call.seeks[where p = p]) (fact assms(3) Some)+
      ultimately show ?thesis using move_to[OF assms(1)] by blast
    qed
  qed
qed

lemma bad_descriptor_refines:
  assumes "sys_rep used sys (l, pos)" "sys_call (aesd_fops alloc) c sys = Some (sys, Bad_descriptor)"
    "pos (call_fd c) = None \<and> (\<forall>fd. c \<noteq> Open_call fd) \<or> pos (call_fd c) \<noteq> None \<and> c = Open_call (call_fd c)"
  shows "\<exists>s' r a'. sys_call (aesd_fops alloc) c sys = Some (s', r) \<and> log_call (l, pos) (c, r) a' \<and> sys_rep used s' a'"
  using assms(1,2) log_call.bad[of pos c l, OF assms(3)] by blast

lemma open_refines:
  assumes "sys_rep used sys (l, pos)" "pos fd = None"
  shows "\<exists>s' r a'. sys_call (aesd_fops alloc) (Open_call fd) sys = Some (s', r) \<and>
    log_call (l, pos) (Open_call fd, r) a' \<and> sys_rep used s' a'"
proof -
  have "sys_call (aesd_fops alloc) (Open_call fd) sys = Some (sys\<lparr>sys_pos := (sys_pos sys)(fd \<mapsto> int 0)\<rparr>, Value (int fd))"
    using assms by (simp add: sys_call_def sys_rep_def aesd_fops_def aesd_open_def)
  moreover have "log_call (l, pos) (Open_call fd, Value (int fd)) (l, pos(fd \<mapsto> 0))"
    by (intro log_call.opened assms(2))
  ultimately show ?thesis using sys_rep_move[OF assms(1), of 0 fd] by blast
qed

lemma close_refines:
  assumes "sys_rep used sys (l, pos)" "pos fd = Some p"
  shows "\<exists>s' r a'. file_call (aesd_fops alloc) (int p) (Close_call fd) sys = Some (s', r) \<and>
    log_call (l, pos) (Close_call fd, r) a' \<and> sys_rep used s' a'"
proof -
  have "log_call (l, pos) (Close_call fd, Value 0) (l, pos(fd := None))"
    by (intro log_call.closed[where p = p] assms(2))
  moreover have "sys_rep used (sys\<lparr>sys_dev := fst (aesd_release (sys_dev sys)), sys_pos := (sys_pos sys)(fd := None)\<rparr>)
      (l, pos(fd := None))"
    using assms(1) by (auto simp: sys_rep_def fun_eq_iff aesd_release_def)
  ultimately show ?thesis unfolding file_call.simps aesd_fops_def file_operations.simps by blast
qed

lemma sys_call_refines:
  assumes "sys_rep used sys (l, pos)" "call_ok c" "fresh_alloc alloc" "used + call_cost c < 2 ^ 61"
  shows "\<exists>s' r a'. sys_call (aesd_fops alloc) c sys = Some (s', r) \<and> log_call (l, pos) (c, r) a' \<and>
    sys_rep (used + call_cost c) s' a'"
proof (cases "pos (call_fd c)")
  case None
  then have n: "sys_pos sys (call_fd c) = None" using assms(1) by (simp add: sys_rep_def)
  show ?thesis
  proof (cases "\<exists>fd. c = Open_call fd")
    case True
    then show ?thesis using open_refines[OF assms(1)] None by auto
  next
    case False
    then have "sys_call (aesd_fops alloc) c sys = Some (sys, Bad_descriptor)"
      using n by (cases c) (simp_all add: sys_call_def)
    from bad_descriptor_refines[OF assms(1) this] None False obtain s' r a' where
      "sys_call (aesd_fops alloc) c sys = Some (s', r)" "log_call (l, pos) (c, r) a'" "sys_rep used s' a'" by blast
    moreover have "sys_rep (used + call_cost c) s' a'"
      using \<open>sys_rep used s' a'\<close> by (fastforce simp: sys_rep_def)
    ultimately show ?thesis by blast
  qed
next
  case (Some p)
  have u: "used < 2 ^ 61" using assms(4) by simp
  have c: "sys_call (aesd_fops alloc) c sys = file_call (aesd_fops alloc) (int p) c sys"
    using Some assms(1) by (simp add: sys_call_def sys_rep_def)
  show ?thesis
  proof (cases c)
    case (Open_call fd)
    then have "sys_call (aesd_fops alloc) c sys = Some (sys, Bad_descriptor)" using c by simp
    from bad_descriptor_refines[OF assms(1) this] Some Open_call show ?thesis by simp
  next
    case (Close_call fd)
    then show ?thesis using close_refines[OF assms(1), of fd p] Some c by simp
  next
    case (Read_call fd room count)
    then show ?thesis using sys_read_refines[OF assms(1) u, of fd p] Some c by simp
  next
    case (Write_call fd fault src)
    then show ?thesis using sys_write_refines[OF assms(1) _ assms(3) refl, of fd p src fault] Some c assms(4) by simp
  next
    case (Lseek_call fd off whence)
    then show ?thesis
      using lseek_refines[OF assms(1) u, of fd p off whence] Some c assms(2) by (simp add: aesd_fops_def)
  next
    case (Ioctl_call fd cmd arg)
    then show ?thesis
      using ioctl_refines[OF assms(1) u, of fd p cmd arg] Some c assms(2) by (simp add: aesd_fops_def)
  qed
qed

text \<open>A call together with what the allocator answers during it.\<close>

type_synonym env_call = "allocator \<times> call"

definition env_exec :: "env_call \<Rightarrow> aesd_state system \<Rightarrow> (aesd_state system \<times> answer) option" where
  "env_exec c = sys_call (aesd_fops (fst c)) (snd c)"

definition env_ok :: "env_call \<Rightarrow> bool" where
  "env_ok c \<longleftrightarrow> fresh_alloc (fst c) \<and> call_ok (snd c)"

definition env_log_call :: "log_device \<Rightarrow> env_call \<times> answer \<Rightarrow> log_device \<Rightarrow> bool" where
  "env_log_call a l a' \<longleftrightarrow> log_call a (snd (fst l), snd l) a'"

interpretation aesd_sys: call_refinement env_exec env_log_call sys_rep "call_cost \<circ> snd" env_ok "2 ^ 61"
proof
  fix used s a c
  assume "sys_rep used s a" "env_ok c" "used + (call_cost \<circ> snd) c < 2 ^ 61"
  then show "\<exists>s' r a'. env_exec c s = Some (s', r) \<and> env_log_call a (c, r) a' \<and> sys_rep (used + (call_cost \<circ> snd) c) s' a'"
    using sys_call_refines[of used s "fst a" "snd a" "snd c" "fst c"]
    by (simp add: env_exec_def env_ok_def env_log_call_def)
qed

lemma run_env_log_call:
  "run env_log_call a ls a' \<Longrightarrow> run log_call a (map (\<lambda>l. (snd (fst l), snd l)) ls) a'"
  by (induction rule: run.induct) (auto simp: env_log_call_def intro: run.intros)

lemma map_zip_snd: "map (\<lambda>l. (snd (fst l), snd l)) (zip cs rs) = zip (map snd cs) rs"
  by (induction cs rs rule: list_induct2') auto

definition loaded_system :: "aesd_module \<Rightarrow> aesd_state system" where
  "loaded_system m = \<lparr>sys_dev = dev_state (fst (aesd_init_module 0 0 m)), sys_pos = Map.empty\<rparr>"

lemma sys_rep_loaded: "kheap (dev_state m) = Map.empty \<Longrightarrow> sys_rep 0 (loaded_system m) (([], []), Map.empty)"
  using init_ok[of m 0 0] by (simp add: sys_rep_def loaded_system_def log_size_def log_bytes_def fun_eq_iff)

text \<open>C1. Any number of programs may open, read, write, seek and close the loaded device, in any order, with
  good and bad descriptors, faulting buffers and failing allocations: every call returns, and all their answers
  together are a behaviour of the device of the assignment, a log of the last ten commands with a position per
  descriptor. At the end the module can be unloaded and frees every block once.\<close>

theorem aesd_system_refines_log:
  assumes "kheap (dev_state m) = Map.empty" "list_all env_ok cs"
    and "sum_list (map (call_cost \<circ> snd) cs) < 2 ^ 61"
  shows "\<exists>rs sys a. exec_calls env_exec cs (loaded_system m) = Some (rs, sys) \<and> length rs = length cs \<and>
    run log_call (([], []), Map.empty) (zip (map snd cs) rs) a \<and> aesd_rep (sys_dev sys) (fst a) \<and>
    (\<exists>m'. aesd_cleanup_module (m\<lparr>dev_state := sys_dev sys\<rparr>) = Some m' \<and> kheap (dev_state m') = Map.empty)"
proof -
  obtain rs sys a where r: "exec_calls env_exec cs (loaded_system m) = Some (rs, sys)" "length rs = length cs"
    "run env_log_call (([], []), Map.empty) (zip cs rs) a" "sys_rep (0 + sum_list (map (call_cost \<circ> snd) cs)) sys a"
    using aesd_sys.calls_refine[OF sys_rep_loaded[OF assms(1)] assms(2)] assms(3) by auto
  have rep: "aesd_rep (sys_dev sys) (fst a)" using r(4) by (simp add: sys_rep_def)
  then have "aesd_rep (dev_state (m\<lparr>dev_state := sys_dev sys\<rparr>)) (fst a)" by simp
  from cleanup_ok[OF this] obtain m' where
    "aesd_cleanup_module (m\<lparr>dev_state := sys_dev sys\<rparr>) = Some m'" "kheap (dev_state m') = Map.empty" by blast
  then show ?thesis using r(1,2) rep run_env_log_call[OF r(3)] unfolding map_zip_snd by blast
qed

text \<open>Two programs: one writes a line, the other reads it.\<close>

definition demo_calls :: "env_call list" where
  "demo_calls = map (Pair first_free) [Open_call 3, Open_call 4, Write_call 3 False [104, 105, 10],
     Read_call 4 8 8, Lseek_call 4 (- 1) 2, Read_call 4 8 8, Close_call 3, Write_call 3 False [33]]"

theorem aesd_system_refines_log_witness:
  "\<exists>rs sys a. exec_calls env_exec demo_calls (loaded_system demo_module) = Some (rs, sys) \<and>
    run log_call (([], []), Map.empty) (zip (map snd demo_calls) rs) a"
proof -
  have "kheap (dev_state demo_module) = Map.empty" by (simp add: demo_module_def)
  moreover have "list_all env_ok demo_calls"
    by (simp add: demo_calls_def env_ok_def fresh_first_free)
  moreover have "sum_list (map (call_cost \<circ> snd) demo_calls) < 2 ^ 61"
    by (simp add: demo_calls_def code_consts)
  ultimately show ?thesis using aesd_system_refines_log[of demo_module demo_calls] by blast
qed

end
