(* ===== verification/Aesd_Socket.thy ===== *)
theory Aesd_Socket
  imports Aesd_Driver_Props
begin

section \<open>The aesdsocket server\<close>

text \<open>
  \<open>server/aesdsocket.c\<close> and the copy of it that the Yocto layer builds, in the configuration
  of the sources (\<open>USE_AESD_CHAR_DEVICE\<close> is 1): a server that appends each message it
  receives to the aesdchar device and sends back what it then reads. The device is the model
  of the driver; the network is an argument: the chunks \<open>recv\<close> delivers, the answers of
  \<open>send\<close>, and the results of the calls that set up the socket.
\<close>

subsection \<open>Receiving a message\<close>

definition RECV_BUF :: nat where [code_consts]: "RECV_BUF = 1024"
definition FULL_BUF :: nat where [code_consts]: "FULL_BUF = 2048"

text \<open>
  The chunks are the answers of \<open>recv\<close>, none longer than its buffer; an empty chunk is the
  end of the connection or an error, as is the end of the list. The result is what the
  message buffer holds.
\<close>

fun recv_loop :: "byte list list \<Rightarrow> byte list \<Rightarrow> byte list" where
  "recv_loop [] full_buf = full_buf"
| "recv_loop (buf # rest) full_buf =
     (if buf = [] then full_buf
      else
        (let full_buf' = (if length full_buf + length buf < FULL_BUF then full_buf @ buf else full_buf)
         in if 10 \<in> set buf then full_buf' else recv_loop rest full_buf'))"

definition ensure_newline :: "byte list \<Rightarrow> byte list" where
  "ensure_newline m = (if m \<noteq> [] \<and> last m \<noteq> 10 then m @ [10] else m)"

definition receive_message :: "byte list list \<Rightarrow> byte list" where
  "receive_message chunks = ensure_newline (recv_loop chunks [])"

subsection \<open>Recognising the seek command\<close>

definition bytes_of :: "string \<Rightarrow> byte list" where
  "bytes_of s = map (\<lambda>c. word_of_nat (of_char c)) s"

definition IOCTL_PREFIX :: "byte list" where
  "IOCTL_PREFIX = bytes_of ''AESDCHAR_IOCSEEKTO:''"

text \<open>\<open>strncmp\<close> against the prefix; the rest of the buffer is 0.\<close>

definition has_prefix :: "byte list \<Rightarrow> bool" where
  "has_prefix m \<longleftrightarrow> take (length IOCTL_PREFIX) m = IOCTL_PREFIX"

definition is_digit :: "byte \<Rightarrow> bool" where
  "is_digit b \<longleftrightarrow> 48 \<le> uint b \<and> uint b \<le> 57"

definition is_space :: "byte \<Rightarrow> bool" where
  "is_space b \<longleftrightarrow> uint b = 32 \<or> 9 \<le> uint b \<and> uint b \<le> 13"

fun scan_digits :: "int \<Rightarrow> byte list \<Rightarrow> int \<times> byte list" where
  "scan_digits n [] = (n, [])"
| "scan_digits n (b # bs) = (if is_digit b then scan_digits (10 * n + (uint b - 48)) bs else (n, b # bs))"

text \<open>
  The conversion \<open>%u\<close>: white space, an optional sign, digits; a number that does not fit
  an \<open>unsigned long\<close> becomes the largest one, and the low 32 bits are stored.
\<close>

definition store_u :: "bool \<Rightarrow> int \<Rightarrow> nat" where
  "store_u neg n = nat (u32 (if 2 ^ 64 \<le> n then 2 ^ 64 - 1 else if neg then u64 (- n) else n))"

definition scan_u :: "byte list \<Rightarrow> (nat \<times> byte list) option" where
  "scan_u bs =
     (let bs1 = dropWhile is_space bs;
          (neg, bs2) = (case bs1 of
              [] \<Rightarrow> (False, [])
            | c # r \<Rightarrow> if uint c = 45 then (True, r) else if uint c = 43 then (False, r) else (False, bs1))
      in if bs2 = [] \<or> \<not> is_digit (hd bs2) then None
         else (case scan_digits 0 bs2 of (n, r) \<Rightarrow> Some (store_u neg n, r)))"

text \<open>
  \<open>sscanf\<close> with the format \<open>%u,%u\<close>, when it converts both numbers. A message that fills the whole
  buffer is followed by no zero; what happens then is in \<open>Aesd_Server\<close> (\<open>overreads\<close>).
\<close>

definition scan_seekto :: "byte list \<Rightarrow> aesd_seekto option" where
  "scan_seekto bs = do {
     (a, r) \<leftarrow> scan_u (takeWhile (\<lambda>b. b \<noteq> 0) bs);
     r' \<leftarrow> (case r of c # r' \<Rightarrow> if uint c = 44 then Some r' else None | [] \<Rightarrow> None);
     (b, _) \<leftarrow> scan_u r';
     Some \<lparr>write_cmd = a, write_cmd_offset = b\<rparr> }"

subsection \<open>Talking to the device\<close>

text \<open>Both loops may run forever when the device misbehaves; then there is no value.\<close>

partial_function (option) server_write_loop ::
  "allocator \<Rightarrow> byte list \<Rightarrow> nat \<Rightarrow> aesd_state \<Rightarrow> int \<Rightarrow> (aesd_state \<times> int) option" where
  "server_write_loop alloc m written_total s f_pos =
     (if written_total < length m then
        (case aesd_write alloc False (drop written_total m) s f_pos of
           None \<Rightarrow> None
         | Some (s', f', r) \<Rightarrow>
             (case r of
                Ret written \<Rightarrow> server_write_loop alloc m (written_total + written) s' f'
              | _ \<Rightarrow> Some (s', f')))
      else Some (s, f_pos))"

text \<open>
  The inner loop of the reply. The answers of \<open>send\<close> are the numbers of bytes taken, -1 for
  an error; a peer without further answers takes everything.
\<close>

fun send_loop :: "int list \<Rightarrow> 'a list \<Rightarrow> 'a list \<times> int list" where
  "send_loop sends [] = ([], sends)"
| "send_loop [] bs = (bs, [])"
| "send_loop (n # sends) bs =
     (if n < 0 then ([], sends)
      else (case send_loop sends (drop (nat n) bs) of (out, rest) \<Rightarrow> (take (nat n) bs @ out, rest)))"

partial_function (option) server_read_loop ::
  "aesd_state \<Rightarrow> int \<Rightarrow> int list \<Rightarrow> cell list \<Rightarrow> cell list option" where
  "server_read_loop s f_pos sends sent =
     (case aesd_read RECV_BUF RECV_BUF s f_pos of
        None \<Rightarrow> None
      | Some (f', r) \<Rightarrow>
          (case r of
             Ret bs \<Rightarrow>
               if bs = [] then Some sent
               else server_read_loop s f' (snd (send_loop sends bs)) (sent @ fst (send_loop sends bs))
           | _ \<Rightarrow> Some sent))"

subsection \<open>A connection\<close>

text \<open>What the peer gets, the device afterwards and whether the thread is marked completed.\<close>

record session =
  s_sent :: "cell list"
  s_device :: aesd_state
  bThreadCompleted :: bool

text \<open>
  The request on a freshly opened descriptor: the position afterwards, and whether the
  message was a plain write.
\<close>

definition server_request ::
  "allocator \<Rightarrow> byte list \<Rightarrow> aesd_state \<Rightarrow> (aesd_state \<times> int \<times> bool) option" where
  "server_request alloc m s =
     (if has_prefix m then
        (case scan_seekto (drop (length IOCTL_PREFIX) m) of
           None \<Rightarrow> Some (s, 0, False)
         | Some st \<Rightarrow>
             Some (s, fst (aesd_unlocked_ioctl AESDCHAR_IOCSEEKTO (Some st) s 0), False))
      else do {
        (s', f) \<leftarrow> server_write_loop alloc m 0 s 0;
        Some (s', f, True) })"

text \<open>\<open>server/aesdsocket.c\<close>: the reply starts where the request left the position.\<close>

definition threadfunc ::
  "allocator \<Rightarrow> byte list list \<Rightarrow> bool \<Rightarrow> int list \<Rightarrow> aesd_state \<Rightarrow> session option" where
  "threadfunc alloc chunks open_ok sends s =
     (let m = receive_message chunks in
      if \<not> open_ok then Some \<lparr>s_sent = [], s_device = s, bThreadCompleted = False\<rparr>
      else do {
        (s', f, _) \<leftarrow> server_request alloc m s;
        sent \<leftarrow> server_read_loop s' f sends [];
        Some \<lparr>s_sent = sent, s_device = s', bThreadCompleted = True\<rparr> })"

text \<open>The copy of the Yocto layer: after a write the device is opened again.\<close>

definition threadfunc_reopen ::
  "allocator \<Rightarrow> byte list list \<Rightarrow> bool \<Rightarrow> bool \<Rightarrow> int list \<Rightarrow> aesd_state \<Rightarrow> session option" where
  "threadfunc_reopen alloc chunks open_ok reopen_ok sends s =
     (let m = receive_message chunks in
      if \<not> open_ok then Some \<lparr>s_sent = [], s_device = s, bThreadCompleted = False\<rparr>
      else do {
        (s', f, plain) \<leftarrow> server_request alloc m s;
        (if plain \<and> \<not> reopen_ok
         then Some \<lparr>s_sent = [], s_device = s', bThreadCompleted = False\<rparr>
         else do {
           sent \<leftarrow> server_read_loop s' (if plain then 0 else f) sends [];
           Some \<lparr>s_sent = sent, s_device = s', bThreadCompleted = True\<rparr> }) })"

subsection \<open>Setting up\<close>

text \<open>What the process holds, and the results of the calls in the order of \<open>main\<close>.\<close>

record server_resources =
  servinfo_live :: bool
  sockfd_open :: bool
  listening :: bool

record setup_results =
  sigaction_int_ok :: bool
  sigaction_term_ok :: bool
  getaddrinfo_ok :: bool
  socket_ok :: bool
  setsockopt_ok :: bool
  bind_ok :: bool
  daemon_ok :: bool
  listen_ok :: bool

text \<open>The exit status, if the setup fails, and the resources held then.\<close>

definition server_setup :: "bool \<Rightarrow> setup_results \<Rightarrow> int option \<times> server_resources" where
  "server_setup run_as_daemon r =
     (let r0 = \<lparr>servinfo_live = False, sockfd_open = False, listening = False\<rparr> in
      if \<not> sigaction_int_ok r then (Some (- 1), r0)
      else if \<not> sigaction_term_ok r then (Some (- 1), r0)
      else if \<not> getaddrinfo_ok r then (Some (- 1), r0)
      else
        (let r1 = r0\<lparr>servinfo_live := True\<rparr> in
         if \<not> socket_ok r then (Some (- 1), r1\<lparr>servinfo_live := False\<rparr>)
         else
           (let r2 = r1\<lparr>sockfd_open := True\<rparr> in
            if \<not> setsockopt_ok r then (Some (- 1), r2\<lparr>sockfd_open := False, servinfo_live := False\<rparr>)
            else if \<not> bind_ok r then (Some (- 1), r2\<lparr>sockfd_open := False, servinfo_live := False\<rparr>)
            else
              (let r3 = r2\<lparr>servinfo_live := False\<rparr> in
               if run_as_daemon \<and> \<not> daemon_ok r then (Some 1, r3)
               else if \<not> listen_ok r then (Some (- 1), r3\<lparr>sockfd_open := False\<rparr>)
               else (None, r3\<lparr>listening := True\<rparr>)))))"

subsection \<open>The list of threads\<close>

text \<open>
  An element of the list: the address of the block, the descriptor it serves (the kernel uses
  descriptor numbers again) and whether \<open>pthread_create\<close> made a thread. \<open>completed\<close> tells
  at which addresses the thread has set its flag; the heap holds the addresses of the live blocks.
\<close>

record thread_data =
  th_addr :: nat
  new_fd :: nat
  created :: bool

record server_state =
  th_list :: "thread_data list"
  th_heap :: "nat list"
  caught_sig :: bool

definition signal_handler :: "int \<Rightarrow> server_state \<Rightarrow> server_state" where
  "signal_handler signal_number st =
     (if signal_number = 2 \<or> signal_number = 15 then st\<lparr>caught_sig := True\<rparr> else st)"

text \<open>\<open>pthread_join\<close> needs a thread. A free of data that is not allocated is undefined.\<close>

definition join_and_free :: "thread_data \<Rightarrow> server_state \<Rightarrow> server_state option" where
  "join_and_free d st =
     (if \<not> created d \<or> th_addr d \<notin> set (th_heap st) \<or> d \<notin> set (th_list st) then None
      else Some (st\<lparr>th_list := remove1 d (th_list st), th_heap := remove1 (th_addr d) (th_heap st)\<rparr>))"

text \<open>The walk over the list as it was at its start.\<close>

fun reap_loop :: "(nat \<Rightarrow> bool) \<Rightarrow> thread_data list \<Rightarrow> server_state \<Rightarrow> server_state option" where
  "reap_loop completed [] st = Some st"
| "reap_loop completed (d # l) st =
     (if completed (th_addr d) then do {
        st' \<leftarrow> join_and_free d st;
        reap_loop completed l st' }
      else reap_loop completed l st)"

text \<open>
  One iteration of the accept loop: \<open>fd\<close> is the accepted connection (\<open>None\<close> for an error),
  \<open>th_data\<close> what \<open>malloc\<close> returns and \<open>create_ok\<close> the answer of \<open>pthread_create\<close>.
\<close>

definition accept_iteration ::
  "nat option \<Rightarrow> nat option \<Rightarrow> bool \<Rightarrow> (nat \<Rightarrow> bool) \<Rightarrow> server_state \<Rightarrow> server_state option" where
  "accept_iteration fd th_data create_ok completed st =
     (case fd of
        None \<Rightarrow> Some st
      | Some n \<Rightarrow>
          (case th_data of
             None \<Rightarrow> Some st
           | Some p \<Rightarrow>
               (let d = \<lparr>th_addr = p, new_fd = n, created = create_ok\<rparr>;
                    st1 = st\<lparr>th_list := d # th_list st, th_heap := p # th_heap st\<rparr>
                in reap_loop completed (th_list st1) st1)))"

text \<open>
  The end of \<open>main\<close>: every remaining thread is joined in the order of the list. \<open>ends\<close> tells at which addresses the thread
  returns at some time; at the first one that does not, \<open>main\<close> waits for ever (\<open>False\<close>).
\<close>

fun join_rest :: "(nat \<Rightarrow> bool) \<Rightarrow> thread_data list \<Rightarrow> server_state \<Rightarrow> (bool \<times> server_state) option" where
  "join_rest ends [] st = Some (True, st)"
| "join_rest ends (d # l) st =
     (if created d \<and> \<not> ends (th_addr d) then Some (False, st)
      else do {
        st' \<leftarrow> join_and_free d st;
        join_rest ends l st' })"

definition server_shutdown :: "(nat \<Rightarrow> bool) \<Rightarrow> server_state \<Rightarrow> (bool \<times> server_state) option" where
  "server_shutdown ends st = join_rest ends (th_list st) st"

end
