(* ===== verification/Aesd_Socket_Props.thy ===== *)
theory Aesd_Socket_Props
  imports Aesd_Socket
begin

section \<open>Correctness of the server\<close>

text \<open>
  Receiving, a whole connection against the abstract device, the bookkeeping of threads and
  the cleanup of a failing start.
\<close>

subsection \<open>Receiving\<close>

text \<open>The chunks up to the first one with a newline.\<close>

fun message_chunks :: "byte list list \<Rightarrow> byte list list" where
  "message_chunks [] = []"
| "message_chunks (c # cs) = (if c = [] then [] else if 10 \<in> set c then [c] else c # message_chunks cs)"

lemma recv_loop_concat:
  "length acc + length (concat (message_chunks cs)) < FULL_BUF \<Longrightarrow>
    recv_loop cs acc = acc @ concat (message_chunks cs)"
  by (induction cs acc rule: recv_loop.induct) (auto simp: Let_def split: if_splits)

lemma recv_loop_length: "length acc < FULL_BUF \<Longrightarrow> length (recv_loop cs acc) < FULL_BUF"
  by (induction cs acc rule: recv_loop.induct) (auto simp: Let_def)

lemma ensure_newline_ends: "m \<noteq> [] \<Longrightarrow> 10 \<in> set (ensure_newline m)"
proof (cases "last m = 10")
  case True
  assume "m \<noteq> []"
  then have "last m \<in> set m" by (rule last_in_set)
  then show ?thesis using True by (simp add: ensure_newline_def)
qed (simp add: ensure_newline_def)

lemma receive_message_correct_len: "length (receive_message cs) \<le> FULL_BUF"
proof -
  have "length (recv_loop cs []) < FULL_BUF" by (rule recv_loop_length) (simp add: code_consts)
  moreover have "length (ensure_newline m) \<le> Suc (length m)" for m
    by (simp add: ensure_newline_def)
  ultimately show ?thesis
    unfolding receive_message_def using le_trans Suc_leI by blast
qed

lemma receive_message_correct_newline: "receive_message cs \<noteq> [] \<Longrightarrow> 10 \<in> set (receive_message cs)"
  using ensure_newline_ends[of "recv_loop cs []"]
  by (cases "recv_loop cs [] = []") (simp_all add: receive_message_def, simp add: ensure_newline_def)

text \<open>C29. The message never outgrows its buffer, the appended newline included; it is empty or
  contains a newline; and a message that fits is received whole, whatever the
  sizes of the chunks it arrives in.\<close>

theorem receive_message_correct:
  "length (receive_message cs) \<le> FULL_BUF \<and>
   (receive_message cs \<noteq> [] \<longrightarrow> 10 \<in> set (receive_message cs)) \<and>
   (length (concat (message_chunks cs)) < FULL_BUF \<longrightarrow>
      receive_message cs = ensure_newline (concat (message_chunks cs)))"
  using receive_message_correct_len receive_message_correct_newline recv_loop_concat[of "[]" cs]
  by (simp add: receive_message_def)

theorem receive_message_correct_witness:
  "receive_message [[104, 105], [10, 33], [34]] = [104, 105, 10, 33, 10]"
proof -
  have "length (concat (message_chunks [[104, 105], [10, 33], [34]])) < FULL_BUF"
    "ensure_newline (concat (message_chunks [[104, 105], [10, 33], [34]])) = [104, 105, 10, 33, 10]"
    by code_simp+
  with receive_message_correct[of "[[104, 105], [10, 33], [34]]"] show ?thesis by simp
qed

subsection \<open>The loops over the device\<close>

lemma write_loop_ok:
  assumes rep: "aesd_rep s l" and alloc: "fresh_alloc alloc" and m: "m \<noteq> []"
  shows "case write_fails alloc False m s of
      Some err \<Rightarrow> server_write_loop alloc m 0 s 0 = Some (s, 0)
    | None \<Rightarrow> (\<exists>s'. server_write_loop alloc m 0 s 0 = Some (s', s64 (int (length m)))
        \<and> aesd_rep s' (log_write m l))"
proof -
  have l: "0 < length m" using m by simp
  show ?thesis
  proof (cases "write_fails alloc False m s")
    case None
    then obtain s' where w: "aesd_write alloc False m s 0 = Some (s', s64 (int (length m)), Ret (length m))"
      "aesd_rep s' (log_write m l)"
      using aesd_write_cases[OF rep alloc, of False m 0] by auto
    have "server_write_loop alloc m 0 s 0 = server_write_loop alloc m (length m) s' (s64 (int (length m)))"
      using l w(1) by (subst server_write_loop.simps) simp
    also have "\<dots> = Some (s', s64 (int (length m)))"
      by (subst server_write_loop.simps) simp
    finally show ?thesis using w(2) None by auto
  next
    case (Some err)
    then have "aesd_write alloc False m s 0 = Some (s, 0, Fail err)"
      using aesd_write_cases[OF rep alloc, of False m 0] by auto
    then have "server_write_loop alloc m 0 s 0 = Some (s, 0)"
      using l by (subst server_write_loop.simps) simp
    then show ?thesis using Some by simp
  qed
qed

lemma aesd_read_answer:
  assumes "aesd_ready s" "pos \<le> length (aesd_bytes s)"
  shows "aesd_read n n s (int pos) = Some (int (pos + length (aesd_answer s pos n)),
    Ret (map Some (aesd_answer s pos n)))"
proof -
  obtain l where l: "aesd_rep s l" using assms by (auto simp: aesd_ready_def)
  have "length (log_bytes l) < 2 ^ 62" "int pos < 2 ^ 62"
    using assms by (auto simp: aesd_ready_def aesd_bytes_rep[OF l])
  from aesd_read_ok[OF l this(1) order_refl _ this(2), of n] show ?thesis
    using aesd_answer_ok[OF assms, of n] by (simp add: Let_def aesd_bytes_rep[OF l])
qed

text \<open>With a peer that takes everything the loop is the generic reader of a device.\<close>

lemma read_loop_read_all:
  "aesd_ready s \<Longrightarrow> pos \<le> length (aesd_bytes s) \<Longrightarrow>
    read_all (aesd_answer s) fuel pos RECV_BUF = Some xs \<Longrightarrow>
    server_read_loop s (int pos) [] acc = Some (acc @ map Some xs)"
proof (induction fuel arbitrary: pos acc xs)
  case 0
  then show ?case by simp
next
  case (Suc fuel)
  let ?a = "aesd_answer s pos RECV_BUF"
  have rd: "aesd_read RECV_BUF RECV_BUF s (int pos) = Some (int (pos + length ?a), Ret (map Some ?a))"
    by (rule aesd_read_answer[OF Suc.prems(1,2)])
  show ?case
  proof (cases "?a = []")
    case True
    then show ?thesis using rd Suc.prems(3) by (subst server_read_loop.simps) (simp add: Let_def)
  next
    case False
    then obtain ys where ys: "read_all (aesd_answer s) fuel (pos + length ?a) RECV_BUF = Some ys"
      "xs = ?a @ ys"
      using Suc.prems(3) by (auto simp: Let_def)
    have "pos + length ?a \<le> length (aesd_bytes s)"
      using aesd_dev.rd_within[OF Suc.prems(1,2)] by simp
    note IH = Suc.IH[OF Suc.prems(1) this ys(1), of "acc @ map Some ?a"]
    have send: "send_loop [] (map Some ?a) = (map Some ?a, [])"
      using False by (cases ?a) auto
    have "server_read_loop s (int pos) [] acc =
        server_read_loop s (int (pos + length ?a)) [] (acc @ map Some ?a)"
      by (subst server_read_loop.simps) (simp add: rd False send)
    then show ?thesis unfolding IH by (simp add: ys(2))
  qed
qed

lemma read_loop_ok:
  assumes "aesd_ready s" "pos \<le> length (aesd_bytes s)"
  shows "server_read_loop s (int pos) [] [] = Some (map Some (drop pos (aesd_bytes s)))"
  using read_loop_read_all[OF assms aesd_dev.read_all_content[OF assms(1) _ assms(2) lessI], of "[]"]
  by (simp add: code_consts)

subsection \<open>Connections\<close>

lemma log_write_contains: "10 \<in> set m \<Longrightarrow> length m \<le> length (log_bytes (log_write m l))"
proof -
  assume "10 \<in> set m"
  moreover obtain cmds pend where "l = (cmds, pend)" by (cases l)
  moreover have "take_last 10 (cmds @ [pend @ m]) = drop (length cmds - 9) cmds @ [pend @ m]"
    by (simp add: take_last_def)
  ultimately show ?thesis by (simp add: log_write_def log_bytes_def)
qed

lemma plain_request:
  assumes "aesd_rep s l" "fresh_alloc alloc" "m \<noteq> []" "\<not> has_prefix m" "length m \<le> FULL_BUF"
    and "write_fails alloc False m s = None"
  shows "\<exists>s'. server_request alloc m s = Some (s', int (length m), True) \<and>
    aesd_rep s' (log_write m l)"
proof -
  obtain s' where "server_write_loop alloc m 0 s 0 = Some (s', s64 (int (length m)))"
    "aesd_rep s' (log_write m l)"
    using write_loop_ok[OF assms(1-3)] assms(6) by auto
  moreover have "s64 (int (length m)) = int (length m)"
    using assms(5) by (simp add: code_consts)
  ultimately show ?thesis using assms(4) by (simp add: server_request_def)
qed

lemma ready_rep: "aesd_rep s l \<Longrightarrow> length (log_bytes l) < 2 ^ 62 \<Longrightarrow>
    aesd_ready s \<and> aesd_bytes s = log_bytes l"
  unfolding aesd_ready_def using aesd_bytes_rep[of s l]
  by (intro conjI exI[of _ l]) simp_all

text \<open>The Yocto build of the server answers a message that is not a seek command with all
  commands the device then holds, whole and in order, this message as the last of
  them, and the thread is marked completed.\<close>

lemma threadfunc_reopen_reply:
  assumes "aesd_rep s l" "fresh_alloc alloc"
    and "receive_message chunks = m" "m \<noteq> []" "\<not> has_prefix m"
    and "write_fails alloc False m s = None" "length (log_bytes (log_write m l)) < 2 ^ 62"
  shows "\<exists>s'. threadfunc_reopen alloc chunks True True [] s =
      Some \<lparr>s_sent = map Some (log_bytes (log_write m l)), s_device = s', bThreadCompleted = True\<rparr> \<and>
    aesd_rep s' (log_write m l)"
proof -
  have "length m \<le> FULL_BUF" using receive_message_correct_len[of chunks] assms(3) by simp
  from plain_request[OF assms(1,2,4,5) this assms(6)] obtain s' where
    rq: "server_request alloc m s = Some (s', int (length m), True)" "aesd_rep s' (log_write m l)" by blast
  note r = ready_rep[OF rq(2) assms(7)]
  then have "server_read_loop s' (int 0) [] [] = Some (map Some (drop 0 (aesd_bytes s')))"
    by (intro read_loop_ok) auto
  then show ?thesis using rq r by (simp add: threadfunc_reopen_def assms(3) Let_def)
qed

definition hello :: "byte list" where "hello = [104, 105, 10]"

lemma hello_received: "receive_message [[104, 105], [10]] = hello" "\<not> has_prefix hello" "hello \<noteq> []"
  by code_simp+

lemma threadfunc_reopen_reply_example:
  "\<exists>s'. threadfunc_reopen first_free [[104, 105], [10]] True True [] demo_state =
    Some \<lparr>s_sent = map Some (concat (tl (tl demo_cmds)) @ [90, 104, 105, 10]), s_device = s',
      bThreadCompleted = True\<rparr>"
proof -
  have b: "log_bytes (log_write hello demo_log) = concat (tl (tl demo_cmds)) @ [90, 104, 105, 10]"
    by code_simp
  have "length (concat (tl (tl demo_cmds)) @ [90 :: byte, 104, 105, 10]) < 2 ^ 62"
    by (simp add: demo_cmds_def)
  with threadfunc_reopen_reply[OF rep_demo fresh_first_free hello_received(1,3,2)
      first_free_serves[OF rep_demo], unfolded b] show ?thesis by blast
qed

text \<open>C30. The server in the server directory does not reopen the device: its reply to
  the same message starts behind as many bytes as the message has, so that it lacks the
  beginning of the log, and the only client of a fresh device gets nothing back.\<close>

theorem threadfunc_reply_truncated:
  assumes "aesd_rep s l" "fresh_alloc alloc"
    and "receive_message chunks = m" "m \<noteq> []" "\<not> has_prefix m"
    and "write_fails alloc False m s = None" "length (log_bytes (log_write m l)) < 2 ^ 62"
  shows "\<exists>s'. threadfunc alloc chunks True [] s =
      Some \<lparr>s_sent = map Some (drop (length m) (log_bytes (log_write m l))), s_device = s',
        bThreadCompleted = True\<rparr> \<and>
    aesd_rep s' (log_write m l) \<and>
    (l = ([], []) \<longrightarrow> drop (length m) (log_bytes (log_write m l)) = [])"
proof -
  have "length m \<le> FULL_BUF" using receive_message_correct_len[of chunks] assms(3) by simp
  from plain_request[OF assms(1,2,4,5) this assms(6)] obtain s' where
    rq: "server_request alloc m s = Some (s', int (length m), True)" "aesd_rep s' (log_write m l)" by blast
  have nl: "10 \<in> set m" using receive_message_correct_newline[of chunks] assms(3,4) by simp
  note r = ready_rep[OF rq(2) assms(7)]
  have "length m \<le> length (aesd_bytes s')" using r log_write_contains[OF nl, of l] by simp
  then have "server_read_loop s' (int (length m)) [] [] = Some (map Some (drop (length m) (aesd_bytes s')))"
    using r by (intro read_loop_ok) auto
  moreover have "l = ([], []) \<Longrightarrow> drop (length m) (log_bytes (log_write m l)) = []"
    using nl by (simp add: log_write_def log_bytes_def)
  ultimately show ?thesis using rq r by (simp add: threadfunc_def assms(3) Let_def)
qed

theorem threadfunc_reply_truncated_witness:
  "\<exists>s'. threadfunc first_free [[104, 105], [10]] True [] (dev_state demo_module) =
    Some \<lparr>s_sent = [], s_device = s', bThreadCompleted = True\<rparr>"
proof -
  have b: "log_bytes (log_write hello ([], [])) = [104, 105, 10]" by code_simp
  have "length [104 :: byte, 105, 10] < 2 ^ 62" by simp
  with threadfunc_reply_truncated[OF rep_demo_module fresh_first_free hello_received(1,3,2)
      first_free_serves[OF rep_demo_module], unfolded b] show ?thesis
    by (auto simp: hello_def)
qed

lemma store_u_u32: "store_u neg n < 2 ^ 32"
  using u32_bounds by (simp add: store_u_def nat_less_iff)

lemma scan_u_u32: "scan_u bs = Some (a, r) \<Longrightarrow> a < 2 ^ 32"
  unfolding scan_u_def Let_def split_def using store_u_u32 by (auto split: if_splits)

lemma scan_seekto_u32: "scan_seekto bs = Some st \<Longrightarrow> write_cmd st < 2 ^ 32 \<and> write_cmd_offset st < 2 ^ 32"
  unfolding scan_seekto_def by (auto simp: Option.bind_eq_Some_conv dest: scan_u_u32 simp del: power_numeral)

text \<open>A seek command whose numbers name a byte of a held command is answered, by either
  build, with the log from that byte on, and changes nothing in the device.\<close>

lemma threadfunc_seek_reply:
  assumes "aesd_rep s l" "length (log_bytes l) < 2 ^ 62"
    and "receive_message chunks = m" "has_prefix m"
    and "scan_seekto (drop (length IOCTL_PREFIX) m) = Some st"
    and "write_cmd st < length (fst l)" "write_cmd_offset st < length (fst l ! write_cmd st)"
  shows "threadfunc alloc chunks True [] s =
      Some \<lparr>s_sent = map Some (drop (length (concat (take (write_cmd st) (fst l))) + write_cmd_offset st)
          (log_bytes l)), s_device = s, bThreadCompleted = True\<rparr> \<and>
    threadfunc_reopen alloc chunks True ok [] s = threadfunc alloc chunks True [] s"
proof -
  let ?w = "write_cmd st" and ?o = "write_cmd_offset st"
  let ?p = "length (concat (take ?w (fst l))) + ?o"
  have "fst (aesd_unlocked_ioctl AESDCHAR_IOCSEEKTO (Some st) s 0) = int ?p"
    using ioctl_ok[OF assms(1) refl assms(2)] scan_seekto_u32[OF assms(5)] assms(6,7) by simp
  then have rq: "server_request alloc m s = Some (s, int ?p, False)"
    using assms(4,5) by (simp add: server_request_def)
  note r = ready_rep[OF assms(1,2)]
  have "fst l = take ?w (fst l) @ (fst l ! ?w) # drop (Suc ?w) (fst l)"
    using assms(6) by (rule id_take_nth_drop)
  from arg_cong[OF this, of concat]
  have "log_bytes l = concat (take ?w (fst l)) @ (fst l ! ?w) @ concat (drop (Suc ?w) (fst l))"
    unfolding log_bytes_def concat_append concat.simps .
  then have "?p \<le> length (aesd_bytes s)" using assms(7) r by simp
  then have "server_read_loop s (int ?p) [] [] = Some (map Some (drop ?p (aesd_bytes s)))"
    using r by (intro read_loop_ok) auto
  then show ?thesis
    using rq r unfolding threadfunc_def threadfunc_reopen_def assms(3) Let_def by simp
qed

lemma threadfunc_seek_reply_example:
  "threadfunc first_free [bytes_of ''AESDCHAR_IOCSEEKTO:8,1'', [10]] True [] demo_state =
    Some \<lparr>s_sent = map Some [10, 75, 10], s_device = demo_state, bThreadCompleted = True\<rparr>"
proof -
  let ?m = "bytes_of ''AESDCHAR_IOCSEEKTO:8,1'' @ [10]"
  have c: "receive_message [bytes_of ''AESDCHAR_IOCSEEKTO:8,1'', [10]] = ?m" "has_prefix ?m"
    "scan_seekto (drop (length IOCTL_PREFIX) ?m) = Some \<lparr>write_cmd = 8, write_cmd_offset = 1\<rparr>"
    "length (fst demo_log) = 10" "length (fst demo_log ! 8) = 2"
    "drop (length (concat (take 8 (fst demo_log))) + 1) (log_bytes demo_log) = [10, 75, 10]"
    by code_simp+
  with threadfunc_seek_reply[OF rep_demo _ c(1-3), of first_free True] demo_len show ?thesis by simp
qed

subsection \<open>Threads\<close>

text \<open>
  Exactly the blocks of the listed threads are allocated, each listed once, and each has a
  thread that was created.
\<close>

definition threads_inv :: "server_state \<Rightarrow> bool" where
  "threads_inv st \<longleftrightarrow> distinct (map th_addr (th_list st)) \<and> distinct (th_heap st) \<and>
     set (th_heap st) = set (map th_addr (th_list st)) \<and> (\<forall>d \<in> set (th_list st). created d)"

lemma join_and_free_ok:
  assumes "threads_inv st" "d \<in> set (th_list st)"
  shows "\<exists>st'. join_and_free d st = Some st' \<and> threads_inv st' \<and> th_list st' = remove1 d (th_list st) \<and>
    caught_sig st' = caught_sig st"
proof -
  have dl: "distinct (th_list st)" using assms(1) by (auto simp: threads_inv_def distinct_map)
  have "th_addr d \<in> set (th_heap st)" "created d"
    using assms by (auto simp: threads_inv_def)
  moreover have "set (remove1 (th_addr d) (th_heap st)) = set (map th_addr (remove1 d (th_list st)))"
    using assms dl by (auto simp: threads_inv_def distinct_map inj_on_def)
  moreover have "distinct (map th_addr (remove1 d (th_list st)))"
    using assms(1) dl by (auto simp: threads_inv_def distinct_map intro: inj_on_subset)
  ultimately show ?thesis
    using assms by (auto simp: join_and_free_def threads_inv_def dest: set_remove1_subset[THEN subsetD])
qed

lemma reap_loop_ok:
  "threads_inv st \<Longrightarrow> distinct l \<Longrightarrow> set l \<subseteq> set (th_list st) \<Longrightarrow>
    \<exists>st'. reap_loop completed l st = Some st' \<and> threads_inv st' \<and> caught_sig st' = caught_sig st \<and>
      set (th_list st') = {d \<in> set (th_list st). d \<in> set l \<longrightarrow> \<not> completed (th_addr d)}"
proof (induction l arbitrary: st)
  case (Cons d l)
  show ?case
  proof (cases "completed (th_addr d)")
    case True
    obtain st1 where st1: "join_and_free d st = Some st1" "threads_inv st1"
      "th_list st1 = remove1 d (th_list st)" "caught_sig st1 = caught_sig st"
      using join_and_free_ok[OF Cons.prems(1), of d] Cons.prems(3) by auto
    have dl: "distinct (th_list st)" using Cons.prems(1) by (auto simp: threads_inv_def distinct_map)
    then have "set l \<subseteq> set (th_list st1)" using Cons.prems(2,3) st1(3) by auto
    from Cons.IH[OF st1(2) _ this] Cons.prems(2) obtain st' where
      st': "reap_loop completed l st1 = Some st'" "threads_inv st'" "caught_sig st' = caught_sig st1"
      "set (th_list st') = {d \<in> set (th_list st1). d \<in> set l \<longrightarrow> \<not> completed (th_addr d)}" by auto
    then show ?thesis using True st1 dl by (auto intro!: exI[of _ st'])
  next
    case False
    with Cons.IH[OF Cons.prems(1)] Cons.prems obtain st' where
      "reap_loop completed l st = Some st'" "threads_inv st'" "caught_sig st' = caught_sig st"
      "set (th_list st') = {d \<in> set (th_list st). d \<in> set l \<longrightarrow> \<not> completed (th_addr d)}" by auto
    then show ?thesis using False by (auto intro!: exI[of _ st'])
  qed
qed (auto intro: exI)

text \<open>A run of the accept loop in which every thread could be created.\<close>

inductive accept_step :: "server_state \<Rightarrow> nat option \<Rightarrow> server_state \<Rightarrow> bool" where
  accept_step: "(\<forall>p. th_data = Some p \<longrightarrow> p \<notin> set (th_heap st)) \<Longrightarrow>
    accept_iteration fd th_data True completed st = Some st' \<Longrightarrow> accept_step st fd st'"

inductive_cases accept_stepE: "accept_step st fd st'"

lemma accept_iteration_ok:
  assumes inv: "threads_inv st" and fresh: "\<forall>p. th_data = Some p \<longrightarrow> p \<notin> set (th_heap st)"
  shows "\<exists>st'. accept_iteration fd th_data True completed st = Some st' \<and> threads_inv st' \<and>
    caught_sig st' = caught_sig st \<and>
    (fd \<noteq> None \<and> th_data \<noteq> None \<longrightarrow> (\<forall>d \<in> set (th_list st'). \<not> completed (th_addr d)))"
proof (cases "fd = None \<or> th_data = None")
  case True
  then show ?thesis using inv by (auto simp: accept_iteration_def split: option.splits)
next
  case False
  then obtain n p where n: "fd = Some n" "th_data = Some p" "p \<notin> set (th_heap st)" using fresh by auto
  let ?d = "\<lparr>th_addr = p, new_fd = n, created = True\<rparr>"
  let ?st1 = "st\<lparr>th_list := ?d # th_list st, th_heap := p # th_heap st\<rparr>"
  have i1: "threads_inv ?st1" using inv n by (auto simp: threads_inv_def)
  then have "distinct (th_list ?st1)" unfolding threads_inv_def by (simp only: distinct_map)
  from reap_loop_ok[OF i1 this subset_refl, of completed] obtain st' where
    st': "reap_loop completed (th_list ?st1) ?st1 = Some st'" "threads_inv st'"
    "caught_sig st' = caught_sig ?st1"
    "set (th_list st') = {d \<in> set (th_list ?st1). d \<in> set (th_list ?st1) \<longrightarrow> \<not> completed (th_addr d)}"
    by (elim exE conjE) (rule that)
  have "accept_iteration fd th_data True completed st = Some st'"
    unfolding accept_iteration_def n(1,2) option.case Let_def by (rule st'(1))
  moreover have "caught_sig st' = caught_sig st" unfolding st'(3) by simp
  moreover have "\<forall>d \<in> set (th_list st'). \<not> completed (th_addr d)" unfolding st'(4) by blast
  ultimately show ?thesis using st'(2) by blast
qed

interpretation accept: invariant_system accept_step threads_inv
proof
  fix st fd st'
  assume inv: "threads_inv st" and "accept_step st fd st'"
  then obtain th_data completed where s: "\<forall>p. th_data = Some p \<longrightarrow> p \<notin> set (th_heap st)"
    "accept_iteration fd th_data True completed st = Some st'"
    by (elim accept_stepE)
  from accept_iteration_ok[OF inv s(1), of fd completed] s(2) show "threads_inv st'" by auto
qed

text \<open>The walk at the end: it joins the threads before the first one that does not end.\<close>

lemma join_rest_ok:
  "threads_inv st \<Longrightarrow> th_list st = l \<Longrightarrow>
    \<exists>st'. join_rest ends l st = Some (\<forall>d \<in> set l. ends (th_addr d), st') \<and> threads_inv st' \<and>
      caught_sig st' = caught_sig st \<and> th_list st' = dropWhile (\<lambda>d. ends (th_addr d)) l"
proof (induction l arbitrary: st)
  case (Cons d l)
  have c: "created d" using Cons.prems by (auto simp: threads_inv_def)
  show ?case
  proof (cases "ends (th_addr d)")
    case True
    obtain st1 where st1: "join_and_free d st = Some st1" "threads_inv st1"
      "th_list st1 = l" "caught_sig st1 = caught_sig st"
      using join_and_free_ok[OF Cons.prems(1), of d] Cons.prems(2) by auto
    then show ?thesis using Cons.IH[OF st1(2,3)] True by auto
  qed (use Cons.prems c in simp)
qed simp

lemma server_shutdown_ok:
  assumes "threads_inv st"
  shows "\<exists>st'. server_shutdown ends st = Some (\<forall>d \<in> set (th_list st). ends (th_addr d), st') \<and> threads_inv st' \<and>
    caught_sig st' = caught_sig st \<and> th_list st' = dropWhile (\<lambda>d. ends (th_addr d)) (th_list st)"
  using join_rest_ok[OF assms refl] by (simp add: server_shutdown_def)

lemma threads_inv_empty: "threads_inv st \<Longrightarrow> th_list st = [] \<Longrightarrow> th_heap st = []"
  by (simp add: threads_inv_def)

text \<open>As long as threads can be created, the accept loop never joins or frees anything twice:
  at any time exactly the listed threads own a block, an iteration that accepts
  leaves no completed thread in the list, and the shutdown joins all remaining threads and
  frees all blocks, when they all end.\<close>

lemma server_threads_correct:
  assumes "run accept_step \<lparr>th_list = [], th_heap = [], caught_sig = False\<rparr> fds st"
    and "p \<notin> set (th_heap st)"
  shows "(\<exists>st'. accept_iteration (Some n) (Some p) True completed st = Some st' \<and> threads_inv st' \<and>
      (\<forall>d \<in> set (th_list st'). \<not> completed (th_addr d))) \<and>
    (\<exists>st'. server_shutdown (\<lambda>_. True) st = Some (True, st') \<and> th_list st' = [] \<and> th_heap st' = [])"
proof -
  have inv: "threads_inv st"
    by (rule accept.inv_run[OF assms(1)]) (simp add: threads_inv_def)
  show ?thesis
    using accept_iteration_ok[OF inv, of "Some p" "Some n" completed] assms(2)
      server_shutdown_ok[OF inv, of "\<lambda>_. True"] threads_inv_empty by auto
qed

lemma server_threads_correct_example:
  "\<exists>st. run accept_step \<lparr>th_list = [], th_heap = [], caught_sig = False\<rparr> [Some 4] st \<and>
    (\<exists>st'. server_shutdown (\<lambda>_. True) st = Some (True, st') \<and> th_heap st' = [])"
proof -
  let ?st = "\<lparr>th_list = [\<lparr>th_addr = 100, new_fd = 4, created = True\<rparr>], th_heap = [100], caught_sig = False\<rparr>"
  have "accept_step \<lparr>th_list = [], th_heap = [], caught_sig = False\<rparr> (Some 4) ?st"
    by (rule accept_step[where th_data = "Some 100" and completed = "\<lambda>_. False"])
      (simp_all add: accept_iteration_def Let_def)
  then have r: "run accept_step \<lparr>th_list = [], th_heap = [], caught_sig = False\<rparr> [Some 4] ?st"
    by (auto intro: run.intros)
  from server_threads_correct[OF r, of 5 4 "\<lambda>_. False"] have
    "\<exists>st'. server_shutdown (\<lambda>_. True) ?st = Some (True, st') \<and> th_heap st' = []" by auto
  with r show ?thesis by blast
qed

text \<open>When a thread cannot be created its data is put into the list all the same, and the
  shutdown joins a thread that does not exist.\<close>

lemma server_joins_missing_thread:
  assumes "\<not> completed p"
  shows "\<exists>st'. accept_iteration (Some n) (Some p) False completed
      \<lparr>th_list = [], th_heap = [], caught_sig = False\<rparr> = Some st' \<and> server_shutdown ends st' = None"
  using assms by (auto simp: accept_iteration_def Let_def server_shutdown_def join_and_free_def)

lemma server_joins_missing_thread_example:
  "\<exists>st'. accept_iteration (Some 4) (Some 100) False (\<lambda>_. False)
      \<lparr>th_list = [], th_heap = [], caught_sig = False\<rparr> = Some st' \<and> server_shutdown ends st' = None"
  using server_joins_missing_thread[of "\<lambda>_. False" 100 4] by simp

subsection \<open>Setting up\<close>

text \<open>A start that fails holds neither the address list nor the socket when it exits, with one
  exception: when the process cannot become a daemon, the bound socket stays open. A start
  that succeeds listens on the socket and has freed the address list.\<close>

lemma server_setup_correct:
  "case server_setup run_as_daemon r of
     (Some status, res) \<Rightarrow> \<not> servinfo_live res \<and> \<not> listening res \<and> status \<noteq> 0 \<and>
       (sockfd_open res \<longleftrightarrow> status = 1) \<and> (status = 1 \<longrightarrow> run_as_daemon \<and> \<not> daemon_ok r)
   | (None, res) \<Rightarrow> \<not> servinfo_live res \<and> sockfd_open res \<and> listening res"
  by (simp add: server_setup_def Let_def)

lemma server_setup_correct_example:
  "server_setup True \<lparr>sigaction_int_ok = True, sigaction_term_ok = True, getaddrinfo_ok = True,
     socket_ok = True, setsockopt_ok = True, bind_ok = True, daemon_ok = False, listen_ok = True\<rparr> =
   (Some 1, \<lparr>servinfo_live = False, sockfd_open = True, listening = False\<rparr>)"
proof -
  let ?r = "\<lparr>sigaction_int_ok = True, sigaction_term_ok = True, getaddrinfo_ok = True,
     socket_ok = True, setsockopt_ok = True, bind_ok = True, daemon_ok = False, listen_ok = True\<rparr>"
  from server_setup_correct[of True ?r] show ?thesis
    by (cases "server_setup True ?r") (simp add: server_setup_def Let_def)
qed

end
