(* ===== verification/Aesd_Server.thy ===== *)
theory Aesd_Server
  imports Aesd_Socket_Props
begin

section \<open>The server of the Yocto layer: its log and its process\<close>

text \<open>
  \<open>meta-aesd/.../files/server/aesdsocket.c\<close>, the build of the server that is installed on the
  target. Its thread writes a line to the kernel log at every step. Here the thread works on
  the arrays of the source, \<open>full_buf\<close> with its length and its zero bytes, and carries the
  log; the process is \<open>main\<close> from its arguments to its exit.
\<close>

subsection \<open>The log\<close>

datatype log_line =
  Thread_start
| Recv nat
| Recv_done int nat
| Rx "byte list"
| Ioctl_branch
| Ioctl_ret int int nat nat
| Write_branch
| Write_ret int int nat
| Start_read
| Read_returned int
| Send_returned int
| Read_done
| Thread_done

text \<open>The conversions \<open>%d\<close>, \<open>%zd\<close>, \<open>%u\<close> and \<open>%zu\<close>.\<close>

fun dec_nat :: "nat \<Rightarrow> string" where
  "dec_nat n = (if n < 10 then [char_of (48 + n)] else dec_nat (n div 10) @ [char_of (48 + n mod 10)])"

definition dec :: "int \<Rightarrow> byte list" where
  "dec x = bytes_of ((if x < 0 then ''-'' else []) @ dec_nat (nat \<bar>x\<bar>))"

text \<open>The conversion \<open>%s\<close>: an array up to its first zero.\<close>

definition c_string :: "byte list \<Rightarrow> byte list" where
  "c_string buf = takeWhile (\<lambda>b. b \<noteq> 0) buf"

fun log_text :: "log_line \<Rightarrow> byte list" where
  "log_text Thread_start = bytes_of ''THREAD START'' @ [10]"
| "log_text (Recv total_len) = bytes_of ''RECV total_len='' @ dec (int total_len) @ [10]"
| "log_text (Recv_done bytes_received total_len) =
     bytes_of ''RECV DONE bytes_received='' @ dec bytes_received @ bytes_of '' total_len='' @
     dec (int total_len) @ [10]"
| "log_text (Rx full_buf) = bytes_of ''RX='' @ [39] @ c_string full_buf @ [39, 10]"
| "log_text Ioctl_branch = bytes_of ''IOCTL branch''"
| "log_text (Ioctl_ret ioctl_ret err cmd_idx cmd_offset) =
     bytes_of ''IOCTL ret='' @ dec ioctl_ret @ bytes_of '' errno='' @ dec err @
     bytes_of '' cmd='' @ dec (int cmd_idx) @ bytes_of '' offset='' @ dec (int cmd_offset)"
| "log_text Write_branch = bytes_of ''WRITE branch''"
| "log_text (Write_ret written err total_len) =
     bytes_of ''WRITE ret='' @ dec written @ bytes_of '' errno='' @ dec err @
     bytes_of '' total_len='' @ dec (int total_len)"
| "log_text Start_read = bytes_of ''START READ'' @ [10]"
| "log_text (Read_returned bytes_read) = bytes_of ''READ returned '' @ dec bytes_read @ [10]"
| "log_text (Send_returned sent) = bytes_of ''SEND returned '' @ dec sent @ [10]"
| "log_text Read_done = bytes_of ''READ DONE'' @ [10]"
| "log_text Thread_done = bytes_of ''THREAD DONE''"

text \<open>
  What the environment answers at the \<open>n\<close>-th call of \<open>dbglog\<close>: whether \<open>/dev/kmsg\<close> can be
  opened, and the value of \<open>errno\<close> then, which C leaves open after calls that succeed. The
  state counts the calls and collects what was written.
\<close>

record dbg_env =
  fopen_ok :: "nat \<Rightarrow> bool"
  errno_at :: "nat \<Rightarrow> int"

record dbg_state =
  dbg_calls :: nat
  kmsg :: "byte list list"

definition dbglog :: "dbg_env \<Rightarrow> log_line \<Rightarrow> dbg_state \<Rightarrow> dbg_state" where
  "dbglog env line d =
     (let d' = d\<lparr>dbg_calls := Suc (dbg_calls d)\<rparr> in
      if \<not> fopen_ok env (dbg_calls d) then d'
      else d'\<lparr>kmsg := kmsg d @ [bytes_of ''<AESDDBGTHREAD>'' @ log_text line @ [10]]\<rparr>)"

subsection \<open>The thread\<close>

text \<open>The answer of \<open>recv\<close>: \<open>None\<close> for -1, no byte for the end of the connection.\<close>

type_synonym recv_answer = "byte list option"

text \<open>
  The result is the last answer of \<open>recv\<close>, the array and \<open>total_len\<close>. The connection is at
  its end after the listed answers.
\<close>

fun yocto_recv_loop ::
  "dbg_env \<Rightarrow> recv_answer list \<Rightarrow> byte list \<Rightarrow> nat \<Rightarrow> dbg_state \<Rightarrow> int \<times> byte list \<times> nat \<times> dbg_state" where
  "yocto_recv_loop env [] full_buf total_len d = (0, full_buf, total_len, d)"
| "yocto_recv_loop env (None # rest) full_buf total_len d = (- 1, full_buf, total_len, d)"
| "yocto_recv_loop env (Some buf # rest) full_buf total_len d =
     (if buf = [] then (0, full_buf, total_len, d)
      else
        (let d' = dbglog env (Recv total_len) d;
             (full_buf', total_len') =
               (if total_len + length buf < FULL_BUF
                then (mem_write total_len buf full_buf, total_len + length buf)
                else (full_buf, total_len))
         in if 10 \<in> set buf then (int (length buf), full_buf', total_len', d')
            else yocto_recv_loop env rest full_buf' total_len' d'))"

text \<open>The terminating zero and the newline.\<close>

definition yocto_terminate :: "byte list \<Rightarrow> nat \<Rightarrow> byte list \<times> nat" where
  "yocto_terminate full_buf total_len =
     (let full_buf' = full_buf[total_len := 0] in
      if 0 < total_len \<and> full_buf' ! (total_len - 1) \<noteq> 10
      then (full_buf'[total_len := 10], Suc total_len) else (full_buf', total_len))"

partial_function (option) yocto_write_loop ::
  "dbg_env \<Rightarrow> allocator \<Rightarrow> byte list \<Rightarrow> nat \<Rightarrow> nat \<Rightarrow> aesd_state \<Rightarrow> int \<Rightarrow> dbg_state
     \<Rightarrow> (aesd_state \<times> int \<times> dbg_state) option" where
  "yocto_write_loop env alloc full_buf total_len written_total s f_pos d =
     (if written_total < total_len then
        (case aesd_write alloc False (take (total_len - written_total) (drop written_total full_buf)) s f_pos of
           None \<Rightarrow> None
         | Some (s', f', r) \<Rightarrow>
             (let err = errno_at env (dbg_calls d) in
              case r of
                Ret written \<Rightarrow>
                  yocto_write_loop env alloc full_buf total_len (written_total + written) s' f'
                    (dbglog env (Write_ret (int written) err total_len) d)
              | _ \<Rightarrow> Some (s', f', dbglog env (Write_ret (- 1) err total_len) d)))
      else Some (s, f_pos, d))"

text \<open>
  \<open>sscanf\<close> reads a string: when no zero follows, the read leaves \<open>full_buf\<close>, and the thread
  has no defined behaviour from there on (\<open>None\<close>).
\<close>

definition yocto_scan :: "byte list \<Rightarrow> aesd_seekto option option" where
  "yocto_scan s = (if 0 \<in> set s then Some (scan_seekto s) else None)"

text \<open>The request: the device, the position, whether the message was a plain write, the log.\<close>

definition yocto_request ::
  "dbg_env \<Rightarrow> allocator \<Rightarrow> byte list \<Rightarrow> nat \<Rightarrow> aesd_state \<Rightarrow> dbg_state
     \<Rightarrow> (aesd_state \<times> int \<times> bool \<times> dbg_state) option" where
  "yocto_request env alloc full_buf total_len s d =
     (if has_prefix full_buf then
        (let d1 = dbglog env Ioctl_branch d in
         case yocto_scan (drop (length IOCTL_PREFIX) full_buf) of
           None \<Rightarrow> None
         | Some None \<Rightarrow> Some (s, 0, False, d1)
         | Some (Some seekto) \<Rightarrow>
             (let (f, r) = aesd_unlocked_ioctl AESDCHAR_IOCSEEKTO (Some seekto) s 0;
                  ioctl_ret = (case r of Ret v \<Rightarrow> v | _ \<Rightarrow> - 1)
              in Some (s, f, False,
                   dbglog env (Ioctl_ret ioctl_ret (errno_at env (dbg_calls d1)) (write_cmd seekto)
                     (write_cmd_offset seekto)) d1)))
      else do {
        (s', f, d') \<leftarrow> yocto_write_loop env alloc full_buf total_len 0 s 0 (dbglog env Write_branch d);
        Some (s', f, True, d') })"

fun yocto_send_loop ::
  "dbg_env \<Rightarrow> int list \<Rightarrow> 'a list \<Rightarrow> dbg_state \<Rightarrow> 'a list \<times> int list \<times> dbg_state" where
  "yocto_send_loop env sends [] d = ([], sends, d)"
| "yocto_send_loop env [] bs d = (bs, [], dbglog env (Send_returned (int (length bs))) d)"
| "yocto_send_loop env (n # sends) bs d =
     (let d' = dbglog env (Send_returned n) d in
      if n < 0 then ([], sends, d')
      else (case yocto_send_loop env sends (drop (nat n) bs) d' of
              (out, rest, d'') \<Rightarrow> (take (nat n) bs @ out, rest, d'')))"

partial_function (option) yocto_read_loop ::
  "dbg_env \<Rightarrow> aesd_state \<Rightarrow> int \<Rightarrow> int list \<Rightarrow> cell list \<Rightarrow> dbg_state \<Rightarrow> (cell list \<times> dbg_state) option" where
  "yocto_read_loop env s f_pos sends sent d =
     (case aesd_read RECV_BUF RECV_BUF s f_pos of
        None \<Rightarrow> None
      | Some (f', r) \<Rightarrow>
          (case r of
             Ret bs \<Rightarrow>
               if bs = [] then Some (sent, d)
               else
                 (let p = yocto_send_loop env sends bs (dbglog env (Read_returned (int (length bs))) d)
                  in yocto_read_loop env s f' (fst (snd p)) (sent @ fst p) (snd (snd p)))
           | _ \<Rightarrow> Some (sent, d)))"

text \<open>Receiving with its log: the array and \<open>total_len\<close> as the request finds them.\<close>

definition yocto_receive ::
  "dbg_env \<Rightarrow> recv_answer list \<Rightarrow> dbg_state \<Rightarrow> byte list \<times> nat \<times> dbg_state" where
  "yocto_receive env answers d =
     (let (bytes_received, full_buf, total_len, d1) =
            yocto_recv_loop env answers (replicate FULL_BUF 0) 0 (dbglog env Thread_start d);
          d2 = dbglog env (Recv_done bytes_received total_len) d1;
          d3 = dbglog env (Rx full_buf) d2;
          (full_buf', total_len') = yocto_terminate full_buf total_len
      in (full_buf', total_len', d3))"

definition yocto_threadfunc ::
  "dbg_env \<Rightarrow> allocator \<Rightarrow> recv_answer list \<Rightarrow> bool \<Rightarrow> bool \<Rightarrow> int list \<Rightarrow> aesd_state \<Rightarrow> dbg_state
     \<Rightarrow> (session \<times> dbg_state) option" where
  "yocto_threadfunc env alloc answers open_ok reopen_ok sends s d =
     (let (full_buf, total_len, d1) = yocto_receive env answers d in
      if \<not> open_ok then Some (\<lparr>s_sent = [], s_device = s, bThreadCompleted = False\<rparr>, d1)
      else do {
        (s', f, plain, d2) \<leftarrow> yocto_request env alloc full_buf total_len s d1;
        (if plain \<and> \<not> reopen_ok
         then Some (\<lparr>s_sent = [], s_device = s', bThreadCompleted = False\<rparr>, d2)
         else do {
           (sent, d3) \<leftarrow> yocto_read_loop env s' (if plain then 0 else f) sends []
                          (dbglog env Start_read d2);
           Some (\<lparr>s_sent = sent, s_device = s', bThreadCompleted = True\<rparr>,
             dbglog env Thread_done (dbglog env Read_done d3)) }) })"

subsection \<open>The process\<close>

text \<open>
  One round of the loop of \<open>main\<close>. The handler of a signal may run after the test of \<open>caught_sig\<close> and before \<open>accept\<close> waits
  (\<open>ev_early\<close>); while \<open>accept\<close> waits, which interrupts it (the handler is installed without \<open>SA_RESTART\<close>); or after it
  returned and before the next test (\<open>ev_late\<close>). Then the answers of \<open>malloc\<close> (given the live blocks) and of
  \<open>pthread_create\<close>, and the threads that have set their flag when the list is walked.
\<close>

datatype accept_answer =
  Connection nat
| Accept_error
| Interrupted int

record accept_event =
  ev_early :: "int option"
  ev_answer :: accept_answer
  ev_malloc :: "nat list \<Rightarrow> nat option"
  ev_create :: bool
  ev_completed :: "nat \<Rightarrow> bool"
  ev_late :: "int option"

definition deliver :: "int option \<Rightarrow> server_state \<Rightarrow> server_state" where
  "deliver sig st = (case sig of None \<Rightarrow> st | Some n \<Rightarrow> signal_handler n st)"

definition accepted_fd :: "accept_answer \<Rightarrow> nat option" where
  "accepted_fd ans = (case ans of Connection n \<Rightarrow> Some n | _ \<Rightarrow> None)"

definition interruption :: "accept_answer \<Rightarrow> int option" where
  "interruption ans = (case ans of Interrupted n \<Rightarrow> Some n | _ \<Rightarrow> None)"

text \<open>
  The loop, with the rounds in which \<open>accept\<close> returns; \<open>early\<close> is a signal before the wait of a last \<open>accept\<close> that does not
  return. The result: whether \<open>main\<close> has left the loop, and the state.
\<close>

fun accept_loop :: "accept_event list \<Rightarrow> int option \<Rightarrow> server_state \<Rightarrow> (bool \<times> server_state) option" where
  "accept_loop [] early st = (if caught_sig st then Some (True, st) else Some (False, deliver early st))"
| "accept_loop (e # es) early st =
     (if caught_sig st then Some (True, st)
      else (let st1 = deliver (interruption (ev_answer e)) (deliver (ev_early e) st) in
        do {
          st2 \<leftarrow> accept_iteration (accepted_fd (ev_answer e)) (ev_malloc e (th_heap st1)) (ev_create e) (ev_completed e) st1;
          accept_loop es early (deliver (ev_late e) st2) }))"

definition run_as_daemon :: "string list \<Rightarrow> bool" where
  "run_as_daemon argv \<longleftrightarrow> 1 < length argv \<and> argv ! 1 = ''-d''"

text \<open>Exited with a status; waiting in \<open>accept\<close>; or waiting in \<open>pthread_join\<close> for a thread that does not end.\<close>

datatype process =
  Exited int server_resources server_state
| Serving server_resources server_state
| Joining_for_ever server_resources server_state

definition server_main ::
  "string list \<Rightarrow> setup_results \<Rightarrow> accept_event list \<Rightarrow> int option \<Rightarrow> (nat \<Rightarrow> bool) \<Rightarrow> process option" where
  "server_main argv r es early ends =
     (let st0 = \<lparr>th_list = [], th_heap = [], caught_sig = False\<rparr> in
      case server_setup (run_as_daemon argv) r of
        (Some status, res) \<Rightarrow> Some (Exited status res st0)
      | (None, res) \<Rightarrow> do {
          (left, st) \<leftarrow> accept_loop es early st0;
          (if \<not> left then Some (Serving res st)
           else do {
             (joined, st') \<leftarrow> server_shutdown ends st;
             Some (if joined then Exited 0 (res\<lparr>sockfd_open := False, listening := False\<rparr>) st'
                   else Joining_for_ever res st') }) })"

end
