(* ===== verification/Aesd_Server_Props.thy ===== *)
theory Aesd_Server_Props
  imports Aesd_Server
begin

section \<open>The logging thread and the whole process\<close>

text \<open>
  The thread with its arrays and its log does what \<open>threadfunc_reopen\<close> says of the bare
  messages, except for one length of message at which it reads behind its array.
\<close>

subsection \<open>The array of the message\<close>

text \<open>The array has its size, and everything behind the received bytes is still zero.\<close>

definition buf_ok :: "byte list \<Rightarrow> nat \<Rightarrow> bool" where
  "buf_ok full_buf total_len \<longleftrightarrow> length full_buf = FULL_BUF \<and> total_len \<le> FULL_BUF \<and>
     drop total_len full_buf = replicate (FULL_BUF - total_len) 0"

lemma buf_okD:
  assumes "buf_ok full_buf n"
  shows "length full_buf = FULL_BUF" "n \<le> FULL_BUF"
    "full_buf = take n full_buf @ replicate (FULL_BUF - n) 0"
  using assms append_take_drop_id[of n full_buf] by (simp_all add: buf_ok_def)

lemma buf_ok_append:
  assumes "buf_ok full_buf n" "n + length buf \<le> FULL_BUF"
  shows "buf_ok (mem_write n buf full_buf) (n + length buf)"
    and "take (n + length buf) (mem_write n buf full_buf) = take n full_buf @ buf"
  using assms arg_cong[of _ _ "drop (length buf)", OF buf_okD(3)[OF assms(1)]]
  by (auto simp: buf_ok_def mem_write_def drop_drop add.commute[of "length buf"]
      simp flip: drop_drop)

definition chunk_of :: "recv_answer \<Rightarrow> byte list" where
  "chunk_of ans = (case ans of None \<Rightarrow> [] | Some buf \<Rightarrow> buf)"

lemma yocto_recv_loop_refines:
  "buf_ok full_buf n \<Longrightarrow> n < FULL_BUF \<Longrightarrow>
    yocto_recv_loop env answers full_buf n d = (last_ret, full_buf', n', d') \<Longrightarrow>
    buf_ok full_buf' n' \<and> n' < FULL_BUF \<and>
    take n' full_buf' = recv_loop (map chunk_of answers) (take n full_buf)"
proof (induction answers arbitrary: full_buf n d)
  case (Cons ans rest)
  have len: "length (take n full_buf) = n" using buf_okD(1,2)[OF Cons.prems(1)] by simp
  show ?case
  proof (cases "ans = None \<or> ans = Some []")
    case True
    then show ?thesis using Cons.prems by (auto simp: chunk_of_def)
  next
    case False
    then obtain buf where buf: "ans = Some buf" "buf \<noteq> []" by auto
    show ?thesis
    proof (cases "n + length buf < FULL_BUF")
      case fits: True
      note ok = buf_ok_append[OF Cons.prems(1) less_imp_le[OF fits]]
      show ?thesis
        using Cons.prems(3) buf fits ok len Cons.IH[OF ok(1) fits]
        by (auto simp: chunk_of_def Let_def split: if_splits)
    next
      case False
      then show ?thesis
        using Cons.prems buf len Cons.IH[OF Cons.prems(1,2)]
        by (auto simp: chunk_of_def Let_def split: if_splits)
    qed
  qed
qed simp

text \<open>The terminating zero is there already: only the newline is written.\<close>

lemma yocto_terminate_refines:
  assumes "buf_ok full_buf n" "n < FULL_BUF"
  shows "full_buf[n := 0] = full_buf"
    and "yocto_terminate full_buf n = (full_buf', n') \<Longrightarrow>
      buf_ok full_buf' n' \<and> take n' full_buf' = ensure_newline (take n full_buf)"
proof -
  note b = buf_okD[OF assms(1)]
  have "full_buf ! n = (take n full_buf @ replicate (FULL_BUF - n) 0) ! n" using b(3) by simp
  also have "\<dots> = 0" using assms(2) b(1) by (simp add: nth_append)
  finally show z: "full_buf[n := 0] = full_buf" by (metis list_update_id)
  assume t: "yocto_terminate full_buf n = (full_buf', n')"
  have l: "0 < n \<Longrightarrow> take n full_buf \<noteq> [] \<and> last (take n full_buf) = full_buf ! (n - 1)"
    using b(1) assms(2) last_conv_nth[of "take n full_buf"] by (cases "full_buf = []") (auto simp: min_def)
  have ok: "buf_ok (full_buf[n := 10]) (Suc n)"
  proof -
    have "drop (Suc n) full_buf = tl (drop n full_buf)" by (simp add: drop_Suc tl_drop)
    also have "\<dots> = replicate (FULL_BUF - Suc n) 0"
      using assms(1) by (simp add: buf_ok_def tl_replicate)
    finally show ?thesis using assms(2) b(1) by (simp add: buf_ok_def)
  qed
  have "take (Suc n) (full_buf[n := 10]) = take n full_buf @ [10]"
    using assms(2) b(1) by (simp add: take_Suc_conv_app_nth)
  then show "buf_ok full_buf' n' \<and> take n' full_buf' = ensure_newline (take n full_buf)"
    using t l assms(1) ok by (auto simp: yocto_terminate_def z ensure_newline_def Let_def split: if_splits)
qed

subsection \<open>The request\<close>

lemma has_prefix_zeros: "has_prefix (m @ replicate k 0) \<longleftrightarrow> has_prefix m"
proof (cases "length IOCTL_PREFIX \<le> length m")
  case False
  have z: "0 \<notin> set IOCTL_PREFIX" by code_simp
  have "take (length IOCTL_PREFIX) (m @ replicate k 0) \<noteq> IOCTL_PREFIX"
  proof
    assume a: "take (length IOCTL_PREFIX) (m @ replicate k 0) = IOCTL_PREFIX"
    then have "m @ replicate (min (length IOCTL_PREFIX - length m) k) 0 = IOCTL_PREFIX" using False by simp
    with z False show False
      by (metis add.right_neutral append.right_neutral empty_replicate in_set_replicate le_refl set_append Un_iff neq0_conv)
  qed
  moreover have "take (length IOCTL_PREFIX) m \<noteq> IOCTL_PREFIX"
    using False by (metis length_take min.cobounded1 take_all_iff nle_le)
  ultimately show ?thesis by (simp add: has_prefix_def)
qed (simp add: has_prefix_def)

lemma c_string_zeros: "c_string (xs @ replicate k 0) = c_string xs"
  unfolding c_string_def by (induction xs) (auto simp: takeWhile_replicate)

lemma scan_seekto_zeros: "scan_seekto (xs @ replicate k 0) = scan_seekto xs"
  using c_string_zeros[of xs k] by (simp add: scan_seekto_def c_string_def)

lemma yocto_write_loop_sound:
  assumes "yocto_write_loop env alloc full_buf n w s f d = Some r" and "n \<le> length full_buf"
  shows "server_write_loop alloc (take n full_buf) w s f = Some (fst r, fst (snd r))"
  using assms
proof (induction env alloc full_buf n w s f d r rule: yocto_write_loop.raw_induct[rotated 1, consumes 1])
  case (1 loop env alloc full_buf n w s f d r)
  from 1(2,3) 1(1) show ?case
    by (cases r, subst server_write_loop.simps)
      (auto simp: min_absorb2 drop_take Let_def split: if_splits option.splits outcome.splits)
qed

lemma yocto_write_loop_complete:
  assumes "server_write_loop alloc m w s f = Some r" and "m = take n full_buf" "n \<le> length full_buf"
  shows "\<exists>d'. yocto_write_loop env alloc full_buf n w s f d = Some (fst r, snd r, d')"
  using assms
proof (induction alloc m w s f r arbitrary: d rule: server_write_loop.raw_induct[rotated 1, consumes 1])
  case (1 loop alloc m w s f r)
  from 1(2,3,4) 1(1) show ?case
    by (cases r, subst yocto_write_loop.simps)
      (auto simp: min_absorb2 drop_take Let_def split: if_splits option.splits outcome.splits)
qed

lemma yocto_write_loop_refines:
  assumes "n \<le> length full_buf"
  shows "map_option (\<lambda>(s, f, d). (s, f)) (yocto_write_loop env alloc full_buf n w s f d) =
    server_write_loop alloc (take n full_buf) w s f"
proof (cases "server_write_loop alloc (take n full_buf) w s f")
  case None
  then show ?thesis using yocto_write_loop_sound[OF _ assms] by (cases "yocto_write_loop env alloc full_buf n w s f d") auto
next
  case (Some r)
  from yocto_write_loop_complete[OF Some refl assms, of env d] show ?thesis using Some by auto
qed

text \<open>The scan leaves the array just when the message fills it and holds no zero.\<close>

definition overreads :: "byte list \<Rightarrow> bool" where
  "overreads m \<longleftrightarrow> has_prefix m \<and> length m = FULL_BUF \<and> 0 \<notin> set m"

lemma yocto_scan_refines:
  assumes "buf_ok full_buf n" "has_prefix (take n full_buf)"
  shows "yocto_scan (drop (length IOCTL_PREFIX) full_buf) =
    (if overreads (take n full_buf) then None
     else Some (scan_seekto (drop (length IOCTL_PREFIX) (take n full_buf))))"
proof -
  let ?m = "take n full_buf" and ?k = "FULL_BUF - n"
  note b = buf_okD[OF assms(1)]
  have z: "0 \<notin> set IOCTL_PREFIX" by code_simp
  have p: "take (length IOCTL_PREFIX) ?m = IOCTL_PREFIX" using assms(2) by (simp add: has_prefix_def)
  have le: "length IOCTL_PREFIX \<le> length ?m" using arg_cong[OF p, of length] by (simp add: min_def split: if_splits)
  have "drop (length IOCTL_PREFIX) full_buf = drop (length IOCTL_PREFIX) (?m @ replicate ?k 0)"
    using b(3) by simp
  also have "\<dots> = drop (length IOCTL_PREFIX) ?m @ replicate ?k 0" using le by simp
  finally have d: "drop (length IOCTL_PREFIX) full_buf = drop (length IOCTL_PREFIX) ?m @ replicate ?k 0" .
  have "?m = IOCTL_PREFIX @ drop (length IOCTL_PREFIX) ?m"
    using append_take_drop_id[of "length IOCTL_PREFIX" ?m] p by simp
  from arg_cong[OF this, of set]
  have m: "0 \<in> set ?m \<longleftrightarrow> 0 \<in> set (drop (length IOCTL_PREFIX) ?m)"
    using z unfolding set_append by blast
  have "0 \<in> set (replicate ?k (0 :: byte)) \<longleftrightarrow> n < FULL_BUF" by (simp add: not_le)
  then have "0 \<in> set (drop (length IOCTL_PREFIX) full_buf) \<longleftrightarrow> 0 \<in> set ?m \<or> n < FULL_BUF"
    unfolding d set_append m by blast
  moreover have "length ?m = n" using b by simp
  ultimately show ?thesis
    using assms(2) b(2) unfolding yocto_scan_def overreads_def
    by (auto simp: d scan_seekto_zeros simp del: drop_take)
qed

lemma yocto_request_refines:
  assumes "buf_ok full_buf n"
  shows "map_option (\<lambda>(s, f, p, d). (s, f, p)) (yocto_request env alloc full_buf n s d) =
    (if overreads (take n full_buf) then None else server_request alloc (take n full_buf) s)"
proof -
  note b = buf_okD[OF assms]
  have pre: "has_prefix full_buf = has_prefix (take n full_buf)"
    using has_prefix_zeros[of "take n full_buf" "FULL_BUF - n"] b(3) by simp
  show ?thesis
  proof (cases "has_prefix (take n full_buf)")
    case True
    then show ?thesis
      using yocto_scan_refines[OF assms True] pre
      by (auto simp: yocto_request_def server_request_def Let_def split_def split: option.splits)
  next
    case False
    have "server_write_loop alloc (take n full_buf) 0 s 0 =
        map_option (\<lambda>(s, f, d). (s, f)) (yocto_write_loop env alloc full_buf n 0 s 0 (dbglog env Write_branch d))"
      by (rule yocto_write_loop_refines[symmetric]) (use b in simp)
    then show ?thesis
      using False pre
      by (cases "yocto_write_loop env alloc full_buf n 0 s 0 (dbglog env Write_branch d)")
        (auto simp: yocto_request_def server_request_def overreads_def)
  qed
qed

subsection \<open>The reply\<close>

lemma yocto_send_loop_refines:
  "fst (yocto_send_loop env sends bs d) = fst (send_loop sends bs) \<and>
    fst (snd (yocto_send_loop env sends bs d)) = snd (send_loop sends bs)"
proof (induction sends bs arbitrary: d rule: send_loop.induct)
  case (3 n sends b bs)
  then show ?case by (auto simp: Let_def split_def)
qed auto

lemma yocto_read_loop_sound:
  "yocto_read_loop env s f sends sent d = Some r \<Longrightarrow> server_read_loop s f sends sent = Some (fst r)"
proof (induction env s f sends sent d r rule: yocto_read_loop.raw_induct[rotated 1, consumes 1])
  case (1 loop env s f sends sent d r)
  from 1(2) 1(1) show ?case
    by (cases r, subst server_read_loop.simps)
      (auto simp: Let_def yocto_send_loop_refines split: if_splits option.splits outcome.splits)
qed

lemma yocto_read_loop_complete:
  "server_read_loop s f sends sent = Some r \<Longrightarrow> \<exists>d'. yocto_read_loop env s f sends sent d = Some (r, d')"
proof (induction s f sends sent r arbitrary: d rule: server_read_loop.raw_induct[rotated 1, consumes 1])
  case (1 loop s f sends sent r)
  from 1(2) 1(1) show ?case
    by (subst yocto_read_loop.simps)
      (auto simp: Let_def yocto_send_loop_refines split: if_splits option.splits outcome.splits)
qed

lemma yocto_read_loop_refines:
  "map_option fst (yocto_read_loop env s f sends sent d) = server_read_loop s f sends sent"
proof (cases "server_read_loop s f sends sent")
  case None
  then show ?thesis using yocto_read_loop_sound[of env s f sends sent d]
    by (cases "yocto_read_loop env s f sends sent d") auto
next
  case (Some r)
  then show ?thesis using yocto_read_loop_complete[OF Some, of env d] by auto
qed

subsection \<open>The thread\<close>

lemma yocto_receive_refines:
  assumes "yocto_receive env answers d = (full_buf, n, d')"
  shows "buf_ok full_buf n \<and> take n full_buf = receive_message (map chunk_of answers)"
proof -
  have b0: "buf_ok (replicate FULL_BUF 0) 0" "0 < FULL_BUF" by (simp_all add: buf_ok_def code_consts)
  obtain r buf0 n0 d1 where l:
    "yocto_recv_loop env answers (replicate FULL_BUF 0) 0 (dbglog env Thread_start d) = (r, buf0, n0, d1)"
    by (metis prod_cases4)
  note ok = yocto_recv_loop_refines[OF b0 l]
  have "yocto_terminate buf0 n0 = (full_buf, n)"
    using assms by (simp add: yocto_receive_def l Let_def split_def) (metis prod.collapse)
  with yocto_terminate_refines(2)[of buf0 n0 full_buf n] ok show ?thesis
    by (simp add: receive_message_def)
qed

lemma yocto_thread_bare:
  "map_option fst (yocto_threadfunc env alloc answers open_ok reopen_ok sends s d) =
    (if open_ok \<and> overreads (receive_message (map chunk_of answers)) then None
     else threadfunc_reopen alloc (map chunk_of answers) open_ok reopen_ok sends s)"
proof -
  let ?m = "receive_message (map chunk_of answers)"
  obtain full_buf n d1 where r: "yocto_receive env answers d = (full_buf, n, d1)" by (metis prod_cases3)
  note b = yocto_receive_refines[OF r]
  show ?thesis
  proof (cases "open_ok")
    case True
    have q: "map_option (\<lambda>(s, f, p, d). (s, f, p)) (yocto_request env alloc full_buf n s d1) =
        (if overreads ?m then None else server_request alloc ?m s)"
      using yocto_request_refines[of full_buf n] b by simp
    show ?thesis
    proof (cases "yocto_request env alloc full_buf n s d1")
      case None
      then show ?thesis using True q
        by (auto simp: yocto_threadfunc_def threadfunc_reopen_def r Let_def split: if_splits)
    next
      case (Some a)
      obtain s' f plain d2 where a: "a = (s', f, plain, d2)" by (metis prod_cases4)
      then have q': "\<not> overreads ?m" "server_request alloc ?m s = Some (s', f, plain)"
        using q Some by (auto split: if_splits)
      show ?thesis
        using True q' Some yocto_read_loop_refines[of env s' "if plain then 0 else f" sends "[]" "dbglog env Start_read d2", symmetric]
        by (cases "yocto_read_loop env s' (if plain then 0 else f) sends [] (dbglog env Start_read d2)")
          (auto simp: yocto_threadfunc_def threadfunc_reopen_def r a Let_def)
    qed
  qed (simp add: yocto_threadfunc_def threadfunc_reopen_def r Let_def)
qed

text \<open>C31. The thread of the Yocto build, with its arrays and its log to the kernel, does what the
  bare protocol says (threadfunc_reopen), whatever the log device does: the same reply, the
  same device, the same flag. The only exception is a seek command that fills the message
  buffer with its newline and holds no zero byte: then the scan of its numbers reads behind the buffer.\<close>

theorem yocto_thread_transparent:
  "map_option fst (yocto_threadfunc env alloc answers open_ok reopen_ok sends s d) =
    (if open_ok \<and> overreads (receive_message (map chunk_of answers)) then None
     else threadfunc_reopen alloc (map chunk_of answers) open_ok reopen_ok sends s)"
  by (rule yocto_thread_bare)

text \<open>A message of two full reads is of that kind: 2047 bytes and the end of the connection.\<close>

lemma overreads_example:
  "overreads (receive_message (map chunk_of
    [Some (IOCTL_PREFIX @ replicate 1005 48), Some (replicate 1023 48), Some []]))"
proof -
  have p: "length IOCTL_PREFIX = 19" "0 \<notin> set IOCTL_PREFIX" "10 \<notin> set IOCTL_PREFIX" "IOCTL_PREFIX \<noteq> []"
    by code_simp+
  have "receive_message (map chunk_of
      [Some (IOCTL_PREFIX @ replicate 1005 48), Some (replicate 1023 48), Some []]) =
      IOCTL_PREFIX @ replicate 1005 48 @ replicate 1023 48 @ [10]"
    using p by (simp add: receive_message_def chunk_of_def ensure_newline_def Let_def code_consts)
  then show ?thesis using p by (simp add: overreads_def has_prefix_def code_consts)
qed

text \<open>The line \<open>RX\<close> is written before the terminating zero is stored, and shows the received
  bytes all the same: the array was cleared when the thread started.\<close>

lemma rx_line_shows_message:
  assumes "fopen_ok env = (\<lambda>_. True)"
  shows "last (kmsg (snd (snd (yocto_receive env answers d)))) =
    bytes_of ''<AESDDBGTHREAD>'' @ bytes_of ''RX='' @ [39] @
    c_string (recv_loop (map chunk_of answers) []) @ [39, 10, 10]"
proof -
  have b0: "buf_ok (replicate FULL_BUF 0) 0" "0 < FULL_BUF" by (simp_all add: buf_ok_def code_consts)
  obtain r buf0 n0 d1 where l:
    "yocto_recv_loop env answers (replicate FULL_BUF 0) 0 (dbglog env Thread_start d) = (r, buf0, n0, d1)"
    by (metis prod_cases4)
  note ok = yocto_recv_loop_refines[OF b0 l]
  have "c_string buf0 = c_string (take n0 buf0 @ replicate (FULL_BUF - n0) 0)"
    using buf_okD(3)[of buf0 n0] ok by simp
  also have "\<dots> = c_string (take n0 buf0)"
    by (rule c_string_zeros)
  finally have "c_string buf0 = c_string (recv_loop (map chunk_of answers) [])" using ok by simp
  then show ?thesis
    unfolding yocto_receive_def l by (simp add: Let_def split_def dbglog_def assms)
qed

subsection \<open>The process\<close>

text \<open>\<open>malloc\<close> never returns a live block.\<close>

definition fresh_malloc :: "(nat list \<Rightarrow> nat option) \<Rightarrow> bool" where
  "fresh_malloc m \<longleftrightarrow> (\<forall>h p. m h = Some p \<longrightarrow> p \<notin> set h)"

definition stopping :: "int option \<Rightarrow> bool" where
  "stopping sig \<longleftrightarrow> sig = Some 2 \<or> sig = Some 15"

definition ends_server :: "accept_event \<Rightarrow> bool" where
  "ends_server e \<longleftrightarrow> stopping (ev_early e) \<or> stopping (interruption (ev_answer e)) \<or> stopping (ev_late e)"

lemma deliver_ok [simp]:
  "threads_inv (deliver sig st) = threads_inv st"
  "th_list (deliver sig st) = th_list st" "th_heap (deliver sig st) = th_heap st"
  "caught_sig (deliver sig st) = (caught_sig st \<or> stopping sig)"
  by (auto simp: deliver_def signal_handler_def threads_inv_def stopping_def split: option.splits)

lemma accept_loop_ok:
  "threads_inv st \<Longrightarrow> \<forall>e \<in> set es. fresh_malloc (ev_malloc e) \<and> ev_create e \<Longrightarrow>
    \<exists>st'. accept_loop es early st = Some (caught_sig st \<or> (\<exists>e \<in> set es. ends_server e), st') \<and> threads_inv st' \<and>
      (\<not> caught_sig st \<and> \<not> (\<exists>e \<in> set es. ends_server e) \<longrightarrow> caught_sig st' = stopping early)"
proof (induction es arbitrary: st)
  case (Cons e es)
  let ?st1 = "deliver (interruption (ev_answer e)) (deliver (ev_early e) st)"
  have fresh: "\<forall>p. ev_malloc e (th_heap ?st1) = Some p \<longrightarrow> p \<notin> set (th_heap ?st1)"
    and create: "ev_create e"
    using Cons.prems(2) by (auto simp: fresh_malloc_def)
  have "threads_inv ?st1" using Cons.prems(1) by simp
  from accept_iteration_ok[OF this fresh, of "accepted_fd (ev_answer e)" "ev_completed e"]
  obtain st2 where st2: "accept_iteration (accepted_fd (ev_answer e)) (ev_malloc e (th_heap ?st1)) True (ev_completed e) ?st1 =
      Some st2" "threads_inv st2" "caught_sig st2 = caught_sig ?st1"
    by blast
  let ?st3 = "deliver (ev_late e) st2"
  show ?case
  proof (cases "caught_sig st")
    case False
    have c3: "caught_sig ?st3 = ends_server e" using st2(3) False by (auto simp: ends_server_def)
    have "threads_inv ?st3" using st2(2) by simp
    from Cons.IH[OF this, unfolded c3] Cons.prems(2) obtain st' where
      "accept_loop es early ?st3 = Some (ends_server e \<or> (\<exists>e \<in> set es. ends_server e), st')" "threads_inv st'"
      "\<not> ends_server e \<and> \<not> (\<exists>e \<in> set es. ends_server e) \<longrightarrow> caught_sig st' = stopping early"
      by auto
    then show ?thesis using False st2(1) create by (auto simp: Let_def simp del: deliver_ok)
  qed (use Cons.prems in simp)
qed auto

text \<open>C32. A start that fails exits with a status other than 0 and has no thread. For a server that could be set up and whose
  threads can all be created, nothing is ever joined or freed twice. It leaves the accept loop when a SIGINT or SIGTERM came before
  an accept that returns, interrupted it or followed it; then it joins the threads in the order of its list. When they all end it exits with
  status 0: every block freed, the socket closed. When one does not, it waits for the first such thread for ever, with that thread's
  block and the socket still held. Without such a signal it goes on waiting in accept, even when one came between the
  last test of the flag and an accept that does not return: the flag is set then, and not looked at.\<close>

theorem server_main_correct:
  assumes "\<forall>e \<in> set es. fresh_malloc (ev_malloc e) \<and> ev_create e"
  shows "case server_setup (run_as_daemon argv) r of
     (Some status, res) \<Rightarrow> status \<noteq> 0 \<and>
       server_main argv r es early ends = Some (Exited status res \<lparr>th_list = [], th_heap = [], caught_sig = False\<rparr>)
   | (None, res) \<Rightarrow> listening res \<and>
       (\<exists>st. accept_loop es early \<lparr>th_list = [], th_heap = [], caught_sig = False\<rparr> = Some (\<exists>e \<in> set es. ends_server e, st) \<and>
         threads_inv st \<and>
         (if \<not> (\<exists>e \<in> set es. ends_server e)
          then server_main argv r es early ends = Some (Serving res st) \<and> caught_sig st = stopping early
          else if \<forall>d \<in> set (th_list st). ends (th_addr d)
          then \<exists>res' st'. server_main argv r es early ends = Some (Exited 0 res' st') \<and>
            th_list st' = [] \<and> th_heap st' = [] \<and> \<not> sockfd_open res' \<and> \<not> servinfo_live res'
          else \<exists>st'. server_main argv r es early ends = Some (Joining_for_ever res st') \<and> sockfd_open res \<and> threads_inv st' \<and>
            th_list st' = dropWhile (\<lambda>d. ends (th_addr d)) (th_list st) \<and> \<not> ends (th_addr (hd (th_list st')))))"
proof (cases "server_setup (run_as_daemon argv) r")
  case (Pair failed res)
  let ?st0 = "\<lparr>th_list = [], th_heap = [], caught_sig = False\<rparr>"
  note started = server_setup_correct[of "run_as_daemon argv" r, unfolded Pair]
  have "threads_inv ?st0" by (simp add: threads_inv_def)
  from accept_loop_ok[OF this assms, of early] obtain st where
    l: "accept_loop es early ?st0 = Some (\<exists>e \<in> set es. ends_server e, st)" "threads_inv st"
    "\<not> (\<exists>e \<in> set es. ends_server e) \<longrightarrow> caught_sig st = stopping early" by auto
  obtain st' where sh: "server_shutdown ends st = Some (\<forall>d \<in> set (th_list st). ends (th_addr d), st')" "threads_inv st'"
    "th_list st' = dropWhile (\<lambda>d. ends (th_addr d)) (th_list st)"
    using server_shutdown_ok[OF l(2), of ends] by auto
  have rest: "if \<forall>d \<in> set (th_list st). ends (th_addr d) then th_list st' = [] \<and> th_heap st' = []
      else \<not> ends (th_addr (hd (th_list st')))"
    using sh(2,3) threads_inv_empty[of st'] hd_dropWhile[of "\<lambda>d. ends (th_addr d)" "th_list st"]
    by (auto simp: dropWhile_eq_Nil_conv)
  show ?thesis
  proof (cases failed)
    case None
    show ?thesis
    proof (cases "\<exists>e \<in> set es. ends_server e")
      case True
      then show ?thesis using None l(1,2) sh rest started
        by (cases "\<forall>d \<in> set (th_list st). ends (th_addr d)") (simp_all add: server_main_def Pair split: if_splits)
    qed (use None l started in \<open>simp add: server_main_def Pair\<close>)
  qed (use started in \<open>simp add: server_main_def Let_def Pair\<close>)
qed

text \<open>Two clients; the first one hangs, and the signal interrupts the third \<open>accept\<close>.\<close>

abbreviation demo_setup :: setup_results where
  "demo_setup \<equiv> \<lparr>sigaction_int_ok = True, sigaction_term_ok = True, getaddrinfo_ok = True, socket_ok = True,
     setsockopt_ok = True, bind_ok = True, daemon_ok = True, listen_ok = True\<rparr>"

definition demo_accept :: "accept_answer \<Rightarrow> bool \<Rightarrow> accept_event" where
  "demo_accept ans ok = \<lparr>ev_early = None, ev_answer = ans, ev_malloc = (\<lambda>h. find (\<lambda>p. p \<notin> set h) [1..<9]),
     ev_create = ok, ev_completed = (\<lambda>_. False), ev_late = None\<rparr>"

lemma server_main_correct_witness:
  "(\<exists>res st. server_main [''aesdsocket'', ''-d''] demo_setup
      [demo_accept (Connection 4) True, demo_accept (Connection 5) True, demo_accept (Interrupted 15) True] None (\<lambda>_. True) =
      Some (Exited 0 res st) \<and> th_heap st = []) \<and>
   (\<exists>res st. server_main [''aesdsocket'', ''-d''] demo_setup
      [demo_accept (Connection 4) True, demo_accept (Connection 5) True, demo_accept (Interrupted 15) True] None (\<lambda>p. p \<noteq> 1) =
      Some (Joining_for_ever res st) \<and> sockfd_open res) \<and>
   (\<exists>res st. server_main [''aesdsocket'', ''-d''] demo_setup [demo_accept (Connection 4) True] (Some 2) (\<lambda>_. True) =
      Some (Serving res st) \<and> caught_sig st)"
proof -
  let ?es = "[demo_accept (Connection 4) True, demo_accept (Connection 5) True, demo_accept (Interrupted 15) True]"
  have ok: "\<forall>e \<in> set ?es. fresh_malloc (ev_malloc e) \<and> ev_create e"
    "\<forall>e \<in> set [demo_accept (Connection 4) True]. fresh_malloc (ev_malloc e) \<and> ev_create e"
    by (auto simp: demo_accept_def fresh_malloc_def find_Some_iff)
  have ends: "\<exists>e \<in> set ?es. ends_server e" "\<not> (\<exists>e \<in> set [demo_accept (Connection 4) True]. ends_server e)"
    by (simp_all add: demo_accept_def ends_server_def stopping_def interruption_def)
  have left: "accept_loop ?es None \<lparr>th_list = [], th_heap = [], caught_sig = False\<rparr> =
      Some (True, \<lparr>th_list = [\<lparr>th_addr = 2, new_fd = 5, created = True\<rparr>, \<lparr>th_addr = 1, new_fd = 4, created = True\<rparr>],
        th_heap = [2, 1], caught_sig = True\<rparr>)"
    by (simp add: demo_accept_def accepted_fd_def interruption_def deliver_def signal_handler_def accept_iteration_def
        upt_rec Let_def)
  have started: "server_setup (run_as_daemon [''aesdsocket'', ''-d'']) demo_setup =
      (None, \<lparr>servinfo_live = False, sockfd_open = True, listening = True\<rparr>)"
    by (simp add: server_setup_def run_as_daemon_def Let_def)
  show ?thesis
    using server_main_correct[OF ok(1), where argv = "[''aesdsocket'', ''-d'']" and r = demo_setup and early = None and ends = "\<lambda>_. True"]
      server_main_correct[OF ok(1), where argv = "[''aesdsocket'', ''-d'']" and r = demo_setup and early = None and ends = "\<lambda>p. p \<noteq> 1"]
      server_main_correct[OF ok(2), where argv = "[''aesdsocket'', ''-d'']" and r = demo_setup and early = "Some 2" and ends = "\<lambda>_. True"]
    unfolding started left using ends by (auto simp: stopping_def simp del: accept_loop.simps)
qed

text \<open>When a thread cannot be created the server ends with a join of a thread that does not exist.\<close>

lemma server_main_missing_thread:
  "server_main [''aesdsocket''] demo_setup [demo_accept (Connection 4) False, demo_accept (Interrupted 15) True] None ends = None"
  by (simp add: server_main_def server_setup_def run_as_daemon_def deliver_def signal_handler_def demo_accept_def
    accepted_fd_def interruption_def upt_rec accept_iteration_def server_shutdown_def join_and_free_def Let_def)

end
