(* ===== verification/Aesd_Clients.thy ===== *)
theory Aesd_Clients
  imports Aesd_Server_Props Aesd_System
begin

section \<open>The server, the driver and the device together\<close>

text \<open>
  The connections of the installed server (the Yocto copy of \<open>aesdsocket.c\<close>) on one device of the
  driver. A connection does all its work on the device while it holds \<open>file_mutex\<close>, so that any
  interleaving of the threads is a sequence of connections in the order in which they take the mutex.
\<close>

subsection \<open>Connections\<close>

text \<open>
  What a connection brings along: the answers of \<open>recv\<close>, \<open>open\<close> (twice), \<open>send\<close> and the allocator. After the listed answers
  an idle peer sends nothing and keeps the connection open, so that \<open>recv\<close> does not return, and a stalled one takes nothing, so that
  \<open>send\<close> does not; any other peer has closed its side then, and takes all that is sent.
\<close>

record client =
  c_answers :: "recv_answer list"
  c_open :: bool
  c_reopen :: bool
  c_sends :: "int list"
  c_alloc :: allocator
  c_idle :: bool
  c_stalled :: bool

definition client_message :: "client \<Rightarrow> byte list" where
  "client_message c = receive_message (map chunk_of (c_answers c))"

text \<open>The thread from its start to its end, with a peer that is neither idle nor stalled.\<close>

definition serve :: "dbg_env \<Rightarrow> client \<Rightarrow> aesd_state \<times> dbg_state \<Rightarrow> ((aesd_state \<times> dbg_state) \<times> cell list) option" where
  "serve env c st =
     map_option (\<lambda>(se, d). ((s_device se, d), s_sent se))
       (yocto_threadfunc env (c_alloc c) (c_answers c) (c_open c) (c_reopen c) (c_sends c) (fst st) (snd st))"

subsection \<open>What a connection should do\<close>

text \<open>A peer that never reports an error gets all of the reply.\<close>

definition takes_all :: "client \<Rightarrow> bool" where
  "takes_all c \<longleftrightarrow> list_all (\<lambda>n. 0 \<le> n) (c_sends c)"

definition gets :: "client \<Rightarrow> cell list \<Rightarrow> byte list \<Rightarrow> bool" where
  "gets c reply bs \<longleftrightarrow> (takes_all c \<longrightarrow> reply = map Some bs)"

definition seek_start :: "log \<Rightarrow> byte list \<Rightarrow> nat" where
  "seek_start l m = (case scan_seekto (drop (length IOCTL_PREFIX) m) of
     None \<Rightarrow> 0 | Some st \<Rightarrow> (case seek_goal l st of None \<Rightarrow> 0 | Some q \<Rightarrow> q))"

definition store_message :: "byte list \<Rightarrow> log \<Rightarrow> log" where
  "store_message m l = (if m = [] then l else log_write m l)"

inductive log_reply :: "log \<Rightarrow> client \<times> cell list \<Rightarrow> log \<Rightarrow> bool" where
  turned_away: "\<not> c_open c \<Longrightarrow> log_reply l (c, []) l"
| sought: "c_open c \<Longrightarrow> m = client_message c \<Longrightarrow> has_prefix m \<Longrightarrow> gets c reply (drop (seek_start l m) (log_bytes l)) \<Longrightarrow>
    log_reply l (c, reply) l"
| stored: "c_open c \<Longrightarrow> m = client_message c \<Longrightarrow> \<not> has_prefix m \<Longrightarrow> c_reopen c \<Longrightarrow>
    gets c reply (log_bytes (store_message m l)) \<Longrightarrow> log_reply l (c, reply) (store_message m l)"
| unread: "c_open c \<Longrightarrow> m = client_message c \<Longrightarrow> \<not> has_prefix m \<Longrightarrow> \<not> c_reopen c \<Longrightarrow>
    log_reply l (c, []) (store_message m l)"
| lost: "c_open c \<Longrightarrow> \<not> has_prefix (client_message c) \<Longrightarrow> write_fails (c_alloc c) False (client_message c) s \<noteq> None \<Longrightarrow>
    aesd_rep s l \<Longrightarrow> if c_reopen c then gets c reply (log_bytes l) else reply = [] \<Longrightarrow> log_reply l (c, reply) l"

subsection \<open>The loops with any peer\<close>

lemma send_loop_takes:
  "list_all (\<lambda>n. 0 \<le> n) sends \<Longrightarrow> fst (send_loop sends bs) = bs \<and> list_all (\<lambda>n. 0 \<le> n) (snd (send_loop sends bs))"
  by (induction sends bs rule: send_loop.induct) (auto split: prod.splits)

lemma read_loop_any_peer:
  assumes "aesd_ready s"
  shows "int pos < 2 ^ 62 \<Longrightarrow> \<exists>out. server_read_loop s (int pos) sends acc = Some out \<and>
    (list_all (\<lambda>n. 0 \<le> n) sends \<longrightarrow> out = acc @ map Some (drop pos (aesd_bytes s)))"
proof (induction "length (aesd_bytes s) - pos" arbitrary: pos sends acc rule: less_induct)
  case less
  obtain l where rep: "aesd_rep s l" using assms unfolding aesd_ready_def by blast
  have l: "aesd_rep s l" "length (log_bytes l) < 2 ^ 62" "log_bytes l = aesd_bytes s"
    using assms rep aesd_bytes_rep[OF rep] by (simp_all add: aesd_ready_def)
  let ?got = "take RECV_BUF (drop pos (aesd_bytes s))"
  have rd: "aesd_read RECV_BUF RECV_BUF s (int pos) = Some (int (pos + length ?got), Ret (map Some ?got))"
    using aesd_read_ok[OF l(1,2) order_refl of_nat_0_le_iff less.prems, of RECV_BUF]
    unfolding l(3) Let_def nat_int of_nat_add .
  show ?case
  proof (cases "pos < length (aesd_bytes s)")
    case False
    then show ?thesis using rd by (subst server_read_loop.simps) simp
  next
    case True
    let ?p = "pos + length ?got" and ?q = "send_loop sends (map Some ?got)"
    have g: "?got \<noteq> []" using True by (simp add: code_consts)
    have p: "length (aesd_bytes s) - ?p < length (aesd_bytes s) - pos" "?p \<le> length (aesd_bytes s)"
      using True g by (auto simp: code_consts)
    then have "int ?p < 2 ^ 62" using l(2,3) by simp
    from less.hyps[OF p(1) this, of "snd ?q" "acc @ fst ?q"] obtain out where
      out: "server_read_loop s (int ?p) (snd ?q) (acc @ fst ?q) = Some out"
      "list_all (\<lambda>n. 0 \<le> n) (snd ?q) \<longrightarrow> out = (acc @ fst ?q) @ map Some (drop ?p (aesd_bytes s))" by blast
    have step: "server_read_loop s (int pos) sends acc = server_read_loop s (int ?p) (snd ?q) (acc @ fst ?q)"
      using g by (subst server_read_loop.simps) (simp only: rd option.case prod.case outcome.case list.map_disc_iff if_False)
    have "?got @ drop RECV_BUF (drop pos (aesd_bytes s)) = drop pos (aesd_bytes s)"
      by (rule append_take_drop_id)
    moreover have "drop RECV_BUF (drop pos (aesd_bytes s)) = drop ?p (aesd_bytes s)"
      by (simp add: min_def add.commute)
    ultimately have "?got @ drop ?p (aesd_bytes s) = drop pos (aesd_bytes s)" by simp
    then have "map Some ?got @ map Some (drop ?p (aesd_bytes s)) = map Some (drop pos (aesd_bytes s))"
      by (metis map_append)
    then show ?thesis using out send_loop_takes[of sends "map Some ?got"] unfolding step by auto
  qed
qed


subsection \<open>A connection refines what it should do\<close>

lemma request_reply:
  assumes "aesd_rep s' l'" "length (log_bytes l') < 2 ^ 62" "pos < 2 ^ 62"
  shows "\<exists>out. server_read_loop s' (int pos) sends [] = Some out \<and>
    (list_all (\<lambda>n. 0 \<le> n) sends \<longrightarrow> out = map Some (drop pos (log_bytes l')))"
  using read_loop_any_peer[of s' pos sends "[]"] ready_rep[OF assms(1,2)] assms(3) by simp

lemma seek_start_bound: "seek_start l m \<le> 2 * log_size l"
  by (auto simp: seek_start_def split: option.splits dest: seek_goal_bound)

lemma seek_request:
  assumes rep: "aesd_rep s l" and len: "length (log_bytes l) < 2 ^ 62" and pre: "has_prefix m"
  shows "server_request alloc m s = Some (s, int (seek_start l m), False)"
proof (cases "scan_seekto (drop (length IOCTL_PREFIX) m)")
  case None
  then show ?thesis using pre by (simp add: server_request_def seek_start_def)
next
  case (Some st)
  have "fst (aesd_unlocked_ioctl AESDCHAR_IOCSEEKTO (Some st) s 0) =
      int (case seek_goal l st of None \<Rightarrow> 0 | Some q \<Rightarrow> q)"
    using ioctl_ok[OF rep refl len, of st 0] scan_seekto_u32[OF Some]
    by (simp add: seek_goal_def Let_def)
  then show ?thesis using pre Some by (simp add: server_request_def seek_start_def)
qed

lemma bare_reply:
  assumes rep: "aesd_rep s l" and alloc: "fresh_alloc alloc" and small: "log_size l + length m < 2 ^ 61"
    and m: "m = receive_message chunks"
  shows "\<exists>se. threadfunc_reopen alloc chunks True reopen sends s = Some se \<and>
    (let out = (\<lambda>bs. list_all (\<lambda>n. 0 \<le> n) sends \<longrightarrow> s_sent se = map Some bs) in
     if has_prefix m then aesd_rep (s_device se) l \<and> out (drop (seek_start l m) (log_bytes l))
     else if m \<noteq> [] \<and> write_fails alloc False m s \<noteq> None
       then s_device se = s \<and> (if reopen then out (log_bytes l) else s_sent se = [])
     else aesd_rep (s_device se) (store_message m l) \<and>
       (if reopen then out (log_bytes (store_message m l)) else s_sent se = []))"
proof -
  have len: "length (log_bytes l) < 2 ^ 62" using small log_bytes_size[of l] by simp
  show ?thesis
  proof (cases "has_prefix m")
    case True
    have p: "seek_start l m < 2 ^ 62" using seek_start_bound[of l m] small by simp
    from request_reply[OF rep len p, of sends] obtain out where
      "server_read_loop s (int (seek_start l m)) sends [] = Some out"
      "list_all (\<lambda>n. 0 \<le> n) sends \<longrightarrow> out = map Some (drop (seek_start l m) (log_bytes l))" by blast
    then show ?thesis using True rep seek_request[OF rep len True, of alloc]
      by (simp add: threadfunc_reopen_def m[symmetric] Let_def)
  next
    case False
    have fm: "length m \<le> FULL_BUF" unfolding m by (rule receive_message_correct_len)
    have l': "length (log_bytes (store_message m l)) < 2 ^ 62"
      using log_size_write[of m l] log_bytes_size[of "store_message m l"] small
      by (auto simp: store_message_def split: if_splits)
    consider (failing) err where "m \<noteq> []" "write_fails alloc False m s = Some err"
      | (stored) s' f where "server_request alloc m s = Some (s', f, True)" "aesd_rep s' (store_message m l)"
          "\<not> (m \<noteq> [] \<and> write_fails alloc False m s \<noteq> None)"
    proof (cases "m = []")
      case True
      then have "server_request alloc m s = Some (s, 0, True)"
        using False by (simp add: server_request_def server_write_loop.simps)
      then show ?thesis using that(2) rep True by (simp add: store_message_def)
    next
      case ne: False
      then show ?thesis
        using that plain_request[OF rep alloc ne False fm] by (cases "write_fails alloc False m s") (auto simp: store_message_def)
    qed
    then show ?thesis
    proof cases
      case failing
      then have "server_request alloc m s = Some (s, 0, True)"
        using write_loop_ok[OF rep alloc failing(1)] False by (simp add: server_request_def)
      moreover obtain out where "server_read_loop s (int 0) sends [] = Some out"
        "list_all (\<lambda>n. 0 \<le> n) sends \<longrightarrow> out = map Some (drop 0 (log_bytes l))"
        using request_reply[OF rep len, of 0 sends] by auto
      ultimately show ?thesis using False failing
        by (simp add: threadfunc_reopen_def m[symmetric] Let_def)
    next
      case stored
      moreover obtain out where "server_read_loop s' (int 0) sends [] = Some out"
        "list_all (\<lambda>n. 0 \<le> n) sends \<longrightarrow> out = map Some (drop 0 (log_bytes (store_message m l)))"
        using request_reply[OF stored(2) l', of 0 sends] by auto
      ultimately show ?thesis using False
        by (auto simp: threadfunc_reopen_def m[symmetric] Let_def)
    qed
  qed
qed

text \<open>The connection without its log.\<close>

definition bare_serve :: "client \<Rightarrow> aesd_state \<Rightarrow> (aesd_state \<times> cell list) option" where
  "bare_serve c s = map_option (\<lambda>se. (s_device se, s_sent se))
     (threadfunc_reopen (c_alloc c) (map chunk_of (c_answers c)) (c_open c) (c_reopen c) (c_sends c) s)"

lemma bare_serve_refines:
  assumes rep: "aesd_rep s l" and alloc: "fresh_alloc (c_alloc c)"
    and small: "log_size l + length (client_message c) < 2 ^ 61"
  shows "\<exists>s' reply l'. bare_serve c s = Some (s', reply) \<and> log_reply l (c, reply) l' \<and>
    aesd_rep s' l' \<and> log_size l' \<le> log_size l + length (client_message c)"
proof -
  let ?m = "client_message c"
  show ?thesis
  proof (cases "c_open c")
    case False
    then have "bare_serve c s = Some (s, [])" by (simp add: bare_serve_def threadfunc_reopen_def Let_def)
    then show ?thesis using turned_away[OF False] rep le_add1 by blast
  next
    case True
    from bare_reply[OF rep alloc small client_message_def, of "c_reopen c" "c_sends c"] obtain se where
      se: "threadfunc_reopen (c_alloc c) (map chunk_of (c_answers c)) True (c_reopen c) (c_sends c) s = Some se"
      "if has_prefix ?m then aesd_rep (s_device se) l \<and> gets c (s_sent se) (drop (seek_start l ?m) (log_bytes l))
       else if ?m \<noteq> [] \<and> write_fails (c_alloc c) False ?m s \<noteq> None
         then s_device se = s \<and> (if c_reopen c then gets c (s_sent se) (log_bytes l) else s_sent se = [])
       else aesd_rep (s_device se) (store_message ?m l) \<and>
         (if c_reopen c then gets c (s_sent se) (log_bytes (store_message ?m l)) else s_sent se = [])"
      unfolding Let_def gets_def takes_all_def by blast
    have sv: "bare_serve c s = Some (s_device se, s_sent se)" using True se(1) by (simp add: bare_serve_def)
    have st: "log_size (store_message ?m l) \<le> log_size l + length ?m"
      using log_size_write[of ?m l] by (simp add: store_message_def)
    consider (sought) "has_prefix ?m" | (lost) "\<not> has_prefix ?m" "?m \<noteq> []" "write_fails (c_alloc c) False ?m s \<noteq> None"
      | (stored) "\<not> has_prefix ?m" "\<not> (?m \<noteq> [] \<and> write_fails (c_alloc c) False ?m s \<noteq> None)" by blast
    then show ?thesis
    proof cases
      case sought
      then have "log_reply l (c, s_sent se) l" "aesd_rep (s_device se) l"
        using se(2) log_reply.sought[OF True refl, of "s_sent se" l] by simp_all
      then show ?thesis using sv le_add1 by blast
    next
      case lost
      then have "log_reply l (c, s_sent se) l" "aesd_rep (s_device se) l"
        using se(2) rep log_reply.lost[OF True, of s l "s_sent se"] by auto
      then show ?thesis using sv le_add1 by blast
    next
      case stored
      then have "log_reply l (c, s_sent se) (store_message ?m l)" "aesd_rep (s_device se) (store_message ?m l)"
        using se(2) log_reply.stored[OF True refl, of "s_sent se" l] log_reply.unread[OF True refl, of l]
        by (cases "c_reopen c"; simp)+
      then show ?thesis using sv st by blast
    qed
  qed
qed

lemma serve_bare:
  assumes "\<not> overreads (client_message c)"
  shows "map_option (\<lambda>(st, r). (fst st, r)) (serve env c (s, d)) = bare_serve c s"
proof -
  have "map_option (\<lambda>(st, r). (fst st, r)) (serve env c (s, d)) =
      map_option (\<lambda>se. (s_device se, s_sent se))
        (map_option fst (yocto_threadfunc env (c_alloc c) (c_answers c) (c_open c) (c_reopen c) (c_sends c) s d))"
    by (simp add: serve_def option.map_comp comp_def split_beta)
  then show ?thesis unfolding yocto_thread_bare using assms by (simp add: bare_serve_def client_message_def)
qed

lemma serve_refines:
  assumes rep: "aesd_rep s l" and alloc: "fresh_alloc (c_alloc c)"
    and small: "log_size l + length (client_message c) < 2 ^ 61" and ov: "\<not> overreads (client_message c)"
  shows "\<exists>s' d' reply l'. serve env c (s, d) = Some ((s', d'), reply) \<and> log_reply l (c, reply) l' \<and>
    aesd_rep s' l' \<and> log_size l' \<le> log_size l + length (client_message c)"
proof -
  from bare_serve_refines[OF rep alloc small] obtain s' reply l' where
    b: "bare_serve c s = Some (s', reply)" "log_reply l (c, reply) l'" "aesd_rep s' l'"
      "log_size l' \<le> log_size l + length (client_message c)" by blast
  have "map_option (\<lambda>(st, r). (fst st, r)) (serve env c (s, d)) = Some (s', reply)" unfolding serve_bare[OF ov] by (fact b(1))
  then obtain d' where "serve env c (s, d) = Some ((s', d'), reply)" by auto
  with b show ?thesis by blast
qed

text \<open>The budget is what the messages store.\<close>

definition serve_rep :: "nat \<Rightarrow> aesd_state \<times> dbg_state \<Rightarrow> log \<Rightarrow> bool" where
  "serve_rep used st l \<longleftrightarrow> aesd_rep (fst st) l \<and> log_size l \<le> used"

definition client_ok :: "client \<Rightarrow> bool" where
  "client_ok c \<longleftrightarrow> fresh_alloc (c_alloc c) \<and> \<not> overreads (client_message c)"

interpretation clients: call_refinement "serve env" log_reply serve_rep "length \<circ> client_message" client_ok "2 ^ 61"
  for env
proof
  fix used st l c
  assume a: "serve_rep used st l" "client_ok c" "used + (length \<circ> client_message) c < 2 ^ 61"
  then have "log_size l + length (client_message c) < 2 ^ 61" by (simp add: serve_rep_def)
  from serve_refines[OF _ _ this, of "fst st" env "snd st"] a
  show "\<exists>s' r a'. serve env c st = Some (s', r) \<and> log_reply l (c, r) a' \<and>
      serve_rep (used + (length \<circ> client_message) c) s' a'"
    by (fastforce simp: serve_rep_def client_ok_def)
qed

interpretation bare_clients: call_refinement bare_serve log_reply "\<lambda>used s l. aesd_rep s l \<and> log_size l \<le> used"
  "length \<circ> client_message" "\<lambda>c. fresh_alloc (c_alloc c)" "2 ^ 61"
proof
  fix used s l c
  assume a: "aesd_rep s l \<and> log_size l \<le> used" "fresh_alloc (c_alloc c)" "used + (length \<circ> client_message) c < 2 ^ 61"
  then have "log_size l + length (client_message c) < 2 ^ 61" by simp
  from bare_serve_refines[OF _ _ this] a
  show "\<exists>s' r l'. bare_serve c s = Some (s', r) \<and> log_reply l (c, r) l' \<and>
      aesd_rep s' l' \<and> log_size l' \<le> used + (length \<circ> client_message) c"
    by fastforce
qed

subsection \<open>A history of clients\<close>

text \<open>A client that sends a message that is stored, and waits for the whole reply.\<close>

definition writer :: "client \<Rightarrow> bool" where
  "writer c \<longleftrightarrow> c_open c \<and> c_reopen c \<and> takes_all c \<and> client_message c \<noteq> [] \<and> \<not> has_prefix (client_message c)"

text \<open>An allocator that always serves the driver, as \<open>first_free\<close> does.\<close>

definition reliable :: "allocator \<Rightarrow> bool" where
  "reliable alloc \<longleftrightarrow> fresh_alloc alloc \<and> (\<forall>s l src. aesd_rep s l \<longrightarrow> write_fails alloc False src s = None)"

lemma reliable_first_free: "reliable first_free"
  by (simp add: reliable_def fresh_first_free first_free_serves)

lemma take_last_append: "take_last n (take_last n xs @ ys) = take_last n (xs @ ys)"
proof (cases "length xs \<le> n")
  case False
  then show ?thesis by (auto simp: take_last_def add.commute)
qed simp

lemma reliableD: "reliable alloc \<Longrightarrow> aesd_rep s l \<Longrightarrow> write_fails alloc False src s = None"
  unfolding reliable_def by blast

lemma store_message_writer:
  assumes "writer c"
  shows "store_message (client_message c) (cmds, []) = (take_last 10 (cmds @ [client_message c]), [])"
proof -
  have "10 \<in> set (client_message c)"
    using assms receive_message_correct_newline by (auto simp: writer_def client_message_def)
  then show ?thesis using assms by (auto simp: store_message_def log_write_def writer_def)
qed

lemma log_reply_writer:
  assumes "log_reply (cmds, []) (c, reply) l'" "writer c" "reliable (c_alloc c)"
  shows "l' = (take_last 10 (cmds @ [client_message c]), []) \<and>
    reply = map Some (concat (take_last 10 (cmds @ [client_message c])))"
  using assms(1)
proof cases
  case (stored m)
  then show ?thesis using assms(2) store_message_writer[OF assms(2), of cmds]
    by (auto simp: gets_def writer_def log_bytes_def)
next
  case (lost s)
  then show ?thesis using reliableD[OF assms(3) lost(5), of "client_message c"] by simp
qed (use assms(2) in \<open>auto simp: writer_def\<close>)

lemma run_writers:
  "run log_reply (cmds, []) (zip cs rs) l' \<Longrightarrow> length rs = length cs \<Longrightarrow>
    list_all (\<lambda>c. writer c \<and> reliable (c_alloc c)) cs \<Longrightarrow>
    fst l' = (if cs = [] then cmds else take_last 10 (cmds @ map client_message cs)) \<and> snd l' = [] \<and>
    (\<forall>i < length cs. rs ! i = map Some (concat (take_last 10 (cmds @ map client_message (take (Suc i) cs)))))"
proof (induction cs arbitrary: rs cmds)
  case Nil
  then show ?case by (auto elim: run_NilE)
next
  case (Cons c cs)
  then obtain r rs' where rs: "rs = r # rs'" by (cases rs) auto
  let ?cmds = "take_last 10 (cmds @ [client_message c])"
  from Cons.prems(1) obtain l1 where l1: "log_reply (cmds, []) (c, r) l1" "run log_reply l1 (zip cs rs') l'"
    unfolding rs by (auto elim: run_ConsE)
  have w: "l1 = (?cmds, [])" "r = map Some (concat ?cmds)"
    using log_reply_writer[OF l1(1)] Cons.prems(3) by auto
  have app: "take_last 10 (?cmds @ xs) = take_last 10 (cmds @ client_message c # xs)" for xs
    using take_last_append[of 10 "cmds @ [client_message c]" xs] by simp
  have IH: "fst l' = (if cs = [] then ?cmds else take_last 10 (?cmds @ map client_message cs))" "snd l' = []"
    "\<forall>i < length cs. rs' ! i = map Some (concat (take_last 10 (?cmds @ map client_message (take (Suc i) cs))))"
    using Cons.IH[of ?cmds rs'] l1(2) Cons.prems(2,3) unfolding w(1) rs by auto
  show ?case
    using IH w(2) unfolding rs app by (auto simp: nth_Cons less_Suc_eq_0_disj split: nat.splits)
qed

definition hello_client :: "string \<Rightarrow> client" where
  "hello_client s = \<lparr>c_answers = [Some (bytes_of s), Some [10]], c_open = True, c_reopen = True, c_sends = [1, 0, 2],
     c_alloc = first_free, c_idle = False, c_stalled = False\<rparr>"

text \<open>A peer with which no call of its thread waits for ever, and whose message is not scanned behind its end.\<close>

definition cooperative :: "client \<Rightarrow> bool" where
  "cooperative c \<longleftrightarrow> \<not> c_idle c \<and> \<not> c_stalled c \<and> \<not> overreads (client_message c)"

definition demo_clients :: "client list" where
  "demo_clients = [hello_client ''a'', hello_client ''b'']"

definition quiet :: dbg_env where
  "quiet = \<lparr>fopen_ok = (\<lambda>_. True), errno_at = (\<lambda>_. 0)\<rparr>"

lemma demo_messages: "map client_message demo_clients = [[97, 10], [98, 10]]"
  by code_simp

lemma demo_clients_ok:
  "list_all client_ok demo_clients" "list_all (\<lambda>c. writer c \<and> reliable (c_alloc c)) demo_clients"
  "list_all cooperative demo_clients" "sum_list (map (length \<circ> client_message) demo_clients) < 2 ^ 61"
proof -
  have m: "client_message (hello_client ''a'') = [97, 10]" "client_message (hello_client ''b'') = [98, 10]"
    using demo_messages by (simp_all add: demo_clients_def)
  have p: "\<not> has_prefix [97, 10]" "\<not> has_prefix [98, 10]" by code_simp+
  have h: "c_alloc (hello_client s) = first_free" "c_open (hello_client s)" "c_reopen (hello_client s)"
    "takes_all (hello_client s)" "\<not> c_idle (hello_client s)" "\<not> c_stalled (hello_client s)" for s
    by (simp_all add: hello_client_def takes_all_def)
  show "list_all client_ok demo_clients" "list_all (\<lambda>c. writer c \<and> reliable (c_alloc c)) demo_clients"
    "list_all cooperative demo_clients" "sum_list (map (length \<circ> client_message) demo_clients) < 2 ^ 61"
    by (simp_all add: demo_clients_def client_ok_def cooperative_def writer_def overreads_def m p h fresh_first_free reliable_first_free)
qed

lemma empty_demo_heap: "kheap (dev_state demo_module) = Map.empty"
  by (simp add: demo_module_def)

subsection \<open>The connections one after the other\<close>

text \<open>The installed server on a loaded device: whatever messages, seek commands, failing calls, slow or failing
  peers and failing allocations the connections bring (no peer idle or stalled), each one ends, and their replies are those of the protocol: a log of
  the last ten commands, to which a message is added and which is sent back whole, or from the byte that a
  seek command names. The log lines of the threads make no difference.\<close>

lemma server_system_refines:
  assumes "kheap (dev_state m) = Map.empty" "list_all client_ok cs"
    and "sum_list (map (length \<circ> client_message) cs) < 2 ^ 61"
  shows "\<exists>replies s d l. exec_calls (serve env) cs (dev_state (fst (aesd_init_module 0 0 m)), d0) = Some (replies, (s, d)) \<and>
    length replies = length cs \<and> run log_reply ([], []) (zip cs replies) l \<and> aesd_rep s l"
proof -
  have "serve_rep 0 (dev_state (fst (aesd_init_module 0 0 m)), d0) ([], [])"
    using init_ok[OF assms(1), of 0 0] by (simp add: serve_rep_def log_size_def log_bytes_def)
  then obtain replies st l where
    "exec_calls (serve env) cs (dev_state (fst (aesd_init_module 0 0 m)), d0) = Some (replies, st)"
    "length replies = length cs" "run log_reply ([], []) (zip cs replies) l" "aesd_rep (fst st) l"
    using clients.calls_refine[of 0 _ "([], [])" cs env] assms(2,3) unfolding add_0 serve_rep_def by blast
  then show ?thesis by (metis prod.collapse)
qed

lemma server_system_refines_example:
  "\<exists>replies s d l. exec_calls (serve quiet) demo_clients
      (dev_state (fst (aesd_init_module 0 0 demo_module)), \<lparr>dbg_calls = 0, kmsg = []\<rparr>) = Some (replies, (s, d)) \<and>
    run log_reply ([], []) (zip demo_clients replies) l"
  using server_system_refines[OF empty_demo_heap demo_clients_ok(1,4)] by blast

text \<open>When every client sends a message and takes its reply, and memory suffices, each of them gets the last ten
  messages up to and including its own, whole and in order, from the first connection after loading on.\<close>

lemma clients_see_last_ten:
  assumes "kheap (dev_state m) = Map.empty" "list_all client_ok cs"
    and "list_all (\<lambda>c. writer c \<and> reliable (c_alloc c)) cs"
    and "sum_list (map (length \<circ> client_message) cs) < 2 ^ 61"
  shows "\<exists>replies st. exec_calls (serve env) cs (dev_state (fst (aesd_init_module 0 0 m)), d0) = Some (replies, st) \<and>
    length replies = length cs \<and>
    (\<forall>i < length cs. replies ! i = map Some (concat (take_last 10 (map client_message (take (Suc i) cs)))))"
proof -
  have "serve_rep 0 (dev_state (fst (aesd_init_module 0 0 m)), d0) ([], [])"
    using init_ok[OF assms(1), of 0 0] by (simp add: serve_rep_def log_size_def log_bytes_def)
  then obtain replies st l where
    r: "exec_calls (serve env) cs (dev_state (fst (aesd_init_module 0 0 m)), d0) = Some (replies, st)"
    "length replies = length cs" "run log_reply ([], []) (zip cs replies) l"
    using clients.calls_refine[of 0 _ "([], [])" cs env] assms(2,4) unfolding add_0 by blast
  from run_writers[OF r(3,2) assms(3)] show ?thesis using r(1,2) by auto
qed

lemma clients_see_last_ten_example:
  "\<exists>replies st. exec_calls (serve quiet) demo_clients
      (dev_state (fst (aesd_init_module 0 0 demo_module)), \<lparr>dbg_calls = 0, kmsg = []\<rparr>) = Some (replies, st) \<and>
    replies ! 1 = map Some [97, 10, 98, 10]"
proof -
  have "length demo_clients = 2" "map Some (concat (take_last 10 (map client_message (take (Suc 1) demo_clients)))) =
      map Some [97, 10, 98, 10]"
    using demo_messages by (simp_all add: demo_clients_def)
  then show ?thesis
    using clients_see_last_ten[OF empty_demo_heap demo_clients_ok(1,2,4), of quiet "\<lparr>dbg_calls = 0, kmsg = []\<rparr>"]
    by (metis one_less_numeral_iff semiring_norm(76))
qed

end
