(* ===== verification/Aesd_Threads.thy ===== *)
theory Aesd_Threads
  imports Aesd_Clients
begin

section \<open>The threads of the server\<close>

text \<open>
  The process of \<open>aesdsocket.c\<close> (the Yocto copy) as it runs: the main thread in its accept loop and one
  thread per connection, interleaved in any order between the calls they make. The threads share
  \<open>file_mutex\<close>, the device, and the blocks of type \<open>thread_data\<close> on the heap, which hold \<open>bThreadCompleted\<close>.
  The answers of the environment to a connection are those of a \<open>client\<close>. The log of a thread is left
  out here (it makes no difference: \<open>yocto_thread_bare\<close>), and \<open>pthread_create\<close> succeeds (what a failure does is in
  \<open>server_joins_missing_thread\<close>).
\<close>

subsection \<open>A thread\<close>

text \<open>Where a thread is: the next call that it makes. \<open>Writing n\<close> is the loop with \<open>written_total = n\<close>, \<open>Sending bs\<close> the
  loop with the bytes of \<open>send_buf\<close> that are left.\<close>

datatype thread_pc =
  Receiving
| Locking
| Opening
| Requesting
| Writing nat
| Reopening
| Reading
| Sending "cell list"
| Unlocking
| Hanging_up
| Locking_again
| Marking
| Unlocking_again
| Turning_away
| Refusing
| Returned

text \<open>\<open>t_arg\<close> is the address in \<open>arg\<close>; the rest are the local variables.\<close>

record thread =
  t_client :: client
  t_arg :: nat
  t_pc :: thread_pc
  t_pending :: "recv_answer list"
  t_msg :: "byte list"
  t_f_pos :: int
  t_sends :: "int list"
  t_sent :: "cell list"

text \<open>
  What the threads share. \<open>flags a\<close> is \<open>bThreadCompleted\<close> of the block at \<open>a\<close>, \<open>None\<close> where no block is.
  \<open>lock_order\<close> records in which order the threads took the mutex for their request; the code does not
  have it and nothing reads it.
\<close>

record shared =
  file_mutex :: "nat option"
  flags :: "nat \<Rightarrow> bool option"
  device :: aesd_state
  lock_order :: "nat list"

text \<open>A step is taken, or waits for another thread or for the peer, or has no meaning in C.\<close>

datatype 'a progress = Moves 'a | Waits | Undefined

fun lock_mutex :: "nat \<Rightarrow> shared \<Rightarrow> shared progress" where
  "lock_mutex i sh = (case file_mutex sh of None \<Rightarrow> Moves (sh\<lparr>file_mutex := Some i\<rparr>) | Some j \<Rightarrow> Waits)"

fun unlock_mutex :: "nat \<Rightarrow> shared \<Rightarrow> shared progress" where
  "unlock_mutex i sh = (if file_mutex sh = Some i then Moves (sh\<lparr>file_mutex := None\<rparr>) else Undefined)"

fun and_then :: "'a progress \<Rightarrow> ('a \<Rightarrow> 'b) \<Rightarrow> 'b progress" where
  "and_then (Moves x) f = Moves (f x)"
| "and_then Waits f = Waits"
| "and_then Undefined f = Undefined"

text \<open>Reading \<open>th_arg->new_fd\<close> needs the block.\<close>

definition with_arg :: "thread \<Rightarrow> shared \<Rightarrow> 'b progress \<Rightarrow> 'b progress" where
  "with_arg t sh r = (if flags sh (t_arg t) = None then Undefined else r)"

text \<open>One answer of \<open>recv\<close>; without an answer it waits for an idle peer, and for any other one it finds the end of the stream.\<close>

definition receive_step :: "thread \<Rightarrow> thread progress" where
  "receive_step t =
     (let stop = (\<lambda>rest m. Moves (t\<lparr>t_pc := Locking, t_pending := rest, t_msg := ensure_newline m\<rparr>)) in
      case t_pending t of
        [] \<Rightarrow> if c_idle (t_client t) then Waits else stop [] (t_msg t)
      | ans # rest \<Rightarrow>
          (let buf = chunk_of ans in
           if buf = [] then stop rest (t_msg t)
           else
             (let m = (if length (t_msg t) + length buf < FULL_BUF then t_msg t @ buf else t_msg t)
              in if 10 \<in> set buf then stop rest m else Moves (t\<lparr>t_pending := rest, t_msg := m\<rparr>))))"

definition request_step :: "thread \<Rightarrow> aesd_state \<Rightarrow> thread progress" where
  "request_step t s =
     (if has_prefix (t_msg t) then
        if overreads (t_msg t) then Undefined
        else (case scan_seekto (drop (length IOCTL_PREFIX) (t_msg t)) of
                None \<Rightarrow> Moves (t\<lparr>t_pc := Reading\<rparr>)
              | Some st \<Rightarrow>
                  Moves (t\<lparr>t_pc := Reading,
                    t_f_pos := fst (aesd_unlocked_ioctl AESDCHAR_IOCSEEKTO (Some st) s (t_f_pos t))\<rparr>))
      else Moves (t\<lparr>t_pc := Writing 0\<rparr>))"

definition write_step :: "nat \<Rightarrow> thread \<Rightarrow> aesd_state \<Rightarrow> (thread \<times> aesd_state) progress" where
  "write_step n t s =
     (if n < length (t_msg t) then
        (case aesd_write (c_alloc (t_client t)) False (drop n (t_msg t)) s (t_f_pos t) of
           None \<Rightarrow> Undefined
         | Some (s', f', r) \<Rightarrow>
             (case r of
                Ret written \<Rightarrow> Moves (t\<lparr>t_pc := Writing (n + written), t_f_pos := f'\<rparr>, s')
              | _ \<Rightarrow> Moves (t\<lparr>t_pc := Reopening, t_f_pos := f'\<rparr>, s')))
      else Moves (t\<lparr>t_pc := Reopening\<rparr>, s))"

definition read_step :: "thread \<Rightarrow> aesd_state \<Rightarrow> thread progress" where
  "read_step t s =
     (case aesd_read RECV_BUF RECV_BUF s (t_f_pos t) of
        None \<Rightarrow> Undefined
      | Some (f', r) \<Rightarrow>
          (case r of
             Ret bs \<Rightarrow> Moves (t\<lparr>t_pc := (if bs = [] then Unlocking else Sending bs), t_f_pos := f'\<rparr>)
           | _ \<Rightarrow> Moves (t\<lparr>t_pc := Unlocking, t_f_pos := f'\<rparr>)))"

text \<open>One answer of \<open>send\<close>.\<close>

definition send_step :: "cell list \<Rightarrow> thread \<Rightarrow> thread progress" where
  "send_step bs t =
     (case t_sends t of
        [] \<Rightarrow> if c_stalled (t_client t) then Waits else Moves (t\<lparr>t_pc := Reading, t_sent := t_sent t @ bs\<rparr>)
      | n # sends \<Rightarrow>
          if n < 0 then Moves (t\<lparr>t_pc := Reading, t_sends := sends\<rparr>)
          else
            (let left = drop (nat n) bs
             in Moves (t\<lparr>t_pc := (if left = [] then Reading else Sending left), t_sends := sends,
                  t_sent := t_sent t @ take (nat n) bs\<rparr>)))"

definition thread_step :: "nat \<Rightarrow> thread \<Rightarrow> shared \<Rightarrow> (thread \<times> shared) progress" where
  "thread_step i t sh =
     (let goto = (\<lambda>pc. Pair (t\<lparr>t_pc := pc\<rparr>)) in
      case t_pc t of
        Receiving \<Rightarrow> with_arg t sh (and_then (receive_step t) (\<lambda>t'. (t', sh)))
      | Locking \<Rightarrow> and_then (lock_mutex i sh) (\<lambda>sh'. goto Opening (sh'\<lparr>lock_order := lock_order sh @ [i]\<rparr>))
      | Opening \<Rightarrow> Moves (t\<lparr>t_pc := (if c_open (t_client t) then Requesting else Turning_away), t_f_pos := 0\<rparr>, sh)
      | Requesting \<Rightarrow> and_then (request_step t (device sh)) (\<lambda>t'. (t', sh))
      | Writing n \<Rightarrow> and_then (write_step n t (device sh)) (\<lambda>(t', s'). (t', sh\<lparr>device := s'\<rparr>))
      | Reopening \<Rightarrow> Moves (t\<lparr>t_pc := (if c_reopen (t_client t) then Reading else Turning_away), t_f_pos := 0\<rparr>, sh)
      | Reading \<Rightarrow> and_then (read_step t (device sh)) (\<lambda>t'. (t', sh))
      | Sending bs \<Rightarrow> with_arg t sh (and_then (send_step bs t) (\<lambda>t'. (t', sh)))
      | Unlocking \<Rightarrow> and_then (unlock_mutex i sh) (goto Hanging_up)
      | Hanging_up \<Rightarrow> with_arg t sh (Moves (goto Locking_again sh))
      | Locking_again \<Rightarrow> and_then (lock_mutex i sh) (goto Marking)
      | Marking \<Rightarrow> with_arg t sh (Moves (goto Unlocking_again (sh\<lparr>flags := (flags sh)(t_arg t := Some True)\<rparr>)))
      | Unlocking_again \<Rightarrow> and_then (unlock_mutex i sh) (goto Returned)
      | Turning_away \<Rightarrow> and_then (unlock_mutex i sh) (goto Refusing)
      | Refusing \<Rightarrow> with_arg t sh (Moves (goto Returned sh))
      | Returned \<Rightarrow> Waits)"

definition new_thread :: "client \<Rightarrow> nat \<Rightarrow> thread" where
  "new_thread c a = \<lparr>t_client = c, t_arg = a, t_pc = Receiving, t_pending = c_answers c, t_msg = [], t_f_pos = 0,
     t_sends = c_sends c, t_sent = []\<rparr>"

subsection \<open>The main thread\<close>

text \<open>
  \<open>Testing\<close> is the condition of the accept loop, \<open>Entering\<close> the call of \<open>accept\<close>, \<open>Accepting\<close> its wait, \<open>Interrupted\<close> its
  return with -1. \<open>Walking l\<close> is the walk over the list of threads with the elements \<open>l\<close> to visit, \<open>Joining e l\<close> the wait of
  \<open>pthread_join\<close> in it, \<open>Leaving l\<close> the last loop, which joins all that are left. An element of the list is the
  address of its block and its \<open>thread_id\<close>.
\<close>

datatype main_pc =
  Testing
| Entering
| Accepting
| Interrupted
| Walking "(nat \<times> nat) list"
| Joining "nat \<times> nat" "(nat \<times> nat) list"
| Leaving "(nat \<times> nat) list"
| Exited

text \<open>What \<open>accept\<close> is going to return: an error, or a connection with the answer of \<open>malloc\<close> for its block, given the
  blocks that are live.\<close>

datatype arrival = Fails | Arrives client "nat list \<Rightarrow> nat option"

record process =
  threads :: "thread list"
  common :: shared
  elements :: "(nat \<times> nat) list"
  main_at :: main_pc
  backlog :: "arrival list"
  caught :: bool

text \<open>The end of \<open>pthread_join\<close>, \<open>SLIST_REMOVE\<close> and \<open>free\<close> for an element, and the way on.\<close>

definition join_step :: "nat \<times> nat \<Rightarrow> main_pc \<Rightarrow> process \<Rightarrow> process progress" where
  "join_step e next p =
     (if length (threads p) \<le> snd e \<or> e \<notin> set (elements p) \<or> flags (common p) (fst e) = None then Undefined
      else if t_pc (threads p ! snd e) = Returned then
        Moves (p\<lparr>elements := remove1 e (elements p), main_at := next,
                 common := (common p)\<lparr>flags := (flags (common p))(fst e := None)\<rparr>\<rparr>)
      else Waits)"

definition accept_step :: "process \<Rightarrow> process progress" where
  "accept_step p =
     (case backlog p of
        [] \<Rightarrow> Waits
      | Fails # rest \<Rightarrow> Moves (p\<lparr>backlog := rest, main_at := Interrupted\<rparr>)
      | Arrives c malloc # rest \<Rightarrow>
          (case malloc (map fst (elements p)) of
             None \<Rightarrow> Moves (p\<lparr>backlog := rest, main_at := Testing\<rparr>)
           | Some a \<Rightarrow>
               (let es = (a, length (threads p)) # elements p
                in Moves (p\<lparr>backlog := rest, threads := threads p @ [new_thread c a], elements := es,
                     common := (common p)\<lparr>flags := (flags (common p))(a := Some False)\<rparr>,
                     main_at := Walking es\<rparr>))))"

definition main_step :: "process \<Rightarrow> process progress" where
  "main_step p =
     (case main_at p of
        Testing \<Rightarrow> Moves (p\<lparr>main_at := (if caught p then Leaving (elements p) else Entering)\<rparr>)
      | Entering \<Rightarrow> Moves (p\<lparr>main_at := Accepting\<rparr>)
      | Accepting \<Rightarrow> accept_step p
      | Interrupted \<Rightarrow> Moves (p\<lparr>main_at := (if caught p then Leaving (elements p) else Testing)\<rparr>)
      | Walking [] \<Rightarrow> Moves (p\<lparr>main_at := Testing\<rparr>)
      | Walking (e # l) \<Rightarrow>
          (case flags (common p) (fst e) of
             None \<Rightarrow> Undefined
           | Some completed \<Rightarrow> Moves (p\<lparr>main_at := (if completed then Joining e l else Walking l)\<rparr>))
      | Joining e l \<Rightarrow> join_step e (Walking l) p
      | Leaving [] \<Rightarrow> Moves (p\<lparr>main_at := Exited\<rparr>)
      | Leaving (e # l) \<Rightarrow> join_step e (Leaving l) p
      | Exited \<Rightarrow> Waits)"

subsection \<open>The process\<close>

text \<open>
  Who is scheduled: the main thread, the thread of a connection, or the handler of SIGINT or SIGTERM. The handler runs in the
  main thread, whose \<open>accept\<close> it interrupts.
\<close>

datatype schedule = Main | Thread nat | Signal

definition exec_step :: "schedule \<Rightarrow> process \<Rightarrow> process progress" where
  "exec_step w p =
     (case w of
        Main \<Rightarrow> main_step p
      | Thread i \<Rightarrow>
          if i < length (threads p)
          then and_then (thread_step i (threads p ! i) (common p))
                 (\<lambda>(t, sh). p\<lparr>threads := (threads p)[i := t], common := sh\<rparr>)
          else Waits
      | Signal \<Rightarrow>
          Moves (p\<lparr>caught := True, main_at := (if main_at p = Accepting then Interrupted else main_at p)\<rparr>))"

definition process_step :: "process \<Rightarrow> schedule \<Rightarrow> process \<Rightarrow> bool" where
  "process_step p w q \<longleftrightarrow> exec_step w p = Moves q"

text \<open>The start of the accept loop, on a device in state \<open>s\<close>.\<close>

definition serving :: "arrival list \<Rightarrow> aesd_state \<Rightarrow> process" where
  "serving arrivals s = \<lparr>threads = [], common = \<lparr>file_mutex = None, flags = Map.empty, device = s, lock_order = []\<rparr>,
     elements = [], main_at = Testing, backlog = arrivals, caught = False\<rparr>"

end
