(* ===== verification/Aesd_Threads_Props.thy ===== *)
theory Aesd_Threads_Props
  imports Aesd_Threads
begin

section \<open>The threads in any order\<close>

text \<open>
  The invariant of the process: who holds the mutex, which blocks are live, and that the finished requests, run one after the
  other in the order in which their threads took the mutex, give the device and the replies. From it follow the three
  promises of the server: no step is undefined except the scan of one kind of message, every schedule ends, and what the clients see
  is a behaviour of the log.
\<close>

subsection \<open>The critical section of a thread\<close>

fun in_body :: "thread_pc \<Rightarrow> bool" where
  "in_body Opening = True" | "in_body Requesting = True" | "in_body (Writing n) = True" | "in_body Reopening = True"
| "in_body Reading = True" | "in_body (Sending bs) = True" | "in_body Unlocking = True" | "in_body Turning_away = True"
| "in_body _ = False"

definition has_lock :: "thread_pc \<Rightarrow> bool" where
  "has_lock pc \<longleftrightarrow> in_body pc \<or> pc = Marking \<or> pc = Unlocking_again"

definition entered :: "thread_pc \<Rightarrow> bool" where
  "entered pc \<longleftrightarrow> pc \<noteq> Receiving \<and> pc \<noteq> Locking"

text \<open>What the rest of the section does to the device, and all that the peer will have got at its end.\<close>

definition fin_read :: "thread \<Rightarrow> aesd_state \<Rightarrow> int \<Rightarrow> (aesd_state \<times> cell list) option" where
  "fin_read t s f = map_option (Pair s) (server_read_loop s f (t_sends t) (t_sent t))"

definition fin_reopen :: "thread \<Rightarrow> aesd_state \<Rightarrow> (aesd_state \<times> cell list) option" where
  "fin_reopen t s = (if c_reopen (t_client t) then fin_read t s 0 else Some (s, t_sent t))"

lemma fin_update [simp]:
  "fin_read (t\<lparr>t_pc := pc\<rparr>) s f = fin_read t s f" "fin_read (t\<lparr>t_f_pos := g\<rparr>) s f = fin_read t s f"
  "fin_reopen (t\<lparr>t_pc := pc\<rparr>) s = fin_reopen t s" "fin_reopen (t\<lparr>t_f_pos := g\<rparr>) s = fin_reopen t s"
  by (simp_all add: fin_read_def fin_reopen_def)

definition finish :: "thread \<Rightarrow> aesd_state \<Rightarrow> (aesd_state \<times> cell list) option" where
  "finish t s =
     (case t_pc t of
        Opening \<Rightarrow> bare_serve (t_client t) s
      | Requesting \<Rightarrow>
          (case server_request (c_alloc (t_client t)) (t_msg t) s of
             None \<Rightarrow> None
           | Some (s', f, plain) \<Rightarrow> if plain then fin_reopen t s' else fin_read t s' f)
      | Writing n \<Rightarrow>
          (case server_write_loop (c_alloc (t_client t)) (t_msg t) n s (t_f_pos t) of
             None \<Rightarrow> None
           | Some (s', f) \<Rightarrow> fin_reopen t s')
      | Reopening \<Rightarrow> fin_reopen t s
      | Reading \<Rightarrow> fin_read t s (t_f_pos t)
      | Sending bs \<Rightarrow>
          fin_read (t\<lparr>t_sends := snd (send_loop (t_sends t) bs), t_sent := t_sent t @ fst (send_loop (t_sends t) bs)\<rparr>) s
            (t_f_pos t)
      | _ \<Rightarrow> Some (s, t_sent t))"

text \<open>What holds of the variables of a thread at each point.\<close>

definition at_start :: "thread \<Rightarrow> bool" where
  "at_start t \<longleftrightarrow> t_msg t = client_message (t_client t) \<and> t_sends t = c_sends (t_client t) \<and> t_sent t = []"

definition in_file :: "thread \<Rightarrow> bool" where
  "in_file t \<longleftrightarrow> 0 \<le> t_f_pos t \<and> t_f_pos t < 2 ^ 62"

definition local_ok :: "thread \<Rightarrow> bool" where
  "local_ok t \<longleftrightarrow> fresh_alloc (c_alloc (t_client t)) \<and>
     (case t_pc t of
        Receiving \<Rightarrow> ensure_newline (recv_loop (map chunk_of (t_pending t)) (t_msg t)) = client_message (t_client t) \<and>
          t_sends t = c_sends (t_client t) \<and> t_sent t = []
      | Locking \<Rightarrow> at_start t
      | Opening \<Rightarrow> at_start t
      | Requesting \<Rightarrow> at_start t \<and> t_f_pos t = 0
      | Writing n \<Rightarrow> at_start t \<and> (n = 0 \<and> t_f_pos t = 0 \<or> n = length (t_msg t))
      | Reading \<Rightarrow> in_file t
      | Sending bs \<Rightarrow> in_file t \<and> bs \<noteq> []
      | _ \<Rightarrow> True)"

text \<open>
  Who does not go on, whatever the others do: a thread in \<open>recv\<close> with an idle peer, one in \<open>send\<close> with a stalled peer, and one whose
  scan of a seek command leaves the message buffer (\<open>overreads\<close>), which has no meaning in C.
\<close>

definition silent :: "thread \<Rightarrow> bool" where
  "silent t \<longleftrightarrow> t_pc t = Receiving \<and> t_pending t = [] \<and> c_idle (t_client t)"

definition stalled :: "thread \<Rightarrow> bool" where
  "stalled t \<longleftrightarrow> (\<exists>bs. t_pc t = Sending bs) \<and> t_sends t = [] \<and> c_stalled (t_client t)"

definition scans_past :: "thread \<Rightarrow> bool" where
  "scans_past t \<longleftrightarrow> t_pc t = Requesting \<and> overreads (t_msg t)"

definition held_up :: "thread \<Rightarrow> bool" where
  "held_up t \<longleftrightarrow> silent t \<or> stalled t \<or> scans_past t"

lemma cooperative_goes_on: "local_ok t \<Longrightarrow> cooperative (t_client t) \<Longrightarrow> \<not> held_up t"
  by (auto simp: held_up_def silent_def stalled_def scans_past_def cooperative_def local_ok_def at_start_def)

text \<open>The bytes that a thread may still store, and the steps that it may still take.\<close>

definition owed :: "thread \<Rightarrow> nat" where
  "owed t =
     (case t_pc t of
        Receiving \<Rightarrow> length (client_message (t_client t))
      | Locking \<Rightarrow> length (client_message (t_client t))
      | Opening \<Rightarrow> length (client_message (t_client t))
      | Requesting \<Rightarrow> length (client_message (t_client t))
      | Writing n \<Rightarrow> length (t_msg t) - n
      | _ \<Rightarrow> 0)"

definition long_read :: nat where "long_read = 2 * 2 ^ 62"

definition t_weight :: "thread \<Rightarrow> nat" where
  "t_weight t =
     (case t_pc t of
        Receiving \<Rightarrow> long_read + length (t_sends t) + 15 + length (t_pending t)
      | Locking \<Rightarrow> long_read + length (t_sends t) + 14
      | Opening \<Rightarrow> long_read + length (t_sends t) + 13
      | Requesting \<Rightarrow> long_read + length (t_sends t) + 12
      | Writing n \<Rightarrow> long_read + length (t_sends t) + 10 + (if n < length (t_msg t) then 1 else 0)
      | Reopening \<Rightarrow> long_read + length (t_sends t) + 9
      | Reading \<Rightarrow> long_read - 2 * nat (t_f_pos t) + length (t_sends t) + 8
      | Sending bs \<Rightarrow> long_read - 2 * nat (t_f_pos t) + length bs + length (t_sends t) + 8
      | Unlocking \<Rightarrow> 7
      | Turning_away \<Rightarrow> 7
      | Hanging_up \<Rightarrow> 6
      | Refusing \<Rightarrow> 6
      | Locking_again \<Rightarrow> 5
      | Marking \<Rightarrow> 4
      | Unlocking_again \<Rightarrow> 3
      | Returned \<Rightarrow> 0)"

lemma weight_sending:
  "t_weight (t\<lparr>t_pc := Sending bs, t_f_pos := f\<rparr>) = long_read - 2 * nat f + length bs + length (t_sends t) + 8"
  by (simp add: t_weight_def)

text \<open>What a step of a thread in its section keeps.\<close>

definition body_keeps :: "nat \<Rightarrow> log \<Rightarrow> thread \<Rightarrow> shared \<Rightarrow> thread \<Rightarrow> shared \<Rightarrow> bool" where
  "body_keeps i l t sh t' sh' \<longleftrightarrow>
     t_client t' = t_client t \<and> t_arg t' = t_arg t \<and> local_ok t' \<and> t_weight t' < t_weight t \<and>
     flags sh' = flags sh \<and> lock_order sh' = lock_order sh \<and> finish t' (device sh') = finish t (device sh) \<and>
     (in_body (t_pc t') \<and> file_mutex sh' = Some i \<or> (t_pc t' = Hanging_up \<or> t_pc t' = Refusing) \<and> file_mutex sh' = None) \<and>
     (\<exists>l'. aesd_rep (device sh') l' \<and> log_size l' + owed t' \<le> log_size l + owed t)"

lemma body_keepsI:
  assumes "t_client t' = t_client t" "t_arg t' = t_arg t" "local_ok t'" "t_weight t' < t_weight t"
    "flags sh' = flags sh" "lock_order sh' = lock_order sh" "device sh' = device sh" "aesd_rep (device sh) l"
    "finish t' (device sh) = finish t (device sh)" "owed t' \<le> owed t"
    "in_body (t_pc t') \<and> file_mutex sh' = Some i \<or> (t_pc t' = Hanging_up \<or> t_pc t' = Refusing) \<and> file_mutex sh' = None"
  shows "body_keeps i l t sh t' sh'"
proof -
  have "\<exists>l'. aesd_rep (device sh) l' \<and> log_size l' + owed t' \<le> log_size l + owed t"
    by (rule exI[of _ l]) (use assms(8,10) in simp)
  then show ?thesis unfolding body_keeps_def assms(7) using assms(1-6,9,11) by simp
qed

lemma request_moves:
  assumes pc: "t_pc t = Requesting" and ok: "local_ok t" and fits: "\<not> overreads (t_msg t)"
    and rep: "aesd_rep s l" and small: "log_size l + owed t < 2 ^ 61"
  shows "\<exists>t'. request_step t s = Moves t' \<and> t_client t' = t_client t \<and> t_arg t' = t_arg t \<and> local_ok t' \<and>
    t_weight t' < t_weight t \<and> finish t' s = finish t s \<and> owed t' \<le> owed t \<and> in_body (t_pc t')"
proof (cases "has_prefix (t_msg t)")
  case False
  have "request_step t s = Moves (t\<lparr>t_pc := Writing 0\<rparr>)" using False by (simp add: request_step_def)
  moreover have "finish (t\<lparr>t_pc := Writing 0\<rparr>) s = finish t s"
    using False pc ok
    by (simp add: finish_def server_request_def local_ok_def fin_reopen_def fin_read_def split: option.splits)
  ultimately show ?thesis using pc ok
    by (intro exI[of _ "t\<lparr>t_pc := Writing 0\<rparr>"]) (simp add: local_ok_def at_start_def t_weight_def owed_def)
next
  case True
  let ?c = "t_client t" and ?f = "int (seek_start l (t_msg t))"
  let ?t = "t\<lparr>t_pc := Reading, t_f_pos := ?f\<rparr>"
  have m: "t_msg t = client_message ?c" "t_f_pos t = 0" "\<not> overreads (t_msg t)"
    using ok pc fits by (simp_all add: local_ok_def at_start_def)
  have len: "length (log_bytes l) < 2 ^ 62" using small log_bytes_size[of l] by simp
  note req = seek_request[OF rep len True]
  have f: "?f < 2 ^ 62" using seek_start_bound[of l "t_msg t"] small by simp
  have "request_step t s = Moves ?t"
    using True m req[of "c_alloc ?c"] by (auto simp: request_step_def server_request_def split: option.splits)
  moreover have "finish ?t s = finish t s"
    using pc req[of "c_alloc ?c"] by (simp add: finish_def fin_read_def)
  moreover have "local_ok ?t" using ok f by (simp add: local_ok_def in_file_def)
  moreover have "t_weight ?t < t_weight t" "owed ?t \<le> owed t"
    using pc by (simp_all add: t_weight_def owed_def)
  ultimately show ?thesis by (intro exI[of _ ?t]) simp
qed

lemma write_moves:
  assumes pc: "t_pc t = Writing n" and ok: "local_ok t" and rep: "aesd_rep s l"
  shows "\<exists>t' s' l'. write_step n t s = Moves (t', s') \<and> t_client t' = t_client t \<and> t_arg t' = t_arg t \<and> local_ok t' \<and>
    t_weight t' < t_weight t \<and> finish t' s' = finish t s \<and> in_body (t_pc t') \<and>
    aesd_rep s' l' \<and> log_size l' + owed t' \<le> log_size l + owed t"
proof (cases "n < length (t_msg t)")
  case False
  let ?t = "t\<lparr>t_pc := Reopening\<rparr>"
  have "write_step n t s = Moves (?t, s)" using False by (simp add: write_step_def)
  moreover have "finish ?t s = finish t s"
    using False pc by (simp add: finish_def server_write_loop.simps fin_reopen_def fin_read_def)
  moreover have "local_ok ?t" "t_weight ?t < t_weight t" "owed ?t = 0"
    using ok pc False by (simp_all add: local_ok_def t_weight_def owed_def)
  ultimately show ?thesis using rep by (intro exI[of _ ?t] exI[of _ s] exI[of _ l]) simp
next
  case True
  let ?a = "c_alloc (t_client t)" and ?m = "t_msg t"
  have n: "n = 0" "t_f_pos t = 0" and alloc: "fresh_alloc ?a" using ok pc True by (auto simp: local_ok_def)
  show ?thesis
  proof (cases "write_fails ?a False ?m s")
    case None
    then obtain s' where w: "aesd_write ?a False ?m s 0 = Some (s', s64 (int (length ?m)), Ret (length ?m))"
      "aesd_rep s' (log_write ?m l)" using aesd_write_cases[OF rep alloc, of False ?m 0] by auto
    let ?t = "t\<lparr>t_pc := Writing (length ?m), t_f_pos := s64 (int (length ?m))\<rparr>"
    have "write_step n t s = Moves (?t, s')" using True n w(1) by (simp add: write_step_def)
    moreover have "finish ?t s' = finish t s"
      using True pc n w(1) unfolding finish_def
      by (simp add: server_write_loop.simps[of _ _ 0] split: option.split)
    moreover have "local_ok ?t" "t_weight ?t < t_weight t" "owed ?t = 0" "owed t = length ?m"
      using ok pc n True by (simp_all add: local_ok_def at_start_def t_weight_def owed_def)
    ultimately show ?thesis using w(2) log_size_write[of ?m l]
      by (intro exI[of _ ?t] exI[of _ s'] exI[of _ "log_write ?m l"]) simp
  next
    case (Some err)
    then have w: "aesd_write ?a False ?m s 0 = Some (s, 0, Fail err)"
      using aesd_write_cases[OF rep alloc, of False ?m 0] by auto
    let ?t = "t\<lparr>t_pc := Reopening, t_f_pos := 0\<rparr>"
    have "write_step n t s = Moves (?t, s)" using True n w by (simp add: write_step_def)
    moreover have "finish ?t s = finish t s"
      using True pc n w unfolding finish_def
      by (simp add: server_write_loop.simps[of _ _ 0] fin_reopen_def fin_read_def)
    moreover have "local_ok ?t" "t_weight ?t < t_weight t" "owed ?t = 0"
      using ok pc by (simp_all add: local_ok_def t_weight_def owed_def)
    ultimately show ?thesis using rep by (intro exI[of _ ?t] exI[of _ s] exI[of _ l]) simp
  qed
qed

lemma read_moves:
  assumes pc: "t_pc t = Reading" and ok: "local_ok t" and rep: "aesd_rep s l" and small: "log_size l < 2 ^ 61"
  shows "\<exists>t'. read_step t s = Moves t' \<and> t_client t' = t_client t \<and> t_arg t' = t_arg t \<and> local_ok t' \<and>
    t_weight t' < t_weight t \<and> finish t' s = finish t s \<and> owed t' = 0 \<and> in_body (t_pc t')"
proof -
  let ?f = "t_f_pos t" and ?got = "take RECV_BUF (drop (nat (t_f_pos t)) (log_bytes l))"
  have f: "0 \<le> ?f" "?f < 2 ^ 62" using ok pc by (simp_all add: local_ok_def in_file_def)
  have len: "length (log_bytes l) < 2 ^ 62" using small log_bytes_size[of l] by simp
  have rd: "aesd_read RECV_BUF RECV_BUF s ?f = Some (?f + int (length ?got), Ret (map Some ?got))"
    using aesd_read_ok[OF rep len order_refl f, of RECV_BUF] by (simp only: Let_def)
  show ?thesis
  proof (cases "?got = []")
    case True
    let ?t = "t\<lparr>t_pc := Unlocking\<rparr>"
    have r: "aesd_read RECV_BUF RECV_BUF s ?f = Some (?f, Ret [])" using rd unfolding True by simp
    have "read_step t s = Moves ?t" using r by (simp add: read_step_def)
    moreover have "finish ?t s = finish t s"
      using pc r by (simp add: finish_def fin_read_def server_read_loop.simps)
    ultimately show ?thesis using ok pc
      by (intro exI[of _ ?t]) (simp add: local_ok_def t_weight_def owed_def)
  next
    case False
    let ?f' = "?f + int (length ?got)"
    let ?t = "t\<lparr>t_pc := Sending (map Some ?got), t_f_pos := ?f'\<rparr>"
    have st: "read_step t s = Moves ?t" using rd False by (simp only: read_step_def option.case prod.case outcome.case list.map_disc_iff if_False)
    have "server_read_loop s ?f sends sent = server_read_loop s ?f' (snd (send_loop sends (map Some ?got)))
        (sent @ fst (send_loop sends (map Some ?got)))" for sends sent
      using False by (subst server_read_loop.simps) (simp only: rd option.case prod.case outcome.case list.map_disc_iff if_False)
    then have fin: "finish ?t s = finish t s" using pc by (simp add: finish_def fin_read_def)
    have lt: "nat ?f + length ?got \<le> length (log_bytes l)" "0 < length ?got" using False by auto
    then have "?f' \<le> int (length (log_bytes l))" using f(1) by linarith
    then have f': "?f' < 2 ^ 62" using len by simp
    have "local_ok ?t" using ok f f' False by (simp add: local_ok_def in_file_def)
    moreover have "t_weight ?t < t_weight t"
    proof -
      define g where "g = length ?got"
      have g: "nat ?f' = nat ?f + g" "0 < g" using f(1) lt(2) unfolding g_def by (simp_all only: nat_add_distrib of_nat_0_le_iff nat_int)
      have "nat ?f' < nat (2 ^ 62)" using f' by (simp only: nat_mono_iff zero_less_numeral zero_less_power)
      then have g62: "nat ?f' < 2 ^ 62" by (simp only: nat_power_eq nat_numeral zero_le_numeral)
      have "t_weight ?t = long_read - 2 * nat ?f' + g + length (t_sends t) + 8"
        unfolding g_def weight_sending length_map by (rule refl)
      moreover have "t_weight t = long_read - 2 * nat ?f + length (t_sends t) + 8" using pc by (simp add: t_weight_def)
      ultimately show ?thesis using g g62 unfolding long_read_def by linarith
    qed
    ultimately show ?thesis using st fin by (intro exI[of _ ?t]) (simp add: owed_def)
  qed
qed

lemma send_moves:
  assumes pc: "t_pc t = Sending bs" and ok: "local_ok t" and takes: "\<not> stalled t"
  shows "\<exists>t'. send_step bs t = Moves t' \<and> t_client t' = t_client t \<and> t_arg t' = t_arg t \<and> local_ok t' \<and>
    t_weight t' < t_weight t \<and> finish t' s = finish t s \<and> owed t' \<le> owed t \<and> in_body (t_pc t')"
proof -
  have bs: "bs \<noteq> []" "0 < length bs" "fresh_alloc (c_alloc (t_client t))" "in_file t" using ok pc by (simp_all add: local_ok_def)
  then obtain b bs' where cons: "bs = b # bs'" by (cases bs) auto
  show ?thesis
  proof (cases "t_sends t")
    case Nil
    then show ?thesis using pc bs takes unfolding cons
      by (simp add: send_step_def stalled_def local_ok_def in_file_def t_weight_def finish_def fin_read_def owed_def Let_def)
  next
    case (Cons n sends)
    then show ?thesis using pc bs unfolding cons
      by (auto simp: send_step_def local_ok_def in_file_def t_weight_def finish_def fin_read_def owed_def Let_def
          split: prod.splits)
  qed
qed

lemma map_bind_Some: "map_option h (Option.bind x (\<lambda>y. Some (g y))) = map_option (\<lambda>y. h (g y)) x"
  by (cases x) simp_all

lemma body_step:
  assumes ok: "local_ok t" and body: "in_body (t_pc t)" and mine: "file_mutex sh = Some i" and arg: "flags sh (t_arg t) \<noteq> None"
    and rep: "aesd_rep (device sh) l" and small: "log_size l + owed t < 2 ^ 61" and on: "\<not> held_up t"
  shows "\<exists>t' sh'. thread_step i t sh = Moves (t', sh') \<and> body_keeps i l t sh t' sh'"
  using body
proof (cases rule: in_body.elims(2))
  case 1
  let ?t = "t\<lparr>t_pc := (if c_open (t_client t) then Requesting else Turning_away), t_f_pos := 0\<rparr>"
  have "finish ?t (device sh) = finish t (device sh)"
    using ok 1 by (simp add: finish_def bare_serve_def threadfunc_reopen_def local_ok_def at_start_def client_message_def[symmetric]
        fin_reopen_def fin_read_def Let_def map_bind_Some split: option.splits)
  then have "body_keeps i l t sh ?t sh"
    using ok 1 mine rep by (intro body_keepsI) (simp_all add: local_ok_def at_start_def t_weight_def owed_def)
  then show ?thesis using 1 by (auto simp: thread_step_def Let_def)
next
  case 2
  have "\<not> overreads (t_msg t)" using on 2 by (simp add: held_up_def scans_past_def)
  from request_moves[OF 2 ok this rep small] obtain t' where
    t': "request_step t (device sh) = Moves t'" "body_keeps i l t sh t' sh"
    using body_keepsI[of _ t sh sh l i] mine rep by metis
  then show ?thesis using 2 by (auto simp: thread_step_def Let_def)
next
  case (3 n)
  from write_moves[OF 3 ok rep] obtain t' s' l' where
    w: "write_step n t (device sh) = Moves (t', s')" "t_client t' = t_client t" "t_arg t' = t_arg t" "local_ok t'"
      "t_weight t' < t_weight t" "finish t' s' = finish t (device sh)" "in_body (t_pc t')" "aesd_rep s' l'"
      "log_size l' + owed t' \<le> log_size l + owed t" by blast
  then have "body_keeps i l t sh t' (sh\<lparr>device := s'\<rparr>)"
    using mine unfolding body_keeps_def by (auto simp del: split_paired_Ex)
  then show ?thesis using 3 w(1) by (auto simp: thread_step_def Let_def)
next
  case 4
  let ?t = "t\<lparr>t_pc := (if c_reopen (t_client t) then Reading else Turning_away), t_f_pos := 0\<rparr>"
  have "body_keeps i l t sh ?t sh"
    using ok 4 mine rep
    by (intro body_keepsI) (simp_all add: local_ok_def in_file_def t_weight_def owed_def finish_def fin_reopen_def)
  then show ?thesis using 4 by (auto simp: thread_step_def Let_def)
next
  case 5
  have "log_size l < 2 ^ 61" using small by simp
  from read_moves[OF 5 ok rep this] obtain t' where
    t': "read_step t (device sh) = Moves t'" "body_keeps i l t sh t' sh"
    using body_keepsI[of _ t sh sh l i] mine rep by (metis le0)
  then show ?thesis using 5 by (auto simp: thread_step_def Let_def)
next
  case (6 bs)
  have "\<not> stalled t" using on by (simp add: held_up_def)
  from send_moves[OF 6 ok this] obtain t' where
    t': "send_step bs t = Moves t'" "body_keeps i l t sh t' sh"
    using body_keepsI[of _ t sh sh l i] mine rep by metis
  then show ?thesis using 6 arg by (auto simp: thread_step_def with_arg_def Let_def)
next
  case 7
  have "body_keeps i l t sh (t\<lparr>t_pc := Hanging_up\<rparr>) (sh\<lparr>file_mutex := None\<rparr>)"
    using ok 7 mine rep by (intro body_keepsI) (simp_all add: local_ok_def t_weight_def owed_def finish_def)
  then show ?thesis using 7 mine by (auto simp: thread_step_def Let_def)
next
  case 8
  have "body_keeps i l t sh (t\<lparr>t_pc := Refusing\<rparr>) (sh\<lparr>file_mutex := None\<rparr>)"
    using ok 8 mine rep by (intro body_keepsI) (simp_all add: local_ok_def t_weight_def owed_def finish_def)
  then show ?thesis using 8 mine by (auto simp: thread_step_def Let_def)
qed

subsection \<open>A thread outside its critical section\<close>

lemma receive_keeps:
  assumes "local_ok t" "t_pc t = Receiving" "\<not> silent t"
  shows "\<exists>t'. receive_step t = Moves t' \<and> t_client t' = t_client t \<and> t_arg t' = t_arg t \<and> local_ok t' \<and> t_weight t' < t_weight t \<and>
    t_sent t' = t_sent t \<and> owed t' = owed t \<and> (t_pc t' = Receiving \<or> t_pc t' = Locking)"
proof (cases "t_pending t")
  case (Cons ans rest)
  then show ?thesis using assms(1,2)
    by (auto simp: receive_step_def local_ok_def at_start_def t_weight_def owed_def Let_def split: if_splits)
qed (use assms in \<open>simp add: receive_step_def silent_def local_ok_def at_start_def t_weight_def owed_def\<close>)

text \<open>Who waits, and what a step keeps.\<close>

definition waits_for_lock :: "thread \<Rightarrow> bool" where
  "waits_for_lock t \<longleftrightarrow> t_pc t = Locking \<or> t_pc t = Locking_again"

definition outer_keeps :: "nat \<Rightarrow> thread \<Rightarrow> shared \<Rightarrow> thread \<Rightarrow> shared \<Rightarrow> bool" where
  "outer_keeps i t sh t' sh' \<longleftrightarrow>
     t_client t' = t_client t \<and> t_arg t' = t_arg t \<and> local_ok t' \<and> t_weight t' < t_weight t \<and> t_sent t' = t_sent t \<and>
     owed t' = owed t \<and> device sh' = device sh \<and> (\<forall>a. flags sh' a = None \<longleftrightarrow> flags sh a = None) \<and>
     (if t_pc t = Locking
      then t_pc t' = Opening \<and> lock_order sh' = lock_order sh @ [i]
      else \<not> in_body (t_pc t') \<and> entered (t_pc t') = entered (t_pc t) \<and> lock_order sh' = lock_order sh) \<and>
     (waits_for_lock t \<or> has_lock (t_pc t') \<and> \<not> has_lock (t_pc t) \<longrightarrow> file_mutex sh = None) \<and>
     file_mutex sh' = (if has_lock (t_pc t') then Some i else if has_lock (t_pc t) then None else file_mutex sh)"

lemma outer_step:
  assumes ok: "local_ok t" and outer: "\<not> in_body (t_pc t)" "t_pc t \<noteq> Returned" and arg: "flags sh (t_arg t) \<noteq> None"
    and mine: "has_lock (t_pc t) \<longleftrightarrow> file_mutex sh = Some i" and free: "waits_for_lock t \<longrightarrow> file_mutex sh = None"
    and on: "\<not> held_up t"
  shows "\<exists>t' sh'. thread_step i t sh = Moves (t', sh') \<and> outer_keeps i t sh t' sh'"
proof (cases "t_pc t")
  case Receiving
  have "\<not> silent t" using on by (simp add: held_up_def)
  from receive_keeps[OF ok Receiving this] obtain t' where
    t': "receive_step t = Moves t'" "t_client t' = t_client t" "t_arg t' = t_arg t" "local_ok t'" "t_weight t' < t_weight t"
      "t_sent t' = t_sent t" "owed t' = owed t" "t_pc t' = Receiving \<or> t_pc t' = Locking" by blast
  then have "outer_keeps i t sh t' sh"
    using Receiving mine by (auto simp: outer_keeps_def has_lock_def entered_def waits_for_lock_def)
  moreover have "thread_step i t sh = Moves (t', sh)" using Receiving arg t'(1) by (simp add: thread_step_def with_arg_def)
  ultimately show ?thesis by blast
qed (use assms in \<open>auto simp: thread_step_def with_arg_def outer_keeps_def has_lock_def entered_def waits_for_lock_def
    local_ok_def at_start_def t_weight_def owed_def\<close>)

lemma thread_waits:
  "t_pc t = Returned \<or> waits_for_lock t \<and> file_mutex sh \<noteq> None \<Longrightarrow> thread_step i t sh = Waits"
  by (auto simp: thread_step_def waits_for_lock_def Let_def)

lemma held_up_step:
  "silent t \<or> stalled t \<Longrightarrow> flags sh (t_arg t) \<noteq> None \<Longrightarrow> thread_step i t sh = Waits"
  "scans_past t \<Longrightarrow> thread_step i t sh = Undefined"
  by (auto simp: thread_step_def silent_def stalled_def scans_past_def with_arg_def receive_step_def send_step_def request_step_def
      overreads_def Let_def)

end
