(* ===== verification/Aesd_Process.thy ===== *)
theory Aesd_Process
  imports Aesd_Threads_Props
begin

section \<open>The process of the server\<close>

text \<open>
  The invariant of the whole process and its promises: the main thread and the threads of the
  connections together do nothing undefined but the scan of one kind of message, every schedule of them ends, and the
  requests are served as if one after the other.
\<close>

subsection \<open>What one step of a thread means for the others\<close>

definition step_keeps :: "nat \<Rightarrow> log \<Rightarrow> thread \<Rightarrow> shared \<Rightarrow> thread \<Rightarrow> shared \<Rightarrow> bool" where
  "step_keeps i l t sh t' sh' \<longleftrightarrow>
     t_client t' = t_client t \<and> t_arg t' = t_arg t \<and> local_ok t' \<and> t_weight t' < t_weight t \<and>
     (\<forall>a. flags sh' a = None \<longleftrightarrow> flags sh a = None) \<and>
     file_mutex sh' = (if has_lock (t_pc t') then Some i else if has_lock (t_pc t) then None else file_mutex sh) \<and>
     (has_lock (t_pc t') \<and> \<not> has_lock (t_pc t) \<longrightarrow> file_mutex sh = None) \<and>
     lock_order sh' = (if entered (t_pc t') \<and> \<not> entered (t_pc t) then lock_order sh @ [i] else lock_order sh) \<and>
     (entered (t_pc t) \<longrightarrow> entered (t_pc t')) \<and>
     (\<exists>l'. aesd_rep (device sh') l' \<and> log_size l' + owed t' \<le> log_size l + owed t)"

lemma body_entered: "in_body pc \<Longrightarrow> entered pc \<and> has_lock pc"
  by (cases pc) (auto simp: entered_def has_lock_def)

lemma body_step_keeps:
  assumes "body_keeps i l t sh t' sh'" "in_body (t_pc t)" "file_mutex sh = Some i"
  shows "step_keeps i l t sh t' sh'"
  using assms body_entered[OF assms(2)] body_entered[of "t_pc t'"]
  unfolding body_keeps_def step_keeps_def by (auto simp: has_lock_def entered_def simp del: split_paired_Ex)

lemma outer_step_keeps:
  assumes "outer_keeps i t sh t' sh'" "\<not> in_body (t_pc t)" "aesd_rep (device sh) l"
  shows "step_keeps i l t sh t' sh'"
proof -
  have "\<exists>l'. aesd_rep (device sh') l' \<and> log_size l' + owed t' \<le> log_size l + owed t"
    using assms(1,3) unfolding outer_keeps_def by (metis order_refl)
  moreover have "has_lock (t_pc t') \<and> \<not> has_lock (t_pc t) \<longrightarrow> file_mutex sh = None"
    using assms(1) unfolding outer_keeps_def by blast
  moreover have "lock_order sh' = (if entered (t_pc t') \<and> \<not> entered (t_pc t) then lock_order sh @ [i] else lock_order sh) \<and>
      (entered (t_pc t) \<longrightarrow> entered (t_pc t'))"
  proof (cases "t_pc t = Locking")
    case True
    then have "t_pc t' = Opening \<and> lock_order sh' = lock_order sh @ [i]" using assms(1) by (simp add: outer_keeps_def)
    then show ?thesis using True by (simp add: entered_def)
  next
    case False
    then show ?thesis using assms(1) by (simp add: outer_keeps_def)
  qed
  ultimately show ?thesis using assms(1) unfolding outer_keeps_def step_keeps_def by blast
qed

subsection \<open>The invariant\<close>

abbreviation clients_of :: "process \<Rightarrow> nat list \<Rightarrow> client list" where
  "clients_of p is \<equiv> map (\<lambda>i. t_client (threads p ! i)) is"

abbreviation replies_of :: "process \<Rightarrow> nat list \<Rightarrow> cell list list" where
  "replies_of p is \<equiv> map (\<lambda>i. t_sent (threads p ! i)) is"

definition body_thread :: "process \<Rightarrow> nat option" where
  "body_thread p =
     (case file_mutex (common p) of
        None \<Rightarrow> None
      | Some i \<Rightarrow> if in_body (t_pc (threads p ! i)) then Some i else None)"

text \<open>The finished requests as calls one after the other; the request in its critical section is the next one.\<close>

definition serial :: "aesd_state \<Rightarrow> process \<Rightarrow> bool" where
  "serial s0 p \<longleftrightarrow>
     (case body_thread p of
        None \<Rightarrow> exec_calls bare_serve (clients_of p (lock_order (common p))) s0 =
          Some (replies_of p (lock_order (common p)), device (common p))
      | Some i \<Rightarrow> \<exists>earlier s. lock_order (common p) = earlier @ [i] \<and>
          exec_calls bare_serve (clients_of p earlier) s0 = Some (replies_of p earlier, s) \<and>
          bare_serve (t_client (threads p ! i)) s = finish (threads p ! i) (device (common p)) \<and>
          finish (threads p ! i) (device (common p)) \<noteq> None)"

definition lock_ok :: "process \<Rightarrow> bool" where
  "lock_ok p \<longleftrightarrow>
     (\<forall>i < length (threads p). has_lock (t_pc (threads p ! i)) \<longleftrightarrow> file_mutex (common p) = Some i) \<and>
     (\<forall>i. file_mutex (common p) = Some i \<longrightarrow> i < length (threads p)) \<and>
     distinct (lock_order (common p)) \<and>
     set (lock_order (common p)) = {i. i < length (threads p) \<and> entered (t_pc (threads p ! i))}"

definition heap_ok :: "process \<Rightarrow> bool" where
  "heap_ok p \<longleftrightarrow>
     distinct (map fst (elements p)) \<and> distinct (map snd (elements p)) \<and>
     (\<forall>a. flags (common p) a \<noteq> None \<longleftrightarrow> a \<in> fst ` set (elements p)) \<and>
     (\<forall>e \<in> set (elements p). snd e < length (threads p) \<and> t_arg (threads p ! snd e) = fst e) \<and>
     (\<forall>i < length (threads p). t_pc (threads p ! i) \<noteq> Returned \<longrightarrow> (t_arg (threads p ! i), i) \<in> set (elements p))"

definition threads_ok :: "process \<Rightarrow> bool" where
  "threads_ok p \<longleftrightarrow> (\<forall>i < length (threads p). local_ok (threads p ! i))"

text \<open>\<open>malloc\<close> and the allocator of the driver return blocks that are not in use.\<close>

fun arrival_ok :: "arrival \<Rightarrow> bool" where
  "arrival_ok Fails = True"
| "arrival_ok (Arrives c malloc) \<longleftrightarrow> fresh_alloc (c_alloc c) \<and> (\<forall>live a. malloc live = Some a \<longrightarrow> a \<notin> set live)"

fun arrival_bytes :: "arrival \<Rightarrow> nat" where
  "arrival_bytes Fails = 0"
| "arrival_bytes (Arrives c malloc) = length (client_message c)"

definition budget_ok :: "process \<Rightarrow> bool" where
  "budget_ok p \<longleftrightarrow> list_all arrival_ok (backlog p) \<and>
     (\<exists>l. aesd_rep (device (common p)) l \<and>
       log_size l + sum_list (map owed (threads p)) + sum_list (map arrival_bytes (backlog p)) < 2 ^ 61)"

definition bytes_ok :: "process \<Rightarrow> bool" where
  "bytes_ok p \<longleftrightarrow>
     sum_list (map (\<lambda>t. length (client_message (t_client t))) (threads p)) + sum_list (map arrival_bytes (backlog p)) < 2 ^ 61"

definition main_ok :: "process \<Rightarrow> bool" where
  "main_ok p \<longleftrightarrow>
     (case main_at p of
        Walking l \<Rightarrow> distinct l \<and> set l \<subseteq> set (elements p)
      | Joining e l \<Rightarrow> distinct (e # l) \<and> set (e # l) \<subseteq> set (elements p)
      | Leaving l \<Rightarrow> l = elements p
      | Exited \<Rightarrow> elements p = []
      | _ \<Rightarrow> True)"

definition process_inv :: "nat \<Rightarrow> aesd_state \<Rightarrow> process \<Rightarrow> bool" where
  "process_inv N s0 p \<longleftrightarrow> serial s0 p \<and> lock_ok p \<and> heap_ok p \<and> threads_ok p \<and> budget_ok p \<and> bytes_ok p \<and> main_ok p \<and>
     length (threads p) + length (backlog p) \<le> N"

text \<open>The steps left.\<close>

definition main_weight :: "nat \<Rightarrow> process \<Rightarrow> nat" where
  "main_weight N p =
     (case main_at p of
        Testing \<Rightarrow> 2 * N + 5
      | Entering \<Rightarrow> 2 * N + 4
      | Accepting \<Rightarrow> 2 * N + 3
      | Interrupted \<Rightarrow> if caught p then 2 * N + 2 else 2 * N + 6
      | Walking l \<Rightarrow> 2 * N + 6 + 2 * length l
      | Joining e l \<Rightarrow> 2 * N + 7 + 2 * length l
      | Leaving l \<Rightarrow> 2 * length l + 1
      | Exited \<Rightarrow> 0)"

fun arrival_weight :: "nat \<Rightarrow> arrival \<Rightarrow> nat" where
  "arrival_weight N Fails = 2 * N + 6"
| "arrival_weight N (Arrives c malloc) = 2 * N + 6 + t_weight (new_thread c 0)"

definition process_weight :: "nat \<Rightarrow> process \<Rightarrow> nat" where
  "process_weight N p = sum_list (map t_weight (threads p)) + sum_list (map (arrival_weight N) (backlog p)) + main_weight N p"

subsection \<open>A step of a thread\<close>

definition with_thread :: "process \<Rightarrow> nat \<Rightarrow> thread \<Rightarrow> shared \<Rightarrow> process" where
  "with_thread p i t sh = p\<lparr>threads := (threads p)[i := t], common := sh\<rparr>"

lemma with_thread_simps [simp]:
  "threads (with_thread p i t sh) = (threads p)[i := t]" "common (with_thread p i t sh) = sh"
  "elements (with_thread p i t sh) = elements p" "main_at (with_thread p i t sh) = main_at p"
  "backlog (with_thread p i t sh) = backlog p" "caught (with_thread p i t sh) = caught p"
  by (simp_all add: with_thread_def)

lemma sum_list_change:
  "i < length xs \<Longrightarrow> sum_list (map f (xs[i := y])) + f (xs ! i) = sum_list (map f xs) + (f y :: nat)"
  by (induction xs arbitrary: i) (auto split: nat.splits)

lemma map_nth_update:
  assumes "f y = f (xs ! i) \<or> i \<notin> set js" "i < length xs"
  shows "map (\<lambda>j. f (xs[i := y] ! j)) js = map (\<lambda>j. f (xs ! j)) js"
  using assms by (auto simp: nth_list_update)

lemma thread_step_lock:
  assumes "lock_ok p" "i < length (threads p)" "step_keeps i l (threads p ! i) (common p) t' sh'"
  shows "lock_ok (with_thread p i t' sh')"
proof -
  let ?t = "threads p ! i"
  have k: "file_mutex sh' = (if has_lock (t_pc t') then Some i else if has_lock (t_pc ?t) then None else file_mutex (common p))"
    "has_lock (t_pc t') \<and> \<not> has_lock (t_pc ?t) \<longrightarrow> file_mutex (common p) = None"
    "lock_order sh' = (if entered (t_pc t') \<and> \<not> entered (t_pc ?t) then lock_order (common p) @ [i] else lock_order (common p))"
    "entered (t_pc ?t) \<longrightarrow> entered (t_pc t')"
    using assms(3) unfolding step_keeps_def by blast+
  have ok: "\<forall>j < length (threads p). has_lock (t_pc (threads p ! j)) \<longleftrightarrow> file_mutex (common p) = Some j"
    "\<forall>j. file_mutex (common p) = Some j \<longrightarrow> j < length (threads p)" "distinct (lock_order (common p))"
    "set (lock_order (common p)) = {j. j < length (threads p) \<and> entered (t_pc (threads p ! j))}"
    using assms(1) unfolding lock_ok_def by blast+
  have "\<forall>j < length (threads p). has_lock (t_pc ((threads p)[i := t'] ! j)) \<longleftrightarrow> file_mutex sh' = Some j"
    using ok(1) k(1,2) assms(2) by (auto simp: nth_list_update)
  moreover have "\<forall>j. file_mutex sh' = Some j \<longrightarrow> j < length (threads p)"
    using ok(2) k(1) assms(2) by (auto split: if_splits)
  moreover have "distinct (lock_order sh')"
    using ok(3,4) k(3) by auto
  moreover have "set (lock_order sh') = {j. j < length (threads p) \<and> entered (t_pc ((threads p)[i := t'] ! j))}"
    using ok(4) k(3,4) assms(2) by (auto simp: nth_list_update split: if_splits)
  ultimately show ?thesis by (simp add: lock_ok_def)
qed

lemma thread_step_heap:
  assumes "heap_ok p" "i < length (threads p)" "step_keeps i l (threads p ! i) (common p) t' sh'"
    "t_pc (threads p ! i) \<noteq> Returned"
  shows "heap_ok (with_thread p i t' sh')"
proof -
  have k: "t_arg t' = t_arg (threads p ! i)" "\<forall>a. flags sh' a = None \<longleftrightarrow> flags (common p) a = None"
    using assms(3) unfolding step_keeps_def by blast+
  show ?thesis using assms(1,2,4) k unfolding heap_ok_def with_thread_simps
    by (auto simp: nth_list_update)
qed

lemma thread_step_threads:
  assumes "threads_ok p" "step_keeps i l (threads p ! i) (common p) t' sh'"
  shows "threads_ok (with_thread p i t' sh')"
proof -
  have "local_ok t'" using assms(2) by (simp only: step_keeps_def)
  then show ?thesis using assms(1) by (cases "i < length (threads p)") (auto simp: threads_ok_def nth_list_update)
qed

lemma thread_step_budget:
  assumes "i < length (threads p)" "step_keeps i l (threads p ! i) (common p) t' sh'" "list_all arrival_ok (backlog p)"
    "log_size l + sum_list (map owed (threads p)) + sum_list (map arrival_bytes (backlog p)) < 2 ^ 61"
  shows "budget_ok (with_thread p i t' sh')"
proof -
  obtain l' where "aesd_rep (device sh') l'" "log_size l' + owed t' \<le> log_size l + owed (threads p ! i)"
    using assms(2) unfolding step_keeps_def by blast
  moreover note sum_list_change[OF assms(1), of owed t']
  ultimately show ?thesis using assms(3,4) unfolding budget_ok_def
    by (intro conjI exI[of _ l']) simp_all
qed

lemma thread_step_bytes:
  assumes "i < length (threads p)" "step_keeps i l (threads p ! i) (common p) t' sh'" "bytes_ok p"
  shows "bytes_ok (with_thread p i t' sh')"
proof -
  have "t_client t' = t_client (threads p ! i)" using assms(2) by (simp only: step_keeps_def)
  then show ?thesis using assms(3) sum_list_change[OF assms(1), of "\<lambda>t. length (client_message (t_client t))" t']
    by (simp add: bytes_ok_def)
qed

lemma thread_step_weight:
  assumes "i < length (threads p)" "step_keeps i l (threads p ! i) (common p) t' sh'"
  shows "process_weight N (with_thread p i t' sh') < process_weight N p"
proof -
  have "t_weight t' < t_weight (threads p ! i)" using assms(2) unfolding step_keeps_def by blast
  moreover note sum_list_change[OF assms(1), of t_weight t']
  moreover have "main_weight N (with_thread p i t' sh') = main_weight N p" by (simp add: main_weight_def)
  ultimately show ?thesis by (simp add: process_weight_def)
qed

text \<open>The step of the thread in its critical section.\<close>

lemma body_thread_mutex: "body_thread p = Some i \<longleftrightarrow> file_mutex (common p) = Some i \<and> in_body (t_pc (threads p ! i))"
  by (auto simp: body_thread_def split: option.splits)

lemma body_thread_none:
  "body_thread p = None \<longleftrightarrow> (\<forall>i. file_mutex (common p) = Some i \<longrightarrow> \<not> in_body (t_pc (threads p ! i)))"
  by (auto simp: body_thread_def split: option.splits)

lemma serial_body:
  assumes ser: "serial s0 p" and lock: "lock_ok p" and i: "i < length (threads p)"
    and mine: "body_thread p = Some i" and keeps: "body_keeps i l (threads p ! i) (common p) t' sh'"
  shows "serial s0 (with_thread p i t' sh')"
proof -
  let ?t = "threads p ! i" and ?q = "with_thread p i t' sh'"
  obtain earlier s where d: "lock_order (common p) = earlier @ [i]"
    "exec_calls bare_serve (clients_of p earlier) s0 = Some (replies_of p earlier, s)"
    "bare_serve (t_client ?t) s = finish ?t (device (common p))" "finish ?t (device (common p)) \<noteq> None"
    using ser unfolding serial_def mine by auto
  have k: "t_client t' = t_client ?t" "lock_order sh' = earlier @ [i]" "finish t' (device sh') = finish ?t (device (common p))"
    using keeps d(1) by (simp_all add: body_keeps_def)
  have "i \<notin> set earlier" using lock d(1) by (simp add: lock_ok_def)
  then have same: "clients_of ?q earlier = clients_of p earlier" "replies_of ?q earlier = replies_of p earlier"
    unfolding with_thread_simps using i by (blast intro: map_nth_update)+
  have call: "bare_serve (t_client t') s = finish t' (device sh')" "finish t' (device sh') \<noteq> None" using d(3,4) k by simp_all
  consider (more) "in_body (t_pc t')" "file_mutex sh' = Some i" | (out) "t_pc t' = Hanging_up \<or> t_pc t' = Refusing" "file_mutex sh' = None"
  proof -
    have "in_body (t_pc t') \<and> file_mutex sh' = Some i \<or> (t_pc t' = Hanging_up \<or> t_pc t' = Refusing) \<and> file_mutex sh' = None"
      using keeps by (simp only: body_keeps_def)
    then show thesis using that by metis
  qed
  then show ?thesis
  proof cases
    case more
    then have "body_thread ?q = Some i" using i by (simp add: body_thread_mutex)
    then show ?thesis using d(2) same k(2) call i unfolding serial_def by (auto simp del: map_eq_conv)
  next
    case out
    then have "body_thread ?q = None" by (simp add: body_thread_none)
    moreover have "exec_calls bare_serve (clients_of ?q [i]) s = Some (replies_of ?q [i], device sh')"
      using call(1) out(1) i by (auto simp: finish_def)
    then have "exec_calls bare_serve (clients_of ?q (earlier @ [i])) s0 = Some (replies_of ?q (earlier @ [i]), device sh')"
      using exec_calls_append[OF d(2)[folded same]] unfolding map_append by blast
    ultimately show ?thesis using k(2) unfolding serial_def by simp
  qed
qed

text \<open>A step of a thread outside.\<close>

lemma serial_outer:
  assumes ser: "serial s0 p" and lock: "lock_ok p" and i: "i < length (threads p)"
    and ok: "local_ok (threads p ! i)" and rep: "aesd_rep (device (common p)) l" and small: "log_size l + owed (threads p ! i) < 2 ^ 61"
    and outer: "\<not> in_body (t_pc (threads p ! i))" and keeps: "outer_keeps i (threads p ! i) (common p) t' sh'"
  shows "serial s0 (with_thread p i t' sh')"
proof -
  let ?t = "threads p ! i" and ?q = "with_thread p i t' sh'"
  have k: "t_client t' = t_client ?t" "t_sent t' = t_sent ?t" "device sh' = device (common p)" "local_ok t'"
    using keeps by (simp_all add: outer_keeps_def)
  have same: "clients_of ?q js = clients_of p js" "replies_of ?q js = replies_of p js" for js
    unfolding with_thread_simps using i k(1,2) by (blast intro: map_nth_update)+
  show ?thesis
  proof (cases "t_pc ?t = Locking")
    case True
    then have m: "file_mutex (common p) = None" "t_pc t' = Opening" "file_mutex sh' = Some i"
      "lock_order sh' = lock_order (common p) @ [i]"
      using keeps by (auto simp: outer_keeps_def waits_for_lock_def has_lock_def)
    then have b: "body_thread p = None" "body_thread ?q = Some i" using i by (simp_all add: body_thread_none body_thread_mutex)
    have c: "fresh_alloc (c_alloc (t_client ?t))" "owed ?t = length (client_message (t_client ?t))"
      using ok True by (simp_all add: local_ok_def owed_def)
    have fin: "finish t' (device sh') = bare_serve (t_client ?t) (device (common p))" using m(2) k by (simp add: finish_def)
    have "bare_serve (t_client ?t) (device (common p)) \<noteq> None"
      using bare_serve_refines[OF rep c(1)] small unfolding c(2) by force
    then show ?thesis using ser m(4) k(1) i fin unfolding serial_def b same by simp
  next
    case False
    have o: "\<not> in_body (t_pc t')" "lock_order sh' = lock_order (common p)"
      "file_mutex sh' = (if has_lock (t_pc t') then Some i else if has_lock (t_pc ?t) then None else file_mutex (common p))"
      "has_lock (t_pc t') \<and> \<not> has_lock (t_pc ?t) \<longrightarrow> file_mutex (common p) = None"
      using keeps False outer_step_keeps[OF keeps outer rep] by (simp_all add: outer_keeps_def step_keeps_def)
    have hl: "has_lock (t_pc ?t) \<longleftrightarrow> file_mutex (common p) = Some i" using lock i by (simp add: lock_ok_def)
    have b: "body_thread ?q = body_thread p"
      using o hl outer i by (cases "file_mutex (common p)") (auto simp: body_thread_def nth_list_update split: option.splits)
    have "body_thread p \<noteq> Some i" using outer by (simp add: body_thread_mutex)
    then have "\<And>j. body_thread p = Some j \<Longrightarrow> threads ?q ! j = threads p ! j" by (auto simp: nth_list_update)
    then show ?thesis using ser o(2) k(3) unfolding serial_def b same with_thread_simps(2) by (auto split: option.splits)
  qed
qed

lemma main_ok_same: "main_at q = main_at p \<Longrightarrow> elements q = elements p \<Longrightarrow> main_ok q = main_ok p"
  unfolding main_ok_def by (cases "main_at p") simp_all

lemma exec_thread:
  assumes inv: "process_inv N s0 p" and i: "i < length (threads p)"
    and live: "t_pc (threads p ! i) \<noteq> Returned" and free: "waits_for_lock (threads p ! i) \<longrightarrow> file_mutex (common p) = None"
    and on: "\<not> held_up (threads p ! i)"
  shows "\<exists>q. exec_step (Thread i) p = Moves q \<and> process_inv N s0 q \<and> process_weight N q < process_weight N p"
proof -
  let ?t = "threads p ! i" and ?sh = "common p"
  have ok: "serial s0 p" "lock_ok p" "heap_ok p" "threads_ok p" "main_ok p" "list_all arrival_ok (backlog p)"
    "length (threads p) + length (backlog p) \<le> N" "bytes_ok p"
    using inv by (simp_all add: process_inv_def budget_ok_def)
  obtain l where l: "aesd_rep (device ?sh) l"
    "log_size l + sum_list (map owed (threads p)) + sum_list (map arrival_bytes (backlog p)) < 2 ^ 61"
    using inv unfolding process_inv_def budget_ok_def by blast
  have e: "(t_arg ?t, i) \<in> set (elements p)" using ok(3) i live by (simp add: heap_ok_def)
  have t: "local_ok ?t" "has_lock (t_pc ?t) \<longleftrightarrow> file_mutex ?sh = Some i"
    using ok(2,4) i by (simp_all add: threads_ok_def lock_ok_def)
  have t3: "flags ?sh (t_arg ?t) \<noteq> None"
    using ok(3) image_eqI[OF _ e, of "t_arg ?t" fst] unfolding heap_ok_def by simp
  have "owed ?t \<le> sum_list (map owed (threads p))" using i by (intro member_le_sum_list) simp_all
  then have small: "log_size l + owed ?t < 2 ^ 61" using l(2) by linarith
  have "\<exists>t' sh'. thread_step i ?t ?sh = Moves (t', sh') \<and> step_keeps i l ?t ?sh t' sh' \<and> serial s0 (with_thread p i t' sh')"
  proof (cases "in_body (t_pc ?t)")
    case True
    then have m: "file_mutex ?sh = Some i" "body_thread p = Some i" using t(2) body_entered[OF True] by (simp_all add: body_thread_mutex)
    from body_step[OF t(1) True m(1) t3 l(1) small on] show ?thesis
      using body_step_keeps[OF _ True m(1)] serial_body[OF ok(1,2) i m(2)] by blast
  next
    case False
    from outer_step[OF t(1) False live t3 t(2) free on] show ?thesis
      using outer_step_keeps[OF _ False l(1)] serial_outer[OF ok(1,2) i t(1) l(1) small False] by blast
  qed
  then obtain t' sh' where st: "thread_step i ?t ?sh = Moves (t', sh')" "step_keeps i l ?t ?sh t' sh'"
    "serial s0 (with_thread p i t' sh')" by blast
  have "main_ok (with_thread p i t' sh') = main_ok p" by (rule main_ok_same) simp_all
  then have "process_inv N s0 (with_thread p i t' sh')"
    unfolding process_inv_def
    using st(3) thread_step_lock[OF ok(2) i st(2)] thread_step_heap[OF ok(3) i st(2) live] thread_step_threads[OF ok(4) st(2)]
      thread_step_budget[OF i st(2) ok(6) l(2)] thread_step_bytes[OF i st(2) ok(8)] ok(5,7) by simp
  moreover have "exec_step (Thread i) p = Moves (with_thread p i t' sh')"
    using st(1) i by (simp add: exec_step_def with_thread_def)
  ultimately show ?thesis using thread_step_weight[OF i st(2)] by blast
qed

subsection \<open>A step of the main thread\<close>

lemma serial_same:
  assumes "threads q = threads p" "file_mutex (common q) = file_mutex (common p)"
    "lock_order (common q) = lock_order (common p)" "device (common q) = device (common p)"
  shows "serial s0 q = serial s0 p"
  unfolding serial_def body_thread_def assms by simp

lemma main_only:
  assumes inv: "process_inv N s0 p" and main: "main_ok (p\<lparr>main_at := pc\<rparr>)"
  shows "process_inv N s0 (p\<lparr>main_at := pc\<rparr>)"
proof -
  have "serial s0 (p\<lparr>main_at := pc\<rparr>) = serial s0 p" by (rule serial_same) simp_all
  then show ?thesis using inv main
    by (simp add: process_inv_def lock_ok_def heap_ok_def threads_ok_def budget_ok_def bytes_ok_def)
qed

text \<open>The end of a join.\<close>

lemma distinct_fst_remove1:
  assumes "distinct (map fst es)" "e \<in> set es"
  shows "fst ` set (remove1 e es) = fst ` set es - {fst e}"
proof -
  have "distinct es" using assms(1) distinct_map by blast
  then show ?thesis using assms eq_key_imp_eq_value[of es "fst e"] by (auto simp: image_iff) (metis prod.collapse)
qed

lemma distinct_map_remove1: "distinct (map f es) \<Longrightarrow> distinct (map f (remove1 e es))"
  by (meson distinct_map distinct_remove1 inj_on_subset set_remove1_subset)

lemma join_keeps:
  assumes inv: "process_inv N s0 p" and e: "e \<in> set (elements p)" and pc: "t_pc (threads p ! snd e) = Returned"
    and main: "main_ok (p\<lparr>elements := remove1 e (elements p), main_at := next\<rparr>)"
  shows "process_inv N s0 (p\<lparr>elements := remove1 e (elements p), main_at := next,
    common := (common p)\<lparr>flags := (flags (common p))(fst e := None)\<rparr>\<rparr>)"
proof -
  let ?q = "p\<lparr>elements := remove1 e (elements p), main_at := next,
    common := (common p)\<lparr>flags := (flags (common p))(fst e := None)\<rparr>\<rparr>"
  have h: "heap_ok p" using inv by (simp add: process_inv_def)
  have d: "distinct (map fst (elements p))" "distinct (elements p)" using h by (auto simp: heap_ok_def distinct_map)
  have ser: "serial s0 ?q = serial s0 p" by (rule serial_same) simp_all
  have "heap_ok ?q"
    unfolding heap_ok_def
    using h e pc distinct_fst_remove1[OF d(1) e] d(2)
    by (auto simp: heap_ok_def distinct_map_remove1 in_set_remove1)
  moreover have "main_ok ?q" using main by (cases "next") (auto simp: main_ok_def)
  ultimately show ?thesis using inv ser
    by (simp add: process_inv_def lock_ok_def threads_ok_def budget_ok_def bytes_ok_def)
qed

lemma join_step_moves:
  assumes inv: "process_inv N s0 p" and e: "e \<in> set (elements p)"
    and main: "main_ok (p\<lparr>elements := remove1 e (elements p), main_at := next\<rparr>)"
    and less: "\<And>q. main_at q = next \<Longrightarrow> main_weight N q < main_weight N p"
  shows "if t_pc (threads p ! snd e) = Returned
    then \<exists>q. join_step e next p = Moves q \<and> process_inv N s0 q \<and> process_weight N q < process_weight N p
    else join_step e next p = Waits"
proof -
  have "snd e < length (threads p)" "flags (common p) (fst e) \<noteq> None"
    using inv e unfolding process_inv_def heap_ok_def by (blast, blast)
  then have st: "join_step e next p = (if t_pc (threads p ! snd e) = Returned then
        Moves (p\<lparr>elements := remove1 e (elements p), main_at := next,
                 common := (common p)\<lparr>flags := (flags (common p))(fst e := None)\<rparr>\<rparr>) else Waits)"
    using e unfolding join_step_def by (simp only: not_le[symmetric] if_False simp_thms)
  show ?thesis
  proof (cases "t_pc (threads p ! snd e) = Returned")
    case True
    then show ?thesis using join_keeps[OF inv e True main] less by (simp add: st process_weight_def)
  qed (simp add: st)
qed

text \<open>A new connection.\<close>

lemma new_thread_ok: "fresh_alloc (c_alloc c) \<Longrightarrow> local_ok (new_thread c a)"
  by (simp add: local_ok_def new_thread_def client_message_def receive_message_def)

definition with_arrival :: "process \<Rightarrow> client \<Rightarrow> nat \<Rightarrow> arrival list \<Rightarrow> process" where
  "with_arrival p c a rest =
     (let es = (a, length (threads p)) # elements p
      in p\<lparr>backlog := rest, threads := threads p @ [new_thread c a], elements := es,
           common := (common p)\<lparr>flags := (flags (common p))(a := Some False)\<rparr>, main_at := Walking es\<rparr>)"

lemma with_arrival_simps [simp]:
  "backlog (with_arrival p c a rest) = rest" "threads (with_arrival p c a rest) = threads p @ [new_thread c a]"
  "elements (with_arrival p c a rest) = (a, length (threads p)) # elements p"
  "common (with_arrival p c a rest) = (common p)\<lparr>flags := (flags (common p))(a := Some False)\<rparr>"
  "main_at (with_arrival p c a rest) = Walking ((a, length (threads p)) # elements p)"
  "caught (with_arrival p c a rest) = caught p"
  by (simp_all add: with_arrival_def Let_def)

lemma arrive_serial:
  assumes "serial s0 p" "lock_ok p"
  shows "serial s0 (with_arrival p c a rest)"
proof -
  let ?q = "with_arrival p c a rest" and ?n = "length (threads p)"
  have nth: "threads ?q ! i = threads p ! i" if "i < ?n" for i using that by (simp add: nth_append)
  have maps: "clients_of ?q js = clients_of p js" "replies_of ?q js = replies_of p js" if "set js \<subseteq> {..< ?n}" for js
    using that nth by (auto intro!: map_cong)
  have ord: "set (lock_order (common p)) \<subseteq> {..< ?n}" and holder: "file_mutex (common p) = Some i \<Longrightarrow> i < ?n" for i
    using assms(2) by (auto simp: lock_ok_def)
  have b: "body_thread ?q = body_thread p"
    using holder by (simp add: body_thread_def nth_append split: option.splits)
  show ?thesis
  proof (cases "body_thread p")
    case None
    then show ?thesis using assms(1) maps[OF ord] unfolding serial_def b by (simp del: map_eq_conv)
  next
    case (Some i)
    then have i: "i < ?n" using holder by (simp add: body_thread_mutex)
    obtain earlier s where d: "lock_order (common p) = earlier @ [i]"
      "exec_calls bare_serve (clients_of p earlier) s0 = Some (replies_of p earlier, s)"
      "bare_serve (t_client (threads p ! i)) s = finish (threads p ! i) (device (common p))"
      "finish (threads p ! i) (device (common p)) \<noteq> None"
      using assms(1) unfolding serial_def Some by auto
    have "set earlier \<subseteq> {..< ?n}" using ord d(1) by simp
    from d maps[OF this] nth[OF i] show ?thesis unfolding serial_def b Some by (auto simp del: map_eq_conv)
  qed
qed

lemma arrive_lock:
  assumes "lock_ok p"
  shows "lock_ok (with_arrival p c a rest)"
proof -
  let ?q = "with_arrival p c a rest" and ?n = "length (threads p)"
  have nth: "threads ?q ! i = threads p ! i" if "i < ?n" for i using that by (simp add: nth_append)
  have new: "t_pc (threads ?q ! ?n) = Receiving" by (simp add: new_thread_def)
  have "has_lock (t_pc (threads ?q ! i)) \<longleftrightarrow> file_mutex (common p) = Some i" if "i < Suc ?n" for i
    using that assms new nth by (cases "i = ?n") (auto simp: lock_ok_def has_lock_def)
  moreover have "{i. i < Suc ?n \<and> entered (t_pc (threads ?q ! i))} = {i. i < ?n \<and> entered (t_pc (threads p ! i))}"
    using new nth by (auto simp: less_Suc_eq entered_def)
  ultimately show ?thesis using assms by (auto simp: lock_ok_def)
qed

lemma arrive_heap:
  assumes "heap_ok p" "a \<notin> set (map fst (elements p))"
  shows "heap_ok (with_arrival p c a rest)"
proof -
  let ?q = "with_arrival p c a rest" and ?n = "length (threads p)"
  have nth: "threads ?q ! i = threads p ! i" if "i < ?n" for i using that by (simp add: nth_append)
  have below: "\<forall>e \<in> set (elements p). snd e < ?n \<and> t_arg (threads p ! snd e) = fst e"
    using assms(1) by (simp add: heap_ok_def)
  then have "\<forall>e \<in> set (elements ?q). snd e < Suc ?n \<and> t_arg (threads ?q ! snd e) = fst e"
    by (auto simp: nth_append new_thread_def)
  moreover have "?n \<notin> set (map snd (elements p))" using below by auto
  then have "distinct (map snd (elements ?q))" using assms(1) by (simp add: heap_ok_def)
  moreover have "(t_arg (threads ?q ! i), i) \<in> set (elements ?q)" if "i < Suc ?n" "t_pc (threads ?q ! i) \<noteq> Returned" for i
    using that assms(1) nth by (cases "i = ?n") (simp_all add: heap_ok_def new_thread_def)
  moreover have "flags (common ?q) b \<noteq> None \<longleftrightarrow> b \<in> fst ` set (elements ?q)" for b
    using assms(1) by (cases "b = a") (simp_all add: heap_ok_def)
  ultimately show ?thesis using assms by (simp only: heap_ok_def) simp
qed

lemma arrive_keeps:
  assumes inv: "process_inv N s0 p" and bl: "backlog p = Arrives c malloc # rest" and a: "malloc (map fst (elements p)) = Some a"
  shows "process_inv N s0 (with_arrival p c a rest)"
proof -
  let ?n = "length (threads p)" and ?q = "with_arrival p c a rest"
  have ok: "serial s0 p" "lock_ok p" "heap_ok p" "threads_ok p" "budget_ok p" "bytes_ok p" using inv by (simp_all add: process_inv_def)
  have "arrival_ok (Arrives c malloc)" using ok(5) bl by (simp add: budget_ok_def)
  then have c: "fresh_alloc (c_alloc c)" "a \<notin> set (map fst (elements p))" using a unfolding arrival_ok.simps by blast+
  have "threads_ok ?q"
    using ok(4) new_thread_ok[OF c(1)] by (auto simp: threads_ok_def less_Suc_eq nth_append)
  moreover have "budget_ok ?q"
    using ok(5) bl by (auto simp: budget_ok_def new_thread_def owed_def add.assoc simp del: split_paired_Ex)
  moreover have "bytes_ok ?q" using ok(6) bl by (simp add: bytes_ok_def new_thread_def)
  moreover have "main_ok ?q"
    using arrive_heap[OF ok(3) c(2), of c rest] unfolding heap_ok_def main_ok_def
    by (simp only: with_arrival_simps main_pc.case distinct_map order_refl simp_thms)
  ultimately show ?thesis
    using inv bl arrive_serial[OF ok(1,2)] arrive_lock[OF ok(2)] arrive_heap[OF ok(3) c(2)] by (simp add: process_inv_def)
qed

text \<open>Where the main thread waits.\<close>

definition main_waits :: "process \<Rightarrow> bool" where
  "main_waits p \<longleftrightarrow>
     (case main_at p of
        Exited \<Rightarrow> True
      | Accepting \<Rightarrow> backlog p = []
      | Joining e l \<Rightarrow> t_pc (threads p ! snd e) \<noteq> Returned
      | Leaving l \<Rightarrow> l \<noteq> [] \<and> t_pc (threads p ! snd (hd l)) \<noteq> Returned
      | _ \<Rightarrow> False)"

definition advances :: "nat \<Rightarrow> aesd_state \<Rightarrow> process \<Rightarrow> process progress \<Rightarrow> bool" where
  "advances N s0 p r \<longleftrightarrow> (\<exists>q. r = Moves q \<and> process_inv N s0 q \<and> process_weight N q < process_weight N p)"

lemma main_only_advances:
  assumes "process_inv N s0 p" "main_ok (p\<lparr>main_at := pc\<rparr>)" "main_weight N (p\<lparr>main_at := pc\<rparr>) < main_weight N p"
  shows "advances N s0 p (Moves (p\<lparr>main_at := pc\<rparr>))"
  using main_only[OF assms(1,2)] assms(3) by (simp add: advances_def process_weight_def)

lemma elements_bound:
  assumes "process_inv N s0 p"
  shows "length (elements p) \<le> length (threads p)" "length (threads p) + length (backlog p) \<le> N"
proof -
  have "heap_ok p" using assms by (simp add: process_inv_def)
  then have "distinct (map snd (elements p))" "set (map snd (elements p)) \<subseteq> {..< length (threads p)}" by (auto simp: heap_ok_def)
  then show "length (elements p) \<le> length (threads p)"
    using card_mono[of "{..< length (threads p)}" "set (map snd (elements p))"] by (simp only: distinct_card) simp
  show "length (threads p) + length (backlog p) \<le> N" using assms by (simp add: process_inv_def)
qed

lemma accept_advances:
  assumes inv: "process_inv N s0 p" and at: "main_at p = Accepting" and bl: "backlog p \<noteq> []"
  shows "advances N s0 p (accept_step p)"
proof (cases "backlog p")
  case (Cons a rest)
  note bound = elements_bound[OF inv]
  have less: "process_inv N s0 (p\<lparr>backlog := rest, main_at := pc\<rparr>)" if "pc = Testing \<or> pc = Interrupted" for pc
  proof -
    have "serial s0 (p\<lparr>backlog := rest, main_at := pc\<rparr>) = serial s0 p" by (rule serial_same) simp_all
    moreover have "budget_ok p" using inv by (simp add: process_inv_def)
    then obtain l where "aesd_rep (device (common p)) l" "list_all arrival_ok rest"
      "log_size l + sum_list (map owed (threads p)) + (arrival_bytes a + sum_list (map arrival_bytes rest)) < 2 ^ 61"
      unfolding budget_ok_def Cons by auto
    then have "budget_ok (p\<lparr>backlog := rest, main_at := pc\<rparr>)"
      unfolding budget_ok_def by (intro conjI exI[of _ l]) simp_all
    moreover have "main_ok (p\<lparr>backlog := rest, main_at := pc\<rparr>)" using that by (auto simp: main_ok_def)
    ultimately show ?thesis using inv Cons
      by (simp add: process_inv_def lock_ok_def heap_ok_def threads_ok_def bytes_ok_def)
  qed
  show ?thesis
  proof (cases a)
    case Fails
    then show ?thesis using less[of Interrupted] Cons at
      by (simp add: accept_step_def advances_def process_weight_def main_weight_def)
  next
    case (Arrives c malloc)
    show ?thesis
    proof (cases "malloc (map fst (elements p))")
      case None
      then show ?thesis using less[of Testing] Cons Arrives at
        by (simp add: accept_step_def advances_def process_weight_def main_weight_def)
    next
      case (Some ad)
      have w: "t_weight (new_thread c ad) = t_weight (new_thread c 0)" by (simp add: t_weight_def new_thread_def)
      have "accept_step p = Moves (with_arrival p c ad rest)"
        using Cons Arrives Some by (simp add: accept_step_def with_arrival_def Let_def)
      moreover have "process_weight N (with_arrival p c ad rest) < process_weight N p"
        using bound Cons Arrives at by (simp add: process_weight_def main_weight_def w)
      moreover have bl: "backlog p = Arrives c malloc # rest" using Cons Arrives by simp
      ultimately show ?thesis
        using arrive_keeps[OF inv bl Some] by (simp add: advances_def)
    qed
  qed
qed (use bl in simp)

lemma join_advances:
  assumes "process_inv N s0 p" "e \<in> set (elements p)" "main_ok (p\<lparr>elements := remove1 e (elements p), main_at := next\<rparr>)"
    and "\<And>q. main_at q = next \<Longrightarrow> main_weight N q < main_weight N p"
  shows "advances N s0 p (join_step e next p) \<or> join_step e next p = Waits \<and> t_pc (threads p ! snd e) \<noteq> Returned"
  using join_step_moves[OF assms] by (cases "t_pc (threads p ! snd e) = Returned") (simp_all add: advances_def)

lemma main_moves:
  assumes inv: "process_inv N s0 p"
  shows "advances N s0 p (main_step p) \<or> main_step p = Waits \<and> main_waits p"
proof -
  note bound = elements_bound[OF inv]
  have h: "heap_ok p" "main_ok p" using inv by (simp_all add: process_inv_def)
  have d: "distinct (elements p)" using h(1) by (auto simp: heap_ok_def distinct_map)
  show ?thesis
  proof (cases "main_at p")
    case Testing
    then show ?thesis using bound by (auto simp: main_step_def main_ok_def main_weight_def intro!: main_only_advances[OF inv])
  next
    case Entering
    then show ?thesis by (auto simp: main_step_def main_ok_def main_weight_def intro!: main_only_advances[OF inv])
  next
    case Accepting
    then show ?thesis using accept_advances[OF inv]
      by (cases "backlog p") (auto simp: main_step_def accept_step_def main_waits_def)
  next
    case Interrupted
    then show ?thesis using bound by (auto simp: main_step_def main_ok_def main_weight_def intro!: main_only_advances[OF inv])
  next
    case (Walking l)
    show ?thesis
    proof (cases l)
      case Nil
      then show ?thesis using Walking by (auto simp: main_step_def main_ok_def main_weight_def intro!: main_only_advances[OF inv])
    next
      case (Cons e r)
      then have w: "distinct (e # r)" "set (e # r) \<subseteq> set (elements p)" using h(2) Walking by (simp_all add: main_ok_def)
      then have "flags (common p) (fst e) \<noteq> None" using h(1) unfolding heap_ok_def by auto
      then obtain b where "flags (common p) (fst e) = Some b" by blast
      then show ?thesis using Walking Cons w
        by (auto simp: main_step_def main_ok_def main_weight_def intro!: main_only_advances[OF inv])
    qed
  next
    case (Joining e l)
    then have j: "distinct (e # l)" "set (e # l) \<subseteq> set (elements p)" using h(2) by (simp_all add: main_ok_def)
    then have "main_ok (p\<lparr>elements := remove1 e (elements p), main_at := Walking l\<rparr>)"
      using d by (auto simp: main_ok_def)
    from join_advances[OF inv _ this] show ?thesis using Joining j by (auto simp: main_step_def main_weight_def main_waits_def)
  next
    case (Leaving l)
    then have l: "l = elements p" using h(2) by (simp add: main_ok_def)
    show ?thesis
    proof (cases l)
      case Nil
      then show ?thesis using Leaving l by (auto simp: main_step_def main_ok_def main_weight_def intro!: main_only_advances[OF inv])
    next
      case (Cons e r)
      have "main_ok (p\<lparr>elements := remove1 e (elements p), main_at := Leaving r\<rparr>)"
        using Cons l by (simp add: main_ok_def)
      from join_advances[OF inv _ this] show ?thesis using Leaving Cons l by (auto simp: main_step_def main_weight_def main_waits_def)
    qed
  next
    case Exited
    then show ?thesis by (simp add: main_step_def main_waits_def)
  qed
qed

subsection \<open>The process as a whole\<close>

lemma signal_keeps:
  assumes inv: "process_inv N s0 p"
  shows "\<exists>q. exec_step Signal p = Moves q \<and> process_inv N s0 q \<and> process_weight N q \<le> process_weight N p"
proof -
  let ?q = "p\<lparr>caught := True, main_at := (if main_at p = Accepting then Interrupted else main_at p)\<rparr>"
  have "serial s0 ?q = serial s0 p" by (rule serial_same) simp_all
  moreover have "main_ok ?q" using inv by (auto simp: process_inv_def main_ok_def split: main_pc.splits)
  ultimately have "process_inv N s0 ?q"
    using inv by (simp add: process_inv_def lock_ok_def heap_ok_def threads_ok_def budget_ok_def bytes_ok_def)
  moreover have "main_weight N ?q \<le> main_weight N p" by (auto simp: main_weight_def split: main_pc.splits)
  then have "process_weight N ?q \<le> process_weight N p" by (simp add: process_weight_def)
  ultimately show ?thesis by (auto simp: exec_step_def)
qed

lemma held_up_waits:
  assumes inv: "process_inv N s0 p" and i: "i < length (threads p)" and "silent (threads p ! i) \<or> stalled (threads p ! i)"
  shows "exec_step (Thread i) p = Waits"
proof -
  let ?t = "threads p ! i"
  have "t_pc ?t \<noteq> Returned" using assms(3) by (auto simp: silent_def stalled_def)
  then have "(t_arg ?t, i) \<in> set (elements p)" using inv i by (simp add: process_inv_def heap_ok_def)
  then have "t_arg ?t \<in> fst ` set (elements p)" by (rule image_eqI[rotated]) simp
  then have "flags (common p) (t_arg ?t) \<noteq> None" using inv unfolding process_inv_def heap_ok_def by blast
  then show ?thesis using held_up_step(1)[OF assms(3)] i by (simp add: exec_step_def)
qed

lemma exec_step_ok:
  assumes inv: "process_inv N s0 p"
  shows "exec_step w p = Waits \<or>
    (\<exists>q. exec_step w p = Moves q \<and> process_inv N s0 q \<and> process_weight N q + (if w \<noteq> Signal then 1 else 0) \<le> process_weight N p) \<or>
    exec_step w p = Undefined \<and> (\<exists>i < length (threads p). w = Thread i \<and> scans_past (threads p ! i))"
proof (cases w)
  case Main
  then show ?thesis using main_moves[OF inv] by (fastforce simp: exec_step_def advances_def)
next
  case (Thread i)
  show ?thesis
  proof (cases "i < length (threads p)")
    case True
    consider (idle) "t_pc (threads p ! i) = Returned \<or> waits_for_lock (threads p ! i) \<and> file_mutex (common p) \<noteq> None"
      | (peer) "silent (threads p ! i) \<or> stalled (threads p ! i)" | (scan) "scans_past (threads p ! i)"
      | (goes_on) "t_pc (threads p ! i) \<noteq> Returned" "waits_for_lock (threads p ! i) \<longrightarrow> file_mutex (common p) = None"
          "\<not> held_up (threads p ! i)"
      unfolding held_up_def by metis
    then show ?thesis
    proof cases
      case idle
      then show ?thesis using True Thread thread_waits by (auto simp: exec_step_def)
    next
      case peer
      then show ?thesis using held_up_waits[OF inv True] Thread by simp
    next
      case scan
      then show ?thesis using held_up_step(2) True Thread by (simp add: exec_step_def)
    next
      case goes_on
      then show ?thesis using exec_thread[OF inv True] Thread by fastforce
    qed
  qed (simp add: Thread exec_step_def)
next
  case Signal
  then show ?thesis using signal_keeps[OF inv] by simp
qed

lemma undefined_step:
  assumes "process_inv N s0 p"
  shows "exec_step w p = Undefined \<longleftrightarrow> (\<exists>i < length (threads p). w = Thread i \<and> scans_past (threads p ! i))"
proof
  assume "exec_step w p = Undefined"
  then show "\<exists>i < length (threads p). w = Thread i \<and> scans_past (threads p ! i)" using exec_step_ok[OF assms, of w] by auto
qed (auto simp: exec_step_def held_up_step(2))

interpretation server: weighted_system process_step "process_inv N s0" "process_weight N" "\<lambda>w. w \<noteq> Signal"
  for N s0
  by unfold_locales (metis exec_step_ok process_step_def progress.distinct(1,3) progress.inject)+

text \<open>When nobody can move: the threads that have not returned, and the one for which the main thread waits.\<close>

definition stuck :: "process \<Rightarrow> thread \<Rightarrow> bool" where
  "stuck p t \<longleftrightarrow> held_up t \<or>
     waits_for_lock t \<and> (\<exists>j < length (threads p). file_mutex (common p) = Some j \<and> held_up (threads p ! j))"

definition awaited :: "process \<Rightarrow> nat option" where
  "awaited p = (case main_at p of Joining e l \<Rightarrow> Some (snd e) | Leaving (e # l) \<Rightarrow> Some (snd e) | _ \<Rightarrow> None)"

definition main_done :: "process \<Rightarrow> bool" where
  "main_done p \<longleftrightarrow> main_at p = Exited \<and> flags (common p) = Map.empty \<or> main_at p = Accepting \<and> backlog p = []"

lemma stuck_thread:
  assumes inv: "process_inv N s0 p" and nobody: "\<not> (\<exists>w q. process_step p w q \<and> w \<noteq> Signal)"
    and i: "i < length (threads p)" and live: "t_pc (threads p ! i) \<noteq> Returned"
  shows "stuck p (threads p ! i)"
proof -
  have no: "\<not> (\<exists>q. exec_step (Thread j) p = Moves q)" for j using nobody unfolding process_step_def by (metis schedule.distinct(5))
  show ?thesis
  proof (cases "waits_for_lock (threads p ! i) \<longrightarrow> file_mutex (common p) = None")
    case True
    then show ?thesis using exec_thread[OF inv i live] no by (auto simp: stuck_def)
  next
    case False
    then obtain j where m: "file_mutex (common p) = Some j" by auto
    then have j: "j < length (threads p)" "has_lock (t_pc (threads p ! j))" using inv by (simp_all add: process_inv_def lock_ok_def)
    then have "t_pc (threads p ! j) \<noteq> Returned" "\<not> waits_for_lock (threads p ! j)"
      by (auto simp: has_lock_def waits_for_lock_def)
    then have "held_up (threads p ! j)" using exec_thread[OF inv j(1)] no by blast
    then show ?thesis using False m j(1) by (auto simp: stuck_def)
  qed
qed

lemma nobody_moves:
  assumes inv: "process_inv N s0 p" and nobody: "\<not> (\<exists>w q. process_step p w q \<and> w \<noteq> Signal)"
  shows "\<forall>t \<in> set (threads p). t_pc t = Returned \<or> stuck p t"
    and "main_done p \<or> (\<exists>i < length (threads p). awaited p = Some i \<and> t_pc (threads p ! i) \<noteq> Returned)"
proof -
  show "\<forall>t \<in> set (threads p). t_pc t = Returned \<or> stuck p t"
    using stuck_thread[OF inv nobody] by (metis in_set_conv_nth)
  have h: "heap_ok p" "main_ok p" using inv by (simp_all add: process_inv_def)
  have "\<not> process_step p Main q" for q using nobody by (metis schedule.distinct(3))
  then have "\<not> advances N s0 p (main_step p)" by (simp add: advances_def process_step_def exec_step_def)
  then have w: "main_waits p" using main_moves[OF inv] by blast
  have below: "snd e < length (threads p)" if "e \<in> set (elements p)" for e using h(1) that by (simp add: heap_ok_def)
  show "main_done p \<or> (\<exists>i < length (threads p). awaited p = Some i \<and> t_pc (threads p ! i) \<noteq> Returned)"
  proof (cases "main_at p")
    case (Joining e l)
    then have "e \<in> set (elements p)" using h(2) by (simp add: main_ok_def)
    then show ?thesis using w Joining below by (simp add: main_waits_def awaited_def)
  next
    case (Leaving l)
    then obtain e r where l: "l = elements p" "l = e # r" using h(2) w by (cases l) (simp_all add: main_ok_def main_waits_def)
    then have "e \<in> set (elements p)" by (metis list.set_intros(1))
    then show ?thesis using w Leaving l(2) below by (simp add: main_waits_def awaited_def)
  next
    case Exited
    then have "elements p = []" using h(2) by (simp add: main_ok_def)
    then have "flags (common p) a = None" for a using h(1) by (simp add: heap_ok_def)
    then show ?thesis using Exited unfolding main_done_def by blast
  qed (use w in \<open>simp_all add: main_waits_def main_done_def\<close>)
qed

text \<open>Nobody is held up when all peers cooperate.\<close>

lemma cooperative_ends:
  assumes inv: "process_inv N s0 p" and nobody: "\<not> (\<exists>w q. process_step p w q \<and> w \<noteq> Signal)"
    and coop: "list_all (\<lambda>t. cooperative (t_client t)) (threads p)"
  shows "list_all (\<lambda>t. t_pc t = Returned) (threads p)" "file_mutex (common p) = None" "main_done p"
proof -
  have "\<not> held_up t" if "t \<in> set (threads p)" for t
    using cooperative_goes_on[of t] coop inv that
    by (auto simp: process_inv_def threads_ok_def list_all_length in_set_conv_nth)
  then have ret: "\<forall>t \<in> set (threads p). t_pc t = Returned" using nobody_moves(1)[OF inv nobody] by (auto simp: stuck_def)
  then show "list_all (\<lambda>t. t_pc t = Returned) (threads p)" by (simp add: list_all_iff)
  show "file_mutex (common p) = None"
  proof (rule ccontr)
    assume "file_mutex (common p) \<noteq> None"
    then obtain i where "file_mutex (common p) = Some i" by blast
    then have "i < length (threads p)" "has_lock (t_pc (threads p ! i))" using inv by (simp_all add: process_inv_def lock_ok_def)
    then show False using ret by (simp add: has_lock_def)
  qed
  show "main_done p" using nobody_moves(2)[OF inv nobody] ret by (auto dest: nth_mem)
qed

lemma process_inv_start:
  assumes "aesd_rep s ([], [])" "list_all arrival_ok arrivals" "sum_list (map arrival_bytes arrivals) < 2 ^ 61"
  shows "process_inv (length arrivals) s (serving arrivals s)"
proof -
  have "budget_ok (serving arrivals s)"
    unfolding budget_ok_def serving_def using assms
    by (intro conjI exI[of _ "([], [])"]) (simp_all add: log_size_def log_bytes_def)
  then show ?thesis using assms(3)
    by (simp add: process_inv_def serial_def body_thread_def lock_ok_def heap_ok_def threads_ok_def bytes_ok_def main_ok_def serving_def)
qed

subsection \<open>What the process promises\<close>

definition installed :: "arrival list \<Rightarrow> aesd_module \<Rightarrow> process" where
  "installed arrivals m = serving arrivals (dev_state (fst (aesd_init_module 0 0 m)))"

lemma process_inv_installed:
  assumes "kheap (dev_state m) = Map.empty" "list_all arrival_ok arrivals" "sum_list (map arrival_bytes arrivals) < 2 ^ 61"
  shows "process_inv (length arrivals) (dev_state (fst (aesd_init_module 0 0 m))) (installed arrivals m)"
  unfolding installed_def using init_ok[OF assms(1), of 0 0] process_inv_start[OF _ assms(2,3)] by simp

text \<open>The requests so far, as calls one after the other on the log.\<close>

lemma sum_list_indices:
  assumes "distinct is" "set is \<subseteq> {..< length xs}"
  shows "sum_list (map (\<lambda>i. f (xs ! i)) is) \<le> sum_list (map f xs :: nat list)"
proof -
  have "sum_list (map (\<lambda>i. f (xs ! i)) is) = (\<Sum>i \<in> set is. f (xs ! i))"
    by (rule sum_list_distinct_conv_sum_set[OF assms(1)])
  also have "\<dots> \<le> (\<Sum>i < length xs. f (xs ! i))" using assms(2) by (intro sum_mono2) auto
  also have "\<dots> = sum_list (map f xs)" by (simp add: sum_list_sum_nth atLeast0LessThan)
  finally show ?thesis .
qed

lemma process_calls:
  assumes inv: "process_inv N s0 p" and free: "file_mutex (common p) = None" and s0: "aesd_rep s0 ([], [])"
  defines "order \<equiv> lock_order (common p)"
  shows "\<exists>l. run log_reply ([], []) (zip (clients_of p order) (replies_of p order)) l \<and> aesd_rep (device (common p)) l"
proof -
  have ok: "serial s0 p" "lock_ok p" "threads_ok p" "bytes_ok p" using inv by (simp_all add: process_inv_def)
  have "body_thread p = None" using free by (simp add: body_thread_def)
  then have calls: "exec_calls bare_serve (clients_of p order) s0 = Some (replies_of p order, device (common p))"
    using ok(1) by (simp add: serial_def order_def)
  have below: "distinct order" "set order \<subseteq> {..< length (threads p)}" using ok(2) by (auto simp: lock_ok_def order_def)
  have cl: "list_all (\<lambda>c. fresh_alloc (c_alloc c)) (clients_of p order)"
    using below(2) ok(3) by (auto simp: list_all_iff threads_ok_def local_ok_def)
  have "sum_list (map (length \<circ> client_message) (clients_of p order)) < 2 ^ 61"
    using sum_list_indices[OF below, of "\<lambda>t. length (client_message (t_client t))"] ok(4) by (simp add: bytes_ok_def comp_def)
  with bare_clients.calls_refine[where used = 0 and s = s0 and a = "([], [])" and cs = "clients_of p order"] cl s0 obtain rs s' l where
    "exec_calls bare_serve (clients_of p order) s0 = Some (rs, s')" "run log_reply ([], []) (zip (clients_of p order) rs) l"
    "aesd_rep s' l" by (auto simp: log_size_def log_bytes_def)
  moreover from this(1) have "rs = replies_of p order" "s' = device (common p)" using calls by simp_all
  ultimately show ?thesis by blast
qed

text \<open>The clients of the threads are those that arrived.\<close>

fun arrives_with :: "(client \<Rightarrow> bool) \<Rightarrow> arrival \<Rightarrow> bool" where
  "arrives_with P Fails = True"
| "arrives_with P (Arrives c malloc) = P c"

definition all_clients :: "(client \<Rightarrow> bool) \<Rightarrow> process \<Rightarrow> bool" where
  "all_clients P p \<longleftrightarrow> list_all (\<lambda>t. P (t_client t)) (threads p) \<and> list_all (arrives_with P) (backlog p)"

lemma and_then_Moves: "and_then r f = Moves y \<longleftrightarrow> (\<exists>x. r = Moves x \<and> y = f x)"
  by (cases r) auto

lemma thread_step_client: "thread_step i t sh = Moves (t', sh') \<Longrightarrow> t_client t' = t_client t"
  by (auto simp: thread_step_def Let_def with_arg_def receive_step_def request_step_def write_step_def read_step_def send_step_def
      and_then_Moves split: thread_pc.splits if_splits option.splits list.splits outcome.splits)

lemma all_clients_step:
  assumes "all_clients P p" "process_step p w q"
  shows "all_clients P q"
proof (cases w)
  case Main
  then have "main_step p = Moves q" using assms(2) by (simp add: process_step_def exec_step_def)
  then show ?thesis using assms(1)
    by (auto simp: main_step_def accept_step_def join_step_def all_clients_def Let_def new_thread_def
        split: main_pc.splits list.splits option.splits arrival.splits if_splits)
next
  case (Thread i)
  then obtain t' sh' where "thread_step i (threads p ! i) (common p) = Moves (t', sh')" "i < length (threads p)"
    "q = p\<lparr>threads := (threads p)[i := t'], common := sh'\<rparr>"
    using assms(2) by (auto simp: process_step_def exec_step_def and_then_Moves split: if_splits)
  then show ?thesis using assms(1) thread_step_client
    by (auto simp: all_clients_def list_all_length nth_list_update)
next
  case Signal
  then show ?thesis using assms by (auto simp: process_step_def exec_step_def all_clients_def)
qed

interpretation arrivals: invariant_system process_step "all_clients P" for P
  by unfold_locales (rule all_clients_step)

text \<open>
  A signal that arrives between the test of the flag and the call of \<open>accept\<close> is seen only after the next connection.
\<close>

lemma signal_missed:
  "\<exists>p. run process_step (serving [] s) [Main, Signal, Main] p \<and> caught p \<and> main_at p = Accepting \<and> main_step p = Waits"
proof -
  let ?p1 = "(serving [] s)\<lparr>main_at := Entering\<rparr>" and ?p2 = "(serving [] s)\<lparr>caught := True, main_at := Entering\<rparr>"
    and ?p3 = "(serving [] s)\<lparr>caught := True, main_at := Accepting\<rparr>"
  have "process_step (serving [] s) Main ?p1" "process_step ?p1 Signal ?p2" "process_step ?p2 Main ?p3"
    by (simp_all add: process_step_def exec_step_def main_step_def serving_def)
  then have "run process_step (serving [] s) [Main, Signal, Main] ?p3" by (blast intro: run.intros)
  then show ?thesis by (intro exI[of _ ?p3]) (simp add: main_step_def accept_step_def serving_def)
qed

subsection \<open>Schedules\<close>

text \<open>A schedule as a program: \<open>None\<close> when someone is scheduled who cannot move.\<close>

fun run_schedule :: "schedule list \<Rightarrow> process \<Rightarrow> process option" where
  "run_schedule [] p = Some p"
| "run_schedule (w # ws) p = (case exec_step w p of Moves q \<Rightarrow> run_schedule ws q | _ \<Rightarrow> None)"

lemma run_schedule_run: "run_schedule ws p = Some q \<Longrightarrow> run process_step p ws q"
  by (induction ws arbitrary: p) (auto intro: run.intros simp: process_step_def split: progress.splits)

text \<open>
  An idle client keeps the server from its exit: after the signal, \<open>main\<close> waits in \<open>pthread_join\<close> for a thread that waits in \<open>recv\<close>,
  and nobody can move.
\<close>

lemma idle_client_blocks_exit:
  assumes "c_idle c" "c_answers c = []"
  shows "\<exists>p. run process_step (serving [Arrives c (\<lambda>live. Some 1)] s) [Main, Main, Main, Signal, Main, Main, Main] p \<and> caught p \<and>
    awaited p = Some 0 \<and> silent (threads p ! 0) \<and> (\<forall>w q. process_step p w q \<longrightarrow> w = Signal)"
proof -
  define t where "t = new_thread c 1"
  have t: "t_pc t = Receiving" "t_pending t = []" "t_client t = c" "t_arg t = 1"
    using assms(2) by (simp_all add: t_def new_thread_def)
  let ?p = "\<lparr>threads = [t], common = \<lparr>file_mutex = None, flags = [1 \<mapsto> False], device = s, lock_order = []\<rparr>,
     elements = [(1, 0)], main_at = Leaving [(1, 0)], backlog = [], caught = True\<rparr>"
  have r: "run_schedule [Main, Main, Main, Signal, Main, Main, Main] (serving [Arrives c (\<lambda>live. Some 1)] s) = Some ?p"
    by (simp add: exec_step_def main_step_def accept_step_def serving_def t_def Let_def)
  have "silent t" using t assms(1) by (simp add: silent_def)
  then have "thread_step 0 t (common ?p) = Waits" by (intro held_up_step(1)) (simp_all add: t(4))
  then have "exec_step w ?p = Waits \<or> w = Signal" for w
    using t by (cases w) (auto simp: exec_step_def main_step_def join_step_def)
  then have "\<forall>w q. process_step ?p w q \<longrightarrow> w = Signal" unfolding process_step_def by (metis progress.distinct(1))
  then show ?thesis using run_schedule_run[OF r] \<open>silent t\<close> by (intro exI[of _ ?p]) (simp add: awaited_def)
qed

text \<open>Two connections; the first takes the mutex while the second still receives, and a signal arrives.\<close>

definition demo_arrivals :: "arrival list" where
  "demo_arrivals = map (\<lambda>c. Arrives c (\<lambda>live. Some (Suc (sum_list live)))) demo_clients"

lemma demo_arrivals_ok:
  "list_all arrival_ok demo_arrivals" "sum_list (map arrival_bytes demo_arrivals) < 2 ^ 61"
  "list_all (arrives_with (\<lambda>c. writer c \<and> reliable (c_alloc c))) demo_arrivals"
  "list_all (arrives_with cooperative) demo_arrivals"
proof -
  have "Suc (sum_list live) \<notin> set live" for live :: "nat list"
    using member_le_sum_list[of "Suc (sum_list live)" live] by auto
  then show "list_all arrival_ok demo_arrivals" "sum_list (map arrival_bytes demo_arrivals) < 2 ^ 61"
    "list_all (arrives_with (\<lambda>c. writer c \<and> reliable (c_alloc c))) demo_arrivals"
    "list_all (arrives_with cooperative) demo_arrivals"
    using demo_clients_ok by (simp_all add: demo_arrivals_def demo_clients_def client_ok_def)
qed

definition demo_schedule :: "schedule list" where
  "demo_schedule = replicate 6 Main @ replicate 4 (Thread 0) @ replicate 3 Main @ [Thread 1] @ replicate 4 (Thread 0) @
     [Thread 1, Signal] @ replicate 6 (Thread 0) @ replicate 14 (Thread 1) @ replicate 4 (Thread 0) @ replicate 3 (Thread 1) @
     replicate 6 Main"

lemma demo_run:
  "\<exists>p. run process_step (installed demo_arrivals demo_module) demo_schedule p \<and> main_at p = Exited \<and>
    lock_order (common p) = [0, 1] \<and> file_mutex (common p) = None \<and> map t_pc (threads p) = [Returned, Returned] \<and>
    map (\<lambda>t. client_message (t_client t)) (threads p) = [[97, 10], [98, 10]]"
proof -
  have "map_option (\<lambda>p. (main_at p, lock_order (common p), file_mutex (common p), map t_pc (threads p)))
      (run_schedule demo_schedule (installed demo_arrivals demo_module)) = Some (Exited, [0, 1], None, [Returned, Returned])"
    by code_simp
  moreover have "map_option (\<lambda>p. map (\<lambda>t. client_message (t_client t)) (threads p))
      (run_schedule demo_schedule (installed demo_arrivals demo_module)) = Some [[97, 10], [98, 10]]"
    by code_simp
  ultimately show ?thesis using run_schedule_run by fastforce
qed

end
