(* ===== verification/Aesd_File_Mode.thy ===== *)
theory Aesd_File_Mode
  imports Aesd_Clients
begin

section \<open>The server on a regular file\<close>

text \<open>
  \<open>server/aesdsocket.c\<close> with \<open>USE_AESD_CHAR_DEVICE\<close> 0: the same server, which keeps the messages in a regular
  file and writes a time stamp into it every ten seconds. The sources select the other configuration; this
  one is what the code between the \<open>#if\<close> lines does. A file is the list of its bytes.
\<close>

subsection \<open>A thread\<close>

text \<open>\<open>write\<close> at a position: what is there is overwritten.\<close>

definition file_write :: "nat \<Rightarrow> byte list \<Rightarrow> byte list \<Rightarrow> byte list" where
  "file_write pos bs fl = take pos fl @ replicate (pos - length fl) 0 @ bs @ drop (pos + length bs) fl"

text \<open>The answers of \<open>write\<close> are the numbers of bytes taken, -1 for an error; without further answers all is taken.\<close>

fun file_write_loop :: "int list \<Rightarrow> byte list \<Rightarrow> nat \<Rightarrow> byte list \<Rightarrow> byte list" where
  "file_write_loop writes [] pos fl = fl"
| "file_write_loop [] (b # bs) pos fl = file_write pos (b # bs) fl"
| "file_write_loop (n # writes) (b # bs) pos fl =
     (if n < 0 then fl
      else file_write_loop writes (drop (nat n) (b # bs)) (pos + length (take (nat n) (b # bs)))
             (file_write pos (take (nat n) (b # bs)) fl))"

function file_read_loop :: "byte list \<Rightarrow> nat \<Rightarrow> int list \<Rightarrow> byte list \<Rightarrow> byte list" where
  "file_read_loop fl pos sends sent =
     (let got = take RECV_BUF (drop pos fl) in
      if got = [] then sent
      else file_read_loop fl (pos + length got) (snd (send_loop sends got)) (sent @ fst (send_loop sends got)))"
  by pat_completeness auto

termination
  by (relation "measure (\<lambda>(fl, pos, sends, sent). length fl - pos)") auto

declare file_read_loop.simps [simp del]

text \<open>
  \<open>open\<close> has neither \<open>O_CREAT\<close> nor \<open>O_APPEND\<close>. The seek command fails on a regular file and leaves the position at 0.
  The result is what the peer gets and the file.
\<close>

definition file_threadfunc ::
  "byte list list \<Rightarrow> bool \<Rightarrow> int list \<Rightarrow> int list \<Rightarrow> byte list \<Rightarrow> byte list \<times> byte list" where
  "file_threadfunc chunks open_ok writes sends fl =
     (let m = receive_message chunks in
      if \<not> open_ok then ([], fl)
      else
        (let fl' = (if has_prefix m then fl else file_write_loop writes m 0 fl)
         in (file_read_loop fl' 0 sends [], fl')))"

subsection \<open>The time stamps\<close>

text \<open>\<open>caught t\<close>: the signal has arrived after \<open>t\<close> seconds. The wait of ten seconds tests it every second.\<close>

fun timer_sleep :: "(nat \<Rightarrow> bool) \<Rightarrow> nat \<Rightarrow> nat \<Rightarrow> nat" where
  "timer_sleep caught t 0 = t"
| "timer_sleep caught t (Suc n) = (if caught t then t else timer_sleep caught (Suc t) n)"

text \<open>
  A round waits, opens the file (if it can) and appends the line of the time then. The result is the file and
  when the thread returned, if it did within the rounds given.
\<close>

fun timer_thread :: "(nat \<Rightarrow> bool) \<Rightarrow> nat \<Rightarrow> (bool \<times> byte list) list \<Rightarrow> byte list \<Rightarrow> byte list \<times> nat option" where
  "timer_thread caught t [] fl = (fl, if caught t then Some t else None)"
| "timer_thread caught t ((opened, stamp) # rounds) fl =
     (if caught t then (fl, Some t)
      else
        (let t' = timer_sleep caught t 10 in
         if caught t' then (fl, Some t')
         else timer_thread caught t' rounds (if opened then fl @ stamp else fl)))"

text \<open>\<open>main\<close> makes the file empty at its start and removes it at its end.\<close>

definition file_start :: "bool \<Rightarrow> byte list option \<Rightarrow> byte list option" where
  "file_start opened fl = (if opened then Some [] else fl)"

definition file_end :: "bool \<Rightarrow> byte list option \<Rightarrow> byte list option" where
  "file_end remove_ok fl = (if remove_ok then None else fl)"

subsection \<open>What the peer gets\<close>

lemma file_write_over: "pos \<le> length fl \<Longrightarrow> file_write pos bs fl = take pos fl @ bs @ drop (pos + length bs) fl"
  by (simp add: file_write_def)

lemma file_write_twice:
  "pos \<le> length fl \<Longrightarrow> file_write (pos + length as) bs (file_write pos as fl) = file_write pos (as @ bs) fl"
  by (simp add: file_write_def min_def) (simp add: ac_simps)

lemma file_write_nil: "pos \<le> length fl \<Longrightarrow> file_write pos [] fl = fl"
  by (simp add: file_write_def)

lemma file_write_len: "pos \<le> length fl \<Longrightarrow> pos + length bs \<le> length (file_write pos bs fl)"
  by (simp add: file_write_def min_def)

text \<open>However the kernel splits the writes, the message ends up at the position.\<close>

lemma file_write_loop_ok:
  "list_all (\<lambda>n. 0 \<le> n) writes \<Longrightarrow> pos \<le> length fl \<Longrightarrow> file_write_loop writes m pos fl = file_write pos m fl"
proof (induction writes m pos fl rule: file_write_loop.induct)
  case (3 n writes b bs pos fl)
  let ?a = "take (nat n) (b # bs)" and ?r = "drop (nat n) (b # bs)"
  have n: "\<not> n < 0" "list_all (\<lambda>n. 0 \<le> n) writes" using 3(2) by simp_all
  have "pos + length ?a \<le> length (file_write pos ?a fl)" by (rule file_write_len[OF 3(3)])
  then have "file_write_loop writes ?r (pos + length ?a) (file_write pos ?a fl) =
      file_write (pos + length ?a) ?r (file_write pos ?a fl)" using 3(1)[OF n] by simp
  also have "\<dots> = file_write pos (b # bs) fl" using file_write_twice[OF 3(3), of ?a ?r] by simp
  finally show ?case using n(1) by simp
qed (simp_all add: file_write_nil)

lemma file_read_loop_ok:
  "list_all (\<lambda>n. 0 \<le> n) sends \<Longrightarrow> pos \<le> length fl \<Longrightarrow> file_read_loop fl pos sends sent = sent @ drop pos fl"
proof (induction fl pos sends sent rule: file_read_loop.induct)
  case (1 fl pos sends sent)
  let ?got = "take RECV_BUF (drop pos fl)"
  have s: "fst (send_loop sends ?got) = ?got \<and> list_all (\<lambda>n. 0 \<le> n) (snd (send_loop sends ?got))"
    by (rule send_loop_takes[OF 1(2)])
  show ?case
  proof (cases "?got = []")
    case True
    then show ?thesis by (simp add: file_read_loop.simps[of fl] code_consts)
  next
    case False
    have len: "pos + length ?got \<le> length fl" using 1(3) by simp
    have "?got @ drop (pos + length ?got) fl = drop pos fl"
      by (metis add.commute append_take_drop_id drop_drop length_drop length_take min.cobounded1 min_def take_all_iff
          drop_all append_Nil2 nat_le_linear)
    moreover have "file_read_loop fl pos sends sent =
        file_read_loop fl (pos + length ?got) (snd (send_loop sends ?got)) (sent @ fst (send_loop sends ?got))"
      by (subst file_read_loop.simps) (simp only: Let_def False if_False)
    ultimately show ?thesis using 1(1)[OF refl False] s len by (simp only: append_assoc)
  qed
qed

text \<open>
  The reply is the whole file; but the message is written over its beginning, so that earlier messages are
  kept only where they are longer.
\<close>

lemma file_mode_overwrites:
  assumes "receive_message chunks = m" "\<not> has_prefix m" "list_all (\<lambda>n. 0 \<le> n) writes" "list_all (\<lambda>n. 0 \<le> n) sends"
  shows "file_threadfunc chunks True writes sends fl = (m @ drop (length m) fl, m @ drop (length m) fl)"
  using assms by (simp add: file_threadfunc_def file_write_loop_ok file_read_loop_ok file_write_def Let_def)

lemma file_mode_example:
  "snd (file_threadfunc [[120, 10]] True [] [] (snd (file_threadfunc [[97, 98, 99, 10]] True [] [] []))) = [120, 10, 99, 10]"
  by code_simp

text \<open>Without a signal each round takes ten seconds and appends its line.\<close>

lemma timer_sleep_quiet: "(\<And>t. \<not> caught t) \<Longrightarrow> timer_sleep caught t n = t + n"
  by (induction n arbitrary: t) auto

lemma timer_appends:
  "(\<And>t. \<not> caught t) \<Longrightarrow> timer_thread caught t rounds fl = (fl @ concat (map snd (filter fst rounds)), None)"
  by (induction rounds arbitrary: t fl) (auto simp: Let_def)

text \<open>After the signal the thread returns at the next full second.\<close>

lemma timer_sleep_stops:
  assumes "\<And>t t'. caught t \<Longrightarrow> t \<le> t' \<Longrightarrow> caught t'" "caught s" "t \<le> s"
  shows "timer_sleep caught t n \<le> s \<and> t \<le> timer_sleep caught t n \<and> (caught (timer_sleep caught t n) \<or> timer_sleep caught t n = t + n)"
  using assms(3)
proof (induction n arbitrary: t)
  case (Suc n)
  show ?case
  proof (cases "caught t")
    case False
    then have "Suc t \<le> s" using Suc.prems assms(2) by (metis Suc_leI le_neq_implies_less)
    then show ?thesis using Suc.IH[of "Suc t"] False by auto
  qed (use Suc.prems in simp)
qed simp

lemma timer_stops:
  assumes mono: "\<And>t t'. caught t \<Longrightarrow> t \<le> t' \<Longrightarrow> caught t'" and s: "caught s"
  shows "t \<le> s \<Longrightarrow> s - t < 10 * length rounds \<Longrightarrow> \<exists>t' \<le> s. snd (timer_thread caught t rounds fl) = Some t'"
proof (induction rounds arbitrary: t fl)
  case (Cons r rounds)
  obtain ok stamp where r: "r = (ok, stamp)" by (cases r)
  let ?t = "timer_sleep caught t 10"
  have st: "?t \<le> s \<and> t \<le> ?t \<and> (caught ?t \<or> ?t = t + 10)"
    using timer_sleep_stops[where caught = caught] mono s Cons.prems(1) by blast
  show ?case
  proof (cases "caught t \<or> caught ?t")
    case True
    then show ?thesis using st Cons.prems(1) by (auto simp: r Let_def)
  next
    case False
    then have "?t = t + 10" "?t \<le> s" using st by auto
    moreover from this have "s - ?t < 10 * length rounds" using Cons.prems(2) by simp
    ultimately show ?thesis using Cons.IH[of ?t "if ok then fl @ stamp else fl"] False by (simp add: r Let_def)
  qed
qed simp

end
