(* ===== verification/Scull.thy ===== *)
theory Scull
  imports Device_Interfaces
begin

section \<open>The scull device\<close>

text \<open>
  \<open>scull/main.c\<close> and \<open>scull/scull.h\<close>: a memory device made of a linked list of quantum
  sets, each an array of \<open>qset\<close> pointers to quanta of \<open>quantum\<close> bytes. The list owns its
  nodes, a node its array and an array its quanta, so a device is a list of nodes with
  nested options; a pointer to a node is its position. \<open>int\<close> and \<open>long\<close> values are
  mathematical integers with the conversions of the code written out.
\<close>

subsection \<open>Data\<close>

record scull_qset =
  qdata :: "cell list option list option"

record scull_dev =
  data :: "scull_qset list"
  quantum :: int
  qset :: int
  dev_size :: int
  access_key :: int

text \<open>The parameters of the module that handlers change.\<close>

record scull_params =
  scull_quantum :: int
  scull_qset :: int
  scull_p_buffer :: int

definition SCULL_QUANTUM :: int where "SCULL_QUANTUM = 4000"
definition SCULL_QSET :: int where "SCULL_QSET = 1000"
definition SCULL_P_BUFFER :: int where "SCULL_P_BUFFER = 4000"
definition SCULL_NR_DEVS :: int where "SCULL_NR_DEVS = 4"
definition SCULL_P_NR_DEVS :: int where "SCULL_P_NR_DEVS = 4"

text \<open>A node or a device after \<open>memset\<close> to 0.\<close>

definition empty_qset :: scull_qset where
  "empty_qset = \<lparr>qdata = None\<rparr>"

definition zero_dev :: scull_dev where
  "zero_dev = \<lparr>data = [], quantum = 0, qset = 0, dev_size = 0, access_key = 0\<rparr>"

subsection \<open>Trimming\<close>

text \<open>
  The release of one node reads \<open>qset\<close> pointers of its array; an array that is shorter is
  read outside its bounds.
\<close>

definition scull_free_item :: "int \<Rightarrow> scull_qset \<Rightarrow> unit option" where
  "scull_free_item qs q =
     (case qdata q of None \<Rightarrow> Some ()
      | Some arr \<Rightarrow> if nat qs \<le> length arr then Some () else None)"

fun scull_free_list :: "int \<Rightarrow> scull_qset list \<Rightarrow> unit option" where
  "scull_free_list qs [] = Some ()"
| "scull_free_list qs (q # l) = do { scull_free_item qs q; scull_free_list qs l }"

definition scull_trim :: "scull_params \<Rightarrow> scull_dev \<Rightarrow> scull_dev option" where
  "scull_trim p dev = do {
     scull_free_list (qset dev) (data dev);
     Some (dev\<lparr>dev_size := 0, quantum := scull_quantum p, qset := scull_qset p, data := []\<rparr>) }"

subsection \<open>Opening and releasing\<close>

datatype accmode = O_RDONLY | O_WRONLY | O_RDWR

definition scull_open :: "bool \<Rightarrow> scull_params \<Rightarrow> accmode \<Rightarrow> scull_dev \<Rightarrow> (scull_dev \<times> int outcome) option" where
  "scull_open intr p mode dev =
     (if mode = O_WRONLY then
        (if intr then Some (dev, Fail ERESTARTSYS)
         else do { dev' \<leftarrow> scull_trim p dev; Some (dev', Ret 0) })
      else Some (dev, Ret 0))"

definition scull_release :: "scull_dev \<Rightarrow> scull_dev \<times> int" where
  "scull_release dev = (dev, 0)"

subsection \<open>Following the list\<close>

text \<open>The loop stands at node \<open>i\<close> and has \<open>n\<close> steps to go.\<close>

fun follow_loop :: "nat \<Rightarrow> scull_qset list \<Rightarrow> nat \<Rightarrow> allocs \<Rightarrow> nat option \<times> scull_qset list \<times> allocs" where
  "follow_loop 0 l i a = (Some i, l, a)"
| "follow_loop (Suc n) l i a =
     (if i + 1 < length l then follow_loop n l (i + 1) a
      else (case kmalloc a of
              (False, a') \<Rightarrow> (None, l, a')
            | (True, a') \<Rightarrow> follow_loop n (l @ [empty_qset]) (i + 1) a'))"

text \<open>\<open>while (n--)\<close> on an \<open>int\<close> runs as many times as the value converted to unsigned.\<close>

definition scull_follow :: "scull_dev \<Rightarrow> int \<Rightarrow> allocs \<Rightarrow> nat option \<times> scull_dev \<times> allocs" where
  "scull_follow dev n a =
     (case (if data dev = []
            then (case kmalloc a of (False, a') \<Rightarrow> None
                  | (True, a') \<Rightarrow> Some ([empty_qset], a'))
            else Some (data dev, a)) of
        None \<Rightarrow> (None, dev, snd (kmalloc a))
      | Some (l, a') \<Rightarrow>
          (case follow_loop (nat (u32 n)) l 0 a' of
             (r, l', a'') \<Rightarrow> (r, dev\<lparr>data := l'\<rparr>, a'')))"

subsection \<open>Reading and writing\<close>

text \<open>Node, index in the array and offset in the quantum. A division by zero is undefined.\<close>

definition scull_find :: "int \<Rightarrow> int \<Rightarrow> int \<Rightarrow> (int \<times> int \<times> int) option" where
  "scull_find q qs f_pos =
     (let itemsize = s32 (q * qs) in
      if itemsize = 0 \<or> q = 0 then None
      else
        (let item = s32 (f_pos sdiv itemsize);
             rest = s32 (f_pos smod itemsize)
         in Some (item, rest sdiv q, rest smod q)))"

text \<open>\<open>dptr->data[s_pos]\<close>, with the bounds of the array.\<close>

definition slot :: "cell list option list \<Rightarrow> int \<Rightarrow> cell list option option" where
  "slot arr s_pos = (if 0 \<le> s_pos \<and> nat s_pos < length arr then Some (arr ! nat s_pos) else None)"

text \<open>
  \<open>quantum\<close> and \<open>qset\<close> are read before the lock is taken: they are arguments of the locked
  part. The result is the device, the position and the bytes for the user.
\<close>

definition scull_read_locked ::
  "int \<Rightarrow> int \<Rightarrow> kenv \<Rightarrow> scull_dev \<Rightarrow> int \<Rightarrow> int \<Rightarrow> (scull_dev \<times> int \<times> cell list outcome) option" where
  "scull_read_locked q qs env dev count f_pos =
     (if dev_size dev \<le> u64 f_pos then Some (dev, f_pos, Ret [])
      else
        (let count1 = (if dev_size dev < u64 (f_pos + count) then u64 (dev_size dev - f_pos)
                       else count)
         in do {
           (item, s_pos, q_pos) \<leftarrow> scull_find q qs f_pos;
           (case scull_follow dev item (allocs env) of
              (None, dev1, _) \<Rightarrow> Some (dev1, f_pos, Ret [])
            | (Some i, dev1, _) \<Rightarrow>
                (case qdata (data dev1 ! i) of
                   None \<Rightarrow> Some (dev1, f_pos, Ret [])
                 | Some arr \<Rightarrow> do {
                     ptr \<leftarrow> slot arr s_pos;
                     (case ptr of
                        None \<Rightarrow> Some (dev1, f_pos, Ret [])
                      | Some blk \<Rightarrow>
                          (let count2 = (if u64 (q - q_pos) < count1
                                         then u64 (q - q_pos) else count1)
                           in if q_pos < 0 \<or> int (length blk) < q_pos + count2 then None
                              else if 0 < min (uleft env) (nat count2) then Some (dev1, f_pos, Fail EFAULT)
                              else Some (dev1, s64 (f_pos + count2),
                                     Ret (take (nat count2) (drop (nat q_pos) blk))))) })) }))"

definition scull_read ::
  "kenv \<Rightarrow> scull_dev \<Rightarrow> int \<Rightarrow> int \<Rightarrow> (scull_dev \<times> int \<times> cell list outcome) option" where
  "scull_read env dev count f_pos =
     (if signal env then Some (dev, f_pos, Fail ERESTARTSYS)
      else scull_read_locked (quantum dev) (qset dev) env dev count f_pos)"

text \<open>A request for more than half of the address space is refused by any allocator.\<close>

definition kmalloc_size :: "int \<Rightarrow> allocs \<Rightarrow> bool \<times> allocs" where
  "kmalloc_size n a = (if 2 ^ 63 \<le> u64 n then (False, a) else kmalloc a)"

text \<open>The array of a node, allocated and cleared when it is missing.\<close>

definition scull_get_array :: "int \<Rightarrow> scull_qset \<Rightarrow> allocs \<Rightarrow> cell list option list option \<times> allocs" where
  "scull_get_array qs n a =
     (case qdata n of
        Some arr \<Rightarrow> (Some arr, a)
      | None \<Rightarrow>
          (case kmalloc_size (qs * 8) a of
             (False, a') \<Rightarrow> (None, a')
           | (True, a') \<Rightarrow> (Some (replicate (nat qs) None), a')))"

text \<open>A quantum, allocated (and not cleared) when it is missing.\<close>

definition scull_get_quantum :: "int \<Rightarrow> cell list option \<Rightarrow> allocs \<Rightarrow> cell list option \<times> allocs" where
  "scull_get_quantum q ptr a =
     (case ptr of
        Some blk \<Rightarrow> (Some blk, a)
      | None \<Rightarrow>
          (case kmalloc_size q a of
             (False, a') \<Rightarrow> (None, a')
           | (True, a') \<Rightarrow> (Some (replicate (nat q) None), a')))"

definition set_array :: "nat \<Rightarrow> cell list option list \<Rightarrow> scull_dev \<Rightarrow> scull_dev" where
  "set_array i arr dev = dev\<lparr>data := (data dev)[i := (data dev ! i)\<lparr>qdata := Some arr\<rparr>]\<rparr>"

text \<open>\<open>src\<close> are the \<open>count\<close> bytes of the user.\<close>

definition scull_write_locked ::
  "int \<Rightarrow> int \<Rightarrow> kenv \<Rightarrow> scull_dev \<Rightarrow> byte list \<Rightarrow> int \<Rightarrow> (scull_dev \<times> int \<times> int outcome) option" where
  "scull_write_locked q qs env dev src f_pos = do {
     (item, s_pos, q_pos) \<leftarrow> scull_find q qs f_pos;
     (case scull_follow dev item (allocs env) of
        (None, dev1, _) \<Rightarrow> Some (dev1, f_pos, Fail ENOMEM)
      | (Some i, dev1, a1) \<Rightarrow>
          (case scull_get_array qs (data dev1 ! i) a1 of
             (None, _) \<Rightarrow> Some (dev1, f_pos, Fail ENOMEM)
           | (Some arr, a2) \<Rightarrow>
               (let dev2 = set_array i arr dev1 in do {
                  ptr \<leftarrow> slot arr s_pos;
                  (case scull_get_quantum q ptr a2 of
                     (None, _) \<Rightarrow> Some (dev2, f_pos, Fail ENOMEM)
                   | (Some blk, _) \<Rightarrow>
                       (let count = (if u64 (q - q_pos) < int (length src)
                                     then u64 (q - q_pos) else int (length src))
                        in if q_pos < 0 \<or> int (length blk) < q_pos + count then None
                           else
                             (let new = user_bytes (uleft env) (take (nat count) src);
                                  dev3 = set_array i
                                    (arr[nat s_pos := Some (mem_write (nat q_pos) new blk)]) dev2;
                                  f' = s64 (f_pos + count)
                              in if 0 < min (uleft env) (nat count) then Some (dev3, f_pos, Fail EFAULT)
                                 else Some (if dev_size dev3 < u64 f'
                                            then dev3\<lparr>dev_size := u64 f'\<rparr> else dev3,
                                            f', Ret count)))) }))) }"

definition scull_write ::
  "kenv \<Rightarrow> scull_dev \<Rightarrow> byte list \<Rightarrow> int \<Rightarrow> (scull_dev \<times> int \<times> int outcome) option" where
  "scull_write env dev src f_pos =
     (if signal env then Some (dev, f_pos, Fail ERESTARTSYS)
      else scull_write_locked (quantum dev) (qset dev) env dev src f_pos)"

subsection \<open>Seeking\<close>

definition scull_llseek :: "scull_dev \<Rightarrow> int \<Rightarrow> int \<Rightarrow> int \<Rightarrow> int \<times> int outcome" where
  "scull_llseek dev f_pos off whence =
     (let seek = (\<lambda>newpos. if newpos < 0 then (f_pos, Fail EINVAL) else (newpos, Ret newpos))
      in if whence = 0 then seek off
         else if whence = 1 then seek (s64 (f_pos + off))
         else if whence = 2 then seek (s64 (u64 (dev_size dev + off)))
         else (f_pos, Fail EINVAL))"

subsection \<open>The ioctl method\<close>

text \<open>The magic number is the character k.\<close>

definition SCULL_IOC_MAGIC :: nat where "SCULL_IOC_MAGIC = 107"
definition SCULL_IOCRESET :: nat where "SCULL_IOCRESET = io_cmd SCULL_IOC_MAGIC 0"
definition SCULL_IOCSQUANTUM :: nat where "SCULL_IOCSQUANTUM = iow_cmd SCULL_IOC_MAGIC 1 4"
definition SCULL_IOCSQSET :: nat where "SCULL_IOCSQSET = iow_cmd SCULL_IOC_MAGIC 2 4"
definition SCULL_IOCTQUANTUM :: nat where "SCULL_IOCTQUANTUM = io_cmd SCULL_IOC_MAGIC 3"
definition SCULL_IOCTQSET :: nat where "SCULL_IOCTQSET = io_cmd SCULL_IOC_MAGIC 4"
definition SCULL_IOCGQUANTUM :: nat where "SCULL_IOCGQUANTUM = ior_cmd SCULL_IOC_MAGIC 5 4"
definition SCULL_IOCGQSET :: nat where "SCULL_IOCGQSET = ior_cmd SCULL_IOC_MAGIC 6 4"
definition SCULL_IOCQQUANTUM :: nat where "SCULL_IOCQQUANTUM = io_cmd SCULL_IOC_MAGIC 7"
definition SCULL_IOCQQSET :: nat where "SCULL_IOCQQSET = io_cmd SCULL_IOC_MAGIC 8"
definition SCULL_IOCXQUANTUM :: nat where "SCULL_IOCXQUANTUM = iowr_cmd SCULL_IOC_MAGIC 9 4"
definition SCULL_IOCXQSET :: nat where "SCULL_IOCXQSET = iowr_cmd SCULL_IOC_MAGIC 10 4"
definition SCULL_IOCHQUANTUM :: nat where "SCULL_IOCHQUANTUM = io_cmd SCULL_IOC_MAGIC 11"
definition SCULL_IOCHQSET :: nat where "SCULL_IOCHQSET = io_cmd SCULL_IOC_MAGIC 12"
definition SCULL_P_IOCTSIZE :: nat where "SCULL_P_IOCTSIZE = io_cmd SCULL_IOC_MAGIC 13"
definition SCULL_P_IOCQSIZE :: nat where "SCULL_P_IOCQSIZE = io_cmd SCULL_IOC_MAGIC 14"
definition SCULL_IOC_MAXNR :: nat where "SCULL_IOC_MAXNR = 14"

lemmas scull_cmds = SCULL_IOC_MAGIC_def SCULL_IOCRESET_def SCULL_IOCSQUANTUM_def
  SCULL_IOCSQSET_def SCULL_IOCTQUANTUM_def SCULL_IOCTQSET_def SCULL_IOCGQUANTUM_def
  SCULL_IOCGQSET_def SCULL_IOCQQUANTUM_def SCULL_IOCQQSET_def SCULL_IOCXQUANTUM_def
  SCULL_IOCXQSET_def SCULL_IOCHQUANTUM_def SCULL_IOCHQSET_def SCULL_P_IOCTSIZE_def
  SCULL_P_IOCQSIZE_def SCULL_IOC_MAXNR_def

text \<open>
  The caller of an ioctl: its argument word, whether \<open>access_ok\<close> accepts the pointer,
  whether it has \<open>CAP_SYS_ADMIN\<close>, the integer a \<open>__get_user\<close> finds (\<open>None\<close> for a fault)
  and whether a \<open>__put_user\<close> succeeds.
\<close>

record ioctl_user =
  arg :: int
  access_ok :: bool
  capable :: bool
  user_int :: "int option"
  put_ok :: bool

text \<open>\<open>__get_user\<close> stores 0 in its first argument when it faults.\<close>

definition get_user :: "ioctl_user \<Rightarrow> int \<times> int outcome" where
  "get_user u = (case user_int u of None \<Rightarrow> (0, Fail EFAULT) | Some v \<Rightarrow> (s32 v, Ret 0))"

text \<open>The integer stored at the user's pointer, if any, and the return value.\<close>

definition put_user :: "int \<Rightarrow> ioctl_user \<Rightarrow> int option \<times> int outcome" where
  "put_user v u = (if put_ok u then (Some v, Ret 0) else (None, Fail EFAULT))"

text \<open>
  The result of the switch: parameters, the integer written to the user, the return value.
  The six operations are the same for both parameters; \<open>get\<close> and \<open>upd\<close> access the one.
\<close>

type_synonym ioctl_result = "scull_params \<times> int option \<times> int outcome"

definition ioctl_set ::
  "((int \<Rightarrow> int) \<Rightarrow> scull_params \<Rightarrow> scull_params) \<Rightarrow> ioctl_user \<Rightarrow> scull_params \<Rightarrow> ioctl_result" where
  "ioctl_set upd u p =
     (if \<not> capable u then (p, None, Fail EPERM)
      else (case get_user u of (v, r) \<Rightarrow> (upd (\<lambda>_. v) p, None, r)))"

definition ioctl_tell ::
  "((int \<Rightarrow> int) \<Rightarrow> scull_params \<Rightarrow> scull_params) \<Rightarrow> ioctl_user \<Rightarrow> scull_params \<Rightarrow> ioctl_result" where
  "ioctl_tell upd u p =
     (if \<not> capable u then (p, None, Fail EPERM) else (upd (\<lambda>_. s32 (arg u)) p, None, Ret 0))"

definition ioctl_get :: "(scull_params \<Rightarrow> int) \<Rightarrow> ioctl_user \<Rightarrow> scull_params \<Rightarrow> ioctl_result" where
  "ioctl_get get u p = (case put_user (get p) u of (o', r) \<Rightarrow> (p, o', r))"

definition ioctl_query :: "(scull_params \<Rightarrow> int) \<Rightarrow> scull_params \<Rightarrow> ioctl_result" where
  "ioctl_query get p = (p, None, Ret (get p))"

definition ioctl_exchange ::
  "(scull_params \<Rightarrow> int) \<Rightarrow> ((int \<Rightarrow> int) \<Rightarrow> scull_params \<Rightarrow> scull_params) \<Rightarrow> ioctl_user \<Rightarrow>
   scull_params \<Rightarrow> ioctl_result" where
  "ioctl_exchange get upd u p =
     (if \<not> capable u then (p, None, Fail EPERM)
      else
        (let tmp = get p in
         case get_user u of
           (v, Ret _) \<Rightarrow> (case put_user tmp u of (o', r) \<Rightarrow> (upd (\<lambda>_. v) p, o', r))
         | (v, r) \<Rightarrow> (upd (\<lambda>_. v) p, None, r)))"

definition ioctl_shift ::
  "(scull_params \<Rightarrow> int) \<Rightarrow> ((int \<Rightarrow> int) \<Rightarrow> scull_params \<Rightarrow> scull_params) \<Rightarrow> ioctl_user \<Rightarrow>
   scull_params \<Rightarrow> ioctl_result" where
  "ioctl_shift get upd u p =
     (if \<not> capable u then (p, None, Fail EPERM)
      else (upd (\<lambda>_. s32 (arg u)) p, None, Ret (get p)))"

definition scull_ioctl :: "nat \<Rightarrow> ioctl_user \<Rightarrow> scull_params \<Rightarrow> ioctl_result" where
  "scull_ioctl cmd u p =
     (if ioc_type cmd \<noteq> SCULL_IOC_MAGIC then (p, None, Fail ENOTTY)
      else if SCULL_IOC_MAXNR < ioc_nr cmd then (p, None, Fail ENOTTY)
      else if ioc_dir cmd \<noteq> 0 \<and> \<not> access_ok u then (p, None, Fail EFAULT)
      else if cmd = SCULL_IOCRESET then
        (p\<lparr>scull_quantum := SCULL_QUANTUM, scull_qset := SCULL_QSET\<rparr>, None, Ret 0)
      else if cmd = SCULL_IOCSQUANTUM then ioctl_set scull_quantum_update u p
      else if cmd = SCULL_IOCTQUANTUM then ioctl_tell scull_quantum_update u p
      else if cmd = SCULL_IOCGQUANTUM then ioctl_get scull_quantum u p
      else if cmd = SCULL_IOCQQUANTUM then ioctl_query scull_quantum p
      else if cmd = SCULL_IOCXQUANTUM then ioctl_exchange scull_quantum scull_quantum_update u p
      else if cmd = SCULL_IOCHQUANTUM then ioctl_shift scull_quantum scull_quantum_update u p
      else if cmd = SCULL_IOCSQSET then ioctl_set scull_qset_update u p
      else if cmd = SCULL_IOCTQSET then ioctl_tell scull_qset_update u p
      else if cmd = SCULL_IOCGQSET then ioctl_get scull_qset u p
      else if cmd = SCULL_IOCQQSET then ioctl_query scull_qset p
      else if cmd = SCULL_IOCXQSET then ioctl_exchange scull_qset scull_qset_update u p
      else if cmd = SCULL_IOCHQSET then ioctl_shift scull_qset scull_qset_update u p
      else if cmd = SCULL_P_IOCTSIZE then (p\<lparr>scull_p_buffer := s32 (arg u)\<rparr>, None, Ret 0)
      else if cmd = SCULL_P_IOCQSIZE then (p, None, Ret (scull_p_buffer p))
      else (p, None, Fail ENOTTY))"

subsection \<open>The proc file of the devices\<close>

text \<open>
  \<open>v\<close> is a position in the array of devices. \<open>scull_seq_show\<close> prints a device line, one line
  per node, and for the last node one line per allocated quantum.
\<close>

definition scull_seq_start :: "int \<Rightarrow> int \<Rightarrow> int option" where
  "scull_seq_start nr_devs pos = (if nr_devs \<le> pos then None else Some pos)"

definition scull_seq_next :: "int \<Rightarrow> int \<Rightarrow> int option \<times> int" where
  "scull_seq_next nr_devs pos =
     (let pos' = s64 (pos + 1) in (if nr_devs \<le> pos' then None else Some pos', pos'))"

datatype seq_line = Seq_device int int int int | Seq_item nat bool | Seq_quantum nat

definition scull_show_item :: "int \<Rightarrow> nat \<Rightarrow> nat \<Rightarrow> scull_qset \<Rightarrow> seq_line list option" where
  "scull_show_item qs n k d =
     (case qdata d of
        None \<Rightarrow> Some [Seq_item k False]
      | Some arr \<Rightarrow>
          if Suc k < n then Some [Seq_item k True]
          else if length arr < nat qs then None
          else Some (Seq_item k True #
            map Seq_quantum (filter (\<lambda>i. arr ! i \<noteq> None) [0..<nat qs])))"

fun scull_show_items :: "int \<Rightarrow> nat \<Rightarrow> nat \<Rightarrow> scull_qset list \<Rightarrow> seq_line list option" where
  "scull_show_items qs n k [] = Some []"
| "scull_show_items qs n k (d # l) = do {
     ls \<leftarrow> scull_show_item qs n k d;
     rest \<leftarrow> scull_show_items qs n (Suc k) l;
     Some (ls @ rest) }"

definition scull_seq_show :: "bool \<Rightarrow> int \<Rightarrow> scull_dev \<Rightarrow> seq_line list outcome option" where
  "scull_seq_show intr i dev =
     (if intr then Some (Fail ERESTARTSYS)
      else do {
        ls \<leftarrow> scull_show_items (qset dev) (length (data dev)) 0 (data dev);
        Some (Ret (Seq_device i (qset dev) (quantum dev) (dev_size dev) # ls)) })"

end
