(* ===== verification/Scull_Correct.thy ===== *)
theory Scull_Correct
  imports Scull
begin

section \<open>Correctness of the scull device\<close>

text \<open>
  A device is abstracted to a map from quantum numbers to quanta and a size. The list, the
  arrays and the arithmetic of the position disappear in this view: position \<open>p\<close> is cell
  \<open>p mod quantum\<close> of quantum number \<open>p div quantum\<close>. The lemmas show that the operations
  never leave an array or a quantum and act on this map as one expects of a file.
\<close>

subsection \<open>Well-formed devices\<close>

definition qset_ok :: "int \<Rightarrow> int \<Rightarrow> scull_qset \<Rightarrow> bool" where
  "qset_ok q qs n \<longleftrightarrow> (case qdata n of None \<Rightarrow> True
     | Some arr \<Rightarrow> length arr = nat qs \<and> (\<forall>blk. Some blk \<in> set arr \<longrightarrow> length blk = nat q))"

text \<open>The configurations the code works for: positive, and the item size is an \<open>int\<close>.\<close>

definition geometry_ok :: "int \<Rightarrow> int \<Rightarrow> bool" where
  "geometry_ok q qs \<longleftrightarrow> 0 < q \<and> 0 < qs \<and> q * qs < 2 ^ 31"

definition scull_wf :: "scull_dev \<Rightarrow> bool" where
  "scull_wf dev \<longleftrightarrow> geometry_ok (quantum dev) (qset dev) \<and>
     (\<forall>n \<in> set (data dev). qset_ok (quantum dev) (qset dev) n) \<and>
     0 \<le> dev_size dev \<and> dev_size dev < 2 ^ 64"

lemma q_small:
  assumes "scull_wf dev"
  shows "0 < quantum dev" "quantum dev < 2 ^ 31"
proof -
  have q: "0 < quantum dev" "0 < qset dev" "quantum dev * qset dev < 2 ^ 31"
    using assms by (auto simp: scull_wf_def geometry_ok_def)
  moreover have "quantum dev * 1 \<le> quantum dev * qset dev"
    using q by (intro mult_left_mono) auto
  ultimately show "0 < quantum dev" "quantum dev < 2 ^ 31" by linarith+
qed

text \<open>A position whose node number fits an \<open>int\<close>.\<close>

definition pos_ok :: "scull_dev \<Rightarrow> int \<Rightarrow> bool" where
  "pos_ok dev f \<longleftrightarrow> 0 \<le> f \<and> f < 2 ^ 31 * (quantum dev * qset dev) \<and> f < 2 ^ 62"

subsection \<open>Abstraction\<close>

definition node_slot :: "scull_qset \<Rightarrow> nat \<Rightarrow> cell list option" where
  "node_slot n k = (case qdata n of None \<Rightarrow> None | Some arr \<Rightarrow> arr ! k)"

definition blocks :: "scull_dev \<Rightarrow> nat \<Rightarrow> cell list option" where
  "blocks dev b =
     (let qs = nat (qset dev) in
      if b div qs < length (data dev) then node_slot (data dev ! (b div qs)) (b mod qs) else None)"

text \<open>The cell at a position, \<open>None\<close> for a hole.\<close>

definition scull_at :: "scull_dev \<Rightarrow> nat \<Rightarrow> cell option" where
  "scull_at dev p =
     map_option (\<lambda>blk. blk ! (p mod nat (quantum dev))) (blocks dev (p div nat (quantum dev)))"

subsection \<open>The arithmetic of positions\<close>

lemma scull_find_ok:
  assumes g: "geometry_ok q qs" and f: "0 \<le> f" "f < 2 ^ 31 * (q * qs)"
  shows "scull_find q qs f = Some (f div q div qs, f div q mod qs, f mod q)"
proof -
  have pos: "0 < q * qs" "0 < q" "0 < qs" using g by (auto simp: geometry_ok_def)
  have "- (2 ^ 31) \<le> q * qs" "q * qs < 2 ^ 31"
    using g pos(1) unfolding geometry_ok_def by linarith+
  then have i: "s32 (q * qs) = q * qs" by (rule s32_id)
  have "f div (q * qs) < 2 ^ 31"
    using f(2) pos(1) by (rule int_div_less)
  moreover have "0 \<le> f div (q * qs)"
    using f(1) pos(1) by (simp only: pos_imp_zdiv_nonneg_iff)
  ultimately have a: "s32 (f sdiv (q * qs)) = f div (q * qs)"
    unfolding sdiv_nonneg[OF f(1) pos(1)] by (intro s32_id) linarith+
  have "f mod (q * qs) < 2 ^ 31" "0 \<le> f mod (q * qs)"
    using g pos_mod_bound[OF pos(1), of f] pos_mod_sign[OF pos(1), of f]
    unfolding geometry_ok_def by linarith+
  then have b: "s32 (f smod (q * qs)) = f mod (q * qs)" "0 \<le> f mod (q * qs)"
    unfolding smod_nonneg[OF f(1) pos(1)] by (auto intro: s32_id)
  have m: "f mod (q * qs) = q * (f div q mod qs) + f mod q"
    using pos by (simp add: zmod_zmult2_eq)
  have c: "f mod (q * qs) div q = f div q mod qs" "f mod (q * qs) mod q = f mod q"
    unfolding m using pos by simp_all
  have d: "f div (q * qs) = f div q div qs" using pos(3) by (simp add: zdiv_zmult2_eq)
  show ?thesis
    using pos unfolding scull_find_def Let_def i a b(1)
      sdiv_nonneg[OF b(2) pos(2)] smod_nonneg[OF b(2) pos(2)] c d by auto
qed

subsection \<open>Following the list\<close>

text \<open>Nodes are only ever appended, empty; the abstraction does not see them.\<close>

lemma follow_loop_ok:
  "i < length l \<Longrightarrow> follow_loop n l i a = (r, l', a') \<Longrightarrow>
    \<exists>m. l' = l @ replicate m empty_qset \<and> (\<forall>k. r = Some k \<longrightarrow> k = i + n \<and> k < length l')"
proof (induction n l i a arbitrary: r l' a' rule: follow_loop.induct)
  case (1 l i a)
  then show ?case by (auto intro: exI[of _ 0])
next
  case (2 n l i a)
  show ?case
  proof (cases "i + 1 < length l")
    case True
    then show ?thesis using 2(1)[OF True True] 2(4) by auto
  next
    case False
    show ?thesis
    proof (cases "kmalloc a")
      case (Pair ok a2)
      show ?thesis
      proof (cases ok)
        case False
        then show ?thesis using 2(4) \<open>\<not> i + 1 < length l\<close> Pair by (auto intro: exI[of _ 0])
      next
        case True
        have "follow_loop n (l @ [empty_qset]) (i + 1) a2 = (r, l', a')"
          using 2(4) \<open>\<not> i + 1 < length l\<close> Pair True by simp
        with 2(2)[of ok a2 r l' a'] \<open>\<not> i + 1 < length l\<close> Pair True 2(3)
        obtain m where "l' = (l @ [empty_qset]) @ replicate m empty_qset"
          "\<forall>k. r = Some k \<longrightarrow> k = i + 1 + n \<and> k < length l'" by auto
        then show ?thesis by (intro exI[of _ "Suc m"]) auto
      qed
    qed
  qed
qed

lemma scull_follow_ok:
  assumes "scull_follow dev n a = (r, dev', a')" "0 \<le> n" "n < 2 ^ 32"
  shows "\<exists>m. dev' = dev\<lparr>data := data dev @ replicate m empty_qset\<rparr> \<and>
    (\<forall>k. r = Some k \<longrightarrow> k = nat n \<and> k < length (data dev'))"
proof (cases "data dev = []")
  case True
  show ?thesis
  proof (cases "kmalloc a")
    case (Pair ok a2)
    show ?thesis
    proof (cases ok)
      case False
      then show ?thesis using assms(1) True Pair
        by (auto simp: scull_follow_def intro: exI[of _ 0])
    next
      case ok: True
      obtain l' where l': "follow_loop (nat (u32 n)) [empty_qset] 0 a2 = (r, l', a')"
        "dev' = dev\<lparr>data := l'\<rparr>"
        using assms(1) True Pair ok by (auto simp: scull_follow_def split: prod.splits)
      from follow_loop_ok[OF _ l'(1)] obtain m where
        "l' = [empty_qset] @ replicate m empty_qset" "\<forall>k. r = Some k \<longrightarrow> k = nat (u32 n) \<and> k < length l'"
        by auto
      then show ?thesis using l'(2) True assms(2,3) by (intro exI[of _ "Suc m"]) auto
    qed
  qed
next
  case False
  then obtain l' where l': "follow_loop (nat (u32 n)) (data dev) 0 a = (r, l', a')"
    "dev' = dev\<lparr>data := l'\<rparr>"
    using assms(1) by (auto simp: scull_follow_def split: prod.splits)
  from follow_loop_ok[OF _ l'(1)] False obtain m where
    "l' = data dev @ replicate m empty_qset" "\<forall>k. r = Some k \<longrightarrow> k = nat (u32 n) \<and> k < length l'"
    by auto
  then show ?thesis using l'(2) assms(2,3) by (intro exI[of _ m]) auto
qed

text \<open>It finds the node when no allocation fails.\<close>

lemma follow_loop_total:
  "i < length l \<Longrightarrow> i + n < length l \<Longrightarrow> follow_loop n l i a = (Some (i + n), l, a)"
  by (induction n arbitrary: i) auto

lemma blocks_extend:
  "blocks (dev\<lparr>data := data dev @ replicate m empty_qset\<rparr>) = blocks dev"
  by (rule ext) (auto simp: blocks_def Let_def nth_append node_slot_def empty_qset_def)

lemma wf_extend: "scull_wf dev \<Longrightarrow> scull_wf (dev\<lparr>data := data dev @ replicate m empty_qset\<rparr>)"
  by (auto simp: scull_wf_def qset_ok_def empty_qset_def)

lemma blocks_size [simp]: "blocks (dev\<lparr>dev_size := n\<rparr>) = blocks dev"
  by (rule ext) (simp add: blocks_def Let_def)

lemma wf_size: "scull_wf dev \<Longrightarrow> 0 \<le> n \<Longrightarrow> n < 2 ^ 64 \<Longrightarrow> scull_wf (dev\<lparr>dev_size := n\<rparr>)"
  by (simp add: scull_wf_def)

text \<open>Setting one slot of one node.\<close>

lemma data_set_array [simp]:
  "quantum (set_array i arr dev) = quantum dev" "qset (set_array i arr dev) = qset dev"
  "dev_size (set_array i arr dev) = dev_size dev"
  "length (data (set_array i arr dev)) = length (data dev)"
  by (simp_all add: set_array_def)

lemma node_set_array:
  "i < length (data dev) \<Longrightarrow> j < length (data dev) \<Longrightarrow>
    qdata (data (set_array i arr dev) ! j) = (if i = j then Some arr else qdata (data dev ! j))"
  by (simp add: set_array_def nth_list_update)

lemma set_array_twice [simp]:
  "i < length (data dev) \<Longrightarrow> set_array i arr' (set_array i arr dev) = set_array i arr' dev"
  by (simp add: set_array_def)

lemma wf_set_array:
  assumes "scull_wf dev" "length arr = nat (qset dev)"
    "\<And>blk. Some blk \<in> set arr \<Longrightarrow> length blk = nat (quantum dev)"
  shows "scull_wf (set_array i arr dev)"
  using assms by (auto simp: scull_wf_def set_array_def qset_ok_def
      dest!: set_update_subset_insert[THEN subsetD])

lemma blocks_set_array:
  assumes i: "i < length (data dev)" and g: "0 < qset dev" and k: "k < nat (qset dev)"
    and old: "\<And>j. j < nat (qset dev) \<Longrightarrow> j \<noteq> k \<Longrightarrow> arr ! j = node_slot (data dev ! i) j"
  shows "blocks (set_array i arr dev) = (blocks dev)(i * nat (qset dev) + k := arr ! k)"
proof (rule ext)
  fix b
  let ?s = "nat (qset dev)"
  have s: "0 < ?s" using g by simp
  have eq: "b = i * ?s + k \<longleftrightarrow> b div ?s = i \<and> b mod ?s = k"
    using k s by auto
  have lt: "b mod ?s < ?s" using s by simp
  show "blocks (set_array i arr dev) b = ((blocks dev)(i * ?s + k := arr ! k)) b"
    using i old lt unfolding fun_upd_apply eq
    by (auto simp: blocks_def Let_def node_slot_def node_set_array)
qed

subsection \<open>Allocation of arrays and quanta\<close>

lemma get_array_ok:
  assumes "qset_ok q qs n" "scull_get_array qs n a = (Some arr, a')"
  shows "length arr = nat qs \<and> (\<forall>blk. Some blk \<in> set arr \<longrightarrow> length blk = nat q) \<and>
    (\<forall>j < nat qs. arr ! j = node_slot n j)"
  using assms by (auto simp: scull_get_array_def qset_ok_def node_slot_def
      split: option.splits prod.splits bool.splits)

definition fresh_quantum :: "int \<Rightarrow> cell list" where
  "fresh_quantum q = replicate (nat q) None"

lemma get_quantum_ok:
  assumes "scull_get_quantum q ptr a = (Some blk, a')"
  shows "blk = (case ptr of None \<Rightarrow> fresh_quantum q | Some b \<Rightarrow> b)"
  using assms by (auto simp: scull_get_quantum_def fresh_quantum_def
      split: option.splits prod.splits bool.splits)

text \<open>The quantum that holds a position, as a writer finds or makes it.\<close>

definition quantum_for :: "scull_dev \<Rightarrow> nat \<Rightarrow> cell list" where
  "quantum_for dev b = (case blocks dev b of None \<Rightarrow> fresh_quantum (quantum dev) | Some blk \<Rightarrow> blk)"

lemma blocks_length:
  assumes wf: "scull_wf dev" and b: "blocks dev b = Some blk"
  shows "length blk = nat (quantum dev)"
proof -
  let ?s = "nat (qset dev)"
  define n where "n = data dev ! (b div ?s)"
  obtain arr where "b div ?s < length (data dev)" "qdata n = Some arr" "arr ! (b mod ?s) = Some blk"
    using b by (auto simp: n_def blocks_def Let_def node_slot_def split: if_splits option.splits)
  then have n: "n \<in> set (data dev)" "qdata n = Some arr" "arr ! (b mod ?s) = Some blk"
    by (simp_all add: n_def)
  then have "qset_ok (quantum dev) (qset dev) n" "0 < ?s"
    using wf by (auto simp: scull_wf_def geometry_ok_def)
  then have "Some blk \<in> set arr" "\<forall>blk. Some blk \<in> set arr \<longrightarrow> length blk = nat (quantum dev)"
    using n by (auto simp: qset_ok_def in_set_conv_nth intro!: exI[of _ "b mod ?s"])
  then show ?thesis by blast
qed

lemma length_quantum_for: "scull_wf dev \<Longrightarrow> length (quantum_for dev b) = nat (quantum dev)"
  by (auto simp: quantum_for_def fresh_quantum_def dest: blocks_length split: option.splits)

text \<open>The parts of a position as naturals.\<close>

lemma pos_parts:
  assumes wf: "scull_wf dev" and f: "pos_ok dev f"
  defines "b \<equiv> nat f div nat (quantum dev)" and "s \<equiv> nat (qset dev)"
  shows "scull_find (quantum dev) (qset dev) f =
      Some (int (b div s), int (b mod s), int (nat f mod nat (quantum dev)))"
    and "int (b div s) < 2 ^ 31"
proof -
  have g: "geometry_ok (quantum dev) (qset dev)" using wf by (simp add: scull_wf_def)
  then have p: "0 \<le> quantum dev" "0 \<le> qset dev" "0 < quantum dev * qset dev"
    by (auto simp: geometry_ok_def)
  have f0: "0 \<le> f" "f < 2 ^ 31 * (quantum dev * qset dev)" using f by (auto simp: pos_ok_def)
  have b: "int b = f div quantum dev" "int s = qset dev"
    using p f0 by (simp_all add: b_def s_def zdiv_int)
  have c: "int (b div s) = f div quantum dev div qset dev"
    by (simp add: zdiv_int b)
  then show "scull_find (quantum dev) (qset dev) f =
      Some (int (b div s), int (b mod s), int (nat f mod nat (quantum dev)))"
    using scull_find_ok[OF g f0] p f0 by (simp add: b zmod_int)
  have "f div (quantum dev * qset dev) < 2 ^ 31"
    using int_div_less[OF f0(2) p(3)] .
  then show "int (b div s) < 2 ^ 31"
    using p by (simp add: c flip: zdiv_zmult2_eq)
qed

subsection \<open>Writing\<close>

text \<open>The effect of storing \<open>new\<close> at offset \<open>o'\<close> of quantum \<open>b\<close>.\<close>

definition store_block :: "nat \<Rightarrow> nat \<Rightarrow> cell list \<Rightarrow> scull_dev \<Rightarrow> nat \<Rightarrow> cell list option" where
  "store_block b o' new dev = (blocks dev)(b := Some (mem_write o' new (quantum_for dev b)))"

text \<open>The locked part of a write after the node has been found.\<close>

lemma write_slot:
  assumes wf: "scull_wf dev" and i: "i < length (data dev)" and k: "k < nat (qset dev)"
    and arr: "scull_get_array (qset dev) (data dev ! i) a = (Some arr, a')"
  defines "dev2 \<equiv> set_array i arr dev" and "b \<equiv> i * nat (qset dev) + k"
  shows "scull_wf dev2" "blocks dev2 = blocks dev" "slot arr (int k) = Some (blocks dev b)"
    and "length new + o' \<le> nat (quantum dev) \<Longrightarrow>
      scull_wf (set_array i (arr[k := Some (mem_write o' new (quantum_for dev b))]) dev2) \<and>
      blocks (set_array i (arr[k := Some (mem_write o' new (quantum_for dev b))]) dev2) =
        store_block b o' new dev"
proof -
  let ?s = "nat (qset dev)"
  have g: "0 < qset dev" using wf by (simp add: scull_wf_def geometry_ok_def)
  have ok: "qset_ok (quantum dev) (qset dev) (data dev ! i)"
    using wf i by (simp add: scull_wf_def)
  note arr' = get_array_ok[OF ok arr]
  have bs: "blocks dev b = node_slot (data dev ! i) k"
    using i k g by (simp add: blocks_def b_def Let_def)
  show "scull_wf dev2"
    unfolding dev2_def using wf arr' by (intro wf_set_array) auto
  have "blocks dev2 = (blocks dev)(b := arr ! k)"
    unfolding dev2_def b_def using i g k arr' by (intro blocks_set_array) auto
  then show "blocks dev2 = blocks dev" using bs arr' k by auto
  show "slot arr (int k) = Some (blocks dev b)"
    using bs arr' k by (simp add: slot_def)
  assume new: "length new + o' \<le> nat (quantum dev)"
  let ?new = "mem_write o' new (quantum_for dev b)"
  have tw: "set_array i (arr[k := Some ?new]) dev2 = set_array i (arr[k := Some ?new]) dev"
    using i by (simp add: dev2_def)
  have len: "length ?new = nat (quantum dev)"
    using new length_quantum_for[OF wf, of b] by (simp add: add.commute)
  have "scull_wf (set_array i (arr[k := Some ?new]) dev)"
    using wf arr' len by (intro wf_set_array)
      (auto dest!: set_update_subset_insert[THEN subsetD])
  moreover have "blocks (set_array i (arr[k := Some ?new]) dev) = store_block b o' new dev"
    using i g k arr' unfolding store_block_def b_def
    by (subst blocks_set_array[where k = k]) (auto simp: nth_list_update)
  ultimately show "scull_wf (set_array i (arr[k := Some ?new]) dev2) \<and>
      blocks (set_array i (arr[k := Some ?new]) dev2) = store_block b o' new dev"
    by (simp add: tw)
qed

definition write_len :: "scull_dev \<Rightarrow> byte list \<Rightarrow> int \<Rightarrow> nat" where
  "write_len dev src f = min (length src) (nat (quantum dev) - nat f mod nat (quantum dev))"

lemma write_len_code:
  fixes f :: int
  assumes "scull_wf dev"
  defines "o' \<equiv> nat f mod nat (quantum dev)"
  shows "(if u64 (quantum dev - int o') < int (length src) then u64 (quantum dev - int o')
          else int (length src)) = int (write_len dev src f)"
    and "write_len dev src f + o' \<le> nat (quantum dev)"
proof -
  note q31 = q_small(2)[OF assms(1)]
  have o': "o' < nat (quantum dev)" using q_small(1)[OF assms(1)] by (simp add: o'_def)
  have u: "u64 (quantum dev - int o') = quantum dev - int o'"
    using q31 o' by (intro u64_id) simp_all
  show "(if u64 (quantum dev - int o') < int (length src) then u64 (quantum dev - int o')
          else int (length src)) = int (write_len dev src f)"
    unfolding u write_len_def o'_def[symmetric] using o' by auto
  show "write_len dev src f + o' \<le> nat (quantum dev)"
    unfolding write_len_def o'_def[symmetric] using o' by auto
qed

text \<open>Every way a write can end.\<close>

definition write_ok :: "kenv \<Rightarrow> scull_dev \<Rightarrow> byte list \<Rightarrow> int \<Rightarrow> scull_dev \<times> int \<times> int outcome \<Rightarrow> bool" where
  "write_ok env dev src f res \<longleftrightarrow> (case res of (dev', f', r) \<Rightarrow>
     scull_wf dev' \<and> quantum dev' = quantum dev \<and> qset dev' = qset dev \<and>
     (let q = nat (quantum dev); n = write_len dev src f; new = take n src in
      case r of
        Ret v \<Rightarrow> v = int n \<and> f' = f + int n \<and> dev_size dev' = max (dev_size dev) (f + int n) \<and>
          blocks dev' = store_block (nat f div q) (nat f mod q) (map Some new) dev
      | Fail e \<Rightarrow> f' = f \<and> dev_size dev' = dev_size dev \<and>
          (if e = EFAULT then 0 < uleft env \<and>
             blocks dev' = store_block (nat f div q) (nat f mod q) (user_bytes (uleft env) new) dev
           else (e = ENOMEM \<or> e = ERESTARTSYS) \<and> blocks dev' = blocks dev)
      | Blocked \<Rightarrow> False))"

lemma user_bytes_min: "min left (length xs) = 0 \<Longrightarrow> user_bytes left xs = map Some xs"
  by (cases xs) (auto simp: user_bytes_def)

lemma scull_write_ok:
  assumes wf: "scull_wf dev" and f: "pos_ok dev f"
  shows "\<exists>res. scull_write env dev src f = Some res \<and> write_ok env dev src f res"
proof (cases "signal env")
  case True
  then show ?thesis using wf by (simp add: scull_write_def write_ok_def)
next
  case sig: False
  define q s b o' where d: "q = nat (quantum dev)" "s = nat (qset dev)" "b = nat f div q" "o' = nat f mod q"
  note pp = pos_parts[OF wf f, folded d(1,2), folded d(3,4)]
  have s0: "0 < s" using wf by (auto simp: d scull_wf_def geometry_ok_def)
  have f0: "0 \<le> f" "f < 2 ^ 62" using f by (auto simp: pos_ok_def)
  obtain r1 dev1 a1 where fo: "scull_follow dev (int (b div s)) (allocs env) = (r1, dev1, a1)"
    by (metis prod_cases3)
  have "int (b div s) < 2 ^ 32" using pp(2) by simp
  from scull_follow_ok[OF fo _ this] obtain m where
    m: "dev1 = dev\<lparr>data := data dev @ replicate m empty_qset\<rparr>"
    "\<forall>k. r1 = Some k \<longrightarrow> k = b div s \<and> k < length (data dev1)" by auto
  have dev1: "scull_wf dev1" "blocks dev1 = blocks dev" "quantum dev1 = quantum dev"
    "qset dev1 = qset dev" "dev_size dev1 = dev_size dev"
    using wf_extend[OF wf] by (simp_all add: m(1) blocks_extend)
  have qf: "quantum_for dev1 = quantum_for dev"
    by (rule ext) (simp only: quantum_for_def dev1(2,3))
  show ?thesis
  proof (cases r1)
    case None
    then show ?thesis using sig dev1 fo
      by (simp add: scull_write_def scull_write_locked_def pp write_ok_def Let_def)
  next
    case (Some i)
    then have i: "i = b div s" "i < length (data dev1)" using m(2) by auto
    have k: "b mod s < nat (qset dev1)" using s0 by (simp add: dev1 d)
    have bi: "i * nat (qset dev1) + b mod s = b" by (simp add: i dev1 flip: d)
    obtain ra a2 where ga: "scull_get_array (qset dev1) (data dev1 ! i) a1 = (ra, a2)"
      by (metis surj_pair)
    show ?thesis
    proof (cases ra)
      case None
      then show ?thesis using sig dev1 fo ga Some
        by (simp add: scull_write_def scull_write_locked_def pp write_ok_def Let_def)
    next
      case arr: (Some arr)
      let ?dev2 = "set_array i arr dev1"
      note ws = write_slot[OF dev1(1) i(2) k ga[unfolded arr], unfolded bi]
      obtain rq a3 where gq: "scull_get_quantum (quantum dev) (blocks dev b) a2 = (rq, a3)"
        by (metis surj_pair)
      show ?thesis
      proof (cases rq)
        case None
        then show ?thesis using sig dev1 fo ga Some arr gq ws
          by (simp add: scull_write_def scull_write_locked_def pp write_ok_def Let_def)
      next
        case blk: (Some blk)
        have bq: "blk = quantum_for dev b"
          using get_quantum_ok[OF gq[unfolded blk]] by (simp add: quantum_for_def split: option.splits)
        let ?n = "write_len dev src f"
        note wl = write_len_code[OF wf, where f = f and src = src, folded d(1), folded d(4)]
        have lb: "length blk = q" using length_quantum_for[OF wf] by (simp add: bq d)
        have bound: "\<not> int (length blk) < int o' + int ?n" "\<not> length blk < o'"
          using wl(2) lb by simp_all
        let ?new = "user_bytes (uleft env) (take ?n src)"
        have ln: "length ?new = ?n" by (simp add: write_len_def)
        let ?dev3 = "set_array i (arr[b mod s := Some (mem_write o' ?new blk)]) ?dev2"
        have dev3: "scull_wf ?dev3" "blocks ?dev3 = store_block b o' ?new dev"
          "dev_size ?dev3 = dev_size dev" "quantum ?dev3 = quantum dev" "qset ?dev3 = qset dev"
        proof -
          have "length ?new + o' \<le> nat (quantum dev1)"
            unfolding ln dev1(3) using wl(2) by (simp only: d(1))
          from ws(4)[OF this, unfolded qf store_block_def dev1(2)]
          show "scull_wf ?dev3" "blocks ?dev3 = store_block b o' ?new dev"
            unfolding bq store_block_def by blast+
        qed (simp_all only: data_set_array dev1)
        have n31: "int ?n < 2 ^ 31"
        proof -
          have "int ?n \<le> quantum dev" using wl(2) q_small[OF wf] by (simp add: d)
          then show ?thesis using q_small[OF wf] by linarith
        qed
        have f': "s64 (f + int ?n) = f + int ?n" "u64 (f + int ?n) = f + int ?n" "u64 f = f"
          using f0 n31 by (simp_all del: of_nat_less_iff)
        let ?dev4 = "if dev_size ?dev3 < f + int ?n then ?dev3\<lparr>dev_size := f + int ?n\<rparr> else ?dev3"
        have code: "scull_write env dev src f =
            Some (if 0 < min (uleft env) ?n then (?dev3, f, Fail EFAULT)
                  else (?dev4, f + int ?n, Ret (int ?n)))"
          using sig dev1 fo ga Some arr gq ws(3) blk
          by (simp add: scull_write_def scull_write_locked_def pp(1) wl(1) bound f' Let_def
              del: of_nat_add)
        show ?thesis
        proof (cases "0 < min (uleft env) ?n")
          case True
          then show ?thesis unfolding code write_ok_def using dev3
            by (simp add: Let_def flip: d)
        next
          case False
          then have nw: "?new = map Some (take ?n src)"
            using ln by (intro user_bytes_min) auto
          have "scull_wf ?dev4" "blocks ?dev4 = blocks ?dev3"
            using dev3(1) f0 n31 by (auto simp: wf_size)
          then show ?thesis unfolding code if_not_P[OF False] write_ok_def using dev3 unfolding nw
            by (simp add: Let_def max_def flip: d)
        qed
      qed
    qed
  qed
qed

subsection \<open>Reading\<close>

lemma scull_follow_found:
  "i < length (data dev) \<Longrightarrow> int i < 2 ^ 32 \<Longrightarrow> scull_follow dev (int i) a = (Some i, dev, a)"
  using follow_loop_total[of 0 "data dev" i a] by (auto simp: scull_follow_def)

definition read_len :: "scull_dev \<Rightarrow> int \<Rightarrow> int \<Rightarrow> nat" where
  "read_len dev count f =
     min (nat (min count (dev_size dev - f))) (nat (quantum dev) - nat f mod nat (quantum dev))"

definition read_ok :: "kenv \<Rightarrow> scull_dev \<Rightarrow> int \<Rightarrow> int \<Rightarrow> scull_dev \<times> int \<times> cell list outcome \<Rightarrow> bool" where
  "read_ok env dev count f res \<longleftrightarrow> (case res of (dev', f', r) \<Rightarrow>
     scull_wf dev' \<and> quantum dev' = quantum dev \<and> qset dev' = qset dev \<and>
     dev_size dev' = dev_size dev \<and> blocks dev' = blocks dev \<and>
     (let q = nat (quantum dev); n = read_len dev count f in
      if signal env then f' = f \<and> r = Fail ERESTARTSYS
      else if dev_size dev \<le> f then f' = f \<and> r = Ret []
      else (case blocks dev (nat f div q) of
          None \<Rightarrow> f' = f \<and> r = Ret []
        | Some blk \<Rightarrow>
            if 0 < min (uleft env) n then f' = f \<and> r = Fail EFAULT
            else f' = f + int n \<and> r = Ret (take n (drop (nat f mod q) blk)))))"

lemma read_len_code:
  fixes f :: int
  assumes wf: "scull_wf dev" and f: "0 \<le> f" "f < 2 ^ 62" and c: "0 \<le> count" "count < 2 ^ 62"
    and lt: "f < dev_size dev"
  defines "o' \<equiv> nat f mod nat (quantum dev)"
    and "count1 \<equiv> (if dev_size dev < u64 (f + count) then u64 (dev_size dev - f) else count)"
  shows "(if u64 (quantum dev - int o') < count1 then u64 (quantum dev - int o') else count1) =
      int (read_len dev count f)"
    and "read_len dev count f + o' \<le> nat (quantum dev)"
proof -
  have sz: "dev_size dev < 2 ^ 64" using wf by (simp add: scull_wf_def)
  have o': "o' < nat (quantum dev)" using q_small(1)[OF wf] by (simp add: o'_def)
  have u: "u64 (quantum dev - int o') = quantum dev - int o'" "u64 (f + count) = f + count"
    "u64 (dev_size dev - f) = dev_size dev - f"
    using q_small[OF wf] o' f c sz lt by (intro u64_id; simp)+
  have c1: "count1 = min count (dev_size dev - f)"
    unfolding count1_def u by auto
  show "(if u64 (quantum dev - int o') < count1 then u64 (quantum dev - int o') else count1) =
      int (read_len dev count f)"
  proof -
    have "int (nat (quantum dev) - o') = quantum dev - int o'" using o' by linarith
    moreover have "0 \<le> min count (dev_size dev - f)" using c lt by simp
    ultimately have "int (read_len dev count f) =
        min (min count (dev_size dev - f)) (quantum dev - int o')"
      unfolding read_len_def o'_def[symmetric] of_nat_min by (simp only: nat_0_le)
    then show ?thesis unfolding u c1 by (simp only: min_def linorder_not_le) auto
  qed
  show "read_len dev count f + o' \<le> nat (quantum dev)"
    unfolding read_len_def o'_def[symmetric] using o' by auto
qed

lemma scull_read_ok:
  assumes wf: "scull_wf dev" and f: "pos_ok dev f" and c: "0 \<le> count" "count < 2 ^ 62"
  shows "\<exists>res. scull_read env dev count f = Some res \<and> read_ok env dev count f res"
proof (cases "signal env \<or> dev_size dev \<le> f")
  case True
  have "u64 f = f" using f by (simp add: pos_ok_def)
  then show ?thesis using wf True
    by (auto simp: scull_read_def scull_read_locked_def read_ok_def Let_def)
next
  case False
  then have sig: "\<not> signal env" and lt: "f < dev_size dev" by auto
  define q s b o' where d: "q = nat (quantum dev)" "s = nat (qset dev)" "b = nat f div q" "o' = nat f mod q"
  note pp = pos_parts[OF wf f, folded d(1,2), folded d(3,4)]
  have s0: "0 < s" using wf by (auto simp: d scull_wf_def geometry_ok_def)
  have f0: "0 \<le> f" "f < 2 ^ 62" using f by (auto simp: pos_ok_def)
  have uf: "u64 f = f" using f0 by simp
  have b32: "int (b div s) < 2 ^ 32" using pp(2) by simp
  let ?n = "read_len dev count f"
  note rl = read_len_code[OF wf f0 c lt, folded d(1), folded d(4)]
  have locked: "scull_read env dev count f = scull_read_locked (quantum dev) (qset dev) env dev count f"
    using sig by (simp add: scull_read_def)
  show ?thesis
  proof (cases "blocks dev b")
    case (Some blk)
    then have i: "b div s < length (data dev)"
      by (auto simp: blocks_def Let_def d split: if_splits)
    then have nd: "node_slot (data dev ! (b div s)) (b mod s) = Some blk"
      using Some by (simp add: blocks_def Let_def d)
    then obtain arr where arr: "qdata (data dev ! (b div s)) = Some arr" "arr ! (b mod s) = Some blk"
      by (auto simp: node_slot_def split: option.splits)
    moreover have "length arr = s"
      using wf i arr(1) by (auto simp: scull_wf_def qset_ok_def d dest!: nth_mem)
    ultimately have sl: "slot arr (int (b mod s)) = Some (Some blk)"
      using s0 by (simp add: slot_def)
    have lb: "length blk = q" using blocks_length[OF wf Some] by (simp add: d)
    have bound: "(int o' < 0 \<or> int (length blk) < int o' + int ?n) = False"
      using rl(2) lb by simp
    have n31: "int ?n < 2 ^ 31"
    proof -
      have "int ?n \<le> quantum dev" using rl(2) q_small[OF wf] by (simp add: d)
      then show ?thesis using q_small[OF wf] by linarith
    qed
    have f': "s64 (f + int ?n) = f + int ?n"
      using f0 n31 by (simp del: of_nat_less_iff)
    have nle: "\<not> dev_size dev \<le> f" using lt by simp
    have "scull_read env dev count f =
        Some (if 0 < min (uleft env) ?n then (dev, f, Fail EFAULT)
              else (dev, f + int ?n, Ret (take ?n (drop o' blk))))"
      unfolding locked scull_read_locked_def uf
      by (simp only: Let_def if_not_P[OF nle] pp(1) Option.bind.simps(2) prod.case
          scull_follow_found[OF i b32] option.case arr(1) sl rl(1) bound f' if_False nat_int if_distrib[of Some])
    then show ?thesis using wf sig Some nle
      by (simp add: read_ok_def Let_def flip: d)
  next
    case None
    obtain r1 dev1 a1 where fo: "scull_follow dev (int (b div s)) (allocs env) = (r1, dev1, a1)"
      by (metis prod_cases3)
    from scull_follow_ok[OF fo _ b32] obtain m where
      m: "dev1 = dev\<lparr>data := data dev @ replicate m empty_qset\<rparr>"
      "\<forall>k. r1 = Some k \<longrightarrow> k = b div s \<and> k < length (data dev1)" by auto
    have dev1: "scull_wf dev1" "blocks dev1 = blocks dev" "quantum dev1 = quantum dev"
      "qset dev1 = qset dev" "dev_size dev1 = dev_size dev"
      using wf_extend[OF wf] by (simp_all add: m(1) blocks_extend)
    have "scull_read env dev count f = Some (dev1, f, Ret [])"
    proof (cases r1)
      case None
      then show ?thesis using lt fo
        by (simp add: locked scull_read_locked_def uf pp Let_def)
    next
      case (Some i)
      then have i: "i = b div s" "i < length (data dev1)" using m(2) by auto
      have nd: "node_slot (data dev1 ! i) (b mod s) = None"
      proof -
        have "blocks dev1 b = None" using None dev1(2) by simp
        then show ?thesis using i by (simp add: blocks_def Let_def dev1(4) flip: d)
      qed
      show ?thesis
      proof (cases "qdata (data dev1 ! i)")
        case None
        then show ?thesis using lt fo Some
          by (simp add: locked scull_read_locked_def uf pp Let_def)
      next
        case arr: (Some arr)
        have "length arr = s"
          using dev1(1,4) i(2) arr by (auto simp: scull_wf_def qset_ok_def d dest!: nth_mem)
        then have "slot arr (int (b mod s)) = Some None"
          using s0 nd arr by (simp add: slot_def node_slot_def)
        then show ?thesis using lt fo Some arr
          by (simp add: locked scull_read_locked_def uf pp Let_def)
      qed
    qed
    then show ?thesis using dev1 None sig lt
      by (simp add: read_ok_def Let_def flip: d)
  qed
qed

subsection \<open>Cells and files\<close>

lemma same_base:
  "p = (X :: nat) + x \<Longrightarrow> F = X + y \<Longrightarrow>
    (y \<le> x \<longleftrightarrow> F \<le> p) \<and> (x < y + n \<longleftrightarrow> p < F + n) \<and> x - y = p - F"
  by auto

lemma scull_at_store:
  assumes wf: "scull_wf dev" and bl: "blocks dev' = store_block (F div q) (F mod q) new dev"
    and q: "quantum dev' = quantum dev" "q = nat (quantum dev)" and n: "length new + F mod q \<le> q"
  shows "scull_at dev' p =
    (if F \<le> p \<and> p < F + length new then Some (new ! (p - F))
     else if p div q = F div q then Some (case scull_at dev p of None \<Rightarrow> None | Some c \<Rightarrow> c)
     else scull_at dev p)"
proof (cases "p div q = F div q")
  case False
  have out: "\<not> (F \<le> p \<and> p < F + length new)"
  proof
    assume a: "F \<le> p \<and> p < F + length new"
    have "p < (F div q) * q + q" using a n div_mult_mod_eq[of F q] by linarith
    moreover have "(F div q) * q \<le> p" using a div_mult_mod_eq[of F q] by linarith
    ultimately have "p div q = F div q" by (intro div_nat_eqI) (auto simp: mult.commute)
    with False show False by simp
  qed
  show ?thesis unfolding if_not_P[OF out] using False
    by (simp add: scull_at_def bl store_block_def q(1) flip: q(2))
next
  case True
  let ?b = "F div q"
  have pq: "p = ?b * q + p mod q" "F = ?b * q + F mod q"
    using True div_mult_mod_eq[of p q] div_mult_mod_eq[of F q] by simp_all
  have q0: "0 < q" using q_small(1)[OF wf] q(2) by simp
  have len: "length (quantum_for dev ?b) = q" using length_quantum_for[OF wf] q(2) by simp
  have "scull_at dev' p = Some (mem_write (F mod q) new (quantum_for dev ?b) ! (p mod q))"
    using True by (simp add: scull_at_def bl store_block_def q(1) flip: q(2))
  also have "\<dots> = Some (if F mod q \<le> p mod q \<and> p mod q < F mod q + length new
      then new ! (p mod q - F mod q) else quantum_for dev ?b ! (p mod q))"
    using n len q0 by (subst nth_mem_write) auto
  also have "\<dots> = Some (if F \<le> p \<and> p < F + length new then new ! (p - F)
      else quantum_for dev ?b ! (p mod q))"
  proof -
    have "F mod q \<le> p mod q \<longleftrightarrow> F \<le> p" "p mod q < F mod q + length new \<longleftrightarrow> p < F + length new"
      "p mod q - F mod q = p - F"
      using same_base[OF pq, of "length new"] by blast+
    then show ?thesis by (simp only:)
  qed
  also have "quantum_for dev ?b ! (p mod q) = (case scull_at dev p of None \<Rightarrow> None | Some c \<Rightarrow> c)"
    using True q0 by (simp add: quantum_for_def scull_at_def fresh_quantum_def flip: q(2) split: option.split)
  finally show ?thesis using True by simp
qed

text \<open>Devices without holes: every byte below the size has been written.\<close>

definition scull_dense :: "scull_dev \<Rightarrow> bool" where
  "scull_dense dev \<longleftrightarrow> (\<forall>p < nat (dev_size dev). \<exists>b. scull_at dev p = Some (Some b))"

definition scull_content :: "scull_dev \<Rightarrow> byte list" where
  "scull_content dev = map (\<lambda>p. the (the (scull_at dev p))) [0..<nat (dev_size dev)]"

lemma length_scull_content [simp]: "length (scull_content dev) = nat (dev_size dev)"
  by (simp add: scull_content_def)

lemma scull_content_nth: "p < nat (dev_size dev) \<Longrightarrow> scull_content dev ! p = the (the (scull_at dev p))"
  by (simp add: scull_content_def)

lemma nth_overwrite:
  assumes "off \<le> length xs" "i < max (length xs) (off + length new)"
  shows "mem_write off new xs ! i = (if off \<le> i \<and> i < off + length new then new ! (i - off) else xs ! i)"
proof -
  consider "i < off" | "off \<le> i" "i < off + length new" | "off + length new \<le> i" by linarith
  then show ?thesis
    by cases (use assms in \<open>auto simp: mem_write_def nth_append max_def min_def split: if_splits\<close>)
qed

lemma length_overwrite: "off \<le> length xs \<Longrightarrow> length (mem_write off new xs) = max (length xs) (off + length new)"
  by (auto simp: mem_write_def max_def min_def)

lemma write_file:
  assumes wf: "scull_wf dev" and dense: "scull_dense dev"
    and f: "0 \<le> f" "f \<le> dev_size dev"
    and res: "write_ok env dev src f (dev', f', Ret v)"
  shows "scull_dense dev' \<and>
    scull_content dev' = mem_write (nat f) (take (write_len dev src f) src) (scull_content dev)"
proof -
  define q F new where d: "q = nat (quantum dev)" "F = nat f" "new = take (write_len dev src f) src"
  have ln: "length new = write_len dev src f" by (simp add: d write_len_def)
  have w: "quantum dev' = quantum dev" "dev_size dev' = max (dev_size dev) (f + int (length new))"
    "blocks dev' = store_block (F div q) (F mod q) (map Some new) dev"
    using res ln by (simp_all add: write_ok_def d Let_def)
  have "length (map Some new) + F mod q \<le> q"
    using write_len_code(2)[OF wf, of src f] ln by (simp add: d)
  note at = scull_at_store[OF wf w(3,1) d(1) this]
  have sz: "nat (dev_size dev') = max (nat (dev_size dev)) (F + length new)" "F \<le> nat (dev_size dev)"
    using f w(2) by (auto simp: d)
  have cell: "scull_at dev' p = Some (Some (mem_write F new (scull_content dev) ! p))"
    if p: "p < nat (dev_size dev')" for p
  proof -
    have m: "mem_write F new (scull_content dev) ! p =
        (if F \<le> p \<and> p < F + length new then new ! (p - F) else scull_content dev ! p)"
      using p sz by (intro nth_overwrite) auto
    show ?thesis
    proof (cases "F \<le> p \<and> p < F + length new")
      case True
      then show ?thesis by (auto simp: at m nth_map)
    next
      case False
      then have pd: "p < nat (dev_size dev)" using p sz by auto
      then obtain c where "scull_at dev p = Some (Some c)" using dense by (auto simp: scull_dense_def)
      then show ?thesis using False pd by (auto simp: at m scull_content_nth)
    qed
  qed
  have "scull_content dev' = mem_write F new (scull_content dev)"
    using sz cell by (intro nth_equalityI) (auto simp: length_overwrite scull_content_nth)
  then show ?thesis using cell by (auto simp: scull_dense_def d)
qed

text \<open>What a read delivers, cell by cell.\<close>

lemma read_block_cells:
  assumes wf: "scull_wf dev" and b: "blocks dev (F div q) = Some blk" and q: "q = nat (quantum dev)"
    and n: "n + F mod q \<le> q" and i: "i < n"
  shows "scull_at dev (F + i) = Some (take n (drop (F mod q) blk) ! i)"
proof -
  have len: "length blk = q" using blocks_length[OF wf b] q by simp
  have F: "F + i = F div q * q + (F mod q + i)" using div_mult_mod_eq[of F q] by linarith
  have lt: "F mod q + i < q" using n i by linarith
  have "F div q * q \<le> F + i" "F + i < F div q * q + q" using F lt by linarith+
  then have dv: "(F + i) div q = F div q"
    by (intro div_nat_eqI) (simp_all add: mult.commute)
  moreover have "(F + i) mod q = F mod q + i"
    using div_mult_mod_eq[of "F + i" q] F unfolding dv by linarith
  ultimately show ?thesis using b i n len by (simp add: scull_at_def flip: q)
qed

text \<open>A reader's view of the device, when no signal, fault or allocation interferes.\<close>

definition quiet_env :: kenv where
  "quiet_env = \<lparr>signal = False, allocs = [], uleft = 0\<rparr>"

definition scull_answer :: "scull_dev \<Rightarrow> nat \<Rightarrow> nat \<Rightarrow> byte list" where
  "scull_answer dev pos n = (case scull_read quiet_env dev (int n) (int pos) of
     Some (_, _, Ret bs) \<Rightarrow> map the bs | _ \<Rightarrow> [])"

definition scull_file :: "scull_dev \<Rightarrow> bool" where
  "scull_file dev \<longleftrightarrow> scull_wf dev \<and> scull_dense dev \<and>
     dev_size dev < 2 ^ 31 * (quantum dev * qset dev) \<and> dev_size dev < 2 ^ 62"

lemma scull_answer_ok:
  assumes sf: "scull_file dev" and n: "int n < 2 ^ 62" and p: "pos < length (scull_content dev)"
  shows "scull_answer dev pos n =
    take (read_len dev (int n) (int pos)) (drop pos (scull_content dev))"
proof -
  define q where q: "q = nat (quantum dev)"
  let ?n = "read_len dev (int n) (int pos)"
  have wf: "scull_wf dev" using sf by (simp add: scull_file_def)
  have lt: "int pos < dev_size dev" using p by auto
  then have f: "pos_ok dev (int pos)" using sf by (auto simp: pos_ok_def scull_file_def)
  then have f62: "int pos < 2 ^ 62" by (simp add: pos_ok_def)
  note rl = read_len_code(2)[OF wf _ f62 _ n lt, simplified]
  obtain c where "scull_at dev pos = Some c"
    using sf p by (auto simp: scull_file_def scull_dense_def)
  then obtain blk where blk: "blocks dev (pos div q) = Some blk"
    by (auto simp: scull_at_def q)
  obtain dev' f' r where r: "scull_read quiet_env dev (int n) (int pos) = Some (dev', f', r)"
    "read_ok quiet_env dev (int n) (int pos) (dev', f', r)"
    using scull_read_ok[OF wf f _ n, of quiet_env] by (metis of_nat_0_le_iff prod_cases3)
  then have rr: "r = Ret (take ?n (drop (pos mod q) blk))"
    using lt blk by (auto simp: read_ok_def quiet_env_def Let_def q)
  have len: "length blk = q" using blocks_length[OF wf blk] by (simp add: q)
  have nq: "?n + pos mod q \<le> q" using rl by (simp add: q)
  have nl: "?n \<le> length (scull_content dev) - pos" by (auto simp: read_len_def)
  have "map the (take ?n (drop (pos mod q) blk)) = take ?n (drop pos (scull_content dev))"
  proof (rule nth_equalityI)
    show "length (map the (take ?n (drop (pos mod q) blk))) = length (take ?n (drop pos (scull_content dev)))"
      using nq nl len by simp
    fix i assume "i < length (map the (take ?n (drop (pos mod q) blk)))"
    then have i: "i < ?n" by simp
    then have pi: "pos + i < nat (dev_size dev)" using nl by simp
    have "scull_at dev (pos + i) = Some (take ?n (drop (pos mod q) blk) ! i)"
      by (rule read_block_cells[OF wf blk q nq i])
    then show "map the (take ?n (drop (pos mod q) blk)) ! i = take ?n (drop pos (scull_content dev)) ! i"
      using i nq nl len pi by (simp add: scull_content_nth)
  qed
  then show ?thesis by (simp add: scull_answer_def r(1) rr)
qed

lemma read_len_le: "read_len dev (int n) f \<le> n"
proof -
  have "nat (min (int n) (dev_size dev - f)) \<le> n" by linarith
  then show ?thesis unfolding read_len_def by (rule min.coboundedI1)
qed

lemma read_len_pos:
  assumes "scull_wf dev" "0 < n" "int pos < dev_size dev"
  shows "0 < read_len dev (int n) (int pos)"
  using assms q_small[OF assms(1)] by (simp add: read_len_def)

text \<open>Chunks up to \<open>chunk_max\<close>, the limit of the kernel for one read.\<close>

definition chunk_max :: nat where "chunk_max = 0x7ffff000"

interpretation scull_rd: read_device "\<lambda>dev pos n. scull_answer dev pos (min n chunk_max)"
  scull_file scull_content
proof
  fix dev :: scull_dev and pos n :: nat
  assume dev: "scull_file dev"
  have m: "int (min n chunk_max) < 2 ^ 62" by (simp add: chunk_max_def min_def)
  show "\<exists>k\<le>n. scull_answer dev pos (min n chunk_max) = take k (drop pos (scull_content dev))"
    if le: "pos \<le> length (scull_content dev)"
  proof (cases "pos = length (scull_content dev)")
    case True
    have wf: "scull_wf dev" using dev by (simp add: scull_file_def)
    then have sz: "int pos = dev_size dev" using True by (simp add: scull_wf_def)
    then have "pos_ok dev (int pos)" using dev by (auto simp: pos_ok_def scull_file_def)
    from scull_read_ok[OF wf this _ m, of quiet_env] sz have "scull_answer dev pos (min n chunk_max) = []"
      by (auto simp: scull_answer_def read_ok_def quiet_env_def Let_def)
    then show ?thesis by (intro exI[of _ 0]) simp
  next
    case False
    have "read_len dev (int (min n chunk_max)) (int pos) \<le> n"
      using read_len_le[of dev "min n chunk_max" "int pos"] by simp
    with scull_answer_ok[OF dev m] False le show ?thesis by auto
  qed
  show "scull_answer dev pos (min n chunk_max) \<noteq> []"
    if "0 < n" "pos < length (scull_content dev)"
  proof -
    have "0 < read_len dev (int (min n chunk_max)) (int pos)"
      using dev that by (intro read_len_pos) (auto simp: scull_file_def chunk_max_def)
    then show ?thesis using scull_answer_ok[OF dev m that(2)] that by simp
  qed
qed

subsection \<open>Trimming, opening and showing\<close>

lemma free_list_ok: "(\<forall>n \<in> set l. qset_ok q qs n) \<Longrightarrow> scull_free_list qs l = Some ()"
  by (induction l) (auto simp: scull_free_item_def qset_ok_def split: option.splits)

lemma scull_trim_ok:
  assumes "scull_wf dev"
  shows "scull_trim p dev = Some (dev\<lparr>data := [], dev_size := 0, quantum := scull_quantum p,
    qset := scull_qset p\<rparr>)"
  using assms by (auto simp: scull_trim_def scull_wf_def free_list_ok)

lemma scull_trim_file:
  assumes "geometry_ok (scull_quantum p) (scull_qset p)" "scull_wf dev"
  shows "\<exists>dev'. scull_trim p dev = Some dev' \<and> scull_file dev' \<and> scull_content dev' = []"
proof -
  have "0 < scull_quantum p * scull_qset p" using assms(1) by (simp add: geometry_ok_def)
  then show ?thesis using assms
    by (auto simp: scull_trim_ok scull_file_def scull_wf_def scull_dense_def scull_content_def)
qed

lemma show_items_ok: "(\<forall>n \<in> set l. qset_ok q qs n) \<Longrightarrow> \<exists>ls. scull_show_items qs m k l = Some ls"
proof (induction l arbitrary: k)
  case (Cons n l)
  then obtain ls where "scull_show_items qs m (Suc k) l = Some ls" by auto
  moreover have "\<exists>ls. scull_show_item qs m k n = Some ls"
    using Cons.prems by (auto simp: scull_show_item_def qset_ok_def split: option.splits)
  ultimately show ?case by auto
qed simp

end
