(* ===== verification/Scull_Props.thy ===== *)
theory Scull_Props
  imports Scull_Correct
begin

section \<open>Properties of the scull device\<close>

text \<open>
  The properties of the operations of \<open>Scull\<close>, over the block map and the file view of
  \<open>Scull_Correct\<close>, with their instances on concrete devices.
\<close>

subsection \<open>Concrete devices\<close>

definition small_params :: scull_params where
  "small_params = \<lparr>scull_quantum = 4, scull_qset = 2, scull_p_buffer = 16\<rparr>"

definition small_dev :: scull_dev where
  "small_dev = \<lparr>data = [], quantum = 4, qset = 2, dev_size = 0, access_key = 0\<rparr>"

definition rich_env :: kenv where
  "rich_env = \<lparr>signal = False, allocs = replicate 20 True, uleft = 0\<rparr>"

text \<open>Bytes 1, 2, 3 at position 0, and bytes 4, 5 at position 3 of which one fits the quantum.\<close>

definition small_dev1 :: scull_dev where
  "small_dev1 = (case scull_write rich_env small_dev [1, 2, 3] 0 of Some (d, _) \<Rightarrow> d | None \<Rightarrow> small_dev)"

lemma small_dev_wf: "scull_wf small_dev" "scull_file small_dev" "scull_content small_dev = []"
  by (auto simp: small_dev_def scull_wf_def geometry_ok_def scull_file_def scull_dense_def
      scull_content_def)

lemma small_dev1_eq: "small_dev1 =
    \<lparr>data = [\<lparr>qdata = Some [Some [Some 1, Some 2, Some 3, None], None]\<rparr>], quantum = 4, qset = 2,
     dev_size = 3, access_key = 0\<rparr>"
  by code_simp

lemma small_dev1_wf: "scull_wf small_dev1"
  by (auto simp: small_dev1_eq scull_wf_def geometry_ok_def qset_ok_def)

lemma small_dev1_write: "scull_write rich_env small_dev [1, 2, 3] 0 = Some (small_dev1, 3, Ret 3)"
  by code_simp

lemma small_dev1_file: "scull_file small_dev1" "scull_content small_dev1 = [1, 2, 3]"
proof -
  have "scull_write rich_env small_dev [1, 2, 3] 0 = Some (small_dev1, 3, Ret 3)"
    by (rule small_dev1_write)
  moreover have "pos_ok small_dev 0" by (simp add: pos_ok_def small_dev_def)
  ultimately have w: "write_ok rich_env small_dev [1, 2, 3] 0 (small_dev1, 3, Ret 3)"
    using scull_write_ok[OF small_dev_wf(1), of 0 rich_env "[1, 2, 3]"] by auto
  have l: "write_len small_dev [1, 2, 3] 0 = 3" by (simp add: write_len_def small_dev_def)
  have "scull_dense small_dev1 \<and> scull_content small_dev1 =
      mem_write (nat 0) (take (write_len small_dev [1, 2, 3] 0) [1, 2, 3]) (scull_content small_dev)"
    by (rule write_file[OF small_dev_wf(1) _ _ _ w]) (use small_dev_wf in \<open>auto simp: scull_file_def small_dev_def\<close>)
  then show "scull_file small_dev1" "scull_content small_dev1 = [1, 2, 3]"
    using small_dev1_wf by (simp_all add: scull_file_def l small_dev_wf mem_write_def) (simp_all add: small_dev1_eq)
qed

subsection \<open>Writing and reading\<close>

text \<open>C13. A write to a well-formed device at any valid position stays inside the arrays and
  quanta, whatever the allocator, signals and user faults do, and keeps the device
  well-formed. When it succeeds it stores exactly the bytes that fit the quantum of the
  position, moves position and size, and changes nothing else; when it fails, size,
  position and (but for a partial copy after -EFAULT) the stored bytes are unchanged.\<close>

theorem scull_write_correct:
  assumes "scull_wf dev" "pos_ok dev f"
  shows "\<exists>res. scull_write env dev src f = Some res \<and> write_ok env dev src f res"
  using assms by (rule scull_write_ok)

theorem scull_write_correct_witness:
  "write_ok rich_env small_dev [1, 2, 3] 0 (small_dev1, 3, Ret 3)"
proof -
  have "pos_ok small_dev 0" by (simp add: pos_ok_def small_dev_def)
  from scull_write_correct[OF small_dev_wf(1) this, of rich_env "[1, 2, 3]"]
  show ?thesis by (simp add: small_dev1_write)
qed

text \<open>A device without holes is a file: a successful write at a position up to the end
  overwrites or extends its contents at that position, and no hole appears.\<close>

lemma scull_write_is_file_write:
  assumes "scull_file dev" "pos_ok dev f" "f \<le> dev_size dev"
    and "scull_write env dev src f = Some (dev', f', Ret v)"
  shows "scull_dense dev' \<and> f' = f + v \<and> v = int (write_len dev src f) \<and>
    scull_content dev' = mem_write (nat f) (take (nat v) src) (scull_content dev)"
proof -
  have wf: "scull_wf dev" "scull_dense dev" using assms(1) by (simp_all add: scull_file_def)
  have w: "write_ok env dev src f (dev', f', Ret v)"
    using scull_write_ok[OF wf(1) assms(2), of env src] assms(4) by simp
  then have "v = int (write_len dev src f)" "f' = f + v" by (simp_all add: write_ok_def Let_def)
  with write_file[OF wf _ assms(3) w] assms(2) show ?thesis by (simp add: pos_ok_def)
qed

lemma scull_write_is_file_write_example:
  "\<exists>dev'. scull_write rich_env small_dev1 [9, 8, 7] 2 = Some (dev', 4, Ret 2) \<and>
    scull_content dev' = [1, 2, 9, 8]"
proof -
  have "scull_write rich_env small_dev1 [9, 8, 7] 2 =
    Some (\<lparr>data = [\<lparr>qdata = Some [Some [Some 1, Some 2, Some 9, Some 8], None]\<rparr>], quantum = 4,
      qset = 2, dev_size = 4, access_key = 0\<rparr>, 4, Ret 2)"
    unfolding small_dev1_eq by code_simp
  then obtain d' where e: "scull_write rich_env small_dev1 [9, 8, 7] 2 = Some (d', 4, Ret 2)" by blast
  have "pos_ok small_dev1 2" "2 \<le> dev_size small_dev1" by (simp_all add: pos_ok_def small_dev1_eq)
  from scull_write_is_file_write[OF small_dev1_file(1) this e] e show ?thesis
    by (simp add: small_dev1_file mem_write_def)
qed

text \<open>C14. A read never leaves the list, the array or the quantum. It returns the bytes of the
  quantum of the position up to its end, the end of the device and the count; nothing at
  the end of the device or in a hole; and it changes neither the contents nor the size.\<close>

theorem scull_read_correct:
  assumes "scull_wf dev" "pos_ok dev f" "0 \<le> count" "count < 2 ^ 62"
  shows "\<exists>res. scull_read env dev count f = Some res \<and> read_ok env dev count f res"
  using assms by (rule scull_read_ok)

theorem scull_read_correct_witness:
  "\<exists>dev'. scull_read rich_env small_dev1 5 1 = Some (dev', 3, Ret [Some 2, Some 3])"
proof -
  have "pos_ok small_dev1 1" by (simp add: pos_ok_def small_dev1_eq)
  from scull_read_correct[OF small_dev1_wf this, of 5 rich_env] obtain res where
    r: "scull_read rich_env small_dev1 5 1 = Some res" "read_ok rich_env small_dev1 5 1 res" by auto
  moreover have "blocks small_dev1 0 = Some [Some 1, Some 2, Some 3, None]"
    by (simp add: blocks_def small_dev1_eq node_slot_def)
  ultimately show ?thesis
    by (cases res) (simp add: read_ok_def Let_def rich_env_def read_len_def small_dev1_eq)
qed

text \<open>Appending: a successful write at the end of the device, labelled with the stored bytes.\<close>

inductive scull_append :: "scull_dev \<Rightarrow> byte list \<Rightarrow> scull_dev \<Rightarrow> bool" where
  scull_append: "pos_ok dev (dev_size dev) \<Longrightarrow>
    scull_write env dev src (dev_size dev) = Some (dev', f', Ret v) \<Longrightarrow>
    scull_append dev (take (nat v) src) dev'"

inductive_cases scull_appendE: "scull_append dev chunk dev'"

definition scull_holds :: "scull_dev \<Rightarrow> byte list \<Rightarrow> bool" where
  "scull_holds dev bs \<longleftrightarrow> scull_wf dev \<and> scull_dense dev \<and> scull_content dev = bs"

interpretation scull: simulation scull_append "\<lambda>chunk bs. bs @ chunk" scull_holds
proof
  fix dev bs chunk dev'
  assume rep: "scull_holds dev bs" and st: "scull_append dev chunk dev'"
  obtain env src f' v where s: "pos_ok dev (dev_size dev)"
    "scull_write env dev src (dev_size dev) = Some (dev', f', Ret v)" "chunk = take (nat v) src"
    using st by (auto elim: scull_appendE)
  have wf: "scull_wf dev" "scull_dense dev" "scull_content dev = bs"
    using rep by (simp_all add: scull_holds_def)
  have w: "write_ok env dev src (dev_size dev) (dev', f', Ret v)"
    using scull_write_ok[OF wf(1) s(1), of env src] s(2) by simp
  have "0 \<le> dev_size dev" using wf(1) by (simp add: scull_wf_def)
  from write_file[OF wf(1,2) this order_refl w] w show "scull_holds dev' (bs @ chunk)"
    using wf(3) length_scull_content[of dev]
    by (simp add: scull_holds_def s(3) write_ok_def Let_def mem_write_def)
qed

lemma fold_append: "fold (\<lambda>chunk bs. bs @ chunk) cs bs = bs @ concat cs"
  by (induction cs arbitrary: bs) auto

text \<open>C15. Round trip: after any number of writes at the end of an emptied device, reading it
  from the start in chunks of any size returns exactly the bytes that were accepted.\<close>

theorem scull_round_trip:
  assumes "geometry_ok (scull_quantum p) (scull_qset p)" "scull_wf dev"
    and "scull_trim p dev = Some dev0" "run scull_append dev0 chunks u" "scull_file u"
    and "0 < n" "length (concat chunks) < fuel"
  shows "read_all (\<lambda>pos n. scull_answer u pos (min n chunk_max)) fuel 0 n = Some (concat chunks)"
proof -
  have "scull_holds dev0 []"
    using scull_trim_file[OF assms(1,2)] assms(3) by (auto simp: scull_holds_def scull_file_def)
  from scull.sim_run[OF assms(4) this] have "scull_content u = concat chunks"
    by (simp add: scull_holds_def fold_append)
  with scull_rd.read_all_content[OF assms(5,6), of 0 fuel] assms(7) show ?thesis by simp
qed

theorem scull_round_trip_witness:
  "read_all (\<lambda>pos n. scull_answer small_dev1 pos (min n chunk_max)) 9 0 2 = Some [1, 2, 3]"
proof -
  have "pos_ok small_dev (dev_size small_dev)" "dev_size small_dev = 0"
    by (simp_all add: pos_ok_def small_dev_def)
  then have "scull_append small_dev (take (nat 3) [1, 2, 3]) small_dev1"
    using small_dev1_write by (intro scull_append) auto
  then have "run scull_append small_dev [[1, 2, 3]] small_dev1"
    by (auto intro: run.intros)
  moreover have "scull_trim small_params small_dev = Some small_dev"
    using scull_trim_ok[OF small_dev_wf(1)] by (simp add: small_params_def small_dev_def)
  moreover have "geometry_ok (scull_quantum small_params) (scull_qset small_params)"
    by (simp add: geometry_ok_def small_params_def)
  ultimately show ?thesis
    using scull_round_trip[OF _ small_dev_wf(1), of small_params small_dev "[[1, 2, 3]]" small_dev1 2 9]
      small_dev1_file by simp
qed

subsection \<open>Trimming, opening, seeking\<close>

text \<open>Opening for writing only empties a well-formed device without an out-of-bounds
  access and takes over the module's current parameters; any other open and an interrupted
  one leave it as it is.\<close>

lemma scull_open_correct:
  assumes "scull_wf dev"
  shows "scull_open intr p mode dev =
    (if mode = O_WRONLY \<and> intr then Some (dev, Fail ERESTARTSYS)
     else if mode = O_WRONLY then
       Some (dev\<lparr>data := [], dev_size := 0, quantum := scull_quantum p, qset := scull_qset p\<rparr>, Ret 0)
     else Some (dev, Ret 0))"
  using scull_trim_ok[OF assms] by (simp add: scull_open_def)

lemma scull_open_correct_example:
  "scull_open False small_params O_WRONLY small_dev1 = Some (small_dev, Ret 0)"
  using scull_open_correct[OF small_dev1_wf, of False small_params O_WRONLY]
  by (simp add: small_params_def small_dev_def small_dev1_eq)

text \<open>Showing a well-formed device in the proc file never reads outside an array.\<close>

lemma scull_seq_show_safe:
  assumes "scull_wf dev"
  shows "scull_seq_show intr i dev \<noteq> None"
  using show_items_ok[of "data dev" "quantum dev" "qset dev" "length (data dev)" 0] assms
  by (auto simp: scull_seq_show_def scull_wf_def)

lemma scull_seq_show_safe_example:
  "scull_seq_show False 0 small_dev1 \<noteq> None"
  by (rule scull_seq_show_safe[OF small_dev1_wf])

subsection \<open>The parameters\<close>

text \<open>Without CAP_SYS_ADMIN no ioctl changes quantum or quantum set size, except the
  reset to the compiled-in values.\<close>

lemma scull_ioctl_privilege:
  assumes "\<not> capable u"
  shows "case scull_ioctl cmd u p of (p', out, r) \<Rightarrow>
    (scull_quantum p', scull_qset p') = (scull_quantum p, scull_qset p) \<or>
    cmd = SCULL_IOCRESET \<and> (scull_quantum p', scull_qset p') = (SCULL_QUANTUM, SCULL_QSET)"
proof -
  note d = ioctl_set_def ioctl_tell_def ioctl_get_def ioctl_query_def ioctl_exchange_def
    ioctl_shift_def put_user_def
  show ?thesis
    unfolding scull_ioctl_def d using assms by (simp add: split_def)
qed

definition plain_user :: ioctl_user where
  "plain_user = \<lparr>arg = 5, access_ok = True, capable = False, user_int = Some 5, put_ok = True\<rparr>"

lemma scull_ioctl_privilege_example:
  "case scull_ioctl SCULL_IOCTQUANTUM plain_user small_params of (p', out, r) \<Rightarrow>
    (scull_quantum p', scull_qset p') = (scull_quantum small_params, scull_qset small_params) \<or>
    SCULL_IOCTQUANTUM = SCULL_IOCRESET \<and> (scull_quantum p', scull_qset p') = (SCULL_QUANTUM, SCULL_QSET)"
  by (rule scull_ioctl_privilege) (simp add: plain_user_def)

text \<open>C16. The ioctl operations on the quantum fulfil their contracts for a privileged caller:
  set, tell and shift store the value, exchange and shift hand back the old one, get and
  query report it, and a set followed by a query returns what was set.\<close>

theorem scull_ioctl_contract:
  assumes "capable u" "access_ok u" "user_int u = Some v" "put_ok u"
    and "- (2 ^ 31) \<le> v" "v < 2 ^ 31" "- (2 ^ 31) \<le> arg u" "arg u < 2 ^ 31"
  shows "scull_ioctl SCULL_IOCSQUANTUM u p = (p\<lparr>scull_quantum := v\<rparr>, None, Ret 0) \<and>
    scull_ioctl SCULL_IOCTQUANTUM u p = (p\<lparr>scull_quantum := arg u\<rparr>, None, Ret 0) \<and>
    scull_ioctl SCULL_IOCGQUANTUM u p = (p, Some (scull_quantum p), Ret 0) \<and>
    scull_ioctl SCULL_IOCQQUANTUM u p = (p, None, Ret (scull_quantum p)) \<and>
    scull_ioctl SCULL_IOCXQUANTUM u p = (p\<lparr>scull_quantum := v\<rparr>, Some (scull_quantum p), Ret 0) \<and>
    scull_ioctl SCULL_IOCHQUANTUM u p = (p\<lparr>scull_quantum := arg u\<rparr>, None, Ret (scull_quantum p)) \<and>
    scull_ioctl SCULL_IOCQQUANTUM u (fst (scull_ioctl SCULL_IOCSQUANTUM u p)) =
      (p\<lparr>scull_quantum := v\<rparr>, None, Ret v)"
proof -
  note d = ioctl_set_def ioctl_tell_def ioctl_get_def ioctl_query_def ioctl_exchange_def
    ioctl_shift_def put_user_def get_user_def
  show ?thesis
    using assms by (simp add: scull_ioctl_def scull_cmds ioc_defs d)
qed

definition admin_user :: ioctl_user where
  "admin_user = \<lparr>arg = 5, access_ok = True, capable = True, user_int = Some 6, put_ok = True\<rparr>"

theorem scull_ioctl_contract_witness:
  "scull_ioctl SCULL_IOCXQUANTUM admin_user small_params =
    (small_params\<lparr>scull_quantum := 6\<rparr>, Some 4, Ret 0)"
  using scull_ioctl_contract[of admin_user 6 small_params]
  by (simp add: admin_user_def small_params_def)

text \<open>C17. A set of the quantum whose user pointer faults returns -EFAULT but has already
  stored 0; a device that is then opened for writing takes this over, and the next write
  to it divides by zero.\<close>

theorem scull_ioctl_fault_breaks_device:
  assumes "capable u" "access_ok u" "user_int u = None" "scull_wf dev" "\<not> signal env"
  shows "\<exists>p' dev'. scull_ioctl SCULL_IOCSQUANTUM u p = (p', None, Fail EFAULT) \<and>
    scull_quantum p' = 0 \<and> scull_open False p' O_WRONLY dev = Some (dev', Ret 0) \<and>
    scull_write env dev' src f = None"
proof -
  let ?p' = "p\<lparr>scull_quantum := 0\<rparr>"
  let ?d = "dev\<lparr>data := [], dev_size := 0, quantum := 0, qset := scull_qset p\<rparr>"
  have "scull_ioctl SCULL_IOCSQUANTUM u p = (?p', None, Fail EFAULT)"
    using assms(1-3) by (simp add: scull_ioctl_def scull_cmds ioc_defs ioctl_set_def get_user_def)
  moreover have "scull_open False ?p' O_WRONLY dev = Some (?d, Ret 0)"
    using scull_trim_ok[OF assms(4), of ?p'] by (simp add: scull_open_def)
  moreover have "scull_write env ?d src f = None"
    using assms(5) by (simp add: scull_write_def scull_write_locked_def scull_find_def s32_def)
  ultimately show ?thesis by (intro exI[of _ ?p'] exI[of _ ?d]) simp
qed

theorem scull_ioctl_fault_breaks_device_witness:
  "\<exists>p' dev'. scull_ioctl SCULL_IOCSQUANTUM (admin_user\<lparr>user_int := None\<rparr>) small_params =
      (p', None, Fail EFAULT) \<and> scull_quantum p' = 0 \<and>
    scull_open False p' O_WRONLY small_dev1 = Some (dev', Ret 0) \<and>
    scull_write rich_env dev' [1] 0 = None"
  by (rule scull_ioctl_fault_breaks_device) (simp_all add: admin_user_def small_dev1_wf rich_env_def)

text \<open>A quantum is not cleared when it is allocated: after one byte is written at offset 2
  of an empty device, a read from the start delivers two bytes of memory nobody wrote.\<close>

lemma scull_reads_uninitialised:
  "\<exists>dev1 f1 dev2. scull_write rich_env small_dev [7] 2 = Some (dev1, f1, Ret 1) \<and>
    scull_read rich_env dev1 10 0 = Some (dev2, 3, Ret [None, None, Some 7])"
proof -
  let ?d = "\<lparr>data = [\<lparr>qdata = Some [Some [None, None, Some 7, None], None]\<rparr>], quantum = 4, qset = 2,
     dev_size = 3, access_key = 0\<rparr>"
  have "scull_write rich_env small_dev [7] 2 = Some (?d, 3, Ret 1)" by code_simp
  moreover have "scull_read rich_env ?d 10 0 = Some (?d, 3, Ret [None, None, Some 7])" by code_simp
  ultimately show ?thesis by blast
qed

text \<open>Quantum and set size are read before the lock is taken: when another process
  empties the device in between, under smaller parameters, the write goes past the end of
  the quantum it finds.\<close>

lemma scull_write_stale_geometry:
  "\<exists>dev1 dev2 f2 r.
    scull_trim (small_params\<lparr>scull_quantum := 1\<rparr>) small_dev1 = Some dev1 \<and>
    scull_write rich_env dev1 [5] 0 = Some (dev2, f2, r) \<and>
    scull_write_locked (quantum small_dev1) (qset small_dev1) rich_env dev2 [1, 2, 3] 0 = None"
proof -
  let ?d = "\<lparr>data = [], quantum = 1, qset = 2, dev_size = 0, access_key = 0\<rparr>"
  let ?e = "\<lparr>data = [\<lparr>qdata = Some [Some [Some 5], None]\<rparr>], quantum = 1, qset = 2,
     dev_size = 1, access_key = 0\<rparr>"
  have "scull_trim (small_params\<lparr>scull_quantum := 1\<rparr>) small_dev1 = Some ?d"
    using scull_trim_ok[OF small_dev1_wf] by (simp add: small_params_def small_dev1_eq)
  moreover have "scull_write rich_env ?d [5] 0 = Some (?e, 1, Ret 1)" by code_simp
  moreover have "scull_write_locked (quantum small_dev1) (qset small_dev1) rich_env ?e [1, 2, 3] 0 = None"
    unfolding small_dev1_eq by code_simp
  ultimately show ?thesis by blast
qed

end
