(* ===== verification/Scull_Pipe.thy ===== *)
theory Scull_Pipe
  imports Scull
begin

section \<open>The scull pipe device\<close>

text \<open>
  \<open>scull/pipe.c\<close>: a ring buffer between readers and writers that sleep when it is empty or
  full. The pointers \<open>rp\<close>, \<open>wp\<close> and \<open>end\<close> are offsets from the start of the buffer. A
  handler that sleeps releases the lock: what it finds when it holds the lock again is an
  argument, a list of wake-ups. Wait queues and asynchronous notification are left out, they
  only decide when a sleeper wakes.
\<close>

subsection \<open>Data\<close>

record scull_pipe =
  pbuf :: "cell list option"
  pend :: int
  buffersize :: int
  rp :: int
  wp :: int
  nreaders :: int
  nwriters :: int

definition zero_pipe :: scull_pipe where
  "zero_pipe = \<lparr>pbuf = None, pend = 0, buffersize = 0, rp = 0, wp = 0, nreaders = 0, nwriters = 0\<rparr>"

subsection \<open>Opening and releasing\<close>

text \<open>\<open>ok\<close> is the answer of the allocator; \<open>fread\<close> and \<open>fwrite\<close> are the bits of \<open>f_mode\<close>.\<close>

definition scull_p_open ::
  "bool \<Rightarrow> bool \<Rightarrow> scull_params \<Rightarrow> bool \<Rightarrow> bool \<Rightarrow> scull_pipe \<Rightarrow> scull_pipe \<times> int outcome" where
  "scull_p_open intr ok p fread fwrite dev =
     (if intr then (dev, Fail ERESTARTSYS)
      else if pbuf dev = None \<and> \<not> fst (kmalloc_size (scull_p_buffer p) [ok]) then (dev, Fail ENOMEM)
      else
        (let d1 = (if pbuf dev = None
                   then dev\<lparr>pbuf := Some (replicate (nat (scull_p_buffer p)) None)\<rparr> else dev);
             d2 = d1\<lparr>buffersize := scull_p_buffer p, pend := scull_p_buffer p, rp := 0, wp := 0\<rparr>;
             d3 = (if fread then d2\<lparr>nreaders := s32 (nreaders d2 + 1)\<rparr> else d2);
             d4 = (if fwrite then d3\<lparr>nwriters := s32 (nwriters d3 + 1)\<rparr> else d3)
         in (d4, Ret 0)))"

definition scull_p_release :: "bool \<Rightarrow> bool \<Rightarrow> scull_pipe \<Rightarrow> scull_pipe \<times> int" where
  "scull_p_release fread fwrite dev =
     (let d1 = (if fread then dev\<lparr>nreaders := s32 (nreaders dev - 1)\<rparr> else dev);
          d2 = (if fwrite then d1\<lparr>nwriters := s32 (nwriters d1 - 1)\<rparr> else d1);
          d3 = (if s32 (nreaders d2 + nwriters d2) = 0 then d2\<lparr>pbuf := None\<rparr> else d2)
      in (d3, 0))"

subsection \<open>Sleeping\<close>

text \<open>
  A sleeper is woken by a signal, or it gets the lock again and finds the pipe in some
  state. When there is no further wake-up it stays blocked.
\<close>

datatype wake = Wake_signal | Wake_locked scull_pipe

fun scull_p_wait_data :: "bool \<Rightarrow> wake list \<Rightarrow> scull_pipe \<Rightarrow> scull_pipe \<times> int outcome" where
  "scull_p_wait_data nonblock [] dev =
     (dev, if rp dev \<noteq> wp dev then Ret 0 else if nonblock then Fail EAGAIN else Blocked)"
| "scull_p_wait_data nonblock (w # ws) dev =
     (if rp dev \<noteq> wp dev then (dev, Ret 0)
      else if nonblock then (dev, Fail EAGAIN)
      else (case w of
              Wake_signal \<Rightarrow> (dev, Fail ERESTARTSYS)
            | Wake_locked dev' \<Rightarrow> scull_p_wait_data nonblock ws dev'))"

text \<open>The remainder of C truncates; a division by zero is undefined.\<close>

definition spacefree :: "scull_pipe \<Rightarrow> int option" where
  "spacefree dev =
     (if rp dev = wp dev then Some (s32 (buffersize dev - 1))
      else if buffersize dev = 0 then None
      else Some (s32 ((rp dev + buffersize dev - wp dev) smod buffersize dev - 1)))"

fun scull_getwritespace :: "bool \<Rightarrow> wake list \<Rightarrow> scull_pipe \<Rightarrow> (scull_pipe \<times> int outcome) option" where
  "scull_getwritespace nonblock [] dev = do {
     free \<leftarrow> spacefree dev;
     Some (dev, if free \<noteq> 0 then Ret 0 else if nonblock then Fail EAGAIN else Blocked) }"
| "scull_getwritespace nonblock (w # ws) dev = do {
     free \<leftarrow> spacefree dev;
     (if free \<noteq> 0 then Some (dev, Ret 0)
      else if nonblock then Some (dev, Fail EAGAIN)
      else (case w of
              Wake_signal \<Rightarrow> Some (dev, Fail ERESTARTSYS)
            | Wake_locked dev' \<Rightarrow> scull_getwritespace nonblock ws dev')) }"

subsection \<open>Reading and writing\<close>

text \<open>The part under the lock once there is data: copy, advance, wrap.\<close>

definition scull_p_take :: "bool \<Rightarrow> int \<Rightarrow> scull_pipe \<Rightarrow> (scull_pipe \<times> cell list outcome) option" where
  "scull_p_take fault count dev =
     (let n = (if rp dev < wp dev then min count (u64 (wp dev - rp dev))
               else min count (u64 (pend dev - rp dev)))
      in case pbuf dev of
           None \<Rightarrow> None
         | Some blk \<Rightarrow>
             if rp dev < 0 \<or> int (length blk) < rp dev + n then None
             else if fault \<and> 0 < n then Some (dev, Fail EFAULT)
             else
               (let rp' = rp dev + n
                in Some (dev\<lparr>rp := if rp' = pend dev then 0 else rp'\<rparr>,
                         Ret (take (nat n) (drop (nat (rp dev)) blk)))))"

definition scull_p_read ::
  "bool \<Rightarrow> bool \<Rightarrow> wake list \<Rightarrow> bool \<Rightarrow> int \<Rightarrow> scull_pipe \<Rightarrow> (scull_pipe \<times> cell list outcome) option" where
  "scull_p_read intr nonblock ws fault count dev =
     (if intr then Some (dev, Fail ERESTARTSYS)
      else (case scull_p_wait_data nonblock ws dev of
              (dev', Ret _) \<Rightarrow> scull_p_take fault count dev'
            | (dev', Fail e) \<Rightarrow> Some (dev', Fail e)
            | (dev', Blocked) \<Rightarrow> Some (dev', Blocked)))"

text \<open>The part under the lock once there is space; \<open>left\<close> bytes could not be copied.\<close>

definition scull_p_put :: "nat \<Rightarrow> byte list \<Rightarrow> scull_pipe \<Rightarrow> (scull_pipe \<times> int outcome) option" where
  "scull_p_put left src dev = do {
     free \<leftarrow> spacefree dev;
     (let c1 = min (int (length src)) (u64 free);
          n = (if rp dev \<le> wp dev then min c1 (u64 (pend dev - wp dev))
               else min c1 (u64 (rp dev - wp dev - 1)))
      in case pbuf dev of
           None \<Rightarrow> None
         | Some blk \<Rightarrow>
             if wp dev < 0 \<or> int (length blk) < wp dev + n then None
             else
               (let new = user_bytes left (take (nat n) src);
                    dev1 = dev\<lparr>pbuf := Some (mem_write (nat (wp dev)) new blk)\<rparr>
                in if 0 < min left (nat n) then Some (dev1, Fail EFAULT)
                   else
                     (let wp' = wp dev + n
                      in Some (dev1\<lparr>wp := if wp' = pend dev then 0 else wp'\<rparr>, Ret n)))) }"

definition scull_p_write ::
  "bool \<Rightarrow> bool \<Rightarrow> wake list \<Rightarrow> nat \<Rightarrow> byte list \<Rightarrow> scull_pipe \<Rightarrow> (scull_pipe \<times> int outcome) option" where
  "scull_p_write intr nonblock ws left src dev =
     (if intr then Some (dev, Fail ERESTARTSYS)
      else do {
        r \<leftarrow> scull_getwritespace nonblock ws dev;
        (case r of
           (dev', Ret _) \<Rightarrow> scull_p_put left src dev'
         | (dev', Fail e) \<Rightarrow> Some (dev', Fail e)
         | (dev', Blocked) \<Rightarrow> Some (dev', Blocked)) })"

text \<open>The mask of \<open>poll\<close>: readable and writable.\<close>

definition scull_p_poll :: "scull_pipe \<Rightarrow> (bool \<times> bool) option" where
  "scull_p_poll dev = do {
     free \<leftarrow> spacefree dev;
     Some (rp dev \<noteq> wp dev, free \<noteq> 0) }"

subsection \<open>Setup and cleanup\<close>

record pipe_module =
  scull_p_devices :: "scull_pipe list option"
  p_region :: bool

text \<open>
  \<open>result\<close> is the answer of \<open>register_chrdev_region\<close>, \<open>ok\<close> that of the allocator; the result
  is the number of devices made.
\<close>

definition scull_p_init :: "int \<Rightarrow> bool \<Rightarrow> int \<Rightarrow> pipe_module \<Rightarrow> pipe_module \<times> int" where
  "scull_p_init result ok nr m =
     (if result < 0 then (m, 0)
      else if \<not> ok then (m\<lparr>scull_p_devices := None, p_region := False\<rparr>, 0)
      else (m\<lparr>scull_p_devices := Some (replicate (nat nr) zero_pipe), p_region := True\<rparr>, nr))"

definition scull_p_cleanup :: "pipe_module \<Rightarrow> pipe_module" where
  "scull_p_cleanup m =
     (case scull_p_devices m of
        None \<Rightarrow> m
      | Some devs \<Rightarrow> m\<lparr>scull_p_devices := None, p_region := False\<rparr>)"

end
