(* ===== verification/Scull_Pipe_Props.thy ===== *)
theory Scull_Pipe_Props
  imports Scull_Pipe
begin

section \<open>Correctness of the scull pipe\<close>

text \<open>
  The ring holds the cells from \<open>rp\<close> up to \<open>wp\<close>, around the end. The invariant is what an
  open establishes; the parts under the lock preserve it and move cells as a channel does.
\<close>

subsection \<open>Invariant and contents\<close>

definition pipe_inv :: "scull_pipe \<Rightarrow> bool" where
  "pipe_inv dev \<longleftrightarrow> (case pbuf dev of None \<Rightarrow> False
     | Some blk \<Rightarrow> int (length blk) = buffersize dev) \<and>
     0 < buffersize dev \<and> buffersize dev < 2 ^ 31 \<and> pend dev = buffersize dev \<and>
     0 \<le> rp dev \<and> rp dev < buffersize dev \<and> 0 \<le> wp dev \<and> wp dev < buffersize dev"

definition pipe_contents :: "scull_pipe \<Rightarrow> cell list" where
  "pipe_contents dev = (case pbuf dev of None \<Rightarrow> []
     | Some blk \<Rightarrow>
        if rp dev \<le> wp dev then take (nat (wp dev - rp dev)) (drop (nat (rp dev)) blk)
        else drop (nat (rp dev)) blk @ take (nat (wp dev)) blk)"

lemma pipe_invE:
  assumes "pipe_inv dev"
  obtains blk r w where "pbuf dev = Some blk" "rp dev = int r" "wp dev = int w"
    "buffersize dev = int (length blk)" "pend dev = int (length blk)"
    "r < length blk" "w < length blk" "int (length blk) < 2 ^ 31"
proof -
  obtain blk where "pbuf dev = Some blk" "int (length blk) = buffersize dev"
    using assms by (auto simp: pipe_inv_def split: option.splits)
  then show thesis
    using assms that[of blk "nat (rp dev)" "nat (wp dev)"] by (auto simp: pipe_inv_def)
qed

lemma spacefree_ok:
  assumes "pipe_inv dev"
  shows "spacefree dev = Some (buffersize dev - 1 - int (length (pipe_contents dev)))"
proof -
  obtain blk r w where d: "pbuf dev = Some blk" "rp dev = int r" "wp dev = int w"
    "buffersize dev = int (length blk)" "r < length blk" "w < length blk" "int (length blk) < 2 ^ 31"
    using assms by (rule pipe_invE)
  have s: "(int r + int (length blk) - int w) smod int (length blk) =
      (int r + int (length blk) - int w) mod int (length blk)"
    using d by (intro smod_nonneg) auto
  consider "r = w" | "r < w" | "w < r" by linarith
  then show ?thesis
  proof cases
    case 1
    then show ?thesis using d by (auto simp: spacefree_def pipe_contents_def)
  next
    case 2
    then have "(int r + int (length blk) - int w) mod int (length blk) = int r + int (length blk) - int w"
      using d by (intro mod_pos_pos_trivial) auto
    then show ?thesis using 2 d s by (auto simp: spacefree_def pipe_contents_def)
  next
    case 3
    then have "(int r + int (length blk) - int w) mod int (length blk) = int r - int w"
      using d mod_pos_pos_trivial[of "int r - int w" "int (length blk)"]
        mod_add_self2[of "int r - int w" "int (length blk)"] by (simp add: algebra_simps)
    then show ?thesis using 3 d s by (auto simp: spacefree_def pipe_contents_def)
  qed
qed

lemma contents_less: "pipe_inv dev \<Longrightarrow> int (length (pipe_contents dev)) < buffersize dev"
  by (erule pipe_invE) (auto simp: pipe_contents_def)

lemma contents_empty: "pipe_inv dev \<Longrightarrow> pipe_contents dev = [] \<longleftrightarrow> rp dev = wp dev"
  by (erule pipe_invE) (auto simp: pipe_contents_def)

subsection \<open>Taking and putting\<close>

text \<open>The bytes up to the write pointer or the end of the ring, which one read can take.\<close>

definition contiguous :: "scull_pipe \<Rightarrow> int" where
  "contiguous dev = (if rp dev < wp dev then wp dev - rp dev else pend dev - rp dev)"

lemma take_ok:
  assumes inv: "pipe_inv dev" and ne: "rp dev \<noteq> wp dev" and c: "0 \<le> count"
  shows "\<exists>dev' got. scull_p_take False count dev = Some (dev', Ret got) \<and> pipe_inv dev' \<and>
    pipe_contents dev = got @ pipe_contents dev' \<and> int (length got) \<le> count \<and>
    (0 < count \<longrightarrow> got \<noteq> []) \<and> int (length got) = min count (contiguous dev)"
    and "scull_p_take True count dev = Some (dev, Fail EFAULT) \<or>
      count = 0 \<and> scull_p_take True count dev = Some (dev, Ret [])"
proof -
  obtain blk r w where d: "pbuf dev = Some blk" "rp dev = int r" "wp dev = int w"
    "buffersize dev = int (length blk)" "pend dev = int (length blk)"
    "r < length blk" "w < length blk" "int (length blk) < 2 ^ 31"
    using inv by (rule pipe_invE)
  have rw: "r \<noteq> w" using ne d by simp
  define m where "m = (if r < w then w - r else length blk - r)"
  have m: "0 < m" "r + m \<le> length blk" using rw d by (auto simp: m_def)
  define n where "n = min (nat count) m"
  have n: "r + n \<le> length blk" "n \<le> m" "int n \<le> count" using m c by (auto simp: n_def)
  have u: "u64 (int w - int r) = int (w - r)" if "r < w"
    using that d by (auto simp: of_nat_diff)
  have v: "u64 (int (length blk) - int r) = int (length blk - r)"
    using d by (auto simp: of_nat_diff)
  have code_n: "(if rp dev < wp dev then min count (u64 (wp dev - rp dev))
      else min count (u64 (pend dev - rp dev))) = int n"
    using c u v by (auto simp: d n_def m_def)
  have nb: "\<not> (rp dev < 0 \<or> int (length blk) < rp dev + int n)"
    using n d by simp
  let ?rp = "if int (r + n) = int (length blk) then 0 else int (r + n)"
  let ?d = "dev\<lparr>rp := ?rp\<rparr>" and ?got = "take n (drop r blk)"
  have t: "scull_p_take False count dev = Some (?d, Ret ?got)"
    unfolding scull_p_take_def code_n Let_def using nb by (simp add: d)
  have inv': "pipe_inv ?d" using inv d n by (auto simp: pipe_inv_def)
  have cont: "pipe_contents dev = ?got @ pipe_contents ?d"
  proof (cases "r < w")
    case True
    have "take (w - r) (drop r blk) = take n (drop r blk) @ take (w - r - n) (drop n (drop r blk))"
      using n True by (simp add: m_def flip: take_add del: drop_drop)
    then show ?thesis using True d n m by (auto simp: pipe_contents_def m_def add.commute)
  next
    case False
    then have wr: "w < r" using rw by simp
    have dr: "drop r blk = take n (drop r blk) @ drop (r + n) blk"
      by (simp add: add.commute flip: drop_drop)
    show ?thesis
    proof (cases "r + n = length blk")
      case True
      then show ?thesis using wr d dr by (auto simp: pipe_contents_def)
    next
      case False
      then show ?thesis using wr d dr by (auto simp: pipe_contents_def)
    qed
  qed
  have "0 < count \<Longrightarrow> ?got \<noteq> []" using m n d by (auto simp: n_def)
  moreover have "int (length ?got) = min count (contiguous dev)"
  proof -
    have "length ?got = n" using n(1) by simp
    moreover have "int m = contiguous dev" using rw d by (auto simp: m_def contiguous_def of_nat_diff)
    then have "int n = min count (contiguous dev)" using c unfolding n_def by (simp flip: \<open>int m = contiguous dev\<close>)
    ultimately show ?thesis by simp
  qed
  ultimately show "\<exists>dev' got. scull_p_take False count dev = Some (dev', Ret got) \<and>
      pipe_inv dev' \<and> pipe_contents dev = got @ pipe_contents dev' \<and> int (length got) \<le> count \<and>
      (0 < count \<longrightarrow> got \<noteq> []) \<and> int (length got) = min count (contiguous dev)"
    using t inv' cont n by (intro exI[of _ ?d] exI[of _ ?got]) auto
  show "scull_p_take True count dev = Some (dev, Fail EFAULT) \<or>
      count = 0 \<and> scull_p_take True count dev = Some (dev, Ret [])"
  proof (cases "count = 0")
    case True
    then have "n = 0" by (simp add: n_def)
    with True show ?thesis
      unfolding scull_p_take_def code_n Let_def using nb d(6) by (simp add: d(1-5))
  next
    case False
    then have "0 < int n" using c m by (simp add: n_def)
    then show ?thesis
      unfolding scull_p_take_def code_n Let_def using nb by (simp add: d)
  qed
qed

lemma put_ok:
  assumes inv: "pipe_inv dev"
  shows "\<exists>dev' r. scull_p_put left src dev = Some (dev', r) \<and> pipe_inv dev' \<and>
    (case r of
       Ret v \<Rightarrow> 0 \<le> v \<and> v \<le> int (length src) \<and>
         pipe_contents dev' = pipe_contents dev @ map Some (take (nat v) src) \<and>
         (src \<noteq> [] \<and> int (length (pipe_contents dev)) < buffersize dev - 1 \<longrightarrow> 0 < v)
     | Fail e \<Rightarrow> e = EFAULT \<and> 0 < left \<and> pipe_contents dev' = pipe_contents dev
     | Blocked \<Rightarrow> False)"
proof -
  obtain blk r w where d: "pbuf dev = Some blk" "rp dev = int r" "wp dev = int w"
    "buffersize dev = int (length blk)" "pend dev = int (length blk)"
    "r < length blk" "w < length blk" "int (length blk) < 2 ^ 31"
    using inv by (rule pipe_invE)
  define free where "free = length blk - 1 - length (pipe_contents dev)"
  have cl: "length (pipe_contents dev) < length blk" using contents_less[OF inv] d by simp
  have sp: "spacefree dev = Some (int free)"
    using spacefree_ok[OF inv] cl by (simp add: free_def d of_nat_diff)
  have free_eq: "free = (if r \<le> w then length blk - 1 - (w - r) else r - w - 1)"
    using d by (auto simp: free_def pipe_contents_def)
  define m where "m = (if r \<le> w then length blk - w else r - w - 1)"
  define n where "n = min (min (length src) free) m"
  have n: "n \<le> length src" "n \<le> free" "n \<le> m" "w + n \<le> length blk"
    using d by (auto simp: n_def m_def)
  have "int free < 2 ^ 31" using d(8) by (simp add: free_def)
  then have uf: "u64 (int free) = int free" by simp
  have u: "u64 (int r - int w - 1) = int (r - w - 1)" if "w < r"
    using that d by (auto simp: of_nat_diff)
  have v: "u64 (int (length blk) - int w) = int (length blk - w)"
    using d by (auto simp: of_nat_diff)
  have code_n: "(if rp dev \<le> wp dev then min (min (int (length src)) (u64 (int free))) (u64 (pend dev - wp dev))
      else min (min (int (length src)) (u64 (int free))) (u64 (rp dev - wp dev - 1))) = int n"
    using u v uf by (auto simp: d n_def m_def)
  have nb: "\<not> (wp dev < 0 \<or> int (length blk) < wp dev + int n)"
    using n d by simp
  let ?new = "user_bytes left (take n src)"
  let ?d1 = "dev\<lparr>pbuf := Some (mem_write w ?new blk)\<rparr>"
  let ?wp = "if int (w + n) = int (length blk) then 0 else int (w + n)"
  let ?d = "?d1\<lparr>wp := ?wp\<rparr>"
  have ln: "length ?new = n" using n by simp
  have put: "scull_p_put left src dev =
      Some (if 0 < min left n then (?d1, Fail EFAULT) else (?d, Ret (int n)))"
    unfolding scull_p_put_def sp Option.bind.simps(2) Let_def code_n using nb by (simp add: d)
  have lb: "length (mem_write w ?new blk) = length blk" using ln n by simp
  have inv1: "pipe_inv ?d1" and inv2: "pipe_inv ?d"
    using inv d lb n by (auto simp: pipe_inv_def)
  have mw: "mem_write w ?new blk = take w blk @ ?new @ drop (w + n) blk"
    using ln by (simp add: mem_write_def)
  have rlow: "drop r (mem_write w ?new blk) = drop r (take w blk) @ ?new @ drop (w + n) blk" if "r \<le> w"
    using that d by (simp add: mw)
  have rhigh: "drop r (mem_write w ?new blk) = drop r blk" if "w < r" "w + n \<le> r"
    using that d ln by (simp add: mw)
  have wn: "w + n < r" if "w < r" using that n free_eq by auto
  have c1: "pipe_contents ?d1 = pipe_contents dev"
  proof (cases "r \<le> w")
    case True
    then have "take (w - r) (drop r (mem_write w ?new blk)) = take (w - r) (drop r blk)"
      using d by (simp add: rlow drop_take)
    then show ?thesis using True d by (simp add: pipe_contents_def nat_diff_distrib)
  next
    case False
    then have "drop r (mem_write w ?new blk) = drop r blk" using rhigh wn by auto
    moreover have "take w (mem_write w ?new blk) = take w blk" using d by (simp add: mw)
    ultimately show ?thesis using False d by (simp add: pipe_contents_def)
  qed
  have c2: "pipe_contents ?d = pipe_contents dev @ ?new"
  proof (cases "r \<le> w")
    case True
    show ?thesis
    proof (cases "w + n = length blk")
      case end_reached: True
      then have "0 < r" using True n free_eq d by (auto split: if_splits)
      then show ?thesis using True end_reached d rlow[OF True]
        by (auto simp: pipe_contents_def drop_take)
    next
      case False
      have "take (w + n - r) (drop r (mem_write w ?new blk)) = drop r (take w blk) @ ?new"
        using rlow[OF True] True d ln by simp
      then show ?thesis using True False d n
        by (auto simp: pipe_contents_def drop_take nat_diff_distrib)
    qed
  next
    case False
    then have "drop r (mem_write w ?new blk) = drop r blk" "w + n < r" using rhigh wn by auto
    moreover have "take (w + n) (mem_write w ?new blk) = take w blk @ ?new"
      using d ln by (simp add: mw)
    ultimately show ?thesis using False d by (auto simp: pipe_contents_def)
  qed
  show ?thesis
  proof (cases "0 < min left n")
    case True
    then show ?thesis unfolding put using inv1 c1 by auto
  next
    case False
    then have "?new = map Some (take n src)"
      using n by (cases "left = 0") (auto simp: user_bytes_def)
    moreover have "src \<noteq> [] \<and> int (length (pipe_contents dev)) < buffersize dev - 1 \<Longrightarrow> 0 < n"
      using d free_def free_eq by (auto simp: n_def m_def split: if_splits)
    ultimately show ?thesis unfolding put if_not_P[OF False] using inv2 c2 n by auto
  qed
qed

subsection \<open>The pipe as a channel\<close>

datatype pipe_label = Put "cell list" | Get "cell list"

definition put_label :: "pipe_label \<Rightarrow> cell list" where
  "put_label l = (case l of Put cs \<Rightarrow> cs | Get _ \<Rightarrow> [])"

definition get_label :: "pipe_label \<Rightarrow> cell list" where
  "get_label l = (case l of Put _ \<Rightarrow> [] | Get cs \<Rightarrow> cs)"

text \<open>A call that finds data or space at once; a sleeper that got the lock is one, too.\<close>

inductive pipe_step :: "scull_pipe \<Rightarrow> pipe_label \<Rightarrow> scull_pipe \<Rightarrow> bool" where
  step_write: "scull_p_put left src dev = Some (dev', Ret v) \<Longrightarrow>
    pipe_step dev (Put (map Some (take (nat v) src))) dev'"
| step_write_fault: "scull_p_put left src dev = Some (dev', Fail e) \<Longrightarrow> pipe_step dev (Put []) dev'"
| step_read: "rp dev \<noteq> wp dev \<Longrightarrow> 0 \<le> count \<Longrightarrow> scull_p_take False count dev = Some (dev', Ret got) \<Longrightarrow>
    pipe_step dev (Get got) dev'"
| step_read_fault: "rp dev \<noteq> wp dev \<Longrightarrow> 0 \<le> count \<Longrightarrow> scull_p_take True count dev = Some (dev', r) \<Longrightarrow>
    pipe_step dev (Get []) dev'"

lemma pipe_step_ok:
  assumes "pipe_step dev l dev'" "pipe_inv dev"
  shows "pipe_inv dev' \<and> pipe_contents dev @ put_label l = get_label l @ pipe_contents dev'"
  using assms
proof cases
  case (step_write left src v)
  then show ?thesis using put_ok[OF assms(2), of left src] by (auto simp: put_label_def get_label_def)
next
  case (step_write_fault left src e)
  then show ?thesis using put_ok[OF assms(2), of left src] by (auto simp: put_label_def get_label_def)
next
  case (step_read count got)
  then show ?thesis using take_ok(1)[OF assms(2), of count] by (auto simp: put_label_def get_label_def)
next
  case (step_read_fault count r)
  then show ?thesis using take_ok(2)[OF assms(2), of count] assms(2)
    by (auto simp: put_label_def get_label_def)
qed

interpretation pipe: fifo_channel pipe_step pipe_inv pipe_contents put_label get_label
  by unfold_locales (use pipe_step_ok in blast)+

lemma pipe_open_inv:
  assumes "pbuf dev = None" "0 < scull_p_buffer p" "scull_p_buffer p < 2 ^ 31"
    and "scull_p_open False True p fread fwrite dev = (dev', Ret v)"
  shows "pipe_inv dev' \<and> pipe_contents dev' = []"
  using assms by (auto simp: scull_p_open_def kmalloc_size_def pipe_inv_def pipe_contents_def Let_def)

subsection \<open>Properties\<close>

definition demo_params :: scull_params where
  "demo_params = \<lparr>scull_quantum = 1, scull_qset = 1, scull_p_buffer = 4\<rparr>"

definition demo_pipe :: scull_pipe where
  "demo_pipe = fst (scull_p_open False True demo_params True True zero_pipe)"

lemma demo_pipe_inv: "pipe_inv demo_pipe" "pipe_contents demo_pipe = []"
  using pipe_open_inv[of zero_pipe demo_params True True]
  by (simp_all add: demo_pipe_def demo_params_def zero_pipe_def scull_p_open_def kmalloc_size_def Let_def)

text \<open>C21. Whatever writers and readers of an opened pipe do, in any order and with any
  faults, the bytes accepted so far are the bytes delivered so far followed by what the
  ring holds: nothing is lost, duplicated or reordered, and the ring stays within bounds.\<close>

theorem scull_p_fifo:
  assumes "pbuf dev = None" "0 < scull_p_buffer p" "scull_p_buffer p < 2 ^ 31"
    and "scull_p_open False True p fread fwrite dev = (dev0, Ret v)" "run pipe_step dev0 ls dev'"
  shows "pipe_inv dev' \<and>
    concat (map put_label ls) = concat (map get_label ls) @ pipe_contents dev'"
  using pipe_open_inv[OF assms(1-4)] pipe.inv_run[OF assms(5)] pipe.run_contents[OF assms(5)]
  by simp

theorem scull_p_fifo_witness:
  "\<exists>dev'. run pipe_step demo_pipe [Put [Some 1, Some 2], Get [Some 1]] dev' \<and>
    pipe_contents dev' = [Some 2]"
proof -
  let ?d1 = "\<lparr>pbuf = Some [Some 1, Some 2, None, None], pend = 4, buffersize = 4, rp = 0, wp = 2,
    nreaders = 1, nwriters = 1\<rparr>"
  have "scull_p_put 0 [1, 2] demo_pipe = Some (?d1, Ret 2)" by code_simp
  from step_write[OF this] have s1: "pipe_step demo_pipe (Put [Some 1, Some 2]) ?d1" by simp
  have "scull_p_take False 1 ?d1 = Some (?d1\<lparr>rp := 1\<rparr>, Ret [Some 1])" by code_simp
  then have s2: "pipe_step ?d1 (Get [Some 1]) (?d1\<lparr>rp := 1\<rparr>)"
    by (intro step_read[where count = 1]) auto
  have r: "run pipe_step demo_pipe [Put [Some 1, Some 2], Get [Some 1]] (?d1\<lparr>rp := 1\<rparr>)"
    using s1 s2 by (auto intro!: run.intros)
  have o': "scull_p_open False True demo_params True True zero_pipe = (demo_pipe, Ret 0)"
    by (simp add: demo_pipe_def demo_params_def zero_pipe_def scull_p_open_def kmalloc_size_def Let_def)
  from scull_p_fifo[OF _ _ _ o' r] have "pipe_contents (?d1\<lparr>rp := 1\<rparr>) = [Some 2]"
    by (simp add: zero_pipe_def demo_params_def put_label_def get_label_def)
  with r show ?thesis by blast
qed

text \<open>Handlers that sleep. The states a sleeper finds satisfy the invariant.\<close>

definition wakes_ok :: "wake list \<Rightarrow> bool" where
  "wakes_ok ws \<longleftrightarrow> (\<forall>dev. Wake_locked dev \<in> set ws \<longrightarrow> pipe_inv dev)"

lemma wakes_ok_Cons: "wakes_ok (w # ws) \<longleftrightarrow> (\<forall>dev. w = Wake_locked dev \<longrightarrow> pipe_inv dev) \<and> wakes_ok ws"
  by (auto simp: wakes_ok_def)

lemma wait_data_ok:
  "pipe_inv dev \<Longrightarrow> wakes_ok ws \<Longrightarrow> scull_p_wait_data nonblock ws dev = (dev', r) \<Longrightarrow>
    pipe_inv dev' \<and> (case r of Ret _ \<Rightarrow> rp dev' \<noteq> wp dev'
      | Fail e \<Rightarrow> rp dev' = wp dev' \<and> e = (if nonblock then EAGAIN else ERESTARTSYS)
      | Blocked \<Rightarrow> rp dev' = wp dev' \<and> \<not> nonblock)"
proof (induction nonblock ws dev rule: scull_p_wait_data.induct)
  case (1 nonblock dev)
  then show ?case by (auto split: if_splits)
next
  case (2 nonblock w ws dev)
  show ?case
  proof (cases "rp dev \<noteq> wp dev \<or> nonblock")
    case True
    then show ?thesis using 2(2-4) by (auto split: if_splits)
  next
    case False
    then show ?thesis using 2 by (cases w) (auto simp: wakes_ok_Cons)
  qed
qed


text \<open>What a reader finds when it gets the lock in the state \<open>d\<close> with data: a fault leaves all as it was, otherwise it gets
  the next bytes, as many as it asked for or as lie before the end of the ring.\<close>

definition serves :: "bool \<Rightarrow> int \<Rightarrow> scull_pipe \<Rightarrow> scull_pipe \<Rightarrow> cell list outcome \<Rightarrow> bool" where
  "serves fault count d dev' r \<longleftrightarrow>
     (if fault then r = Fail EFAULT \<and> dev' = d
      else \<exists>got. r = Ret got \<and> got \<noteq> [] \<and> int (length got) = min count (contiguous d) \<and>
        pipe_contents d = got @ pipe_contents dev')"

lemma take_serves:
  assumes "pipe_inv d" "pipe_contents d \<noteq> []" "0 < count"
  shows "\<exists>dev' r. scull_p_take fault count d = Some (dev', r) \<and> pipe_inv dev' \<and> serves fault count d dev' r"
proof -
  have ne: "rp d \<noteq> wp d" "0 \<le> count" using assms contents_empty[OF assms(1)] by simp_all
  show ?thesis
  proof (cases fault)
    case True
    then show ?thesis using take_ok(2)[OF assms(1) ne] assms by (auto simp: serves_def)
  next
    case False
    then show ?thesis using take_ok(1)[OF assms(1) ne] assms(3) by (auto simp: serves_def)
  qed
qed

text \<open>A wake-up after which another reader was faster.\<close>

definition idle_wake :: "wake \<Rightarrow> bool" where
  "idle_wake w \<longleftrightarrow> (case w of Wake_signal \<Rightarrow> False | Wake_locked d \<Rightarrow> pipe_contents d = [])"

lemma wait_data_sleeps:
  assumes "pipe_inv dev" "wakes_ok ws" "pipe_contents dev = []"
  shows "\<exists>d. pipe_inv d \<and> pipe_contents d = [] \<and> scull_p_wait_data False ws dev =
    (case dropWhile idle_wake ws of
       [] \<Rightarrow> (d, Blocked)
     | Wake_signal # _ \<Rightarrow> (d, Fail ERESTARTSYS)
     | Wake_locked e # _ \<Rightarrow> (e, Ret 0))"
  using assms
proof (induction ws arbitrary: dev)
  case Nil
  then show ?case using contents_empty[of dev] by auto
next
  case (Cons w ws)
  have e: "rp dev = wp dev" using Cons.prems contents_empty by blast
  show ?case
  proof (cases w)
    case Wake_signal
    then show ?thesis using Cons.prems e by (auto simp: idle_wake_def)
  next
    case (Wake_locked d)
    then have d: "pipe_inv d" "wakes_ok ws" using Cons.prems by (simp_all add: wakes_ok_Cons)
    show ?thesis
    proof (cases "pipe_contents d = []")
      case True
      then show ?thesis using Cons.IH[OF d True] Wake_locked e by (simp add: idle_wake_def)
    next
      case False
      then have "scull_p_wait_data False ws d = (d, Ret 0)"
        using contents_empty[OF d(1)] by (cases ws) auto
      then show ?thesis using False Wake_locked e Cons.prems by (auto simp: idle_wake_def)
    qed
  qed
qed

text \<open>C25. A read of at least one byte, completely: a signal while it waits for the lock gives -ERESTARTSYS. With data in
  the ring it removes and returns the next bytes, as many as asked for or as lie before the end of the ring; where the copy to
  the user faults it returns -EFAULT and the ring stays as it is. With an empty ring it returns -EAGAIN in
  non-blocking mode. Otherwise it sleeps: wake-ups that find the ring empty again count for nothing, a signal ends the sleep
  with -ERESTARTSYS, and the first wake-up that finds data gives exactly what a read in that state gives. It never touches memory
  outside the ring.\<close>

theorem scull_p_read_correct:
  assumes "pipe_inv dev" "wakes_ok ws" "0 < count"
  shows "\<exists>dev' r. scull_p_read intr nonblock ws fault count dev = Some (dev', r) \<and> pipe_inv dev' \<and>
    (if intr then r = Fail ERESTARTSYS \<and> dev' = dev
     else if pipe_contents dev \<noteq> [] then serves fault count dev dev' r
     else if nonblock then r = Fail EAGAIN \<and> dev' = dev
     else (case dropWhile idle_wake ws of
         [] \<Rightarrow> r = Blocked \<and> pipe_contents dev' = []
       | Wake_signal # _ \<Rightarrow> r = Fail ERESTARTSYS \<and> pipe_contents dev' = []
       | Wake_locked d # _ \<Rightarrow> serves fault count d dev' r))"
proof (cases "intr \<or> pipe_contents dev \<noteq> [] \<or> nonblock")
  case True
  have w: "scull_p_wait_data nonblock ws dev =
      (dev, if pipe_contents dev \<noteq> [] then Ret 0 else if nonblock then Fail EAGAIN else Blocked)"
    if "pipe_contents dev \<noteq> [] \<or> nonblock"
    using that contents_empty[OF assms(1)] by (cases ws) auto
  consider "intr" | "\<not> intr" "pipe_contents dev \<noteq> []" | "\<not> intr" "pipe_contents dev = []" "nonblock"
    using True by blast
  then show ?thesis
  proof cases
    case 2
    then show ?thesis using w take_serves[OF assms(1) 2(2) assms(3), of fault] by (auto simp: scull_p_read_def)
  qed (use w assms(1) in \<open>auto simp: scull_p_read_def\<close>)
next
  case False
  then obtain d where d: "pipe_inv d" "pipe_contents d = []" "scull_p_wait_data False ws dev =
      (case dropWhile idle_wake ws of
         [] \<Rightarrow> (d, Blocked) | Wake_signal # _ \<Rightarrow> (d, Fail ERESTARTSYS) | Wake_locked e # _ \<Rightarrow> (e, Ret 0))"
    using wait_data_sleeps[OF assms(1,2)] by blast
  show ?thesis
  proof (cases "dropWhile idle_wake ws")
    case Nil
    have "scull_p_wait_data False ws dev = (d, Blocked)" using d(3) unfolding Nil list.case .
    then show ?thesis using False d(1,2) unfolding Nil list.case by (simp add: scull_p_read_def)
  next
    case (Cons w ws')
    show ?thesis
    proof (cases w)
      case Wake_signal
      then show ?thesis using False d Cons by (simp add: scull_p_read_def)
    next
      case (Wake_locked e)
      have "w \<in> set ws" using Cons set_dropWhileD[of w idle_wake ws] by simp
      then have e: "pipe_inv e" using assms(2) Wake_locked by (auto simp: wakes_ok_def)
      have "\<not> idle_wake w" using Cons by (metis dropWhile_eq_Cons_conv)
      then have "pipe_contents e \<noteq> []" using Wake_locked by (simp add: idle_wake_def)
      from take_serves[OF e this assms(3), of fault] show ?thesis
        using False d Cons Wake_locked by (auto simp: scull_p_read_def)
    qed
  qed
qed

text \<open>A reader that finds the ring empty, is woken in vain once, and then gets the byte that was written.\<close>

theorem scull_p_read_correct_witness:
  "\<exists>dev' r. scull_p_read False False [Wake_locked demo_pipe, Wake_locked (fst (the (scull_p_put 0 [7] demo_pipe)))]
      False 3 demo_pipe = Some (dev', r) \<and> r = Ret [Some 7] \<and> pipe_contents dev' = []"
proof -
  let ?d = "\<lparr>pbuf = Some [Some 7, None, None, None], pend = 4, buffersize = 4, rp = 0, wp = 1, nreaders = 1, nwriters = 1\<rparr>"
  let ?ws = "[Wake_locked demo_pipe, Wake_locked ?d]"
  have p: "scull_p_put 0 [7] demo_pipe = Some (?d, Ret 1)" by code_simp
  have c: "pipe_contents ?d = [Some 7]" by code_simp
  have "pipe_inv ?d" using put_ok[OF demo_pipe_inv(1), of 0 "[7]"] p by auto
  then have ok: "wakes_ok ?ws" using demo_pipe_inv(1) by (auto simp: wakes_ok_def)
  have dw: "dropWhile idle_wake ?ws = [Wake_locked ?d]" using demo_pipe_inv(2) c by (simp add: idle_wake_def)
  obtain dev' r where r: "scull_p_read False False ?ws False 3 demo_pipe = Some (dev', r)" "serves False 3 ?d dev' r"
    using scull_p_read_correct[OF demo_pipe_inv(1) ok, of 3 False False False] demo_pipe_inv(2) dw by auto
  then have "r = Ret [Some 7] \<and> pipe_contents dev' = []"
    unfolding serves_def c by (auto simp: Cons_eq_append_conv)
  then show ?thesis using r(1) p by auto
qed



text \<open>The poll method reports readable exactly when a read would return data and writable exactly
  when a write would be accepted.\<close>

lemma scull_p_poll_correct:
  assumes "pipe_inv dev"
  shows "scull_p_poll dev =
    Some (pipe_contents dev \<noteq> [], int (length (pipe_contents dev)) < buffersize dev - 1)"
  using spacefree_ok[OF assms] contents_empty[OF assms] contents_less[OF assms]
  by (auto simp: scull_p_poll_def)

lemma scull_p_poll_correct_example: "scull_p_poll demo_pipe = Some (False, True)"
  using scull_p_poll_correct[OF demo_pipe_inv(1)] demo_pipe_inv(2)
  by (simp add: demo_pipe_def demo_params_def zero_pipe_def scull_p_open_def kmalloc_size_def Let_def)

text \<open>An open of a pipe that is already open discards the bytes still in the ring, and when
  the module's buffer size was raised in between (an ioctl anyone may use) it
  stretches the bounds past the block: the next write stores outside of it.\<close>

lemma scull_p_reopen_breaks_pipe:
  "\<exists>dev1 dev2. scull_p_write False True [] 0 [1, 2] demo_pipe = Some (dev1, Ret 2) \<and>
    scull_ioctl SCULL_P_IOCTSIZE \<lparr>arg = 9, access_ok = True, capable = False, user_int = None, put_ok = False\<rparr>
      demo_params = (demo_params\<lparr>scull_p_buffer := 9\<rparr>, None, Ret 0) \<and>
    scull_p_open False True (demo_params\<lparr>scull_p_buffer := 9\<rparr>) True False dev1 = (dev2, Ret 0) \<and>
    pipe_contents dev2 = [] \<and> scull_p_write False True [] 0 [1, 2, 3, 4, 5] dev2 = None"
proof -
  let ?d1 = "\<lparr>pbuf = Some [Some 1, Some 2, None, None], pend = 4, buffersize = 4, rp = 0, wp = 2,
    nreaders = 1, nwriters = 1\<rparr>"
  let ?d2 = "\<lparr>pbuf = Some [Some 1, Some 2, None, None], pend = 9, buffersize = 9, rp = 0, wp = 0,
    nreaders = 2, nwriters = 1\<rparr>"
  have "scull_p_write False True [] 0 [1, 2] demo_pipe = Some (?d1, Ret 2)" by code_simp
  moreover have "scull_ioctl SCULL_P_IOCTSIZE \<lparr>arg = 9, access_ok = True, capable = False,
      user_int = None, put_ok = False\<rparr> demo_params = (demo_params\<lparr>scull_p_buffer := 9\<rparr>, None, Ret 0)"
    by (simp add: scull_ioctl_def scull_cmds ioc_defs)
  moreover have "scull_p_open False True (demo_params\<lparr>scull_p_buffer := 9\<rparr>) True False ?d1 = (?d2, Ret 0)"
    by code_simp
  moreover have "pipe_contents ?d2 = []" by code_simp
  moreover have "scull_p_write False True [] 0 [1, 2, 3, 4, 5] ?d2 = None" by code_simp
  ultimately show ?thesis by blast
qed

end
