(* ===== verification/Scull_Pipe_Threads.thy ===== *)
theory Scull_Pipe_Threads
  imports Scull_Pipe_Props
begin

section \<open>The processes on a pipe\<close>

text \<open>
  \<open>scull/pipe.c\<close> with its processes in any order: each makes its calls of \<open>read\<close>, \<open>write\<close> and \<open>open\<close> one after the other, and every
  point where another process can come in is a step: the mutex, the test without the mutex before the sleep, the
  sleep itself and the wake-up after a transfer. What is done between two of these points is done by the functions of
  \<open>Scull_Pipe\<close>.
\<close>

subsection \<open>Processes\<close>

text \<open>
  The calls with what the environment decides for them: the count of a read and whether its copy faults, the bytes of a
  write that cannot be copied and its source, the modes of an open.
\<close>

datatype pipe_call = Read_p int bool | Write_p nat "byte list" | Open_p bool bool

text \<open>
  Where a process is: between calls; about to take the mutex; with the mutex before the test of the loop; with the mutex before
  the copy; without it before the test of the wait; asleep; woken; before the wake-up that ends a transfer of so many bytes.
\<close>

datatype pipe_pc = P_idle | P_entry | P_locked | P_copy | P_check | P_asleep | P_relock | P_wake int

record pipe_proc =
  p_pc :: pipe_pc
  p_now :: pipe_call
  p_nonblock :: bool
  p_todo :: "pipe_call list"
  p_answers :: "int outcome list"

record pipe_sys =
  p_dev :: scull_pipe
  p_mutex :: "nat option"
  p_threads :: "pipe_proc list"
  p_params :: scull_params

definition p_set :: "nat \<Rightarrow> pipe_proc \<Rightarrow> pipe_sys \<Rightarrow> pipe_sys" where
  "p_set i t s = s\<lparr>p_threads := (p_threads s)[i := t]\<rparr>"

definition p_answer :: "int outcome \<Rightarrow> pipe_proc \<Rightarrow> pipe_proc" where
  "p_answer r t = t\<lparr>p_pc := P_idle, p_answers := p_answers t @ [r]\<rparr>"

fun is_read :: "pipe_call \<Rightarrow> bool" where
  "is_read (Read_p count fault) = True"
| "is_read _ = False"

text \<open>The condition of the loops and of the waits in them: a reader needs data, a writer space.\<close>

fun must_wait :: "pipe_call \<Rightarrow> scull_pipe \<Rightarrow> bool option" where
  "must_wait (Read_p count fault) dev = Some (rp dev = wp dev)"
| "must_wait (Write_p left src) dev = map_option (\<lambda>free. free = 0) (spacefree dev)"
| "must_wait (Open_p fread fwrite) dev = Some False"

subsection \<open>Turns\<close>

text \<open>A turn gives the state after it, the bytes put into the pipe and the bytes taken out; \<open>None\<close>: the process cannot go on.\<close>

type_synonym pipe_result = "(pipe_sys \<times> cell list \<times> cell list) option"

definition begin_turn :: "nat \<Rightarrow> pipe_proc \<Rightarrow> pipe_sys \<Rightarrow> pipe_result" where
  "begin_turn i t s =
     (case p_todo t of
        [] \<Rightarrow> None
      | c # cs \<Rightarrow> Some (p_set i (t\<lparr>p_now := c, p_todo := cs, p_pc := P_entry\<rparr>) s, [], []))"

text \<open>Opening holds the mutex from its start to its end.\<close>

definition lock_turn :: "nat \<Rightarrow> pipe_proc \<Rightarrow> pipe_sys \<Rightarrow> pipe_result" where
  "lock_turn i t s =
     (if p_mutex s \<noteq> None then None
      else (case p_now t of
          Open_p fread fwrite \<Rightarrow>
            (let (dev, r) = scull_p_open False True (p_params s) fread fwrite (p_dev s)
             in Some (p_set i (p_answer r t) (s\<lparr>p_dev := dev\<rparr>), [], []))
        | _ \<Rightarrow> Some (p_set i (t\<lparr>p_pc := P_locked\<rparr>) (s\<lparr>p_mutex := Some i\<rparr>), [], [])))"

text \<open>The test of the loop, and the mutex released when the process has to wait.\<close>

definition test_turn :: "nat \<Rightarrow> pipe_proc \<Rightarrow> pipe_sys \<Rightarrow> pipe_result" where
  "test_turn i t s = do {
     wait \<leftarrow> must_wait (p_now t) (p_dev s);
     Some (if \<not> wait then p_set i (t\<lparr>p_pc := P_copy\<rparr>) s
           else if p_nonblock t then p_set i (p_answer (Fail EAGAIN) t) (s\<lparr>p_mutex := None\<rparr>)
           else p_set i (t\<lparr>p_pc := P_check\<rparr>) (s\<lparr>p_mutex := None\<rparr>), [], []) }"

definition copy_turn :: "nat \<Rightarrow> pipe_proc \<Rightarrow> pipe_sys \<Rightarrow> pipe_result" where
  "copy_turn i t s =
     (case p_now t of
        Read_p count fault \<Rightarrow>
          (case scull_p_take fault count (p_dev s) of
             Some (dev, Ret got) \<Rightarrow>
               Some (p_set i (t\<lparr>p_pc := P_wake (int (length got))\<rparr>) (s\<lparr>p_dev := dev, p_mutex := None\<rparr>), [], got)
           | Some (dev, Fail e) \<Rightarrow> Some (p_set i (p_answer (Fail e) t) (s\<lparr>p_dev := dev, p_mutex := None\<rparr>), [], [])
           | _ \<Rightarrow> None)
      | Write_p left src \<Rightarrow>
          (case scull_p_put left src (p_dev s) of
             Some (dev, Ret n) \<Rightarrow>
               Some (p_set i (t\<lparr>p_pc := P_wake n\<rparr>) (s\<lparr>p_dev := dev, p_mutex := None\<rparr>), map Some (take (nat n) src), [])
           | Some (dev, Fail e) \<Rightarrow> Some (p_set i (p_answer (Fail e) t) (s\<lparr>p_dev := dev, p_mutex := None\<rparr>), [], [])
           | _ \<Rightarrow> None)
      | Open_p fread fwrite \<Rightarrow> None)"

definition check_turn :: "nat \<Rightarrow> pipe_proc \<Rightarrow> pipe_sys \<Rightarrow> pipe_result" where
  "check_turn i t s = do {
     wait \<leftarrow> must_wait (p_now t) (p_dev s);
     Some (p_set i (t\<lparr>p_pc := (if wait then P_asleep else P_relock)\<rparr>) s, [], []) }"

text \<open>A woken reader tests again, a woken writer goes for the mutex.\<close>

definition wake_proc :: "bool \<Rightarrow> pipe_proc \<Rightarrow> pipe_proc" where
  "wake_proc readers t =
     (if p_pc t = P_asleep \<and> is_read (p_now t) = readers then t\<lparr>p_pc := (if readers then P_check else P_relock)\<rparr> else t)"

text \<open>Readers wake the sleeping writers, writers the sleeping readers.\<close>

definition wake_turn :: "nat \<Rightarrow> pipe_proc \<Rightarrow> int \<Rightarrow> pipe_sys \<Rightarrow> pipe_result" where
  "wake_turn i t n s =
     Some (p_set i (p_answer (Ret n) t) (s\<lparr>p_threads := map (wake_proc (\<not> is_read (p_now t))) (p_threads s)\<rparr>), [], [])"

definition pipe_turn :: "nat \<Rightarrow> pipe_sys \<Rightarrow> pipe_result" where
  "pipe_turn i s =
     (let t = p_threads s ! i in
      case p_pc t of
        P_idle \<Rightarrow> begin_turn i t s
      | P_entry \<Rightarrow> lock_turn i t s
      | P_locked \<Rightarrow> test_turn i t s
      | P_copy \<Rightarrow> copy_turn i t s
      | P_check \<Rightarrow> check_turn i t s
      | P_asleep \<Rightarrow> None
      | P_relock \<Rightarrow> lock_turn i t s
      | P_wake n \<Rightarrow> wake_turn i t n s)"

text \<open>A signal ends a call where the process waits for the mutex or sleeps.\<close>

datatype pipe_event = Turn nat "cell list" "cell list" | Interrupt nat

inductive pipe_goes :: "pipe_sys \<Rightarrow> pipe_event \<Rightarrow> pipe_sys \<Rightarrow> bool" where
  goes_turn: "i < length (p_threads s) \<Longrightarrow> pipe_turn i s = Some (t, put, got) \<Longrightarrow> pipe_goes s (Turn i put got) t"
| goes_signal: "i < length (p_threads s) \<Longrightarrow> p_pc (p_threads s ! i) \<in> {P_entry, P_relock, P_check, P_asleep} \<Longrightarrow>
    pipe_goes s (Interrupt i) (p_set i (p_answer (Fail ERESTARTSYS) (p_threads s ! i)) s)"

inductive_cases goes_turnE: "pipe_goes s (Turn i put got) t"
inductive_cases goes_signalE: "pipe_goes s (Interrupt i) t"

definition pipe_stuck :: "pipe_sys \<Rightarrow> bool" where
  "pipe_stuck s \<longleftrightarrow> (\<forall>i < length (p_threads s). pipe_turn i s = None)"

text \<open>An open pipe and the calls that the processes are going to make.\<close>

definition pipe_start :: "scull_params \<Rightarrow> scull_pipe \<Rightarrow> (bool \<times> pipe_call list) list \<Rightarrow> pipe_sys" where
  "pipe_start p dev procs =
     \<lparr>p_dev = dev, p_mutex = None,
      p_threads = map (\<lambda>(nonblock, calls). \<lparr>p_pc = P_idle, p_now = Read_p 0 False, p_nonblock = nonblock, p_todo = calls,
        p_answers = []\<rparr>) procs, p_params = p\<rparr>"

subsection \<open>No wake-up is lost\<close>

fun call_ok :: "pipe_call \<Rightarrow> bool" where
  "call_ok (Read_p count fault) \<longleftrightarrow> 0 \<le> count"
| "call_ok (Write_p left src) \<longleftrightarrow> True"
| "call_ok (Open_p fread fwrite) \<longleftrightarrow> False"

definition holds :: "pipe_pc \<Rightarrow> bool" where
  "holds pc \<longleftrightarrow> pc = P_locked \<or> pc = P_copy"

definition proc_ok :: "scull_pipe \<Rightarrow> nat option \<Rightarrow> nat \<Rightarrow> pipe_proc \<Rightarrow> bool" where
  "proc_ok dev m i t \<longleftrightarrow> (holds (p_pc t) \<longleftrightarrow> m = Some i) \<and> call_ok (p_now t) \<and> list_all call_ok (p_todo t) \<and>
     (p_pc t = P_copy \<longrightarrow> must_wait (p_now t) dev = Some False)"

text \<open>Who sleeps although its condition holds is about to be woken.\<close>

definition waker :: "bool \<Rightarrow> pipe_proc \<Rightarrow> bool" where
  "waker readers t \<longleftrightarrow> (\<exists>n. p_pc t = P_wake n) \<and> is_read (p_now t) \<noteq> readers"

definition wakes_due :: "scull_pipe \<Rightarrow> pipe_proc list \<Rightarrow> bool" where
  "wakes_due dev ts \<longleftrightarrow>
     (\<forall>t \<in> set ts. p_pc t = P_asleep \<and> must_wait (p_now t) dev = Some False \<longrightarrow> (\<exists>u \<in> set ts. waker (is_read (p_now t)) u))"

definition pipe_sys_inv :: "pipe_sys \<Rightarrow> bool" where
  "pipe_sys_inv s \<longleftrightarrow> pipe_inv (p_dev s) \<and> 1 < buffersize (p_dev s) \<and>
     (\<forall>i. p_mutex s = Some i \<longrightarrow> i < length (p_threads s)) \<and>
     (\<forall>i < length (p_threads s). proc_ok (p_dev s) (p_mutex s) i (p_threads s ! i)) \<and> wakes_due (p_dev s) (p_threads s)"

lemma must_wait_contents:
  assumes "pipe_inv dev" "call_ok c"
  shows "must_wait c dev =
    Some (if is_read c then pipe_contents dev = [] else int (length (pipe_contents dev)) = buffersize dev - 1)"
  using assms spacefree_ok[OF assms(1)] contents_empty[OF assms(1)] by (cases c) auto

lemma must_wait_kind:
  assumes "pipe_inv dev" "call_ok c" "call_ok d" "is_read c = is_read d"
  shows "must_wait c dev = must_wait d dev"
  using assms by (simp add: must_wait_contents)

lemma take_size: "scull_p_take fault count dev = Some (dev', r) \<Longrightarrow> buffersize dev' = buffersize dev"
  by (cases "pbuf dev") (auto simp: scull_p_take_def Let_def split: if_split_asm)

lemma put_size:
  assumes "scull_p_put left src dev = Some (dev', r)"
  shows "buffersize dev' = buffersize dev"
proof -
  obtain free where f: "spacefree dev = Some free" using assms by (cases "spacefree dev") (simp_all add: scull_p_put_def)
  obtain blk where b: "pbuf dev = Some blk"
    using assms f by (cases "pbuf dev") (simp_all add: scull_p_put_def Let_def)
  have "\<exists>n X A B. scull_p_put left src dev =
      (if X then None else if A then Some (dev\<lparr>pbuf := B\<rparr>, Fail EFAULT)
       else Some (dev\<lparr>pbuf := B, wp := if wp dev + n = pend dev then 0 else wp dev + n\<rparr>, Ret n))"
    unfolding scull_p_put_def f b Option.bind.simps option.case Let_def by (intro exI) simp
  then obtain n X A B where "scull_p_put left src dev =
      (if X then None else if A then Some (dev\<lparr>pbuf := B\<rparr>, Fail EFAULT)
       else Some (dev\<lparr>pbuf := B, wp := if wp dev + n = pend dev then 0 else wp dev + n\<rparr>, Ret n))" by blast
  then show ?thesis using assms by (simp split: if_splits)
qed

lemma p_set_simps [simp]:
  "p_dev (p_set i t s) = p_dev s" "p_mutex (p_set i t s) = p_mutex s" "p_threads (p_set i t s) = (p_threads s)[i := t]"
  "p_params (p_set i t s) = p_params s"
  by (simp_all add: p_set_def)

lemma p_answer_simps [simp]:
  "p_pc (p_answer r t) = P_idle" "p_now (p_answer r t) = p_now t" "p_todo (p_answer r t) = p_todo t"
  "p_answers (p_answer r t) = p_answers t @ [r]"
  by (simp_all add: p_answer_def)

lemma holds_simps [simp]:
  "holds P_locked" "holds P_copy" "\<not> holds P_idle" "\<not> holds P_entry" "\<not> holds P_check" "\<not> holds P_asleep" "\<not> holds P_relock"
  "\<not> holds (P_wake n)"
  by (simp_all add: holds_def)

lemma wakes_due_update:
  assumes "wakes_due dev ts" "i < length ts" "\<And>n. p_pc (ts ! i) \<noteq> P_wake n"
    and "p_pc t = P_asleep \<Longrightarrow> must_wait (p_now t) dev \<noteq> Some False"
  shows "wakes_due dev (ts[i := t])"
  unfolding wakes_due_def
proof (intro ballI impI)
  fix u assume u: "u \<in> set (ts[i := t])" "p_pc u = P_asleep \<and> must_wait (p_now u) dev = Some False"
  then have "u \<in> set ts" using assms(4) set_update_subset_insert[of ts i t] by auto
  then obtain w where w: "w \<in> set ts" "waker (is_read (p_now u)) w" using assms(1) u(2) by (auto simp: wakes_due_def)
  moreover have "w \<noteq> ts ! i" using w(2) assms(3) by (auto simp: waker_def)
  ultimately have "w \<in> set (ts[i := t])" by (metis in_set_conv_nth length_list_update nth_list_update_neq)
  then show "\<exists>w \<in> set (ts[i := t]). waker (is_read (p_now u)) w" using w(2) by blast
qed

text \<open>A step that leaves the pipe as it is.\<close>

lemma inv_local:
  assumes inv: "pipe_sys_inv s" and i: "i < length (p_threads s)" and ok: "proc_ok (p_dev s) m i t"
    and m: "m = p_mutex s \<or> p_mutex s = None \<and> m = Some i \<or> p_mutex s = Some i \<and> m = None"
    and pc: "\<And>n. p_pc (p_threads s ! i) \<noteq> P_wake n"
    and sleep: "p_pc t = P_asleep \<Longrightarrow> must_wait (p_now t) (p_dev s) \<noteq> Some False"
  shows "pipe_sys_inv (p_set i t (s\<lparr>p_mutex := m\<rparr>))"
proof -
  have "proc_ok (p_dev s) m j ((p_threads s)[i := t] ! j)" if "j < length (p_threads s)" for j
  proof (cases "j = i")
    case False
    have "(m = Some j) = (p_mutex s = Some j)" using m False by auto
    then show ?thesis using inv that False by (simp add: pipe_sys_inv_def proc_ok_def)
  qed (use ok i in simp)
  moreover have "wakes_due (p_dev s) ((p_threads s)[i := t])"
    using inv i pc sleep by (intro wakes_due_update) (auto simp: pipe_sys_inv_def)
  ultimately show ?thesis using inv m i by (auto simp: pipe_sys_inv_def)
qed

lemma inv_same_lock:
  assumes "pipe_sys_inv s" "i < length (p_threads s)" "proc_ok (p_dev s) (p_mutex s) i t"
    "\<And>n. p_pc (p_threads s ! i) \<noteq> P_wake n" "p_pc t = P_asleep \<Longrightarrow> must_wait (p_now t) (p_dev s) \<noteq> Some False"
  shows "pipe_sys_inv (p_set i t s)"
  using inv_local[OF assms(1-3) _ assms(4,5)] by simp

text \<open>A transfer, after which the process wakes the others, or a fault, which changes no condition.\<close>

lemma inv_copy:
  assumes inv: "pipe_sys_inv s" and i: "i < length (p_threads s)" and pc: "p_pc (p_threads s ! i) = P_copy"
    and dev: "pipe_inv dev" "buffersize dev = buffersize (p_dev s)"
    and t: "p_now t = p_now (p_threads s ! i)" "p_todo t = p_todo (p_threads s ! i)"
    and done_: "(\<exists>n. p_pc t = P_wake n) \<or> p_pc t = P_idle \<and> pipe_contents dev = pipe_contents (p_dev s)"
  shows "pipe_sys_inv (p_set i t (s\<lparr>p_dev := dev, p_mutex := None\<rparr>))"
proof -
  let ?ts = "p_threads s" and ?ok = "proc_ok (p_dev s) (p_mutex s)"
  have ok: "?ok j (?ts ! j)" if "j < length ?ts" for j using inv that by (simp add: pipe_sys_inv_def)
  have m: "p_mutex s = Some i" using ok[OF i] pc by (simp add: proc_ok_def)
  have "proc_ok dev None j (?ts[i := t] ! j)" if j: "j < length ?ts" for j
  proof (cases "j = i")
    case True
    then show ?thesis using ok[OF i] i t done_ by (auto simp: proc_ok_def)
  next
    case False
    then have "\<not> holds (p_pc (?ts ! j))" using ok[OF j] m by (simp add: proc_ok_def)
    then show ?thesis using ok[OF j] False by (auto simp: proc_ok_def)
  qed
  moreover have "wakes_due dev (?ts[i := t])"
    unfolding wakes_due_def
  proof (intro ballI impI)
    fix u assume u: "u \<in> set (?ts[i := t])" "p_pc u = P_asleep \<and> must_wait (p_now u) dev = Some False"
    then have "u \<noteq> t" using done_ by auto
    then have uts: "u \<in> set ?ts" using u(1) set_update_subset_insert[of ?ts i t] by auto
    then have cu: "call_ok (p_now u)" using ok by (metis in_set_conv_nth proc_ok_def)
    have ci: "call_ok (p_now (?ts ! i))" "must_wait (p_now (?ts ! i)) (p_dev s) = Some False"
      using ok[OF i] pc by (simp_all add: proc_ok_def)
    have inv0: "pipe_inv (p_dev s)" using inv by (simp add: pipe_sys_inv_def)
    show "\<exists>w \<in> set (?ts[i := t]). waker (is_read (p_now u)) w"
    proof (cases "must_wait (p_now u) (p_dev s) = Some False")
      case True
      then obtain w where w: "w \<in> set ?ts" "waker (is_read (p_now u)) w"
        using inv u(2) uts by (auto simp: pipe_sys_inv_def wakes_due_def)
      moreover have "w \<noteq> ?ts ! i" using w(2) pc by (auto simp: waker_def)
      ultimately have "w \<in> set (?ts[i := t])" by (metis in_set_conv_nth length_list_update nth_list_update_neq)
      then show ?thesis using w(2) by blast
    next
      case False
      have same: "must_wait (p_now u) dev = must_wait (p_now u) (p_dev s)" if "pipe_contents dev = pipe_contents (p_dev s)"
        using must_wait_contents[OF dev(1) cu] must_wait_contents[OF inv0 cu] dev(2) that by simp
      have "is_read (p_now u) \<noteq> is_read (p_now (?ts ! i))" using False must_wait_kind[OF inv0 cu ci(1)] ci(2) by auto
      moreover have "\<exists>n. p_pc t = P_wake n"
        using done_ False u(2) same by auto
      ultimately have "waker (is_read (p_now u)) t" using t(1) by (auto simp: waker_def)
      then show ?thesis using set_update_memI[OF i] by blast
    qed
  qed
  ultimately show ?thesis using inv dev by (simp add: pipe_sys_inv_def)
qed

text \<open>The wake-up.\<close>

lemma inv_wake:
  assumes inv: "pipe_sys_inv s" and i: "i < length (p_threads s)" and pc: "p_pc (p_threads s ! i) = P_wake n"
    and turn: "wake_turn i (p_threads s ! i) n s = Some (s', put, got)"
  shows "pipe_sys_inv s'"
proof -
  let ?ts = "p_threads s" and ?b = "\<not> is_read (p_now (p_threads s ! i))"
  let ?us = "(map (wake_proc ?b) ?ts)[i := p_answer (Ret n) (?ts ! i)]"
  have s': "s' = p_set i (p_answer (Ret n) (?ts ! i)) (s\<lparr>p_threads := map (wake_proc ?b) ?ts\<rparr>)"
    using turn by (simp add: wake_turn_def)
  have ok: "proc_ok (p_dev s) (p_mutex s) j (?ts ! j)" if "j < length ?ts" for j
    using inv that by (simp add: pipe_sys_inv_def)
  have "proc_ok (p_dev s) (p_mutex s) j (?us ! j)" if "j < length ?ts" for j
  proof (cases "j = i")
    case True
    then show ?thesis using ok[OF i] i pc by (simp add: proc_ok_def)
  next
    case False
    then show ?thesis using ok[OF that] that by (auto simp: proc_ok_def wake_proc_def)
  qed
  moreover have "wakes_due (p_dev s) ?us"
    unfolding wakes_due_def
  proof (intro ballI impI)
    fix u assume u: "u \<in> set ?us" "p_pc u = P_asleep \<and> must_wait (p_now u) (p_dev s) = Some False"
    then have "u \<in> set (map (wake_proc ?b) ?ts)"
      using set_update_subset_insert[of "map (wake_proc ?b) ?ts" i "p_answer (Ret n) (?ts ! i)"] by auto
    then obtain v where v: "v \<in> set ?ts" "u = wake_proc ?b v" by auto
    then have uv: "u = v" "is_read (p_now u) \<noteq> ?b" using u(2) by (auto simp: wake_proc_def split: if_splits)
    then obtain w where w: "w \<in> set ?ts" "waker (is_read (p_now u)) w"
      using inv u(2) v(1) by (auto simp: pipe_sys_inv_def wakes_due_def)
    then obtain j where j: "j < length ?ts" "w = ?ts ! j" by (metis in_set_conv_nth)
    have "j \<noteq> i" using w(2) j uv(2) by (auto simp: waker_def)
    moreover have "wake_proc ?b w = w" using w(2) by (auto simp: waker_def wake_proc_def)
    ultimately have "?us ! j = w" using j by simp
    then have "w \<in> set ?us" using j by (metis length_list_update length_map nth_mem)
    then show "\<exists>w \<in> set ?us. waker (is_read (p_now u)) w" using w(2) by blast
  qed
  ultimately show ?thesis using inv by (simp add: s' pipe_sys_inv_def)
qed

subsection \<open>Turns keep the invariant\<close>

lemma inv_proc:
  assumes "pipe_sys_inv s" "i < length (p_threads s)"
  shows "pipe_inv (p_dev s)" "1 < buffersize (p_dev s)" "proc_ok (p_dev s) (p_mutex s) i (p_threads s ! i)"
    "\<exists>w. must_wait (p_now (p_threads s ! i)) (p_dev s) = Some w"
proof -
  show d: "pipe_inv (p_dev s)" and "1 < buffersize (p_dev s)" and ok: "proc_ok (p_dev s) (p_mutex s) i (p_threads s ! i)"
    using assms by (simp_all add: pipe_sys_inv_def)
  show "\<exists>w. must_wait (p_now (p_threads s ! i)) (p_dev s) = Some w"
    using must_wait_contents[OF d] ok by (auto simp: proc_ok_def)
qed

lemma turn_lock:
  assumes inv: "pipe_sys_inv s" and i: "i < length (p_threads s)" and pc: "p_pc (p_threads s ! i) \<in> {P_entry, P_relock}"
    and turn: "lock_turn i (p_threads s ! i) s = Some (s', put, got)"
  shows "pipe_sys_inv s'" "s' = p_set i ((p_threads s ! i)\<lparr>p_pc := P_locked\<rparr>) (s\<lparr>p_mutex := Some i\<rparr>)" "put = []" "got = []"
proof -
  note ok = inv_proc(3)[OF inv i]
  have free: "p_mutex s = None" using turn by (simp add: lock_turn_def split: if_splits)
  show s': "s' = p_set i ((p_threads s ! i)\<lparr>p_pc := P_locked\<rparr>) (s\<lparr>p_mutex := Some i\<rparr>)" "put = []" "got = []"
    using turn free ok by (cases "p_now (p_threads s ! i)"; simp add: lock_turn_def proc_ok_def)+
  show "pipe_sys_inv s'" unfolding s'(1)
    using pc free ok by (intro inv_local[OF inv i]) (auto simp: proc_ok_def)
qed

lemma turn_test:
  assumes inv: "pipe_sys_inv s" and i: "i < length (p_threads s)" and pc: "p_pc (p_threads s ! i) = P_locked"
    and turn: "test_turn i (p_threads s ! i) s = Some (s', put, got)"
  shows "pipe_sys_inv s'"
proof -
  note ok = inv_proc(3)[OF inv i]
  have m: "p_mutex s = Some i" using ok pc by (simp add: proc_ok_def)
  obtain w where w: "must_wait (p_now (p_threads s ! i)) (p_dev s) = Some w" using inv_proc(4)[OF inv i] by blast
  show ?thesis
  proof (cases w)
    case False
    then have "s' = p_set i ((p_threads s ! i)\<lparr>p_pc := P_copy\<rparr>) s" using turn w by (simp add: test_turn_def)
    then show ?thesis using ok pc w False by (auto intro!: inv_same_lock[OF inv i] simp: proc_ok_def)
  next
    case True
    let ?t = "p_threads s ! i"
    let ?u = "if p_nonblock ?t then p_answer (Fail EAGAIN) ?t else ?t\<lparr>p_pc := P_check\<rparr>"
    have "s' = p_set i ?u (s\<lparr>p_mutex := None\<rparr>)" using turn w True by (simp add: test_turn_def split: if_splits)
    then show ?thesis using ok pc m by (auto intro!: inv_local[OF inv i] simp: proc_ok_def)
  qed
qed

lemma turn_check:
  assumes inv: "pipe_sys_inv s" and i: "i < length (p_threads s)" and pc: "p_pc (p_threads s ! i) = P_check"
    and turn: "check_turn i (p_threads s ! i) s = Some (s', put, got)"
  shows "pipe_sys_inv s'"
proof -
  note ok = inv_proc(3)[OF inv i]
  obtain w where w: "must_wait (p_now (p_threads s ! i)) (p_dev s) = Some w" using inv_proc(4)[OF inv i] by blast
  then have "s' = p_set i ((p_threads s ! i)\<lparr>p_pc := (if w then P_asleep else P_relock)\<rparr>) s"
    using turn by (simp add: check_turn_def)
  then show ?thesis using ok pc w by (auto intro!: inv_same_lock[OF inv i] simp: proc_ok_def)
qed

lemma turn_copy:
  assumes inv: "pipe_sys_inv s" and i: "i < length (p_threads s)" and pc: "p_pc (p_threads s ! i) = P_copy"
  obtains dev t put got where "copy_turn i (p_threads s ! i) s = Some (p_set i t (s\<lparr>p_dev := dev, p_mutex := None\<rparr>), put, got)"
    "pipe_inv dev" "buffersize dev = buffersize (p_dev s)" "pipe_contents (p_dev s) @ put = got @ pipe_contents dev"
    "p_now t = p_now (p_threads s ! i)" "p_todo t = p_todo (p_threads s ! i)"
    "(\<exists>n. p_pc t = P_wake n) \<or> p_pc t = P_idle \<and> pipe_contents dev = pipe_contents (p_dev s)"
proof -
  let ?t = "p_threads s ! i" and ?d = "p_dev s"
  note ok = inv_proc(3)[OF inv i] and d = inv_proc(1)[OF inv i]
  have now: "call_ok (p_now ?t)" "must_wait (p_now ?t) ?d = Some False" using ok pc by (simp_all add: proc_ok_def)
  show thesis
  proof (cases "p_now ?t")
    case (Read_p count fault)
    have ne: "rp ?d \<noteq> wp ?d" "0 \<le> count" using now Read_p by simp_all
    obtain dev got where tk: "scull_p_take fault count ?d = Some (dev, Ret got) \<and> pipe_inv dev \<and>
        pipe_contents ?d = got @ pipe_contents dev \<or> scull_p_take fault count ?d = Some (dev, Fail EFAULT) \<and> dev = ?d"
    proof (cases fault)
      case True
      then show thesis using take_ok(2)[OF d ne] that[of ?d "[]"] d by auto
    next
      case False
      then show thesis using take_ok(1)[OF d ne] that by auto
    qed
    then show thesis
    proof
      assume a: "scull_p_take fault count ?d = Some (dev, Ret got) \<and> pipe_inv dev \<and> pipe_contents ?d = got @ pipe_contents dev"
      show thesis
        by (rule that[of "?t\<lparr>p_pc := P_wake (int (length got))\<rparr>" dev "[]" got])
          (use a take_size in \<open>auto simp: copy_turn_def Read_p\<close>)
    next
      assume a: "scull_p_take fault count ?d = Some (dev, Fail EFAULT) \<and> dev = ?d"
      show thesis
        by (rule that[of "p_answer (Fail EFAULT) ?t" ?d "[]" "[]"]) (use a d in \<open>auto simp: copy_turn_def Read_p\<close>)
    qed
  next
    case (Write_p left src)
    obtain dev r where pt: "scull_p_put left src ?d = Some (dev, r)" "pipe_inv dev"
      "case r of Ret v \<Rightarrow> 0 \<le> v \<and> v \<le> int (length src) \<and> pipe_contents dev = pipe_contents ?d @ map Some (take (nat v) src) \<and>
           (src \<noteq> [] \<and> int (length (pipe_contents ?d)) < buffersize ?d - 1 \<longrightarrow> 0 < v)
         | Fail e \<Rightarrow> e = EFAULT \<and> 0 < left \<and> pipe_contents dev = pipe_contents ?d | Blocked \<Rightarrow> False"
      using put_ok[OF d, of left src] by blast
    show thesis
    proof (cases r)
      case (Ret v)
      show thesis
        by (rule that[of "?t\<lparr>p_pc := P_wake v\<rparr>" dev "map Some (take (nat v) src)" "[]"])
          (use pt put_size[OF pt(1)] in \<open>auto simp: copy_turn_def Write_p Ret\<close>)
    next
      case (Fail e)
      show thesis
        by (rule that[of "p_answer (Fail e) ?t" dev "[]" "[]"])
          (use pt put_size[OF pt(1)] in \<open>auto simp: copy_turn_def Write_p Fail\<close>)
    qed (use pt in simp)
  next
    case (Open_p fread fwrite)
    then show thesis using now by simp
  qed
qed

lemma turn_inv:
  assumes inv: "pipe_sys_inv s" and i: "i < length (p_threads s)" and turn: "pipe_turn i s = Some (s', put, got)"
  shows "pipe_sys_inv s' \<and> pipe_contents (p_dev s) @ put = got @ pipe_contents (p_dev s') \<and>
    length (p_threads s') = length (p_threads s)"
proof -
  let ?t = "p_threads s ! i"
  note ok = inv_proc(3)[OF inv i]
  obtain w where w: "must_wait (p_now ?t) (p_dev s) = Some w" using inv_proc(4)[OF inv i] by blast
  show ?thesis
  proof (cases "p_pc ?t")
    case P_idle
    then obtain c cs where c: "p_todo ?t = c # cs" using turn
      by (cases "p_todo ?t") (auto simp: pipe_turn_def begin_turn_def)
    then have s': "s' = p_set i (?t\<lparr>p_now := c, p_todo := cs, p_pc := P_entry\<rparr>) s" "put = []" "got = []"
      using turn P_idle by (simp_all add: pipe_turn_def begin_turn_def)
    moreover have "pipe_sys_inv s'" unfolding s'
      using ok P_idle c by (intro inv_same_lock[OF inv i]) (auto simp: proc_ok_def)
    ultimately show ?thesis by simp
  next
    case P_entry
    then have "lock_turn i ?t s = Some (s', put, got)" using turn by (simp add: pipe_turn_def)
    from turn_lock[OF inv i _ this] P_entry show ?thesis by simp
  next
    case P_relock
    then have "lock_turn i ?t s = Some (s', put, got)" using turn by (simp add: pipe_turn_def)
    from turn_lock[OF inv i _ this] P_relock show ?thesis by simp
  next
    case P_locked
    then have a: "test_turn i ?t s = Some (s', put, got)" using turn by (simp add: pipe_turn_def)
    then show ?thesis using turn_test[OF inv i P_locked a] w by (auto simp: test_turn_def)
  next
    case P_check
    then have a: "check_turn i ?t s = Some (s', put, got)" using turn by (simp add: pipe_turn_def)
    then show ?thesis using turn_check[OF inv i P_check a] w by (auto simp: check_turn_def)
  next
    case P_copy
    obtain dev t put' got' where c: "copy_turn i ?t s = Some (p_set i t (s\<lparr>p_dev := dev, p_mutex := None\<rparr>), put', got')"
      "pipe_inv dev" "buffersize dev = buffersize (p_dev s)" "pipe_contents (p_dev s) @ put' = got' @ pipe_contents dev"
      "p_now t = p_now ?t" "p_todo t = p_todo ?t"
      "(\<exists>n. p_pc t = P_wake n) \<or> p_pc t = P_idle \<and> pipe_contents dev = pipe_contents (p_dev s)"
      by (rule turn_copy[OF inv i P_copy])
    have "pipe_sys_inv (p_set i t (s\<lparr>p_dev := dev, p_mutex := None\<rparr>))" by (rule inv_copy[OF inv i P_copy c(2,3,5-7)])
    then show ?thesis using turn c(1,4) P_copy by (auto simp: pipe_turn_def)
  next
    case P_asleep
    then show ?thesis using turn by (simp add: pipe_turn_def)
  next
    case (P_wake n)
    then have a: "wake_turn i ?t n s = Some (s', put, got)" using turn by (simp add: pipe_turn_def)
    then show ?thesis using inv_wake[OF inv i P_wake a] by (auto simp: wake_turn_def)
  qed
qed

text \<open>Who cannot go on has finished, sleeps or waits for the mutex.\<close>

lemma turn_none:
  assumes inv: "pipe_sys_inv s" and i: "i < length (p_threads s)" and turn: "pipe_turn i s = None"
  shows "p_pc (p_threads s ! i) = P_idle \<and> p_todo (p_threads s ! i) = [] \<or> p_pc (p_threads s ! i) = P_asleep \<or>
    p_mutex s \<noteq> None \<and> p_mutex s \<noteq> Some i"
proof -
  let ?t = "p_threads s ! i"
  note ok = inv_proc(3)[OF inv i]
  obtain w where w: "must_wait (p_now ?t) (p_dev s) = Some w" using inv_proc(4)[OF inv i] by blast
  have lock: "p_mutex s \<noteq> None \<and> p_mutex s \<noteq> Some i" if "p_pc ?t = P_entry \<or> p_pc ?t = P_relock"
    using that turn ok by (cases "p_now ?t") (auto simp: pipe_turn_def lock_turn_def proc_ok_def Let_def split: if_splits)
  show ?thesis
  proof (cases "p_pc ?t")
    case P_idle
    then show ?thesis using turn by (cases "p_todo ?t") (simp_all add: pipe_turn_def begin_turn_def)
  next
    case P_copy
    have "copy_turn i ?t s \<noteq> None" by (rule turn_copy[OF inv i P_copy]) simp
    then show ?thesis using turn P_copy by (simp add: pipe_turn_def)
  qed (use turn w lock in \<open>simp_all add: pipe_turn_def Let_def test_turn_def check_turn_def wake_turn_def\<close>)
qed

lemma goes_inv:
  assumes "pipe_sys_inv s" "pipe_goes s l t"
  shows "pipe_sys_inv t"
  using assms(2)
proof cases
  case (goes_turn i put got)
  then show ?thesis using turn_inv[OF assms(1)] by blast
next
  case (goes_signal i)
  then show ?thesis using inv_proc(3)[OF assms(1) goes_signal(3)]
    by (auto intro!: inv_same_lock[OF assms(1)] simp: proc_ok_def)
qed

subsection \<open>Every schedule ends\<close>

text \<open>
  What a process can still do, among \<open>n\<close>: a transfer pays for the tests that the others repeat because of it, and so does the wake-up
  after it. A process whose condition holds has a step more before it than one that is about to sleep.
\<close>

fun pc_weight :: "nat \<Rightarrow> bool \<Rightarrow> pipe_pc \<Rightarrow> nat" where
  "pc_weight n ready P_idle = 0"
| "pc_weight n ready P_entry = 8 * n + 14"
| "pc_weight n ready P_locked = 8 * n + 13"
| "pc_weight n ready P_copy = 8 * n + 12"
| "pc_weight n ready P_check = 8 * n + (if ready then 15 else 12)"
| "pc_weight n ready P_asleep = 8 * n + 11"
| "pc_weight n ready P_relock = 8 * n + 14"
| "pc_weight n ready (P_wake v) = 4 * n + 1"

definition proc_weight :: "nat \<Rightarrow> scull_pipe \<Rightarrow> pipe_proc \<Rightarrow> nat" where
  "proc_weight n dev t = pc_weight n (must_wait (p_now t) dev = Some False) (p_pc t) + (8 * n + 15) * length (p_todo t)"

definition pipe_weight :: "pipe_sys \<Rightarrow> nat" where
  "pipe_weight s = sum_list (map (proc_weight (length (p_threads s)) (p_dev s)) (p_threads s))"

lemma sum_list_less:
  fixes f :: "'a \<Rightarrow> nat"
  assumes "i < length xs" "f x + c < f (xs ! i)"
  shows "sum_list (map f (xs[i := x])) + c < sum_list (map f xs)"
proof -
  have "f (xs ! i) \<le> sum_list (map f xs)" using assms(1) by (simp add: member_le_sum_list)
  then show ?thesis using assms by (simp add: map_update sum_list_update)
qed

lemma sum_list_rise:
  fixes f g :: "'a \<Rightarrow> nat"
  shows "(\<And>x. x \<in> set xs \<Longrightarrow> g x \<le> f x + c) \<Longrightarrow> sum_list (map g xs) \<le> sum_list (map f xs) + c * length xs"
proof (induction xs)
  case (Cons x xs)
  have "g x \<le> f x + c" using Cons.prems by simp
  moreover have "sum_list (map g xs) \<le> sum_list (map f xs) + c * length xs" using Cons by simp
  ultimately show ?case by simp
qed simp

lemma weight_local:
  assumes "i < length (p_threads s)" "proc_weight (length (p_threads s)) (p_dev s) t <
      proc_weight (length (p_threads s)) (p_dev s) (p_threads s ! i)"
  shows "pipe_weight (p_set i t (s\<lparr>p_mutex := m\<rparr>)) < pipe_weight s"
  using sum_list_less[OF assms(1), of _ t 0] assms(2) by (simp add: pipe_weight_def)

lemma weight_same_lock:
  assumes "i < length (p_threads s)" "proc_weight (length (p_threads s)) (p_dev s) t <
      proc_weight (length (p_threads s)) (p_dev s) (p_threads s ! i)"
  shows "pipe_weight (p_set i t s) < pipe_weight s"
  using weight_local[OF assms, of "p_mutex s"] by simp

lemma proc_weight_dev: "proc_weight n dev' t \<le> proc_weight n dev t + 4"
  by (cases "p_pc t") (simp_all add: proc_weight_def)

lemma proc_weight_wake: "proc_weight n dev (wake_proc b t) \<le> proc_weight n dev t + 4"
  by (simp add: proc_weight_def wake_proc_def)

lemma weight_copy:
  assumes i: "i < length (p_threads s)" and pc: "p_pc (p_threads s ! i) = P_copy" and t: "p_todo t = p_todo (p_threads s ! i)"
    and done_: "(\<exists>n. p_pc t = P_wake n) \<or> p_pc t = P_idle"
  shows "pipe_weight (p_set i t (s\<lparr>p_dev := dev, p_mutex := None\<rparr>)) < pipe_weight s"
proof -
  let ?ts = "p_threads s" and ?n = "length (p_threads s)"
  have "proc_weight ?n (p_dev s) t + 4 * ?n < proc_weight ?n (p_dev s) (?ts ! i)"
    using pc t done_ by (auto simp: proc_weight_def)
  from sum_list_less[OF i this]
  have "sum_list (map (proc_weight ?n (p_dev s)) (?ts[i := t])) + 4 * ?n < pipe_weight s" by (simp add: pipe_weight_def)
  moreover have "sum_list (map (proc_weight ?n dev) (?ts[i := t])) \<le>
      sum_list (map (proc_weight ?n (p_dev s)) (?ts[i := t])) + 4 * length (?ts[i := t])"
    by (rule sum_list_rise) (rule proc_weight_dev)
  ultimately show ?thesis by (simp add: pipe_weight_def)
qed

lemma weight_wake:
  assumes i: "i < length (p_threads s)" and pc: "p_pc (p_threads s ! i) = P_wake v"
  shows "pipe_weight (p_set i (p_answer r (p_threads s ! i)) (s\<lparr>p_threads := map (wake_proc b) (p_threads s)\<rparr>)) < pipe_weight s"
proof -
  let ?ts = "p_threads s" and ?n = "length (p_threads s)" and ?f = "proc_weight (length (p_threads s)) (p_dev s)"
  have "wake_proc b (?ts ! i) = ?ts ! i" using pc by (simp add: wake_proc_def)
  then have "?f (p_answer r (?ts ! i)) + 4 * ?n < ?f (map (wake_proc b) ?ts ! i)"
    using i pc by (simp add: proc_weight_def)
  then have "sum_list (map ?f ((map (wake_proc b) ?ts)[i := p_answer r (?ts ! i)])) + 4 * ?n < sum_list (map ?f (map (wake_proc b) ?ts))"
    using i by (intro sum_list_less) simp_all
  moreover have "sum_list (map (\<lambda>t. ?f (wake_proc b t)) ?ts) \<le> sum_list (map ?f ?ts) + 4 * ?n"
    by (rule sum_list_rise) (rule proc_weight_wake)
  ultimately show ?thesis by (simp add: pipe_weight_def comp_def)
qed

lemma turn_weight:
  assumes inv: "pipe_sys_inv s" and i: "i < length (p_threads s)" and turn: "pipe_turn i s = Some (s', put, got)"
  shows "pipe_weight s' < pipe_weight s"
proof -
  let ?t = "p_threads s ! i" and ?n = "length (p_threads s)"
  note ok = inv_proc(3)[OF inv i]
  obtain w where w: "must_wait (p_now ?t) (p_dev s) = Some w" using inv_proc(4)[OF inv i] by blast
  have lock: "pipe_weight s' < pipe_weight s" if pc: "p_pc ?t \<in> {P_entry, P_relock}"
  proof -
    have "lock_turn i ?t s = Some (s', put, got)" using turn pc by (auto simp: pipe_turn_def Let_def)
    then have "s' = p_set i (?t\<lparr>p_pc := P_locked\<rparr>) (s\<lparr>p_mutex := Some i\<rparr>)" using turn_lock(2)[OF inv i pc] by blast
    then show ?thesis using pc by (auto intro!: weight_local[OF i] simp: proc_weight_def)
  qed
  show ?thesis
  proof (cases "p_pc ?t")
    case P_idle
    then obtain c cs where c: "p_todo ?t = c # cs" using turn
      by (cases "p_todo ?t") (auto simp: pipe_turn_def begin_turn_def)
    then have "s' = p_set i (?t\<lparr>p_now := c, p_todo := cs, p_pc := P_entry\<rparr>) s"
      using turn P_idle by (simp add: pipe_turn_def begin_turn_def)
    then show ?thesis using c P_idle by (auto intro!: weight_same_lock[OF i] simp: proc_weight_def)
  next
    case P_locked
    then have "s' = (if \<not> w then p_set i (?t\<lparr>p_pc := P_copy\<rparr>) s
        else p_set i (if p_nonblock ?t then p_answer (Fail EAGAIN) ?t else ?t\<lparr>p_pc := P_check\<rparr>) (s\<lparr>p_mutex := None\<rparr>))"
      using turn w by (auto simp: pipe_turn_def Let_def test_turn_def)
    then show ?thesis using P_locked w
      by (auto intro!: weight_local[OF i] weight_same_lock[OF i] simp: proc_weight_def)
  next
    case P_check
    then have "s' = p_set i (?t\<lparr>p_pc := (if w then P_asleep else P_relock)\<rparr>) s"
      using turn w by (simp add: pipe_turn_def Let_def check_turn_def)
    then show ?thesis using P_check w by (auto intro!: weight_same_lock[OF i] simp: proc_weight_def)
  next
    case P_copy
    obtain dev t put' got' where c: "copy_turn i ?t s = Some (p_set i t (s\<lparr>p_dev := dev, p_mutex := None\<rparr>), put', got')"
      "p_todo t = p_todo ?t"
      "(\<exists>n. p_pc t = P_wake n) \<or> p_pc t = P_idle \<and> pipe_contents dev = pipe_contents (p_dev s)"
      by (rule turn_copy[OF inv i P_copy])
    have "s' = p_set i t (s\<lparr>p_dev := dev, p_mutex := None\<rparr>)" using turn c(1) P_copy by (auto simp: pipe_turn_def)
    then show ?thesis using weight_copy[OF i P_copy c(2)] c(3) by blast
  next
    case (P_wake n)
    then show ?thesis using turn weight_wake[OF i P_wake] by (auto simp: pipe_turn_def Let_def wake_turn_def)
  qed (use turn lock in \<open>simp_all add: pipe_turn_def Let_def\<close>)
qed

lemma goes_weight:
  assumes "pipe_sys_inv s" "pipe_goes s l t"
  shows "pipe_weight t + 1 \<le> pipe_weight s"
  using assms(2)
proof cases
  case (goes_turn i put got)
  then show ?thesis using turn_weight[OF assms(1)] by (simp add: Suc_le_eq)
next
  case (goes_signal i)
  then have "pipe_weight t < pipe_weight s"
    using weight_same_lock[OF goes_signal(3), of "p_answer (Fail ERESTARTSYS) (p_threads s ! i)"]
    by (auto simp: proc_weight_def)
  then show ?thesis by simp
qed

interpretation callers: weighted_system pipe_goes pipe_sys_inv pipe_weight "\<lambda>_. True"
  by unfold_locales (use goes_inv goes_weight in auto)

definition event_put :: "pipe_event \<Rightarrow> cell list" where
  "event_put l = (case l of Turn i put got \<Rightarrow> put | Interrupt i \<Rightarrow> [])"

definition event_got :: "pipe_event \<Rightarrow> cell list" where
  "event_got l = (case l of Turn i put got \<Rightarrow> got | Interrupt i \<Rightarrow> [])"

interpretation transfers: fifo_channel pipe_goes pipe_sys_inv "\<lambda>s. pipe_contents (p_dev s)" event_put event_got
proof
  fix s l t assume "pipe_sys_inv s" "pipe_goes s l t"
  from this(2,1) show "pipe_contents (p_dev s) @ event_put l = event_got l @ pipe_contents (p_dev t)"
  proof cases
    case (goes_turn i put got)
    then show ?thesis using turn_inv[OF \<open>pipe_sys_inv s\<close> goes_turn(2,3)] by (simp add: event_put_def event_got_def)
  next
    case (goes_signal i)
    then show ?thesis by (simp add: event_put_def event_got_def)
  qed
qed

lemma pipe_start_inv:
  assumes "pipe_inv dev" "1 < buffersize dev" "\<forall>(nonblock, calls) \<in> set procs. list_all call_ok calls"
  shows "pipe_sys_inv (pipe_start p dev procs)"
proof -
  have "proc_ok dev None i (p_threads (pipe_start p dev procs) ! i)" if "i < length procs" for i
  proof -
    obtain nonblock calls where c: "procs ! i = (nonblock, calls)" by (cases "procs ! i")
    then have "list_all call_ok calls" using assms(3) nth_mem[OF that] by fastforce
    then show ?thesis using c that by (simp add: pipe_start_def proc_ok_def)
  qed
  moreover have "wakes_due dev (p_threads (pipe_start p dev procs))"
    unfolding wakes_due_def by (simp add: pipe_start_def case_prod_beta)
  moreover have "length (p_threads (pipe_start p dev procs)) = length procs" "p_dev (pipe_start p dev procs) = dev"
    "p_mutex (pipe_start p dev procs) = None" by (simp_all add: pipe_start_def)
  ultimately show ?thesis using assms(1,2) by (simp add: pipe_sys_inv_def)
qed

lemma pipe_start_weight:
  "pipe_weight (pipe_start p dev procs) = (8 * length procs + 15) * sum_list (map (\<lambda>q. length (snd q)) procs)"
proof -
  have "map (proc_weight n dev) (p_threads (pipe_start p dev procs)) = map (\<lambda>q. (8 * n + 15) * length (snd q)) procs" for n
    by (simp add: pipe_start_def proc_weight_def case_prod_beta)
  moreover have "length (p_threads (pipe_start p dev procs)) = length procs" "p_dev (pipe_start p dev procs) = dev"
    by (simp_all add: pipe_start_def)
  ultimately show ?thesis by (simp only: pipe_weight_def sum_list_const_mult)
qed

lemma stuck_procs:
  assumes inv: "pipe_sys_inv s" and stuck: "pipe_stuck s"
  shows "p_mutex s = None"
    "\<forall>t \<in> set (p_threads s). p_pc t = P_idle \<and> p_todo t = [] \<or> p_pc t = P_asleep \<and> must_wait (p_now t) (p_dev s) = Some True"
proof -
  have none: "pipe_turn i s = None" if "i < length (p_threads s)" for i using stuck that by (simp add: pipe_stuck_def)
  show free: "p_mutex s = None"
  proof (rule ccontr)
    assume "p_mutex s \<noteq> None"
    then obtain i where i: "p_mutex s = Some i" "i < length (p_threads s)" using inv by (auto simp: pipe_sys_inv_def)
    then have "holds (p_pc (p_threads s ! i))" using inv_proc(3)[OF inv i(2)] by (simp add: proc_ok_def)
    then show False using turn_none[OF inv i(2) none[OF i(2)]] i(1) by auto
  qed
  have pcs: "p_pc t = P_idle \<and> p_todo t = [] \<or> p_pc t = P_asleep" if "t \<in> set (p_threads s)" for t
    using that turn_none[OF inv _ none] free by (metis in_set_conv_nth)
  show "\<forall>t \<in> set (p_threads s). p_pc t = P_idle \<and> p_todo t = [] \<or> p_pc t = P_asleep \<and> must_wait (p_now t) (p_dev s) = Some True"
  proof
    fix t assume t: "t \<in> set (p_threads s)"
    then obtain i where i: "i < length (p_threads s)" "t = p_threads s ! i" by (metis in_set_conv_nth)
    obtain w where w: "must_wait (p_now t) (p_dev s) = Some w" using inv_proc(4)[OF inv i(1)] i(2) by blast
    have "w" if asleep: "p_pc t = P_asleep"
    proof (rule ccontr)
      assume "\<not> w"
      then obtain u where "u \<in> set (p_threads s)" "waker (is_read (p_now t)) u"
        using inv t asleep w by (auto simp: pipe_sys_inv_def wakes_due_def)
      then show False using pcs[of u] by (auto simp: waker_def)
    qed
    then show "p_pc t = P_idle \<and> p_todo t = [] \<or> p_pc t = P_asleep \<and> must_wait (p_now t) (p_dev s) = Some True"
      using pcs[OF t] w by auto
  qed
qed

subsection \<open>Examples of schedules\<close>

text \<open>The processes named take their turns.\<close>

definition turns :: "nat list \<Rightarrow> pipe_sys \<Rightarrow> (pipe_event list \<times> pipe_sys) option" where
  "turns order s = fold (\<lambda>i r. do { (ls, s) \<leftarrow> r; (if i < length (p_threads s) then do {
      (t, put, got) \<leftarrow> pipe_turn i s; Some (ls @ [Turn i put got], t) } else None) }) order (Some ([], s))"

lemma turns_snoc:
  "turns (order @ [i]) s = (case turns order s of None \<Rightarrow> None | Some (ls, t) \<Rightarrow>
     if i < length (p_threads t) then map_option (\<lambda>(u, put, got). (ls @ [Turn i put got], u)) (pipe_turn i t) else None)"
  by (auto simp: turns_def Option.bind_def map_option_case split: option.splits prod.splits)

lemma turns_run: "turns order s = Some (ls, t) \<Longrightarrow> run pipe_goes s ls t"
proof (induction order arbitrary: ls t rule: rev_induct)
  case Nil
  then show ?case by (simp add: turns_def run_Nil)
next
  case (snoc i order)
  then obtain ms u put got where u: "turns order s = Some (ms, u)" "i < length (p_threads u)" "pipe_turn i u = Some (t, put, got)"
    "ls = ms @ [Turn i put got]" by (auto simp: turns_snoc split: option.splits if_splits)
  have "run pipe_goes u [Turn i put got] t" using u(2,3) by (blast intro: run_Cons goes_turn run_Nil)
  then show ?case using snoc.IH[OF u(1)] u(4) by (simp add: run_append)
qed

lemma turns_reach:
  "case turns order s of None \<Rightarrow> False | Some (ls, t) \<Rightarrow> P ls t \<Longrightarrow> \<exists>ls t. run pipe_goes s ls t \<and> P ls t"
  using turns_run[of order s] by (auto split: option.splits simp del: split_paired_Ex)

text \<open>Two processes in a pipe for three bytes: a reader that comes first and sleeps, and a writer.\<close>

definition demo_calls :: "(bool \<times> pipe_call list) list" where
  "demo_calls = [(False, [Read_p 2 False]), (False, [Write_p 0 [7, 8, 9]])]"

lemma demo_calls_ok: "\<forall>(nonblock, calls) \<in> set demo_calls. list_all call_ok calls"
  by (simp add: demo_calls_def)

lemma demo_pipe_size: "1 < buffersize demo_pipe"
  by (simp add: demo_pipe_def demo_params_def zero_pipe_def scull_p_open_def kmalloc_size_def Let_def)

lemma demo_turns:
  "\<exists>ls s. run pipe_goes (pipe_start demo_params demo_pipe demo_calls) ls s \<and>
     map p_answers (p_threads s) = [[Ret 2], [Ret 3]] \<and> length (p_threads s) = 2 \<and> list_all (\<lambda>i. pipe_turn i s = None) [0..<2]"
  by (rule turns_reach[where order = "[0, 0, 0, 0] @ [1, 1, 1, 1, 1] @ [0, 0, 0, 0, 0]"]) code_simp

subsection \<open>Properties\<close>

text \<open>C23. The processes of an open pipe that read and write: whatever the order of their steps, the signals and the faults, the
  number of steps is bounded by the number of processes and calls, and each step keeps the ring within bounds.\<close>

theorem scull_p_calls_end:
  assumes "pipe_inv dev" "1 < buffersize dev" "\<forall>(nonblock, calls) \<in> set procs. list_all call_ok calls"
    and "run pipe_goes (pipe_start p dev procs) schedule s"
  shows "length schedule \<le> (8 * length procs + 15) * sum_list (map (\<lambda>q. length (snd q)) procs) \<and> pipe_inv (p_dev s)"
proof -
  have inv: "pipe_sys_inv (pipe_start p dev procs)" by (rule pipe_start_inv[OF assms(1-3)])
  have "length schedule + pipe_weight s \<le> pipe_weight (pipe_start p dev procs)"
    using callers.run_weight[OF assms(4) inv] by simp
  moreover have "pipe_sys_inv s" by (rule callers.inv_run[OF assms(4) inv])
  ultimately show ?thesis by (simp add: pipe_start_weight pipe_sys_inv_def)
qed

theorem scull_p_calls_end_witness:
  "\<exists>schedule s. run pipe_goes (pipe_start demo_params demo_pipe demo_calls) schedule s \<and>
    map p_answers (p_threads s) = [[Ret 2], [Ret 3]] \<and> length schedule \<le> 62 \<and> pipe_inv (p_dev s)"
proof -
  obtain ls s where r: "run pipe_goes (pipe_start demo_params demo_pipe demo_calls) ls s"
    "map p_answers (p_threads s) = [[Ret 2], [Ret 3]]" using demo_turns by (elim exE conjE) (rule that)
  have "length ls \<le> 62 \<and> pipe_inv (p_dev s)"
    using scull_p_calls_end[OF demo_pipe_inv(1) demo_pipe_size demo_calls_ok r(1)] by (simp add: demo_calls_def)
  then show ?thesis using r by (intro exI[of _ ls] exI[of _ s]) simp
qed

text \<open>C22. No wake-up is lost: when no process of an open pipe that reads and writes can go on by itself, each has made all its
  calls or sleeps, sleeping readers find no data and sleeping writers no space, so that they are all of one kind; the
  mutex is free, and the bytes accepted are those delivered, in their order, and those in the ring.\<close>

theorem scull_p_no_lost_wakeup:
  assumes "pipe_inv dev" "1 < buffersize dev" "\<forall>(nonblock, calls) \<in> set procs. list_all call_ok calls"
    and "run pipe_goes (pipe_start p dev procs) schedule s" "pipe_stuck s"
  shows "p_mutex s = None \<and>
    (\<forall>t \<in> set (p_threads s). p_pc t = P_idle \<and> p_todo t = [] \<or> p_pc t = P_asleep \<and> must_wait (p_now t) (p_dev s) = Some True) \<and>
    (\<exists>readers. \<forall>t \<in> set (p_threads s). p_pc t = P_asleep \<longrightarrow> is_read (p_now t) = readers) \<and>
    pipe_contents dev @ concat (map event_put schedule) = concat (map event_got schedule) @ pipe_contents (p_dev s)"
proof -
  have start: "pipe_sys_inv (pipe_start p dev procs)" by (rule pipe_start_inv[OF assms(1-3)])
  have inv: "pipe_sys_inv s" by (rule callers.inv_run[OF assms(4) start])
  note stuck = stuck_procs[OF inv assms(5)]
  have "is_read (p_now t) = (pipe_contents (p_dev s) = [])" if t: "t \<in> set (p_threads s)" "p_pc t = P_asleep" for t
  proof -
    obtain i where i: "i < length (p_threads s)" "t = p_threads s ! i" using t(1) by (metis in_set_conv_nth)
    have "call_ok (p_now t)" "pipe_inv (p_dev s)" "1 < buffersize (p_dev s)"
      using inv_proc[OF inv i(1)] i(2) by (simp_all add: proc_ok_def)
    moreover have "must_wait (p_now t) (p_dev s) = Some True" using stuck(2) t by auto
    ultimately show ?thesis using must_wait_contents[of "p_dev s" "p_now t"] by (auto split: if_splits)
  qed
  moreover have "pipe_contents dev @ concat (map event_put schedule) =
      concat (map event_got schedule) @ pipe_contents (p_dev s)"
    using transfers.run_contents[OF assms(4) start] by (simp add: pipe_start_def)
  ultimately show ?thesis using stuck by blast
qed

theorem scull_p_no_lost_wakeup_witness:
  "\<exists>schedule s. run pipe_goes (pipe_start demo_params demo_pipe demo_calls) schedule s \<and> p_mutex s = None \<and>
    map p_answers (p_threads s) = [[Ret 2], [Ret 3]] \<and>
    concat (map event_put schedule) = concat (map event_got schedule) @ pipe_contents (p_dev s)"
proof -
  obtain ls s where r: "run pipe_goes (pipe_start demo_params demo_pipe demo_calls) ls s"
    "map p_answers (p_threads s) = [[Ret 2], [Ret 3]]" "length (p_threads s) = 2" "list_all (\<lambda>i. pipe_turn i s = None) [0..<2]"
    using demo_turns by (elim exE conjE) (rule that)
  have "pipe_stuck s" using r(3,4) by (auto simp: pipe_stuck_def list_all_iff)
  from scull_p_no_lost_wakeup[OF demo_pipe_inv(1) demo_pipe_size demo_calls_ok r(1) this] have
    "p_mutex s = None" "concat (map event_put ls) = concat (map event_got ls) @ pipe_contents (p_dev s)"
    by (simp_all add: demo_pipe_inv(2))
  then show ?thesis using r(1,2) by (intro exI[of _ ls] exI[of _ s]) simp
qed

text \<open>A pipe for one byte, opened by a writer.\<close>

definition small_params :: scull_params where
  "small_params = demo_params\<lparr>scull_p_buffer := 2\<rparr>"

definition small_pipe :: scull_pipe where
  "small_pipe = fst (scull_p_open False True small_params False True zero_pipe)"

text \<open>C24. Opening loses a wake-up: a writer fills the pipe and sleeps; a reader then opens it, which empties the pipe without waking
  anybody, and its read sleeps as well. Now the pipe is empty, the writer could write, and nobody can go on.\<close>

theorem scull_p_open_deadlock:
  "\<exists>schedule s. run pipe_goes (pipe_start small_params small_pipe
      [(False, [Write_p 0 [1], Write_p 0 [2]]), (False, [Open_p True False, Read_p 1 False])]) schedule s \<and>
    pipe_stuck s \<and> map p_pc (p_threads s) = [P_asleep, P_asleep] \<and> map p_now (p_threads s) = [Write_p 0 [2], Read_p 1 False] \<and>
    rp (p_dev s) = wp (p_dev s) \<and> spacefree (p_dev s) = Some 1"
proof -
  have "\<exists>ls s. run pipe_goes (pipe_start small_params small_pipe
      [(False, [Write_p 0 [1], Write_p 0 [2]]), (False, [Open_p True False, Read_p 1 False])]) ls s \<and>
    (length (p_threads s) = 2 \<and> list_all (\<lambda>i. pipe_turn i s = None) [0..<2] \<and> map p_pc (p_threads s) = [P_asleep, P_asleep] \<and>
     map p_now (p_threads s) = [Write_p 0 [2], Read_p 1 False] \<and> rp (p_dev s) = wp (p_dev s) \<and> spacefree (p_dev s) = Some 1)"
    by (rule turns_reach[where order = "[0, 0, 0, 0, 0] @ [0, 0, 0, 0] @ [1, 1] @ [1, 1, 1, 1]"]) code_simp
  then obtain ls s where r: "run pipe_goes (pipe_start small_params small_pipe
      [(False, [Write_p 0 [1], Write_p 0 [2]]), (False, [Open_p True False, Read_p 1 False])]) ls s"
    "length (p_threads s) = 2" "list_all (\<lambda>i. pipe_turn i s = None) [0..<2]" "map p_pc (p_threads s) = [P_asleep, P_asleep]"
    "map p_now (p_threads s) = [Write_p 0 [2], Read_p 1 False]" "rp (p_dev s) = wp (p_dev s)" "spacefree (p_dev s) = Some 1"
    by (elim exE conjE) (rule that)
  have "pipe_stuck s" using r(2,3) by (auto simp: pipe_stuck_def list_all_iff)
  then show ?thesis using r by (intro exI[of _ ls] exI[of _ s]) simp
qed

end
