(* ===== verification/Scull_Access.thy ===== *)
theory Scull_Access
  imports Scull_Correct
begin

section \<open>Scull devices with access control\<close>

text \<open>
  \<open>scull/access.c\<close>: four devices that differ from the bare device in open and release. One
  admits a single open, two admit one user at a time (the second one makes others wait), and
  the last one gives each terminal a device of its own. The code under a spin lock is one
  step; the atomic counter of the first device is not under a lock, so its open is two steps.
\<close>

subsection \<open>Data\<close>

record access_state =
  scull_s_device :: scull_dev
  scull_u_device :: scull_dev
  scull_w_device :: scull_dev
  scull_c_device :: scull_dev
  scull_s_available :: int
  scull_u_count :: int
  scull_u_owner :: nat
  scull_w_count :: int
  scull_w_owner :: nat
  scull_c_list :: "(nat \<times> scull_dev) list"
  a_region :: bool

text \<open>The process that calls.\<close>

record cred =
  uid :: nat
  euid :: nat
  dac_override :: bool

text \<open>The last lines of each open, \<open>copied from the bare scull device\<close>.\<close>

definition trim_if_wronly :: "scull_params \<Rightarrow> accmode \<Rightarrow> scull_dev \<Rightarrow> scull_dev option" where
  "trim_if_wronly p mode dev = (if mode = O_WRONLY then scull_trim p dev else Some dev)"

subsection \<open>The single-open device\<close>

text \<open>\<open>atomic_dec_and_test\<close>: the new value and whether it is 0.\<close>

definition atomic_dec_and_test :: "int \<Rightarrow> int \<times> bool" where
  "atomic_dec_and_test v = (s32 (v - 1), s32 (v - 1) = 0)"

definition atomic_inc :: "int \<Rightarrow> int" where
  "atomic_inc v = s32 (v + 1)"

definition scull_s_open ::
  "scull_params \<Rightarrow> accmode \<Rightarrow> access_state \<Rightarrow> (access_state \<times> int outcome) option" where
  "scull_s_open p mode st =
     (case atomic_dec_and_test (scull_s_available st) of
        (v, False) \<Rightarrow> Some (st\<lparr>scull_s_available := atomic_inc v\<rparr>, Fail EBUSY)
      | (v, True) \<Rightarrow> do {
          dev \<leftarrow> trim_if_wronly p mode (scull_s_device st);
          Some (st\<lparr>scull_s_available := v, scull_s_device := dev\<rparr>, Ret 0) })"

definition scull_s_release :: "access_state \<Rightarrow> access_state \<times> int" where
  "scull_s_release st = (st\<lparr>scull_s_available := atomic_inc (scull_s_available st)\<rparr>, 0)"

subsection \<open>The device of one user\<close>

definition scull_u_open ::
  "cred \<Rightarrow> scull_params \<Rightarrow> accmode \<Rightarrow> access_state \<Rightarrow> (access_state \<times> int outcome) option" where
  "scull_u_open c p mode st =
     (if scull_u_count st \<noteq> 0 \<and> scull_u_owner st \<noteq> uid c \<and> scull_u_owner st \<noteq> euid c
         \<and> \<not> dac_override c
      then Some (st, Fail EBUSY)
      else
        (let st1 = (if scull_u_count st = 0 then st\<lparr>scull_u_owner := uid c\<rparr> else st);
             st2 = st1\<lparr>scull_u_count := s32 (scull_u_count st1 + 1)\<rparr>
         in do {
           dev \<leftarrow> trim_if_wronly p mode (scull_u_device st2);
           Some (st2\<lparr>scull_u_device := dev\<rparr>, Ret 0) }))"

definition scull_u_release :: "access_state \<Rightarrow> access_state \<times> int" where
  "scull_u_release st = (st\<lparr>scull_u_count := s32 (scull_u_count st - 1)\<rparr>, 0)"

subsection \<open>The device of one user, with a blocking open\<close>

definition scull_w_available :: "cred \<Rightarrow> access_state \<Rightarrow> bool" where
  "scull_w_available c st \<longleftrightarrow> scull_w_count st = 0 \<or> scull_w_owner st = uid c \<or>
     scull_w_owner st = euid c \<or> dac_override c"

text \<open>A sleeping open is ended by a signal or finds the lock and some state.\<close>

datatype w_wake = W_signal | W_locked access_state

fun scull_w_wait :: "cred \<Rightarrow> bool \<Rightarrow> w_wake list \<Rightarrow> access_state \<Rightarrow> access_state \<times> int outcome" where
  "scull_w_wait c nonblock [] st =
     (st, if scull_w_available c st then Ret 0 else if nonblock then Fail EAGAIN else Blocked)"
| "scull_w_wait c nonblock (w # ws) st =
     (if scull_w_available c st then (st, Ret 0)
      else if nonblock then (st, Fail EAGAIN)
      else (case w of
              W_signal \<Rightarrow> (st, Fail ERESTARTSYS)
            | W_locked st' \<Rightarrow> scull_w_wait c nonblock ws st'))"

definition scull_w_open ::
  "cred \<Rightarrow> bool \<Rightarrow> w_wake list \<Rightarrow> scull_params \<Rightarrow> accmode \<Rightarrow> access_state \<Rightarrow>
   (access_state \<times> int outcome) option" where
  "scull_w_open c nonblock ws p mode st =
     (case scull_w_wait c nonblock ws st of
        (st', Ret _) \<Rightarrow>
          (let st1 = (if scull_w_count st' = 0 then st'\<lparr>scull_w_owner := uid c\<rparr> else st');
               st2 = st1\<lparr>scull_w_count := s32 (scull_w_count st1 + 1)\<rparr>
           in do {
             dev \<leftarrow> trim_if_wronly p mode (scull_w_device st2);
             Some (st2\<lparr>scull_w_device := dev\<rparr>, Ret 0) })
      | (st', Fail e) \<Rightarrow> Some (st', Fail e)
      | (st', Blocked) \<Rightarrow> Some (st', Blocked))"

text \<open>The release also tells whether sleepers are woken.\<close>

definition scull_w_release :: "access_state \<Rightarrow> access_state \<times> bool \<times> int" where
  "scull_w_release st =
     (let temp = s32 (scull_w_count st - 1)
      in (st\<lparr>scull_w_count := temp\<rparr>, temp = 0, 0))"

subsection \<open>The device of each terminal\<close>

text \<open>A new device is put in front of the list; the result is its device.\<close>

definition scull_c_lookfor_device ::
  "scull_params \<Rightarrow> bool \<Rightarrow> nat \<Rightarrow> (nat \<times> scull_dev) list \<Rightarrow> (scull_dev option \<times> (nat \<times> scull_dev) list) option" where
  "scull_c_lookfor_device p ok key l =
     (case map_of l key of
        Some dev \<Rightarrow> Some (Some dev, l)
      | None \<Rightarrow>
          if \<not> ok then Some (None, l)
          else do { dev \<leftarrow> scull_trim p zero_dev; Some (Some dev, (key, dev) # l) })"

definition c_update :: "nat \<Rightarrow> scull_dev \<Rightarrow> (nat \<times> scull_dev) list \<Rightarrow> (nat \<times> scull_dev) list" where
  "c_update key dev l = map (\<lambda>(k, d). (k, if k = key then dev else d)) l"

text \<open>\<open>tty\<close> is the device number of the controlling terminal, if there is one.\<close>

definition scull_c_open ::
  "nat option \<Rightarrow> bool \<Rightarrow> scull_params \<Rightarrow> accmode \<Rightarrow> access_state \<Rightarrow> (access_state \<times> int outcome) option" where
  "scull_c_open tty ok p mode st =
     (case tty of
        None \<Rightarrow> Some (st, Fail EINVAL)
      | Some key \<Rightarrow> do {
          (r, l) \<leftarrow> scull_c_lookfor_device p ok key (scull_c_list st);
          (case r of
             None \<Rightarrow> Some (st\<lparr>scull_c_list := l\<rparr>, Fail ENOMEM)
           | Some dev \<Rightarrow> do {
               dev' \<leftarrow> trim_if_wronly p mode dev;
               Some (st\<lparr>scull_c_list := c_update key dev' l\<rparr>, Ret 0) }) })"

definition scull_c_release :: "access_state \<Rightarrow> access_state \<times> int" where
  "scull_c_release st = (st, 0)"

subsection \<open>Setup and cleanup\<close>

definition SCULL_N_ADEVS :: int where "SCULL_N_ADEVS = 4"

definition scull_access_setup :: "scull_params \<Rightarrow> scull_dev \<Rightarrow> scull_dev" where
  "scull_access_setup p dev = dev\<lparr>quantum := scull_quantum p, qset := scull_qset p\<rparr>"

definition scull_access_init :: "int \<Rightarrow> scull_params \<Rightarrow> access_state \<Rightarrow> access_state \<times> int" where
  "scull_access_init result p st =
     (if result < 0 then (st, 0)
      else (st\<lparr>scull_s_device := scull_access_setup p (scull_s_device st),
               scull_u_device := scull_access_setup p (scull_u_device st),
               scull_w_device := scull_access_setup p (scull_w_device st),
               scull_c_device := scull_access_setup p (scull_c_device st),
               a_region := True\<rparr>, SCULL_N_ADEVS))"

fun c_trim_all :: "scull_params \<Rightarrow> (nat \<times> scull_dev) list \<Rightarrow> unit option" where
  "c_trim_all p [] = Some ()"
| "c_trim_all p ((k, d) # l) = do { scull_trim p d; c_trim_all p l }"

definition scull_access_cleanup :: "scull_params \<Rightarrow> access_state \<Rightarrow> access_state option" where
  "scull_access_cleanup p st = do {
     s \<leftarrow> scull_trim p (scull_s_device st);
     u \<leftarrow> scull_trim p (scull_u_device st);
     w \<leftarrow> scull_trim p (scull_w_device st);
     c \<leftarrow> scull_trim p (scull_c_device st);
     c_trim_all p (scull_c_list st);
     Some (st\<lparr>scull_s_device := s, scull_u_device := u, scull_w_device := w, scull_c_device := c,
              scull_c_list := [], a_region := False\<rparr>) }"

end
