(* ===== verification/Scull_Access_Props.thy ===== *)
theory Scull_Access_Props
  imports Scull_Access
begin

section \<open>Correctness of the access-controlled devices\<close>

text \<open>
  Who gets in: the single-open counter under every interleaving of its two halves, the two
  user guards as instances of one contract, the blocking open, and the separation of the
  terminals' devices.
\<close>

subsection \<open>The single-open counter\<close>

text \<open>
  The halves of an open and a release as the processes interleave them: a process that
  finds the counter used has decremented it already and still has to increment it again.
\<close>

record s_system =
  s_counter :: int
  s_holders :: nat
  s_failing :: nat

datatype s_label = S_admit | S_refuse | S_undo | S_close

inductive s_step :: "s_system \<Rightarrow> s_label \<Rightarrow> s_system \<Rightarrow> bool" where
  s_admit: "atomic_dec_and_test (s_counter g) = (v, True) \<Longrightarrow>
    s_step g S_admit (g\<lparr>s_counter := v, s_holders := Suc (s_holders g)\<rparr>)"
| s_refuse: "atomic_dec_and_test (s_counter g) = (v, False) \<Longrightarrow> s_failing g < 2 ^ 30 \<Longrightarrow>
    s_step g S_refuse (g\<lparr>s_counter := v, s_failing := Suc (s_failing g)\<rparr>)"
| s_undo: "0 < s_failing g \<Longrightarrow>
    s_step g S_undo (g\<lparr>s_counter := atomic_inc (s_counter g), s_failing := s_failing g - 1\<rparr>)"
| s_close: "0 < s_holders g \<Longrightarrow>
    s_step g S_close (g\<lparr>s_counter := atomic_inc (s_counter g), s_holders := s_holders g - 1\<rparr>)"

inductive_cases s_stepE: "s_step g l g'"

definition s_inv :: "s_system \<Rightarrow> bool" where
  "s_inv g \<longleftrightarrow> s_counter g = 1 - int (s_holders g) - int (s_failing g) \<and> s_holders g \<le> 1 \<and>
     s_failing g \<le> 2 ^ 30"

lemma s_inv_step: "s_inv g \<Longrightarrow> s_step g l g' \<Longrightarrow> s_inv g'"
  by (erule s_stepE) (auto simp: s_inv_def atomic_dec_and_test_def atomic_inc_def)

interpretation s_open: invariant_system s_step s_inv
  by unfold_locales (rule s_inv_step)

definition s_initial :: s_system where
  "s_initial = \<lparr>s_counter = 1, s_holders = 0, s_failing = 0\<rparr>"

text \<open>At most one process has the single-open device open, under every interleaving of
  opens, refused opens that still have to undo their decrement, and releases; and when
  nobody holds it and nobody is undoing, the next open succeeds.\<close>

lemma scull_s_exclusive:
  assumes "run s_step s_initial ls g"
  shows "s_holders g \<le> 1 \<and>
    (s_holders g = 0 \<and> s_failing g = 0 \<longrightarrow> atomic_dec_and_test (s_counter g) = (0, True))"
proof -
  have "s_inv s_initial" by (simp add: s_inv_def s_initial_def)
  from s_open.inv_run[OF assms this] show ?thesis
    by (auto simp: s_inv_def atomic_dec_and_test_def)
qed

lemma scull_s_exclusive_example:
  "run s_step s_initial [S_admit, S_refuse] \<lparr>s_counter = - 1, s_holders = 1, s_failing = 1\<rparr> \<and>
   s_holders \<lparr>s_counter = - 1, s_holders = 1, s_failing = 1\<rparr> \<le> 1"
proof -
  have a: "s_step s_initial S_admit \<lparr>s_counter = 0, s_holders = 1, s_failing = 0\<rparr>"
    using s_admit[of s_initial 0] by (simp add: s_initial_def atomic_dec_and_test_def)
  have b: "s_step \<lparr>s_counter = 0, s_holders = 1, s_failing = 0\<rparr> S_refuse
      \<lparr>s_counter = - 1, s_holders = 1, s_failing = 1\<rparr>"
    using s_refuse[of "\<lparr>s_counter = 0, s_holders = 1, s_failing = 0\<rparr>" "- 1"]
    by (simp add: atomic_dec_and_test_def)
  from a b have r: "run s_step s_initial [S_admit, S_refuse] \<lparr>s_counter = - 1, s_holders = 1, s_failing = 1\<rparr>"
    by (auto intro: run.intros)
  with scull_s_exclusive[OF r] show ?thesis by simp
qed

subsection \<open>The user guards\<close>

text \<open>The processes with the open device: a user, an effective user or a privileged one.\<close>

definition u_allowed :: "access_state \<Rightarrow> cred \<Rightarrow> bool" where
  "u_allowed st c \<longleftrightarrow> scull_u_owner st = uid c \<or> scull_u_owner st = euid c \<or> dac_override c"

definition w_allowed :: "access_state \<Rightarrow> cred \<Rightarrow> bool" where
  "w_allowed st c \<longleftrightarrow> scull_w_owner st = uid c \<or> scull_w_owner st = euid c \<or> dac_override c"

definition u_try :: "scull_params \<Rightarrow> accmode \<Rightarrow> access_state \<Rightarrow> cred \<Rightarrow> access_state option" where
  "u_try p mode st c = (case scull_u_open c p mode st of Some (st', Ret _) \<Rightarrow> Some st' | _ \<Rightarrow> None)"

definition w_try :: "scull_params \<Rightarrow> accmode \<Rightarrow> access_state \<Rightarrow> cred \<Rightarrow> access_state option" where
  "w_try p mode st c = (case scull_w_open c True [] p mode st of Some (st', Ret _) \<Rightarrow> Some st' | _ \<Rightarrow> None)"

text \<open>The count of opens stays an \<open>int\<close>.\<close>

definition u_sane :: "access_state \<Rightarrow> bool" where
  "u_sane st \<longleftrightarrow> 0 \<le> scull_u_count st \<and> scull_u_count st \<le> 2 ^ 30"

definition w_sane :: "access_state \<Rightarrow> bool" where
  "w_sane st \<longleftrightarrow> 0 \<le> scull_w_count st \<and> scull_w_count st \<le> 2 ^ 30"

definition u_room :: "access_state \<Rightarrow> bool" where
  "u_room st \<longleftrightarrow> u_sane st \<and> scull_u_count st < 2 ^ 30"

definition w_room :: "access_state \<Rightarrow> bool" where
  "w_room st \<longleftrightarrow> w_sane st \<and> scull_w_count st < 2 ^ 30"

lemma u_open_Ret:
  "scull_u_open c p mode st = Some (st', Ret v) \<longleftrightarrow>
    (scull_u_count st = 0 \<or> u_allowed st c) \<and> v = 0 \<and>
    (\<exists>dev. trim_if_wronly p mode (scull_u_device st) = Some dev \<and>
      st' = st\<lparr>scull_u_owner := (if scull_u_count st = 0 then uid c else scull_u_owner st),
               scull_u_count := s32 (scull_u_count st + 1), scull_u_device := dev\<rparr>)"
  by (auto simp: scull_u_open_def u_allowed_def Let_def split: if_splits option.splits
      simp: Option.bind_eq_Some_conv)

lemma w_open_Ret:
  "scull_w_open c True [] p mode st = Some (st', Ret v) \<longleftrightarrow>
    (scull_w_count st = 0 \<or> w_allowed st c) \<and> v = 0 \<and>
    (\<exists>dev. trim_if_wronly p mode (scull_w_device st) = Some dev \<and>
      st' = st\<lparr>scull_w_owner := (if scull_w_count st = 0 then uid c else scull_w_owner st),
               scull_w_count := s32 (scull_w_count st + 1), scull_w_device := dev\<rparr>)"
  by (auto simp: scull_w_open_def scull_w_available_def w_allowed_def Let_def
      Option.bind_eq_Some_conv split: if_splits)

lemma u_try_Some: "u_try p mode st c = Some t \<longleftrightarrow> (\<exists>v. scull_u_open c p mode st = Some (t, Ret v))"
  by (auto simp: u_try_def split: option.splits outcome.splits)

lemma w_try_Some: "w_try p mode st c = Some t \<longleftrightarrow> (\<exists>v. scull_w_open c True [] p mode st = Some (t, Ret v))"
  by (auto simp: w_try_def split: option.splits outcome.splits)

interpretation u_guard: open_guard "u_try p mode" "\<lambda>st. fst (scull_u_release st)" scull_u_count
  u_allowed u_room u_sane
  for p mode
  by unfold_locales
    (auto simp: u_try_Some u_open_Ret u_room_def u_sane_def u_allowed_def scull_u_release_def
      split: if_splits)

interpretation w_guard: open_guard "w_try p mode" "\<lambda>st. fst (scull_w_release st)" scull_w_count
  w_allowed w_room w_sane
  for p mode
  by unfold_locales
    (auto simp: w_try_Some w_open_Ret w_room_def w_sane_def w_allowed_def scull_w_release_def Let_def
      split: if_splits)

definition no_access :: access_state where
  "no_access = \<lparr>scull_s_device = zero_dev, scull_u_device = zero_dev, scull_w_device = zero_dev,
     scull_c_device = zero_dev, scull_s_available = 1, scull_u_count = 0, scull_u_owner = 0,
     scull_w_count = 0, scull_w_owner = 0, scull_c_list = [], a_region = False\<rparr>"

definition small_p :: scull_params where
  "small_p = \<lparr>scull_quantum = 4, scull_qset = 2, scull_p_buffer = 4\<rparr>"

definition alice :: cred where "alice = \<lparr>uid = 1000, euid = 1000, dac_override = False\<rparr>"
definition bob :: cred where "bob = \<lparr>uid = 1001, euid = 1001, dac_override = False\<rparr>"

text \<open>The process that began the present session: the one whose open found the device closed.\<close>

fun session_opener :: "nat \<Rightarrow> cred option \<Rightarrow> (cred \<times> bool) list \<Rightarrow> cred option" where
  "session_opener n first [] = first"
| "session_opener n first ((c, True) # ls) = session_opener (Suc n) (if n = 0 then Some c else first) ls"
| "session_opener n first ((c, False) # ls) = session_opener (n - 1) first ls"

lemma u_owner_run:
  "run (u_guard.guard_step p mode) (st0, us0) ls (st, us) \<Longrightarrow> u_guard.guard_inv (st0, us0) \<Longrightarrow>
    us0 \<noteq> [] \<longrightarrow> map_option uid first = Some (scull_u_owner st0) \<Longrightarrow>
    us \<noteq> [] \<Longrightarrow> map_option uid (session_opener (length us0) first ls) = Some (scull_u_owner st)"
proof (induction ls arbitrary: st0 us0 first)
  case Nil
  then show ?case by (auto elim: run_NilE)
next
  case (Cons l ls)
  obtain st1 us1 where s: "u_guard.guard_step p mode (st0, us0) l (st1, us1)"
    "run (u_guard.guard_step p mode) (st1, us1) ls (st, us)"
    using Cons.prems(1) by (auto elim: run_ConsE)
  note inv = u_guard.guard_inv_step[OF Cons.prems(2) s(1)]
  have n: "scull_u_count st0 = int (length us0)" using Cons.prems(2) by (simp add: u_guard.guard_inv_def)
  from s(1) show ?case
  proof cases
    case (guard_open c)
    then obtain v where "scull_u_open c p mode st0 = Some (st1, Ret v)" by (auto simp: u_try_Some)
    then have "scull_u_owner st1 = (if us0 = [] then uid c else scull_u_owner st0)"
      using n by (auto simp: u_open_Ret)
    then show ?thesis using Cons.IH[OF s(2) inv, of "if us0 = [] then Some c else first"] Cons.prems(3,4) guard_open(1,2)
      by (simp split: if_splits)
  next
    case (guard_close c)
    have len: "length us1 = length us0 - 1" using guard_close by (simp add: length_remove1)
    have "us0 \<noteq> []" using guard_close by auto
    then show ?thesis using Cons.IH[OF s(2) inv, of first] Cons.prems(3,4) guard_close(1,2) len
      by (simp add: scull_u_release_def)
  qed
qed

text \<open>C27. After any sequence of opens and releases of the one-user device, its count is the number
  of processes that have it open, its owner is the real user of the process whose open found the device closed,
  each process that has it open runs for the owner (really or effectively) or may override, and a process for which none of this
  holds gets -EBUSY as long as the device is open.\<close>

theorem scull_u_one_user:
  assumes "scull_u_count st0 = 0"
    and "run (u_guard.guard_step p mode) (st0, []) ls (st, us)"
  shows "scull_u_count st = int (length us) \<and> (\<forall>c \<in> set us. u_allowed st c) \<and>
    (us \<noteq> [] \<longrightarrow> (\<exists>c. session_opener 0 None ls = Some c \<and> scull_u_owner st = uid c)) \<and>
    (us \<noteq> [] \<and> \<not> u_allowed st d \<longrightarrow> scull_u_open d p mode st = Some (st, Fail EBUSY))"
proof -
  have start: "u_guard.guard_inv (st0, [])"
    using assms(1) by (simp add: u_guard.guard_inv_def u_sane_def)
  from u_guard.guard_run[OF assms(2) this] have i: "scull_u_count st = int (length us)"
    "\<forall>c \<in> set us. u_allowed st c"
    by (simp_all add: u_guard.guard_inv_def)
  have "us \<noteq> [] \<Longrightarrow> map_option uid (session_opener 0 None ls) = Some (scull_u_owner st)"
    using u_owner_run[OF assms(2) start, of None] by simp
  then show ?thesis using i by (auto simp: scull_u_open_def u_allowed_def)
qed

text \<open>A process of alice that runs with the effective user of another: alice is the owner.\<close>

theorem scull_u_one_user_witness:
  "\<exists>st. run (u_guard.guard_step small_p O_RDWR) (no_access, []) [(alice\<lparr>euid := 5\<rparr>, True)] (st, [alice\<lparr>euid := 5\<rparr>]) \<and>
    scull_u_owner st = 1000 \<and> scull_u_open bob small_p O_RDWR st = Some (st, Fail EBUSY)"
proof -
  let ?st = "no_access\<lparr>scull_u_owner := 1000, scull_u_count := 1\<rparr>" and ?a = "alice\<lparr>euid := 5\<rparr>"
  have t: "u_try small_p O_RDWR no_access ?a = Some ?st"
    by (simp add: u_try_def scull_u_open_def no_access_def trim_if_wronly_def alice_def)
  have "u_room no_access" by (simp add: u_room_def u_sane_def no_access_def)
  from u_guard.guard_open[OF this t] have
    r: "run (u_guard.guard_step small_p O_RDWR) (no_access, []) [(?a, True)] (?st, [?a])"
    by (auto intro: run.intros)
  have "\<not> u_allowed ?st bob" by (simp add: u_allowed_def bob_def)
  with scull_u_one_user[OF _ r, of bob] have "\<exists>c. session_opener 0 None [(?a, True)] = Some c \<and> scull_u_owner ?st = uid c"
    "scull_u_open bob small_p O_RDWR ?st = Some (?st, Fail EBUSY)" by (auto simp: no_access_def)
  then show ?thesis using r by (intro exI[of _ ?st]) (simp add: alice_def)
qed

text \<open>The same holds for the device with the blocking open, whose open returns -EAGAIN in
  non-blocking mode where the other one is refused, sleeps otherwise until a
  wake-up finds the device available, and whose last release wakes the sleepers.\<close>

lemma scull_w_one_user:
  assumes "scull_w_count st0 = 0"
    and "run (w_guard.guard_step p mode) (st0, []) ls (st, us)"
  shows "scull_w_count st = int (length us) \<and> (\<forall>c \<in> set us. w_allowed st c) \<and>
    (us \<noteq> [] \<and> \<not> w_allowed st d \<longrightarrow>
       scull_w_open d True ws p mode st = Some (st, Fail EAGAIN) \<and>
       scull_w_open d False [] p mode st = Some (st, Blocked) \<and>
       scull_w_open d False (W_signal # ws) p mode st = Some (st, Fail ERESTARTSYS) \<and>
       scull_w_open d False (W_locked st' # ws) p mode st = scull_w_open d False ws p mode st') \<and>
    (length us = 1 \<longrightarrow> fst (snd (scull_w_release st)))"
proof -
  have "w_guard.guard_inv (st0, [])"
    using assms(1) by (simp add: w_guard.guard_inv_def w_sane_def)
  from w_guard.guard_run[OF assms(2) this] have i: "scull_w_count st = int (length us)"
    "\<forall>c \<in> set us. w_allowed st c"
    by (simp_all add: w_guard.guard_inv_def)
  moreover have "us \<noteq> [] \<and> \<not> w_allowed st d \<Longrightarrow> \<not> scull_w_available d st"
    using i(1) by (simp add: scull_w_available_def w_allowed_def)
  ultimately show ?thesis
    by (cases ws) (auto simp: scull_w_open_def scull_w_release_def)
qed

lemma scull_w_one_user_example:
  "\<exists>st. run (w_guard.guard_step small_p O_RDWR) (no_access, []) [(alice, True)] (st, [alice]) \<and>
    scull_w_open bob False [] small_p O_RDWR st = Some (st, Blocked)"
proof -
  let ?st = "no_access\<lparr>scull_w_owner := 1000, scull_w_count := 1\<rparr>"
  have t: "w_try small_p O_RDWR no_access alice = Some ?st"
    by (simp add: w_try_def scull_w_open_def scull_w_available_def no_access_def trim_if_wronly_def alice_def)
  have "w_room no_access" by (simp add: w_room_def w_sane_def no_access_def)
  from w_guard.guard_open[OF this t] have
    r: "run (w_guard.guard_step small_p O_RDWR) (no_access, []) [(alice, True)] (?st, [alice])"
    by (auto intro: run.intros)
  have "\<not> w_allowed ?st bob" by (simp add: w_allowed_def bob_def)
  with scull_w_one_user[OF _ r, of bob "[]" no_access] r show ?thesis by (auto simp: no_access_def)
qed

subsection \<open>The terminals' devices\<close>

lemma map_of_c_update: "map_of (c_update key dev l) k =
    (if k = key then map_option (\<lambda>_. dev) (map_of l k) else map_of l k)"
  by (induction l) (auto simp: c_update_def)

definition c_wf :: "access_state \<Rightarrow> bool" where
  "c_wf st \<longleftrightarrow> distinct (map fst (scull_c_list st)) \<and> (\<forall>(k, d) \<in> set (scull_c_list st). scull_wf d)"

lemma c_update_keys: "map fst (c_update key dev l) = map fst l"
  by (induction l) (auto simp: c_update_def)

lemma c_lookfor_ok:
  assumes "scull_c_lookfor_device p ok key l = Some (r, l')"
  shows "(\<exists>new. l' = new @ l \<and> (new = [] \<or> map_of l key = None \<and> (\<exists>d. new = [(key, d)]))) \<and>
    (r = None \<longrightarrow> map_of l key = None \<and> \<not> ok \<and> l' = l) \<and>
    (\<forall>d. r = Some d \<longrightarrow> map_of l' key = Some d)"
  using assms by (auto simp: scull_c_lookfor_device_def Option.bind_eq_Some_conv
      split: option.splits if_splits)

text \<open>The device made for a terminal.\<close>

definition new_c_dev :: "scull_params \<Rightarrow> scull_dev" where
  "new_c_dev p = zero_dev\<lparr>quantum := scull_quantum p, qset := scull_qset p\<rparr>"

lemma trim_new: "scull_trim p zero_dev = Some (new_c_dev p)" "scull_trim p (new_c_dev p) = Some (new_c_dev p)"
  by (simp_all add: scull_trim_def new_c_dev_def zero_dev_def)

text \<open>C28. An open by a process of one terminal never changes the device of another one, and each terminal keeps a single
  device, well formed. A process without a terminal gets -EINVAL. A terminal that has a device finds it as it is, or truncated
  when it is opened for writing only, whatever memory there is. A terminal without one gets a new, empty device with the current
  geometry in front of the list when its allocation succeeds, and -ENOMEM and no change when it fails.\<close>

theorem scull_c_private:
  assumes "c_wf st" "geometry_ok (scull_quantum p) (scull_qset p)"
  shows "\<exists>st' r. scull_c_open tty ok p mode st = Some (st', r) \<and> c_wf st' \<and>
    (case tty of
       None \<Rightarrow> r = Fail EINVAL \<and> st' = st
     | Some key \<Rightarrow>
         (\<forall>k. k \<noteq> key \<longrightarrow> map_of (scull_c_list st') k = map_of (scull_c_list st) k) \<and>
         (case map_of (scull_c_list st) key of
            Some d \<Rightarrow> r = Ret 0 \<and> map fst (scull_c_list st') = map fst (scull_c_list st) \<and>
              map_of (scull_c_list st') key =
                Some (if mode = O_WRONLY then d\<lparr>data := [], dev_size := 0, quantum := scull_quantum p, qset := scull_qset p\<rparr>
                      else d)
          | None \<Rightarrow>
              if ok then r = Ret 0 \<and> map fst (scull_c_list st') = key # map fst (scull_c_list st) \<and>
                map_of (scull_c_list st') key = Some (new_c_dev p)
              else r = Fail ENOMEM \<and> st' = st))"
proof (cases tty)
  case None
  then show ?thesis using assms by (simp add: scull_c_open_def)
next
  case (Some key)
  let ?l = "scull_c_list st"
  have wf: "distinct (map fst ?l)" "\<And>k d. (k, d) \<in> set ?l \<Longrightarrow> scull_wf d" using assms(1) by (auto simp: c_wf_def)
  show ?thesis
  proof (cases "map_of ?l key")
    case None
    show ?thesis
    proof (cases ok)
      case True
      have l: "scull_c_lookfor_device p ok key ?l = Some (Some (new_c_dev p), (key, new_c_dev p) # ?l)"
        using None True by (simp add: scull_c_lookfor_device_def trim_new)
      have t: "trim_if_wronly p mode (new_c_dev p) = Some (new_c_dev p)" by (simp add: trim_if_wronly_def trim_new)
      let ?l' = "c_update key (new_c_dev p) ((key, new_c_dev p) # ?l)"
      have "?l' = (key, new_c_dev p) # ?l"
        using None by (auto simp: c_update_def map_of_eq_None_iff intro!: map_idI) (metis fst_conv image_eqI)
      moreover have "scull_wf (new_c_dev p)" using assms(2) by (simp add: scull_wf_def new_c_dev_def zero_dev_def)
      moreover have "key \<notin> fst ` set ?l" using None by (simp add: map_of_eq_None_iff)
      ultimately show ?thesis using Some None True l t wf
        by (auto simp: scull_c_open_def c_wf_def)
    next
      case False
      then show ?thesis using Some None assms(1) by (simp add: scull_c_open_def scull_c_lookfor_device_def)
    qed
  next
    case d: (Some d)
    have l: "scull_c_lookfor_device p ok key ?l = Some (Some d, ?l)"
      using d by (simp add: scull_c_lookfor_device_def)
    have wd: "scull_wf d" using d wf(2) by (meson map_of_SomeD)
    define d' where "d' = (if mode = O_WRONLY then d\<lparr>data := [], dev_size := 0, quantum := scull_quantum p, qset := scull_qset p\<rparr> else d)"
    have t: "trim_if_wronly p mode d = Some d'" using scull_trim_ok[OF wd] by (simp add: trim_if_wronly_def d'_def)
    have "scull_wf d'" using wd assms(2) by (simp add: d'_def scull_wf_def)
    then have "c_wf (st\<lparr>scull_c_list := c_update key d' ?l\<rparr>)"
      using wf by (auto simp: c_wf_def c_update_keys) (auto simp: c_update_def split: if_splits)
    then show ?thesis using Some d l t
      by (simp add: scull_c_open_def c_update_keys map_of_c_update flip: d'_def)
  qed
qed

theorem scull_c_private_witness:
  "\<exists>st'. scull_c_open (Some 5) True small_p O_RDWR (no_access\<lparr>scull_c_list := [(7, new_c_dev small_p)]\<rparr>) =
      Some (st', Ret 0) \<and> map fst (scull_c_list st') = [5, 7] \<and> map_of (scull_c_list st') 7 = Some (new_c_dev small_p)"
proof -
  let ?st = "no_access\<lparr>scull_c_list := [(7, new_c_dev small_p)]\<rparr>"
  have "c_wf ?st" "geometry_ok (scull_quantum small_p) (scull_qset small_p)"
    by (simp_all add: c_wf_def scull_wf_def new_c_dev_def zero_dev_def small_p_def geometry_ok_def)
  from scull_c_private[OF this, of "Some 5" True O_RDWR] obtain st' where
    "scull_c_open (Some 5) True small_p O_RDWR ?st = Some (st', Ret 0)" "map fst (scull_c_list st') = [5, 7]"
    "\<forall>k. k \<noteq> 5 \<longrightarrow> map_of (scull_c_list st') k = map_of (scull_c_list ?st) k" by auto
  then show ?thesis by simp
qed

end
