(* ===== verification/Scull_Module.thy ===== *)
theory Scull_Module
  imports Scull_Pipe_Props Scull_Access_Props
begin

section \<open>The scull module as a whole\<close>

text \<open>
  Loading and unloading of \<open>scull/main.c\<close>, which set up the bare devices, the pipes and the devices with access
  control; the listing of the debugging build; and the operations of
  \<open>scull-shared/scull-async.c\<close>, which only the variants of scull link.
\<close>

subsection \<open>Listing\<close>

text \<open>\<open>full k\<close>: the buffer is past its limit once \<open>k\<close> lines have been printed.\<close>

fun mem_items :: "(nat \<Rightarrow> bool) \<Rightarrow> int \<Rightarrow> nat \<Rightarrow> scull_qset list \<Rightarrow> seq_line list \<Rightarrow> seq_line list option" where
  "mem_items full qs k [] out = Some out"
| "mem_items full qs k (d # l) out =
     (if full (length out) then Some out
      else do {
        ls \<leftarrow> scull_show_item qs (Suc k + length l) k d;
        mem_items full qs (Suc k) l (out @ ls) })"

fun scull_read_procmem ::
  "(nat \<Rightarrow> bool) \<Rightarrow> (nat \<Rightarrow> bool) \<Rightarrow> nat \<Rightarrow> scull_dev list \<Rightarrow> seq_line list \<Rightarrow> (seq_line list \<times> int outcome) option" where
  "scull_read_procmem full intrs i [] out = Some (out, Ret 0)"
| "scull_read_procmem full intrs i (d # ds) out =
     (if full (length out) then Some (out, Ret 0)
      else if intrs i then Some (out, Fail ERESTARTSYS)
      else do {
        out' \<leftarrow> mem_items full (qset d) 0 (data d) (out @ [Seq_device (int i) (qset d) (quantum d) (dev_size d)]);
        scull_read_procmem full intrs (Suc i) ds out' })"

lemma mem_items_ok: "\<forall>n \<in> set l. qset_ok q qs n \<Longrightarrow> mem_items full qs k l out \<noteq> None"
proof (induction l arbitrary: k out)
  case (Cons n l)
  have "\<exists>ls. scull_show_item qs (Suc k + length l) k n = Some ls"
    using Cons.prems by (auto simp: scull_show_item_def qset_ok_def split: option.splits)
  then show ?case using Cons by auto
qed simp

lemma scull_read_procmem_safe:
  "\<forall>d \<in> set ds. scull_wf d \<Longrightarrow> scull_read_procmem full intrs i ds out \<noteq> None"
proof (induction ds arbitrary: i out)
  case (Cons d ds)
  have "mem_items full (qset d) 0 (data d) (out @ [Seq_device (int i) (qset d) (quantum d) (dev_size d)]) \<noteq> None"
    using Cons.prems by (intro mem_items_ok[where q = "quantum d"]) (simp add: scull_wf_def)
  then show ?case using Cons by auto
qed simp

text \<open>The listing of the pipes: the lines of a pipe are printed together, addresses as offsets from its buffer.\<close>

datatype pipe_line =
  Default_buffersize int | Pipe_line int | Pipe_buffer "int option" int int | Pipe_pointers int int | Pipe_counts int int

fun p_mem_loop :: "(nat \<Rightarrow> bool) \<Rightarrow> (nat \<Rightarrow> bool) \<Rightarrow> nat \<Rightarrow> scull_pipe list \<Rightarrow> pipe_line list \<Rightarrow> pipe_line list \<times> int outcome" where
  "p_mem_loop full intrs i [] out = (out, Ret 0)"
| "p_mem_loop full intrs i (d # ds) out =
     (if full (length out) then (out, Ret 0)
      else if intrs i then (out, Fail ERESTARTSYS)
      else p_mem_loop full intrs (Suc i) ds
             (out @ [Pipe_line (int i), Pipe_buffer (map_option (\<lambda>_. 0) (pbuf d)) (pend d) (buffersize d),
                Pipe_pointers (rp d) (wp d), Pipe_counts (nreaders d) (nwriters d)]))"

definition scull_read_p_mem ::
  "(nat \<Rightarrow> bool) \<Rightarrow> (nat \<Rightarrow> bool) \<Rightarrow> scull_params \<Rightarrow> scull_pipe list \<Rightarrow> pipe_line list \<times> int outcome" where
  "scull_read_p_mem full intrs p ds = p_mem_loop full intrs 0 ds [Default_buffersize (scull_p_buffer p)]"

subsection \<open>Loading and unloading\<close>

record scull_module =
  sm_devices :: "scull_dev list option"
  sm_region :: bool
  sm_pipes :: pipe_module
  sm_access :: access_state

fun trim_devices :: "scull_params \<Rightarrow> scull_dev list \<Rightarrow> unit option" where
  "trim_devices p [] = Some ()"
| "trim_devices p (d # ds) = do { scull_trim p d; trim_devices p ds }"

definition scull_cleanup_module :: "scull_params \<Rightarrow> scull_module \<Rightarrow> scull_module option" where
  "scull_cleanup_module p m = do {
     (case sm_devices m of None \<Rightarrow> Some () | Some ds \<Rightarrow> trim_devices p ds);
     st \<leftarrow> scull_access_cleanup p (sm_access m);
     Some (m\<lparr>sm_devices := None, sm_region := False, sm_pipes := scull_p_cleanup (sm_pipes m), sm_access := st\<rparr>) }"

text \<open>
  \<open>reg\<close> is the error of the registration, \<open>ok\<close> whether the devices are allocated; \<open>p_reg\<close>, \<open>p_ok\<close> and
  \<open>a_reg\<close> are the same for the pipes and the access devices, whose failures only
  reduce the number of devices. A failure of \<open>cdev_add\<close> is only logged.
\<close>

definition scull_init_module ::
  "errno option \<Rightarrow> bool \<Rightarrow> int \<Rightarrow> bool \<Rightarrow> int \<Rightarrow> scull_params \<Rightarrow> nat \<Rightarrow> int \<Rightarrow> scull_module \<Rightarrow>
   (scull_module \<times> int outcome) option" where
  "scull_init_module reg ok p_reg p_ok a_reg p nr p_nr m =
     (case reg of
        Some e \<Rightarrow> Some (m, Fail e)
      | None \<Rightarrow>
          if \<not> ok then do {
            m' \<leftarrow> scull_cleanup_module p (m\<lparr>sm_devices := None, sm_region := True\<rparr>);
            Some (m', Fail ENOMEM) }
          else
            (let ds = replicate nr (zero_dev\<lparr>quantum := scull_quantum p, qset := scull_qset p\<rparr>);
                 (pm, _) = scull_p_init p_reg p_ok p_nr (sm_pipes m);
                 (st, _) = scull_access_init a_reg p (sm_access m)
             in Some (m\<lparr>sm_devices := Some ds, sm_region := True, sm_pipes := pm, sm_access := st\<rparr>, Ret 0)))"

lemma trim_devices_ok: "\<forall>d \<in> set ds. scull_wf d \<Longrightarrow> trim_devices p ds = Some ()"
  by (induction ds) (simp_all add: scull_trim_ok)

text \<open>Devices that may be trimmed: well-formed, or with an empty list.\<close>

definition trimmable :: "scull_dev \<Rightarrow> bool" where
  "trimmable d \<longleftrightarrow> (\<forall>n \<in> set (data d). qset_ok (quantum d) (qset d) n)"

lemma trim_trimmable: "trimmable d \<Longrightarrow> \<exists>d'. scull_trim p d = Some d' \<and> data d' = [] \<and> dev_size d' = 0"
  by (simp add: trimmable_def scull_trim_def free_list_ok)

definition module_trimmable :: "scull_module \<Rightarrow> bool" where
  "module_trimmable m \<longleftrightarrow> (\<forall>ds. sm_devices m = Some ds \<longrightarrow> (\<forall>d \<in> set ds. trimmable d)) \<and>
     trimmable (scull_s_device (sm_access m)) \<and> trimmable (scull_u_device (sm_access m)) \<and>
     trimmable (scull_w_device (sm_access m)) \<and> trimmable (scull_c_device (sm_access m)) \<and>
     (\<forall>(k, d) \<in> set (scull_c_list (sm_access m)). trimmable d)"

lemma trim_devices_trimmable: "\<forall>d \<in> set ds. trimmable d \<Longrightarrow> trim_devices p ds = Some ()"
proof (induction ds)
  case (Cons d ds)
  then show ?case using trim_trimmable[of d p] by auto
qed simp

lemma c_trim_trimmable: "\<forall>(k, d) \<in> set l. trimmable d \<Longrightarrow> c_trim_all p l = Some ()"
proof (induction l)
  case (Cons kd l)
  obtain k d where kd: "kd = (k, d)" by (cases kd)
  obtain d' where "scull_trim p d = Some d'" using Cons.prems kd trim_trimmable[of d p] by auto
  then show ?case using Cons kd by simp
qed simp

text \<open>Unloading a module in use-free, consistent state releases all that is held.\<close>

lemma scull_unload:
  assumes "module_trimmable m"
  shows "\<exists>m'. scull_cleanup_module p m = Some m' \<and> sm_devices m' = None \<and> \<not> sm_region m' \<and>
    scull_p_devices (sm_pipes m') = None \<and> \<not> a_region (sm_access m') \<and> scull_c_list (sm_access m') = [] \<and>
    data (scull_s_device (sm_access m')) = [] \<and> data (scull_u_device (sm_access m')) = [] \<and>
    data (scull_w_device (sm_access m')) = [] \<and> data (scull_c_device (sm_access m')) = []"
proof -
  let ?st = "sm_access m"
  have m: "trimmable (scull_s_device ?st)" "trimmable (scull_u_device ?st)" "trimmable (scull_w_device ?st)"
    "trimmable (scull_c_device ?st)" "\<forall>(k, d) \<in> set (scull_c_list ?st). trimmable d"
    "\<forall>ds. sm_devices m = Some ds \<longrightarrow> (\<forall>d \<in> set ds. trimmable d)"
    using assms by (simp_all add: module_trimmable_def)
  obtain s u w c where t: "scull_trim p (scull_s_device ?st) = Some s" "scull_trim p (scull_u_device ?st) = Some u"
    "scull_trim p (scull_w_device ?st) = Some w" "scull_trim p (scull_c_device ?st) = Some c"
    and e: "data s = []" "data u = []" "data w = []" "data c = []"
    using m(1-4)[THEN trim_trimmable, of p] by auto
  have d: "(case sm_devices m of None \<Rightarrow> Some () | Some ds \<Rightarrow> trim_devices p ds) = Some ()"
    using m(6) by (auto simp: trim_devices_trimmable split: option.splits)
  have pp: "scull_p_devices (scull_p_cleanup (sm_pipes m)) = None"
    by (simp add: scull_p_cleanup_def split: option.splits)
  show ?thesis
    by (simp add: scull_cleanup_module_def d scull_access_cleanup_def t c_trim_trimmable[OF m(5)] e pp)
qed

definition fresh_module :: "scull_module \<Rightarrow> bool" where
  "fresh_module m \<longleftrightarrow> sm_devices m = None \<and> \<not> sm_region m \<and> \<not> a_region (sm_access m) \<and>
     scull_p_devices (sm_pipes m) = None \<and> scull_c_list (sm_access m) = [] \<and>
     data (scull_s_device (sm_access m)) = [] \<and> data (scull_u_device (sm_access m)) = [] \<and>
     data (scull_w_device (sm_access m)) = [] \<and> data (scull_c_device (sm_access m)) = []"

lemma trimmable_empty: "data d = [] \<Longrightarrow> trimmable d"
  by (simp add: trimmable_def)

text \<open>
  Loading succeeds with well-formed devices, or fails and leaves nothing behind, whatever fails inside;
  either way the module can be unloaded.
\<close>

lemma scull_load:
  assumes "fresh_module m" "geometry_ok (scull_quantum p) (scull_qset p)"
  shows "\<exists>m' r. scull_init_module reg ok p_reg p_ok a_reg p nr p_nr m = Some (m', r) \<and> module_trimmable m' \<and>
    (r = Ret 0 \<longrightarrow> reg = None \<and> ok \<and> sm_region m' \<and>
      (\<exists>ds. sm_devices m' = Some ds \<and> length ds = nr \<and> (\<forall>d \<in> set ds. scull_wf d))) \<and>
    (r \<noteq> Ret 0 \<longrightarrow> sm_devices m' = None \<and> \<not> sm_region m' \<and> \<not> a_region (sm_access m'))"
proof -
  have f: "sm_devices m = None" "\<not> sm_region m" "\<not> a_region (sm_access m)" "scull_c_list (sm_access m) = []"
    "data (scull_s_device (sm_access m)) = []" "data (scull_u_device (sm_access m)) = []"
    "data (scull_w_device (sm_access m)) = []" "data (scull_c_device (sm_access m)) = []"
    using assms(1) by (simp_all add: fresh_module_def)
  have t: "module_trimmable (m\<lparr>sm_devices := None, sm_region := True\<rparr>)" "module_trimmable m"
    using f by (simp_all add: module_trimmable_def trimmable_empty)
  consider e where "reg = Some e" | "reg = None" "\<not> ok" | "reg = None" "ok" by (cases reg) auto
  then show ?thesis
  proof cases
    case 1
    then show ?thesis using f t(2) by (simp add: scull_init_module_def)
  next
    case 2
    obtain m' where m': "scull_cleanup_module p (m\<lparr>sm_devices := None, sm_region := True\<rparr>) = Some m'"
      "sm_devices m' = None" "\<not> sm_region m'" "\<not> a_region (sm_access m')" "scull_c_list (sm_access m') = []"
      "data (scull_s_device (sm_access m')) = []" "data (scull_u_device (sm_access m')) = []"
      "data (scull_w_device (sm_access m')) = []" "data (scull_c_device (sm_access m')) = []"
      using scull_unload[OF t(1), of p] by blast
    then have "module_trimmable m'" by (simp add: module_trimmable_def trimmable_empty)
    then show ?thesis using 2 m' by (simp add: scull_init_module_def)
  next
    case 3
    have wf: "scull_wf (zero_dev\<lparr>quantum := scull_quantum p, qset := scull_qset p\<rparr>)"
      using assms(2) by (simp add: scull_wf_def zero_dev_def)
    obtain pm k st k' where i: "scull_p_init p_reg p_ok p_nr (sm_pipes m) = (pm, k)"
      "scull_access_init a_reg p (sm_access m) = (st, k')"
      by (metis surj_pair)
    have st: "scull_c_list st = []" "data (scull_s_device st) = []" "data (scull_u_device st) = []"
      "data (scull_w_device st) = []" "data (scull_c_device st) = []"
      using i(2) f by (auto simp: scull_access_init_def scull_access_setup_def split: if_splits)
    show ?thesis using 3 i st wf
      by (auto simp: scull_init_module_def module_trimmable_def trimmable_empty zero_dev_def)
  qed
qed

subsection \<open>Deferred operations\<close>

text \<open>
  An iterator over user memory is given by its address, \<open>writes\<close> is its direction; \<open>generic_read\<close> and \<open>generic_write\<close> are the
  functions of the kernel. What \<open>kmalloc\<close> leaves in a field is undefined, and so is the result when the
  allocation fails.
\<close>

record async_work =
  iocb :: nat
  tofrom :: "nat option"

definition scull_do_deferred_op ::
  "(nat \<Rightarrow> bool) \<Rightarrow> (nat \<Rightarrow> nat \<Rightarrow> 's \<Rightarrow> 's \<times> int outcome) \<Rightarrow> (nat \<Rightarrow> nat \<Rightarrow> 's \<Rightarrow> 's \<times> int outcome) \<Rightarrow>
   async_work \<Rightarrow> 's \<Rightarrow> 's option" where
  "scull_do_deferred_op writes generic_read generic_write work s = do {
     v \<leftarrow> tofrom work;
     Some (fst (if writes v then generic_write (iocb work) v s else generic_read (iocb work) v s)) }"

definition scull_defer_op :: "bool \<Rightarrow> nat \<Rightarrow> nat \<Rightarrow> (async_work option \<times> int outcome option)" where
  "scull_defer_op ok io v =
     (if \<not> ok then (None, None) else (Some \<lparr>iocb = io, tofrom = None\<rparr>, Some (Fail EIOCBQUEUED)))"

definition scull_read_iter ::
  "(nat \<Rightarrow> nat \<Rightarrow> 's \<Rightarrow> 's \<times> int outcome) \<Rightarrow> bool \<Rightarrow> bool \<Rightarrow> nat \<Rightarrow> nat \<Rightarrow> 's \<Rightarrow>
   's \<times> async_work option \<times> int outcome option" where
  "scull_read_iter generic_read sync ok io v s =
     (if sync then (case generic_read io v s of (s', r) \<Rightarrow> (s', None, Some r))
      else (case scull_defer_op ok io v of (w, r) \<Rightarrow> (s, w, r)))"

definition scull_write_iter ::
  "(nat \<Rightarrow> nat \<Rightarrow> 's \<Rightarrow> 's \<times> int outcome) \<Rightarrow> bool \<Rightarrow> bool \<Rightarrow> nat \<Rightarrow> nat \<Rightarrow> 's \<Rightarrow>
   's \<times> async_work option \<times> int outcome option" where
  "scull_write_iter generic_write sync ok io v s =
     (if sync then (case generic_write io v s of (s', r) \<Rightarrow> (s', None, Some r))
      else (case scull_defer_op ok io v of (w, r) \<Rightarrow> (s, w, r)))"

text \<open>Every deferred operation uses an iterator that was never stored.\<close>

lemma deferred_op_uninitialised:
  assumes "scull_read_iter gr False ok io v s = (s', Some work, r) \<or> scull_write_iter gw False ok io v s = (s', Some work, r)"
  shows "scull_do_deferred_op writes gr gw work s = None"
  using assms
  by (auto simp: scull_read_iter_def scull_write_iter_def scull_defer_op_def scull_do_deferred_op_def split: if_splits)

end
