(* ===== verification/Scull_Numbers.thy ===== *)
theory Scull_Numbers
  imports Scull_Module
begin

section \<open>The device numbers of scull\<close>

text \<open>
  Which device answers which number, and through which table of operations: \<open>scull_fops\<close> of \<open>scull/main.c\<close>,
  \<open>scull_pipe_fops\<close> of \<open>pipe.c\<close> and the four tables of \<open>access.c\<close>, and the calls that add the
  devices to the kernel's map of character devices when the module is loaded and remove them from it.
\<close>

subsection \<open>Tables\<close>

datatype scull_handler =
  Scull_llseek | Scull_read | Scull_write | Scull_ioctl | Scull_open | Scull_release
| No_llseek | Scull_p_read | Scull_p_write | Scull_p_poll | Scull_p_open | Scull_p_release | Scull_p_fasync
| Scull_s_open | Scull_s_release | Scull_u_open | Scull_u_release | Scull_w_open | Scull_w_release
| Scull_c_open | Scull_c_release

record char_fops =
  cf_llseek :: "scull_handler option"
  cf_read :: "scull_handler option"
  cf_write :: "scull_handler option"
  cf_poll :: "scull_handler option"
  cf_unlocked_ioctl :: "scull_handler option"
  cf_open :: "scull_handler option"
  cf_release :: "scull_handler option"
  cf_fasync :: "scull_handler option"

definition scull_fops :: char_fops where
  "scull_fops = \<lparr>cf_llseek = Some Scull_llseek, cf_read = Some Scull_read, cf_write = Some Scull_write, cf_poll = None,
     cf_unlocked_ioctl = Some Scull_ioctl, cf_open = Some Scull_open, cf_release = Some Scull_release, cf_fasync = None\<rparr>"

definition scull_pipe_fops :: char_fops where
  "scull_pipe_fops = \<lparr>cf_llseek = Some No_llseek, cf_read = Some Scull_p_read, cf_write = Some Scull_p_write,
     cf_poll = Some Scull_p_poll, cf_unlocked_ioctl = Some Scull_ioctl, cf_open = Some Scull_p_open,
     cf_release = Some Scull_p_release, cf_fasync = Some Scull_p_fasync\<rparr>"

definition scull_sngl_fops :: char_fops where
  "scull_sngl_fops = \<lparr>cf_llseek = Some Scull_llseek, cf_read = Some Scull_read, cf_write = Some Scull_write, cf_poll = None,
     cf_unlocked_ioctl = Some Scull_ioctl, cf_open = Some Scull_s_open, cf_release = Some Scull_s_release, cf_fasync = None\<rparr>"

definition scull_user_fops :: char_fops where
  "scull_user_fops = \<lparr>cf_llseek = Some Scull_llseek, cf_read = Some Scull_read, cf_write = Some Scull_write, cf_poll = None,
     cf_unlocked_ioctl = Some Scull_ioctl, cf_open = Some Scull_u_open, cf_release = Some Scull_u_release, cf_fasync = None\<rparr>"

definition scull_wusr_fops :: char_fops where
  "scull_wusr_fops = \<lparr>cf_llseek = Some Scull_llseek, cf_read = Some Scull_read, cf_write = Some Scull_write, cf_poll = None,
     cf_unlocked_ioctl = Some Scull_ioctl, cf_open = Some Scull_w_open, cf_release = Some Scull_w_release, cf_fasync = None\<rparr>"

definition scull_priv_fops :: char_fops where
  "scull_priv_fops = \<lparr>cf_llseek = Some Scull_llseek, cf_read = Some Scull_read, cf_write = Some Scull_write, cf_poll = None,
     cf_unlocked_ioctl = Some Scull_ioctl, cf_open = Some Scull_c_open, cf_release = Some Scull_c_release, cf_fasync = None\<rparr>"

subsection \<open>The map of character devices\<close>

datatype scull_device = Bare nat | Pipe_device nat | Scull_s_dev | Scull_u_dev | Scull_w_dev | Scull_c_dev

text \<open>\<open>scull_access_devs\<close>.\<close>

definition scull_access_devs :: "(string \<times> scull_device \<times> char_fops) list" where
  "scull_access_devs = [(''scullsingle'', Scull_s_dev, scull_sngl_fops), (''sculluid'', Scull_u_dev, scull_user_fops),
     (''scullwuid'', Scull_w_dev, scull_wusr_fops), (''scullpriv'', Scull_c_dev, scull_priv_fops)]"

text \<open>\<open>ok n\<close>: the call of \<open>cdev_add\<close> for number \<open>n\<close> succeeds. A failure is only logged.\<close>

type_synonym cdev_map = "nat \<Rightarrow> (scull_device \<times> char_fops) option"

definition cdev_add :: "(nat \<Rightarrow> bool) \<Rightarrow> nat \<Rightarrow> scull_device \<times> char_fops \<Rightarrow> cdev_map \<Rightarrow> cdev_map" where
  "cdev_add ok n e c = (if ok n then c(n \<mapsto> e) else c)"

definition scull_setup_cdev :: "(nat \<Rightarrow> bool) \<Rightarrow> nat \<Rightarrow> nat \<Rightarrow> cdev_map \<Rightarrow> cdev_map" where
  "scull_setup_cdev ok first index c = cdev_add ok (first + index) (Bare index, scull_fops) c"

definition scull_p_setup_cdev :: "(nat \<Rightarrow> bool) \<Rightarrow> nat \<Rightarrow> nat \<Rightarrow> cdev_map \<Rightarrow> cdev_map" where
  "scull_p_setup_cdev ok scull_p_devno index c = cdev_add ok (scull_p_devno + index) (Pipe_device index, scull_pipe_fops) c"

definition scull_access_setup_cdev :: "(nat \<Rightarrow> bool) \<Rightarrow> nat \<Rightarrow> string \<times> scull_device \<times> char_fops \<Rightarrow> cdev_map \<Rightarrow> cdev_map" where
  "scull_access_setup_cdev ok devno devinfo c = cdev_add ok devno (snd devinfo) c"

text \<open>
  The part of loading that hands out numbers: \<open>nr\<close> bare devices from \<open>first\<close>, then the pipes and then the
  access devices, where \<open>np\<close> and \<open>na\<close> are the answers of \<open>scull_p_init\<close> and \<open>scull_access_init\<close>, the numbers of
  devices made.
\<close>

definition load_numbers :: "(nat \<Rightarrow> bool) \<Rightarrow> nat \<Rightarrow> nat \<Rightarrow> nat \<Rightarrow> nat \<Rightarrow> cdev_map \<Rightarrow> cdev_map" where
  "load_numbers ok first nr np na c =
     (let c1 = fold (scull_setup_cdev ok first) [0..<nr] c;
          c2 = fold (scull_p_setup_cdev ok (first + nr)) [0..<np] c1
      in fold (\<lambda>i. scull_access_setup_cdev ok (first + nr + np + i) (scull_access_devs ! i)) [0..<na] c2)"

text \<open>\<open>cdev_del\<close> of every device.\<close>

definition unload_numbers :: "nat \<Rightarrow> nat \<Rightarrow> nat \<Rightarrow> nat \<Rightarrow> cdev_map \<Rightarrow> cdev_map" where
  "unload_numbers first nr np na c = fold (\<lambda>n c. c(n := None)) [first..<first + nr + np + na] c"

subsection \<open>Who answers\<close>

lemma fold_cdev_add:
  "fold (\<lambda>i. cdev_add ok (a + i) (f i)) [0..<n] c k =
    (if a \<le> k \<and> k < a + n \<and> ok k then Some (f (k - a)) else c k)"
  by (induction n) (auto simp: cdev_add_def le_less)

lemma load_numbers_lookup:
  "load_numbers ok first nr np na c k =
    (if \<not> ok k \<or> k < first \<or> first + nr + np + na \<le> k then c k
     else if k < first + nr then Some (Bare (k - first), scull_fops)
     else if k < first + nr + np then Some (Pipe_device (k - first - nr), scull_pipe_fops)
     else Some (snd (scull_access_devs ! (k - first - nr - np))))"
proof -
  have "load_numbers ok first nr np na c k =
    (if first + nr + np \<le> k \<and> k < first + nr + np + na \<and> ok k then Some (snd (scull_access_devs ! (k - (first + nr + np))))
     else if first + nr \<le> k \<and> k < first + nr + np \<and> ok k then Some (Pipe_device (k - (first + nr)), scull_pipe_fops)
     else if first \<le> k \<and> k < first + nr \<and> ok k then Some (Bare (k - first), scull_fops) else c k)"
    unfolding load_numbers_def Let_def scull_access_setup_cdev_def scull_p_setup_cdev_def[abs_def] scull_setup_cdev_def[abs_def] fold_cdev_add
    by simp
  then show ?thesis by (auto simp: diff_diff_eq)
qed

text \<open>
  After loading, the bare devices, the pipes and the access devices follow each other without a gap, each with its own
  open; when the pipes cannot be made, the access devices take their numbers.
\<close>

lemma scull_numbers:
  fixes first nr :: nat
  assumes "scull_p_init p_reg p_ok (int n) pm = (pm', np)" "scull_access_init a_reg p st = (st', na)" "\<And>k. ok k"
  defines "c \<equiv> load_numbers ok first nr (nat np) (nat na) Map.empty"
  shows "i < nr \<Longrightarrow> c (first + i) = Some (Bare i, scull_fops)"
    and "i < nat np \<Longrightarrow> c (first + nr + i) = Some (Pipe_device i, scull_pipe_fops)"
    and "i < nat na \<Longrightarrow> c (first + nr + nat np + i) = Some (snd (scull_access_devs ! i))"
    and "k < first \<or> first + nr + nat np + nat na \<le> k \<Longrightarrow> c k = None"
    and "np = (if 0 \<le> p_reg \<and> p_ok then int n else 0)" "na = (if 0 \<le> a_reg then 4 else 0)"
  using assms(1,2)
  by (auto simp: c_def load_numbers_lookup assms(3) scull_p_init_def scull_access_init_def SCULL_N_ADEVS_def split: if_splits)

lemma fold_clear: "fold (\<lambda>n c. c(n := None)) ns c k = (if k \<in> set ns then None else c k)"
  by (induction ns arbitrary: c) auto

lemma unload_load_numbers:
  assumes "\<And>k. first \<le> k \<Longrightarrow> k < first + nr + np + na \<Longrightarrow> c k = None"
  shows "unload_numbers first nr np na (load_numbers ok first nr np na c) = c"
  using assms by (auto simp: fun_eq_iff unload_numbers_def fold_clear load_numbers_lookup)

text \<open>The six opens, by number, with the defaults of four bare devices and four pipes.\<close>

lemma scull_opens:
  "map (\<lambda>k. map_option (cf_open \<circ> snd) (load_numbers (\<lambda>_. True) 0 4 4 4 Map.empty k)) [0..<12] =
    map (Some \<circ> Some) (replicate 4 Scull_open @ replicate 4 Scull_p_open @ [Scull_s_open, Scull_u_open, Scull_w_open, Scull_c_open])"
  by code_simp

end
