(* ===== verification/Scull_System.thy ===== *)
theory Scull_System
  imports Scull_Numbers
begin

section \<open>The bare devices as programs see them\<close>

text \<open>
  The devices behind their numbers, opened, read, written and positioned through descriptors by any programs, against
  files with holes: a size and a map from positions to cells. A read stops at a hole, and reads and writes stop
  at the end of a quantum, so that both may do less than they are asked for. The kernel refuses to read a
  file that is open for writing only and to write one open for reading only.
\<close>

subsection \<open>Calls\<close>

text \<open>The files: table of operations, index of the device, mode and position. The descriptor of an open is the one that the kernel picks.\<close>

record bare_sys =
  bs_devs :: "scull_dev list"
  bs_files :: "nat \<Rightarrow> (char_fops \<times> nat \<times> accmode \<times> int) option"

datatype bare_call =
  B_open nat nat accmode bool
| B_close nat
| B_read nat kenv nat
| B_write nat kenv "byte list"
| B_lseek nat int int

datatype bare_reply = B_value int | B_data "cell list" | B_error errno | B_bad

definition bare_open :: "cdev_map \<Rightarrow> scull_params \<Rightarrow> nat \<Rightarrow> nat \<Rightarrow> accmode \<Rightarrow> bool \<Rightarrow> bare_sys \<Rightarrow> (bare_sys \<times> bare_reply) option" where
  "bare_open c p fd number mode intr s =
     (case c number of
        Some (Bare i, fo) \<Rightarrow>
          if cf_open fo = Some Scull_open \<and> i < length (bs_devs s) then do {
            (d, r) \<leftarrow> scull_open intr p mode (bs_devs s ! i);
            (case r of
               Ret _ \<Rightarrow> Some (s\<lparr>bs_devs := (bs_devs s)[i := d], bs_files := (bs_files s)(fd \<mapsto> (fo, i, mode, 0))\<rparr>, B_value (int fd))
             | Fail e \<Rightarrow> Some (s\<lparr>bs_devs := (bs_devs s)[i := d]\<rparr>, B_error e)
             | Blocked \<Rightarrow> None) }
          else Some (s, B_bad)
      | _ \<Rightarrow> Some (s, B_bad))"

definition bare_read :: "nat \<Rightarrow> char_fops \<times> nat \<times> accmode \<times> int \<Rightarrow> kenv \<Rightarrow> nat \<Rightarrow> bare_sys \<Rightarrow> (bare_sys \<times> bare_reply) option" where
  "bare_read fd file env count s =
     (case file of (fo, i, mode, pos) \<Rightarrow> do {
        (d, pos', r) \<leftarrow> scull_read env (bs_devs s ! i) (int (min count chunk_max)) pos;
        (case r of
           Ret bs \<Rightarrow> Some (s\<lparr>bs_devs := (bs_devs s)[i := d], bs_files := (bs_files s)(fd \<mapsto> (fo, i, mode, pos'))\<rparr>, B_data bs)
         | Fail e \<Rightarrow> Some (s\<lparr>bs_devs := (bs_devs s)[i := d]\<rparr>, B_error e)
         | Blocked \<Rightarrow> None) })"

definition bare_write :: "nat \<Rightarrow> char_fops \<times> nat \<times> accmode \<times> int \<Rightarrow> kenv \<Rightarrow> byte list \<Rightarrow> bare_sys \<Rightarrow> (bare_sys \<times> bare_reply) option" where
  "bare_write fd file env src s =
     (case file of (fo, i, mode, pos) \<Rightarrow> do {
        (d, pos', r) \<leftarrow> scull_write env (bs_devs s ! i) (take chunk_max src) pos;
        (case r of
           Ret n \<Rightarrow> Some (s\<lparr>bs_devs := (bs_devs s)[i := d], bs_files := (bs_files s)(fd \<mapsto> (fo, i, mode, pos'))\<rparr>, B_value n)
         | Fail e \<Rightarrow> Some (s\<lparr>bs_devs := (bs_devs s)[i := d]\<rparr>, B_error e)
         | Blocked \<Rightarrow> None) })"

definition bare_lseek :: "nat \<Rightarrow> char_fops \<times> nat \<times> accmode \<times> int \<Rightarrow> int \<Rightarrow> int \<Rightarrow> bare_sys \<Rightarrow> (bare_sys \<times> bare_reply) option" where
  "bare_lseek fd file off whence s =
     (case file of (fo, i, mode, pos) \<Rightarrow>
        (case scull_llseek (bs_devs s ! i) pos off whence of
           (pos', Ret v) \<Rightarrow> Some (s\<lparr>bs_files := (bs_files s)(fd \<mapsto> (fo, i, mode, pos'))\<rparr>, B_value v)
         | (pos', Fail e) \<Rightarrow> Some (s\<lparr>bs_files := (bs_files s)(fd \<mapsto> (fo, i, mode, pos'))\<rparr>, B_error e)
         | (pos', Blocked) \<Rightarrow> None))"

text \<open>
  A call goes to the handler that the table of the file names; a table that names another handler is not one of these devices.
\<close>

fun bare_exec :: "cdev_map \<Rightarrow> scull_params \<Rightarrow> bare_call \<Rightarrow> bare_sys \<Rightarrow> (bare_sys \<times> bare_reply) option" where
  "bare_exec c p (B_open fd number mode intr) s =
     (if bs_files s fd = None then bare_open c p fd number mode intr s else Some (s, B_bad))"
| "bare_exec c p (B_close fd) s =
     (case bs_files s fd of
        None \<Rightarrow> Some (s, B_bad)
      | Some (fo, i, mode, pos) \<Rightarrow>
          Some (s\<lparr>bs_devs := (if cf_release fo = Some Scull_release then (bs_devs s)[i := fst (scull_release (bs_devs s ! i))]
              else bs_devs s), bs_files := (bs_files s)(fd := None)\<rparr>, B_value 0))"
| "bare_exec c p (B_read fd env count) s =
     (case bs_files s fd of
        Some (fo, i, mode, pos) \<Rightarrow>
          if mode = O_WRONLY \<or> cf_read fo \<noteq> Some Scull_read then Some (s, B_bad) else bare_read fd (fo, i, mode, pos) env count s
      | None \<Rightarrow> Some (s, B_bad))"
| "bare_exec c p (B_write fd env src) s =
     (case bs_files s fd of
        Some (fo, i, mode, pos) \<Rightarrow>
          if mode = O_RDONLY \<or> cf_write fo \<noteq> Some Scull_write then Some (s, B_bad) else bare_write fd (fo, i, mode, pos) env src s
      | None \<Rightarrow> Some (s, B_bad))"
| "bare_exec c p (B_lseek fd off whence) s =
     (case bs_files s fd of
        Some (fo, i, mode, pos) \<Rightarrow>
          if cf_llseek fo \<noteq> Some Scull_llseek then Some (s, B_bad) else bare_lseek fd (fo, i, mode, pos) off whence s
      | None \<Rightarrow> Some (s, B_bad))"

subsection \<open>Files with holes\<close>

text \<open>Size and cells: \<open>None\<close> is a hole, \<open>Some None\<close> memory that nobody wrote.\<close>

type_synonym sparse = "nat \<times> (nat \<Rightarrow> cell option)"

text \<open>The devices, and device, mode and position of each open descriptor.\<close>

type_synonym sparse_sys = "(nat \<Rightarrow> sparse) \<times> (nat \<Rightarrow> (nat \<times> accmode \<times> nat) option)"

definition empty_sparse :: sparse where "empty_sparse = (0, \<lambda>_. None)"

text \<open>The cells from a position on are those of the list.\<close>

definition cells_are :: "(nat \<Rightarrow> cell option) \<Rightarrow> nat \<Rightarrow> cell list \<Rightarrow> bool" where
  "cells_are cells pos bs \<longleftrightarrow> (\<forall>k < length bs. cells (pos + k) = Some (bs ! k))"

text \<open>Outside of the positions given, cells stay, but holes may become memory.\<close>

definition outside_kept :: "nat \<Rightarrow> nat \<Rightarrow> (nat \<Rightarrow> cell option) \<Rightarrow> (nat \<Rightarrow> cell option) \<Rightarrow> bool" where
  "outside_kept pos n cells cells' \<longleftrightarrow>
     (\<forall>k. k < pos \<or> pos + n \<le> k \<longrightarrow> cells' k = cells k \<or> cells k = None \<and> cells' k = Some None)"

definition seek_target :: "nat \<Rightarrow> nat \<Rightarrow> int \<Rightarrow> int \<Rightarrow> int option" where
  "seek_target fsize pos off whence =
     (if whence = 0 then Some off else if whence = 1 then Some (int pos + off)
      else if whence = 2 then Some (int fsize + off) else None)"

inductive sparse_call :: "cdev_map \<Rightarrow> sparse_sys \<Rightarrow> bare_call \<times> bare_reply \<Rightarrow> sparse_sys \<Rightarrow> bool" for c where
  sc_open: "F fd = None \<Longrightarrow> c number = Some (Bare i, scull_fops) \<Longrightarrow> mode \<noteq> O_WRONLY \<Longrightarrow>
    sparse_call c (D, F) (B_open fd number mode intr, B_value (int fd)) (D, F(fd \<mapsto> (i, mode, 0)))"
| sc_truncate: "F fd = None \<Longrightarrow> c number = Some (Bare i, scull_fops) \<Longrightarrow> \<not> intr \<Longrightarrow>
    sparse_call c (D, F) (B_open fd number O_WRONLY intr, B_value (int fd)) (D(i := empty_sparse), F(fd \<mapsto> (i, O_WRONLY, 0)))"
| sc_open_signal: "F fd = None \<Longrightarrow> c number = Some (Bare i, scull_fops) \<Longrightarrow>
    sparse_call c (D, F) (B_open fd number O_WRONLY True, B_error ERESTARTSYS) (D, F)"
| sc_close: "F fd = Some x \<Longrightarrow> sparse_call c (D, F) (B_close fd, B_value 0) (D, F(fd := None))"
| sc_eof: "F fd = Some (i, mode, pos) \<Longrightarrow> mode \<noteq> O_WRONLY \<Longrightarrow> fst (D i) \<le> pos \<or> snd (D i) pos = None \<Longrightarrow>
    sparse_call c (D, F) (B_read fd env count, B_data []) (D, F)"
| sc_read: "F fd = Some (i, mode, pos) \<Longrightarrow> mode \<noteq> O_WRONLY \<Longrightarrow> pos < fst (D i) \<Longrightarrow> cells_are (snd (D i)) pos bs \<Longrightarrow>
    length bs \<le> count \<Longrightarrow> pos + length bs \<le> fst (D i) \<Longrightarrow> 0 < count \<longrightarrow> bs \<noteq> [] \<Longrightarrow>
    sparse_call c (D, F) (B_read fd env count, B_data bs) (D, F(fd \<mapsto> (i, mode, pos + length bs)))"
| sc_read_fails: "F fd = Some (i, mode, pos) \<Longrightarrow> mode \<noteq> O_WRONLY \<Longrightarrow> e = ERESTARTSYS \<and> signal env \<or> e = EFAULT \<and> 0 < uleft env \<Longrightarrow>
    sparse_call c (D, F) (B_read fd env count, B_error e) (D, F)"
| sc_write: "F fd = Some (i, mode, pos) \<Longrightarrow> mode \<noteq> O_RDONLY \<Longrightarrow> n \<le> length src \<Longrightarrow> src \<noteq> [] \<longrightarrow> 0 < n \<Longrightarrow>
    cells_are cells pos (map Some (take n src)) \<Longrightarrow> outside_kept pos n (snd (D i)) cells \<Longrightarrow>
    sparse_call c (D, F) (B_write fd env src, B_value (int n))
      (D(i := (max (fst (D i)) (pos + n), cells)), F(fd \<mapsto> (i, mode, pos + n)))"
| sc_write_fails: "F fd = Some (i, mode, pos) \<Longrightarrow> mode \<noteq> O_RDONLY \<Longrightarrow> e = ENOMEM \<or> e = ERESTARTSYS \<Longrightarrow>
    sparse_call c (D, F) (B_write fd env src, B_error e) (D, F)"
| sc_write_faults: "F fd = Some (i, mode, pos) \<Longrightarrow> mode \<noteq> O_RDONLY \<Longrightarrow> 0 < uleft env \<Longrightarrow>
    outside_kept pos (length src) (snd (D i)) cells \<Longrightarrow>
    sparse_call c (D, F) (B_write fd env src, B_error EFAULT) (D(i := (fst (D i), cells)), F)"
| sc_seek: "F fd = Some (i, mode, pos) \<Longrightarrow> seek_target (fst (D i)) pos off whence = Some (int q) \<Longrightarrow>
    sparse_call c (D, F) (B_lseek fd off whence, B_value (int q)) (D, F(fd \<mapsto> (i, mode, q)))"
| sc_seek_fails: "F fd = Some (i, mode, pos) \<Longrightarrow> (\<forall>q. seek_target (fst (D i)) pos off whence \<noteq> Some (int q)) \<Longrightarrow>
    sparse_call c (D, F) (B_lseek fd off whence, B_error EINVAL) (D, F)"
| sc_bad_open: "F fd \<noteq> None \<or> (\<forall>i. c number \<noteq> Some (Bare i, scull_fops)) \<Longrightarrow>
    sparse_call c (D, F) (B_open fd number mode intr, B_bad) (D, F)"
| sc_bad_read: "(\<forall>i mode pos. F fd = Some (i, mode, pos) \<longrightarrow> mode = O_WRONLY) \<Longrightarrow>
    sparse_call c (D, F) (B_read fd env count, B_bad) (D, F)"
| sc_bad_write: "(\<forall>i mode pos. F fd = Some (i, mode, pos) \<longrightarrow> mode = O_RDONLY) \<Longrightarrow>
    sparse_call c (D, F) (B_write fd env src, B_bad) (D, F)"
| sc_bad: "F fd = None \<Longrightarrow> call = B_close fd \<or> call = B_lseek fd off whence \<Longrightarrow> sparse_call c (D, F) (call, B_bad) (D, F)"

subsection \<open>The devices behave like files with holes\<close>

text \<open>Positions and sizes stay below the bytes written and the distances moved.\<close>

fun bare_cost :: "bare_call \<Rightarrow> nat" where
  "bare_cost (B_write fd env src) = length src"
| "bare_cost (B_lseek fd off whence) = nat \<bar>off\<bar>"
| "bare_cost _ = 0"

definition bare_budget :: "scull_params \<Rightarrow> nat" where
  "bare_budget p = nat (min (2 ^ 62) (2 ^ 31 * (scull_quantum p * scull_qset p)))"

definition dev_rep :: "scull_params \<Rightarrow> nat \<Rightarrow> scull_dev \<Rightarrow> sparse \<Rightarrow> bool" where
  "dev_rep p used d f \<longleftrightarrow> scull_wf d \<and> quantum d = scull_quantum p \<and> qset d = scull_qset p \<and> dev_size d = int (fst f) \<and>
     scull_at d = snd f \<and> fst f \<le> used"

definition bare_rep :: "scull_params \<Rightarrow> nat \<Rightarrow> nat \<Rightarrow> bare_sys \<Rightarrow> sparse_sys \<Rightarrow> bool" where
  "bare_rep p nr used s a \<longleftrightarrow> length (bs_devs s) = nr \<and> (\<forall>i < nr. dev_rep p used (bs_devs s ! i) (fst a i)) \<and>
     bs_files s = map_option (\<lambda>(i, mode, pos). (scull_fops, i, mode, int pos)) \<circ> snd a \<and>
     (\<forall>fd i mode pos. snd a fd = Some (i, mode, pos) \<longrightarrow> i < nr \<and> pos \<le> used)"

lemma dev_rep_mono: "dev_rep p used d f \<Longrightarrow> used \<le> used' \<Longrightarrow> dev_rep p used' d f"
  by (simp add: dev_rep_def)

lemma dev_rep_pos:
  assumes "dev_rep p used d f" "pos < bare_budget p"
  shows "scull_wf d" "pos_ok d (int pos)"
proof -
  show wf: "scull_wf d" using assms(1) by (simp add: dev_rep_def)
  then show "pos_ok d (int pos)" using assms by (auto simp: pos_ok_def dev_rep_def bare_budget_def)
qed

lemma scull_at_same: "blocks d' = blocks d \<Longrightarrow> quantum d' = quantum d \<Longrightarrow> scull_at d' = scull_at d"
  by (simp add: scull_at_def fun_eq_iff)

lemma dev_rep_read:
  assumes rep: "dev_rep p used d (fsize, cells)" and pos: "pos < bare_budget p" and n: "int n < 2 ^ 62"
  shows "\<exists>d' pos' r. scull_read env d (int n) (int pos) = Some (d', pos', r) \<and> dev_rep p used d' (fsize, cells) \<and>
    (case r of
       Ret bs \<Rightarrow> pos' = int (pos + length bs) \<and>
         ((fsize \<le> pos \<or> cells pos = None) \<and> bs = [] \<or>
          pos < fsize \<and> cells_are cells pos bs \<and> length bs \<le> n \<and> pos + length bs \<le> fsize \<and> (0 < n \<longrightarrow> bs \<noteq> []))
     | Fail e \<Rightarrow> e = ERESTARTSYS \<and> signal env \<or> e = EFAULT \<and> 0 < uleft env
     | Blocked \<Rightarrow> False)"
proof -
  note wf = dev_rep_pos[OF rep pos]
  have d: "dev_size d = int fsize" "scull_at d = cells" "quantum d = scull_quantum p" using rep by (simp_all add: dev_rep_def)
  obtain d' pos' r where r: "scull_read env d (int n) (int pos) = Some (d', pos', r)" "read_ok env d (int n) (int pos) (d', pos', r)"
    using scull_read_ok[OF wf, of "int n" env] n by (metis of_nat_0_le_iff prod_cases3)
  define q k where q: "q = nat (quantum d)" and k: "k = read_len d (int n) (int pos)"
  have rep': "dev_rep p used d' (fsize, cells)"
    using rep r(2) scull_at_same[of d' d] by (auto simp: read_ok_def dev_rep_def Let_def)
  have "case r of
       Ret bs \<Rightarrow> pos' = int (pos + length bs) \<and>
         ((fsize \<le> pos \<or> cells pos = None) \<and> bs = [] \<or>
          pos < fsize \<and> cells_are cells pos bs \<and> length bs \<le> n \<and> pos + length bs \<le> fsize \<and> (0 < n \<longrightarrow> bs \<noteq> []))
     | Fail e \<Rightarrow> e = ERESTARTSYS \<and> signal env \<or> e = EFAULT \<and> 0 < uleft env
     | Blocked \<Rightarrow> False"
  proof (cases "signal env \<or> fsize \<le> pos \<or> blocks d (pos div q) = None")
    case True
    have "cells pos = None" if "blocks d (pos div q) = None" using that d(2) by (auto simp: scull_at_def q)
    then show ?thesis using r(2) True d(1) by (auto simp: read_ok_def Let_def q split: if_splits)
  next
    case False
    then obtain blk where blk: "blocks d (pos div q) = Some blk" and ns: "\<not> signal env" "pos < fsize" by auto
    have lt: "int pos < dev_size d" using ns d(1) by simp
    have p62: "int pos < 2 ^ 62" using wf(2) by (simp add: pos_ok_def)
    have kq: "k + pos mod q \<le> q"
      using read_len_code(2)[OF wf(1) of_nat_0_le_iff p62 of_nat_0_le_iff n lt] by (simp add: k q)
    have kn: "k \<le> n" "pos + k \<le> fsize" unfolding k read_len_def using d(1) ns(2) by auto
    have len: "length blk = q" using blocks_length[OF wf(1) blk] by (simp add: q)
    let ?bs = "take k (drop (pos mod q) blk)"
    have lbs: "length ?bs = k" using kq len by simp
    have "cells_are cells pos ?bs"
      using read_block_cells[OF wf(1) blk q kq] lbs d(2) by (simp add: cells_are_def)
    moreover have "0 < n \<Longrightarrow> 0 < k" using read_len_pos[OF wf(1), of n pos] lt by (simp add: k)
    moreover have "if 0 < min (uleft env) k then pos' = int pos \<and> r = Fail EFAULT else pos' = int pos + int k \<and> r = Ret ?bs"
      using r(2) lt ns blk by (auto simp: read_ok_def Let_def k q split: if_splits)
    ultimately show ?thesis using lbs kn ns(2) by (auto split: if_splits)
  qed
  then show ?thesis using r(1) rep' by blast
qed

lemma dev_rep_write:
  assumes rep: "dev_rep p used d (fsize, cells)" and pos: "pos < bare_budget p" "pos \<le> used"
  shows "\<exists>d' pos' r. scull_write env d src (int pos) = Some (d', pos', r) \<and>
    (case r of
       Ret v \<Rightarrow> (\<exists>n cells'. v = int n \<and> pos' = int (pos + n) \<and> n \<le> length src \<and> (src \<noteq> [] \<longrightarrow> 0 < n) \<and>
         cells_are cells' pos (map Some (take n src)) \<and> outside_kept pos n cells cells' \<and>
         dev_rep p (used + length src) d' (max fsize (pos + n), cells'))
     | Fail e \<Rightarrow>
         if e = EFAULT then 0 < uleft env \<and>
           (\<exists>cells'. outside_kept pos (length src) cells cells' \<and> dev_rep p (used + length src) d' (fsize, cells'))
         else (e = ENOMEM \<or> e = ERESTARTSYS) \<and> dev_rep p (used + length src) d' (fsize, cells)
     | Blocked \<Rightarrow> False)"
proof -
  note wf = dev_rep_pos[OF rep pos(1)]
  have d: "dev_size d = int fsize" "scull_at d = cells" "quantum d = scull_quantum p" "qset d = scull_qset p" "fsize \<le> used"
    using rep by (simp_all add: dev_rep_def)
  obtain d' pos' r where r: "scull_write env d src (int pos) = Some (d', pos', r)" "write_ok env d src (int pos) (d', pos', r)"
    using scull_write_ok[OF wf, of env src] by (metis prod_cases3)
  define q n where q: "q = nat (quantum d)" and n: "n = write_len d src (int pos)"
  have wf': "scull_wf d'" "quantum d' = quantum d" "qset d' = qset d" using r(2) by (simp_all add: write_ok_def Let_def)
  have nl: "n \<le> length src" "n + pos mod q \<le> q"
    using write_len_code(2)[OF wf(1), of src "int pos"] by (simp_all add: n q write_len_def)
  have n0: "src \<noteq> [] \<Longrightarrow> 0 < n" using q_small(1)[OF wf(1)] by (simp add: n write_len_def)
  have stored: "outside_kept pos (length new) cells (scull_at d')" "cells_are (scull_at d') pos new"
    if "blocks d' = store_block (pos div q) (pos mod q) new d" "length new = n" for new
  proof -
    note at = scull_at_store[OF wf(1) that(1) wf'(2) q] nl(2) that(2)
    show "cells_are (scull_at d') pos new" using at by (simp add: cells_are_def)
    show "outside_kept pos (length new) cells (scull_at d')"
      using at d(2) by (auto simp: outside_kept_def split: option.splits)
  qed
  show ?thesis
  proof (cases r)
    case (Ret v)
    have w: "v = int n" "pos' = int (pos + n)" "dev_size d' = max (int fsize) (int (pos + n))"
      "blocks d' = store_block (pos div q) (pos mod q) (map Some (take n src)) d"
      using r(2) d(1) by (simp_all add: write_ok_def Let_def Ret n q)
    have "length (map Some (take n src)) = n" using nl(1) by simp
    note st = stored[OF w(4) this]
    have "dev_rep p (used + length src) d' (max fsize (pos + n), scull_at d')"
      using wf' w(3) d nl(1) pos(2) by (simp add: dev_rep_def of_nat_max)
    then show ?thesis using r(1) w(1,2) nl(1) n0 st
      by (intro exI[of _ d'] exI[of _ pos'] exI[of _ r]) (auto simp: Ret intro!: exI[of _ n] exI[of _ "scull_at d'"])
  next
    case (Fail e)
    show ?thesis
    proof (cases "e = EFAULT")
      case True
      have w: "0 < uleft env" "dev_size d' = int fsize"
        "blocks d' = store_block (pos div q) (pos mod q) (user_bytes (uleft env) (take n src)) d"
        using r(2) d(1) True by (simp_all add: write_ok_def Let_def Fail n q)
      have "length (user_bytes (uleft env) (take n src)) = n" using nl(1) by simp
      note st = stored(1)[OF w(3) this]
      have "outside_kept pos (length src) cells (scull_at d')"
        using st nl(1) by (auto simp: outside_kept_def)
      moreover have "dev_rep p (used + length src) d' (fsize, scull_at d')"
        using wf' w(2) d by (simp add: dev_rep_def)
      ultimately show ?thesis using r(1) w(1) True
        by (intro exI[of _ d'] exI[of _ pos'] exI[of _ r]) (auto simp: Fail)
    next
      case False
      have w: "e = ENOMEM \<or> e = ERESTARTSYS" "dev_size d' = int fsize" "blocks d' = blocks d"
        using r(2) d(1) False by (simp_all add: write_ok_def Let_def Fail)
      have "dev_rep p (used + length src) d' (fsize, cells)"
        using wf' w(2) d scull_at_same[OF w(3) wf'(2)] by (simp add: dev_rep_def)
      then show ?thesis using r(1) w(1) False
        by (intro exI[of _ d'] exI[of _ pos'] exI[of _ r]) (auto simp: Fail)
    qed
  qed (use r(2) in \<open>simp add: write_ok_def Let_def\<close>)
qed

text \<open>The system: each call keeps the relation, and answers as the files allow.\<close>

definition numbers_ok :: "cdev_map \<Rightarrow> nat \<Rightarrow> bool" where
  "numbers_ok c nr \<longleftrightarrow> (\<forall>number i fo. c number = Some (Bare i, fo) \<longrightarrow> i < nr \<and> fo = scull_fops)"

lemma bare_rep_mono: "bare_rep p nr used s a \<Longrightarrow> used \<le> used' \<Longrightarrow> bare_rep p nr used' s a"
  unfolding bare_rep_def by (meson dev_rep_mono le_trans)

lemma bare_rep_dev:
  assumes "bare_rep p nr used s (D, F)" "i < nr"
  shows "dev_rep p used (bs_devs s ! i) (fst (D i), snd (D i))"
  using assms by (simp add: bare_rep_def)

lemma bare_rep_file:
  assumes "bare_rep p nr used s (D, F)" "F fd = Some (i, mode, pos)"
  shows "bs_files s fd = Some (scull_fops, i, mode, int pos)" "i < nr" "pos \<le> used"
  using assms by (auto simp: bare_rep_def)

text \<open>A call that changes at most one device and one position.\<close>

lemma bare_rep_update:
  assumes rep: "bare_rep p nr used s (D, F)" and i: "i < nr" and d: "dev_rep p used d f"
  shows "bare_rep p nr used (s\<lparr>bs_devs := (bs_devs s)[i := d]\<rparr>) (D(i := f), F)"
  using assms by (auto simp: bare_rep_def nth_list_update)

lemma bare_rep_move:
  assumes rep: "bare_rep p nr used s (D, F)" and i: "i < nr" and pos: "pos \<le> used"
  shows "bare_rep p nr used (s\<lparr>bs_files := (bs_files s)(fd \<mapsto> (scull_fops, i, mode, int pos))\<rparr>) (D, F(fd \<mapsto> (i, mode, pos)))"
  using assms by (auto simp: bare_rep_def fun_eq_iff)

lemma bare_rep_both:
  assumes rep: "bare_rep p nr used s (D, F)" and i: "i < nr" and d: "dev_rep p used d f" and pos: "pos \<le> used"
  shows "bare_rep p nr used (s\<lparr>bs_devs := (bs_devs s)[i := d], bs_files := (bs_files s)(fd \<mapsto> (scull_fops, i, mode, int pos))\<rparr>)
    (D(i := f), F(fd \<mapsto> (i, mode, pos)))"
  using bare_rep_move[OF bare_rep_update[OF rep i d] i pos, of fd mode] by simp

definition refines :: "cdev_map \<Rightarrow> scull_params \<Rightarrow> nat \<Rightarrow> nat \<Rightarrow> bare_call \<Rightarrow> bare_sys \<Rightarrow> sparse_sys \<Rightarrow> (bare_sys \<times> bare_reply) option \<Rightarrow> bool" where
  "refines c p nr used call s a res \<longleftrightarrow>
     (\<exists>s' r a'. res = Some (s', r) \<and> sparse_call c a (call, r) a' \<and> bare_rep p nr (used + bare_cost call) s' a')"

lemma refinesI:
  "res = Some (s', r) \<Longrightarrow> sparse_call c a (call, r) a' \<Longrightarrow> bare_rep p nr (used + bare_cost call) s' a' \<Longrightarrow>
    refines c p nr used call s a res"
  by (auto simp: refines_def simp del: split_paired_Ex)

lemma bare_open_refines:
  assumes rep: "bare_rep p nr used s (D, F)" and c: "numbers_ok c nr" and g: "geometry_ok (scull_quantum p) (scull_qset p)"
  shows "refines c p nr used (B_open fd number mode intr) s (D, F) (bare_exec c p (B_open fd number mode intr) s)"
proof (cases "F fd = None \<and> (\<exists>i. c number = Some (Bare i, scull_fops))")
  case False
  have "bs_files s fd = None \<longleftrightarrow> F fd = None" using rep by (auto simp: bare_rep_def)
  moreover have "\<nexists>i fo. c number = Some (Bare i, fo)" if "\<nexists>i. c number = Some (Bare i, scull_fops)"
    using that c by (auto simp: numbers_ok_def)
  ultimately have "bare_exec c p (B_open fd number mode intr) s = Some (s, B_bad)"
    using False by (cases "F fd"; auto simp: bare_open_def split: option.splits prod.splits scull_device.splits)
  moreover have "sparse_call c (D, F) (B_open fd number mode intr, B_bad) (D, F)" using False by (auto intro: sc_bad_open)
  ultimately show ?thesis using rep by (intro refinesI) auto
next
  case True
  then obtain i where i: "F fd = None" "c number = Some (Bare i, scull_fops)" by blast
  then have inr: "i < nr" using c by (simp add: numbers_ok_def)
  have len: "i < length (bs_devs s)" "bs_files s fd = None" using rep inr i(1) by (auto simp: bare_rep_def)
  let ?d = "bs_devs s ! i"
  note dr = bare_rep_dev[OF rep inr]
  have same: "s\<lparr>bs_devs := (bs_devs s)[i := ?d]\<rparr> = s" by simp
  have fo: "cf_open scull_fops = Some Scull_open" by (simp add: scull_fops_def)
  note ex = bare_open_def i(2) len fo
  show ?thesis
  proof (cases "mode = O_WRONLY")
    case False
    then have "bare_exec c p (B_open fd number mode intr) s =
        Some (s\<lparr>bs_files := (bs_files s)(fd \<mapsto> (scull_fops, i, mode, int 0))\<rparr>, B_value (int fd))"
      by (simp add: ex scull_open_def)
    then show ?thesis using sc_open[where F = F and c = c, OF i False] bare_rep_move[OF rep inr, of 0 fd mode]
      by (intro refinesI) auto
  next
    case True
    show ?thesis
    proof (cases intr)
      case t: True
      have "bare_exec c p (B_open fd number mode intr) s = Some (s, B_error ERESTARTSYS)"
        by (simp add: ex scull_open_def True t)
      then show ?thesis using sc_open_signal[where F = F and c = c, OF i] rep True t by (intro refinesI) auto
    next
      case f: False
      let ?d' = "?d\<lparr>data := [], dev_size := 0, quantum := scull_quantum p, qset := scull_qset p\<rparr>"
      have "scull_wf ?d" using dr by (simp add: dev_rep_def)
      then have "bare_exec c p (B_open fd number mode intr) s =
          Some (s\<lparr>bs_devs := (bs_devs s)[i := ?d'], bs_files := (bs_files s)(fd \<mapsto> (scull_fops, i, mode, int 0))\<rparr>, B_value (int fd))"
        by (simp add: ex scull_open_def True f scull_trim_ok)
      moreover have "dev_rep p used ?d' empty_sparse"
        using g by (auto simp: dev_rep_def scull_wf_def empty_sparse_def scull_at_def blocks_def fun_eq_iff)
      ultimately show ?thesis using sc_truncate[where F = F and c = c, OF i f] bare_rep_both[OF rep inr, of ?d' empty_sparse 0 fd mode] True
        by (intro refinesI) auto
    qed
  qed
qed

lemma bare_read_refines:
  assumes rep: "bare_rep p nr used s (D, F)" and b: "used < bare_budget p"
  shows "refines c p nr used (B_read fd env count) s (D, F) (bare_exec c p (B_read fd env count) s)"
proof (cases "\<exists>i mode pos. F fd = Some (i, mode, pos) \<and> mode \<noteq> O_WRONLY")
  case False
  then have "bare_exec c p (B_read fd env count) s = Some (s, B_bad)"
    using rep by (cases "F fd") (auto simp: bare_rep_def)
  moreover have "sparse_call c (D, F) (B_read fd env count, B_bad) (D, F)" using False by (intro sc_bad_read) blast
  ultimately show ?thesis using rep by (intro refinesI) auto
next
  case True
  then obtain i mode pos where f: "F fd = Some (i, mode, pos)" and mode: "mode \<noteq> O_WRONLY" by blast
  note fl = bare_rep_file[OF rep f]
  let ?n = "min count chunk_max" and ?d = "bs_devs s ! i"
  have "int ?n < 2 ^ 62" by (simp add: chunk_max_def min_def)
  then obtain d' pos' r where r: "scull_read env ?d (int ?n) (int pos) = Some (d', pos', r)" "dev_rep p used d' (D i)"
    "case r of
       Ret bs \<Rightarrow> pos' = int (pos + length bs) \<and>
         ((fst (D i) \<le> pos \<or> snd (D i) pos = None) \<and> bs = [] \<or>
          pos < fst (D i) \<and> cells_are (snd (D i)) pos bs \<and> length bs \<le> ?n \<and> pos + length bs \<le> fst (D i) \<and> (0 < ?n \<longrightarrow> bs \<noteq> []))
     | Fail e \<Rightarrow> e = ERESTARTSYS \<and> signal env \<or> e = EFAULT \<and> 0 < uleft env
     | Blocked \<Rightarrow> False"
    using dev_rep_read[OF bare_rep_dev[OF rep fl(2)], of pos ?n env] fl(3) b by fastforce
  have ex: "bare_exec c p (B_read fd env count) s = bare_read fd (scull_fops, i, mode, int pos) env count s" using fl(1) mode by (simp add: scull_fops_def)
  have keep: "D(i := D i) = D" by simp
  show ?thesis
  proof (cases r)
    case (Ret bs)
    have le: "pos + length bs \<le> used" using r(3) fl(3) r(2) by (auto simp: Ret dev_rep_def)
    have "bare_exec c p (B_read fd env count) s =
        Some (s\<lparr>bs_devs := (bs_devs s)[i := d'], bs_files := (bs_files s)(fd \<mapsto> (scull_fops, i, mode, int (pos + length bs)))\<rparr>, B_data bs)"
      using r(1,3) by (simp add: ex bare_read_def Ret del: bare_exec.simps)
    moreover have "sparse_call c (D, F) (B_read fd env count, B_data bs) (D, F(fd \<mapsto> (i, mode, pos + length bs)))"
    proof (cases "fst (D i) \<le> pos \<or> snd (D i) pos = None")
      case eof: True
      have "bs = []" using r(3) eof by (cases bs) (auto simp: Ret cells_are_def)
      moreover have "F(fd \<mapsto> (i, mode, pos)) = F" using f by auto
      ultimately show ?thesis using sc_eof[where F = F and c = c and D = D, OF f mode eof] by simp
    next
      case False
      have "0 < count \<longrightarrow> 0 < ?n" by (simp add: chunk_max_def)
      then show ?thesis using r(3) False by (intro sc_read[where F = F, OF f mode]) (auto simp: Ret)
    qed
    ultimately show ?thesis using bare_rep_both[OF rep fl(2) r(2) le, of fd mode]
      by (intro refinesI) (auto simp: keep)
  next
    case (Fail e)
    have "bare_exec c p (B_read fd env count) s = Some (s\<lparr>bs_devs := (bs_devs s)[i := d']\<rparr>, B_error e)"
      using r(1) by (simp add: ex bare_read_def Fail del: bare_exec.simps)
    moreover have "sparse_call c (D, F) (B_read fd env count, B_error e) (D, F)"
      using r(3) by (intro sc_read_fails[where F = F, OF f mode]) (simp add: Fail)
    ultimately show ?thesis using bare_rep_update[OF rep fl(2) r(2)] by (intro refinesI) (auto simp: keep)
  qed (use r(3) in simp)
qed

lemma bare_write_refines:
  assumes rep: "bare_rep p nr used s (D, F)" and b: "used < bare_budget p"
  shows "refines c p nr used (B_write fd env src) s (D, F) (bare_exec c p (B_write fd env src) s)"
proof (cases "\<exists>i mode pos. F fd = Some (i, mode, pos) \<and> mode \<noteq> O_RDONLY")
  case False
  then have "bare_exec c p (B_write fd env src) s = Some (s, B_bad)"
    using rep by (cases "F fd") (auto simp: bare_rep_def)
  moreover have "sparse_call c (D, F) (B_write fd env src, B_bad) (D, F)" using False by (intro sc_bad_write) blast
  ultimately show ?thesis using bare_rep_mono[OF rep] by (intro refinesI) auto
next
  case True
  then obtain i mode pos where f: "F fd = Some (i, mode, pos)" and mode: "mode \<noteq> O_RDONLY" by blast
  note fl = bare_rep_file[OF rep f]
  let ?src = "take chunk_max src" and ?d = "bs_devs s ! i" and ?u = "used + length src"
  have ne: "src \<noteq> [] \<Longrightarrow> ?src \<noteq> []" by (simp add: chunk_max_def)
  have rep': "bare_rep p nr ?u s (D, F)" using bare_rep_mono[OF rep] by simp
  obtain d' pos' r where r: "scull_write env ?d ?src (int pos) = Some (d', pos', r)"
    "case r of
       Ret v \<Rightarrow> (\<exists>n cells'. v = int n \<and> pos' = int (pos + n) \<and> n \<le> length ?src \<and> (?src \<noteq> [] \<longrightarrow> 0 < n) \<and>
         cells_are cells' pos (map Some (take n ?src)) \<and> outside_kept pos n (snd (D i)) cells' \<and>
         dev_rep p (used + length ?src) d' (max (fst (D i)) (pos + n), cells'))
     | Fail e \<Rightarrow>
         if e = EFAULT then 0 < uleft env \<and>
           (\<exists>cells'. outside_kept pos (length ?src) (snd (D i)) cells' \<and> dev_rep p (used + length ?src) d' (fst (D i), cells'))
         else (e = ENOMEM \<or> e = ERESTARTSYS) \<and> dev_rep p (used + length ?src) d' (fst (D i), snd (D i))
     | Blocked \<Rightarrow> False"
    using dev_rep_write[OF bare_rep_dev[OF rep fl(2)], of pos env ?src] fl(3) b by fastforce
  have grow: "dev_rep p (used + length ?src) x y \<Longrightarrow> dev_rep p ?u x y" for x y by (erule dev_rep_mono) simp
  have ex: "bare_exec c p (B_write fd env src) s = bare_write fd (scull_fops, i, mode, int pos) env src s" using fl(1) mode by (simp add: scull_fops_def)
  show ?thesis
  proof (cases r)
    case (Ret v)
    obtain n cells' where w: "v = int n" "pos' = int (pos + n)" "n \<le> length ?src" "?src \<noteq> [] \<longrightarrow> 0 < n"
      "cells_are cells' pos (map Some (take n ?src))" "outside_kept pos n (snd (D i)) cells'"
      "dev_rep p (used + length ?src) d' (max (fst (D i)) (pos + n), cells')"
      using r(2) unfolding Ret outcome.case by (elim exE conjE) (rule that)
    note w7 = grow[OF w(7)]
    have le: "pos + n \<le> ?u" using fl(3) w(3) by simp
    have "bare_exec c p (B_write fd env src) s =
        Some (s\<lparr>bs_devs := (bs_devs s)[i := d'], bs_files := (bs_files s)(fd \<mapsto> (scull_fops, i, mode, int (pos + n)))\<rparr>, B_value (int n))"
      using r(1) w(1,2) by (simp add: ex bare_write_def Ret del: bare_exec.simps)
    moreover have "take n ?src = take n src" using w(3) by (simp add: take_take min_absorb1)
    then have "sparse_call c (D, F) (B_write fd env src, B_value (int n))
        (D(i := (max (fst (D i)) (pos + n), cells')), F(fd \<mapsto> (i, mode, pos + n)))"
      using w(3-6) ne by (intro sc_write[where F = F, OF f mode]) auto
    ultimately show ?thesis using bare_rep_both[OF rep' fl(2) w7 le, of fd mode] by (intro refinesI) auto
  next
    case (Fail e)
    have x: "bare_exec c p (B_write fd env src) s = Some (s\<lparr>bs_devs := (bs_devs s)[i := d']\<rparr>, B_error e)"
      using r(1) by (simp add: ex bare_write_def Fail del: bare_exec.simps)
    show ?thesis
    proof (cases "e = EFAULT")
      case True
      then obtain cells' where w: "0 < uleft env" "outside_kept pos (length ?src) (snd (D i)) cells'" "dev_rep p ?u d' (fst (D i), cells')"
        using r(2) grow by (auto simp: Fail simp del: length_take)
      have "outside_kept pos (length src) (snd (D i)) cells'" using w(2) by (auto simp: outside_kept_def)
      from sc_write_faults[where c = c and F = F and D = D, OF f mode w(1) this] show ?thesis using x True bare_rep_update[OF rep' fl(2) w(3)] by (intro refinesI) auto
    next
      case False
      then have w: "e = ENOMEM \<or> e = ERESTARTSYS" "dev_rep p ?u d' (D i)" using r(2) grow by (auto simp: Fail simp del: length_take)
      from sc_write_fails[where c = c and F = F and D = D, OF f mode w(1)] show ?thesis using x bare_rep_update[OF rep' fl(2) w(2)] by (intro refinesI) auto
    qed
  qed (use r(2) in simp)
qed

lemma seek_wrap:
  assumes "n \<le> used" "used + nat \<bar>off\<bar> < 2 ^ 62"
  shows "s64 (int n + off) = int n + off" "s64 (u64 (int n + off)) = int n + off"
proof -
  have "int (used + nat \<bar>off\<bar>) < int (2 ^ 62)" using assms(2) by (simp only: of_nat_less_iff)
  then have u: "int used + \<bar>off\<bar> < 4611686018427387904" by simp
  have "int n \<le> int used" using assms(1) by simp
  then have b: "- 4611686018427387904 < int n + off" "int n + off < 4611686018427387904" using u by linarith+
  show "s64 (int n + off) = int n + off" using b by (intro s64_id) simp_all
  then show "s64 (u64 (int n + off)) = int n + off" by simp
qed

lemma llseek_target:
  assumes "dev_size d = int n" "s64 (int pos + off) = int pos + off" "s64 (u64 (int n + off)) = int n + off"
  shows "scull_llseek d (int pos) off whence =
      (case seek_target n pos off whence of Some q \<Rightarrow> if q < 0 then (int pos, Fail EINVAL) else (q, Ret q) | None \<Rightarrow> (int pos, Fail EINVAL))"
  unfolding scull_llseek_def seek_target_def Let_def assms by simp

lemma bare_lseek_refines:
  assumes rep: "bare_rep p nr used s (D, F)" and b: "used + nat \<bar>off\<bar> < bare_budget p"
  shows "refines c p nr used (B_lseek fd off whence) s (D, F) (bare_exec c p (B_lseek fd off whence) s)"
proof (cases "F fd")
  case None
  then have "bs_files s fd = None" using rep by (simp add: bare_rep_def)
  then show ?thesis using None bare_rep_mono[OF rep, of "used + nat \<bar>off\<bar>"] by (intro refinesI) (auto intro: sc_bad)
next
  case (Some x)
  obtain i mode pos where f: "F fd = Some (i, mode, pos)" using Some by (cases x) auto
  note fl = bare_rep_file[OF rep f]
  let ?u = "used + nat \<bar>off\<bar>" and ?d = "bs_devs s ! i" and ?t = "seek_target (fst (D i)) pos off whence"
  have d: "dev_size ?d = int (fst (D i))" "fst (D i) \<le> used" using bare_rep_dev[OF rep fl(2)] by (simp_all add: dev_rep_def)
  have "?u < 2 ^ 62" using b by (simp add: bare_budget_def)
  note wrap = seek_wrap[OF _ this]
  have seek: "scull_llseek ?d (int pos) off whence =
      (case ?t of Some q \<Rightarrow> if q < 0 then (int pos, Fail EINVAL) else (q, Ret q) | None \<Rightarrow> (int pos, Fail EINVAL))"
    by (rule llseek_target[OF d(1) wrap(1)[OF fl(3)] wrap(2)[OF d(2)]])
  have ex: "bare_exec c p (B_lseek fd off whence) s = bare_lseek fd (scull_fops, i, mode, int pos) off whence s" using fl(1) by (simp add: scull_fops_def)
  have rep': "bare_rep p nr ?u s (D, F)" using bare_rep_mono[OF rep] by simp
  show ?thesis
  proof (cases "\<exists>q. ?t = Some (int q)")
    case True
    then obtain q where q: "?t = Some (int q)" by blast
    then have "int q = off \<or> int q = int pos + off \<or> int q = int (fst (D i)) + off"
      unfolding seek_target_def by (simp split: if_split_asm)
    moreover have "int pos \<le> int used" "int (fst (D i)) \<le> int used" "off \<le> int (nat \<bar>off\<bar>)" using fl(3) d(2) by simp_all
    ultimately have "int q \<le> int ?u" unfolding of_nat_add by linarith
    then have qu: "q \<le> ?u" by (simp only: of_nat_le_iff)
    have "bare_exec c p (B_lseek fd off whence) s =
        Some (s\<lparr>bs_files := (bs_files s)(fd \<mapsto> (scull_fops, i, mode, int q))\<rparr>, B_value (int q))"
      by (simp add: ex bare_lseek_def seek q del: bare_exec.simps)
    moreover have "sparse_call c (D, F) (B_lseek fd off whence, B_value (int q)) (D, F(fd \<mapsto> (i, mode, q)))"
      by (rule sc_seek[where F = F and D = D and c = c, OF f q])
    moreover have "bare_rep p nr (used + bare_cost (B_lseek fd off whence)) (s\<lparr>bs_files := (bs_files s)(fd \<mapsto> (scull_fops, i, mode, int q))\<rparr>)
        (D, F(fd \<mapsto> (i, mode, q)))"
      unfolding bare_cost.simps by (rule bare_rep_move[OF rep' fl(2) qu])
    ultimately show ?thesis by (rule refinesI)
  next
    case False
    then have "scull_llseek ?d (int pos) off whence = (int pos, Fail EINVAL)"
      unfolding seek by (cases ?t) (auto, metis nonneg_int_cases not_less)
    moreover have "s\<lparr>bs_files := (bs_files s)(fd \<mapsto> (scull_fops, i, mode, int pos))\<rparr> = s" using fl(1) by (cases s) auto
    ultimately have "bare_exec c p (B_lseek fd off whence) s = Some (s, B_error EINVAL)"
      by (simp add: ex bare_lseek_def del: bare_exec.simps)
    moreover have "sparse_call c (D, F) (B_lseek fd off whence, B_error EINVAL) (D, F)"
      using False by (intro sc_seek_fails[where F = F and D = D and c = c, OF f]) blast
    moreover have "bare_rep p nr (used + bare_cost (B_lseek fd off whence)) s (D, F)" using rep' by simp
    ultimately show ?thesis by (rule refinesI)
  qed
qed

lemma bare_close_refines:
  assumes rep: "bare_rep p nr used s (D, F)"
  shows "refines c p nr used (B_close fd) s (D, F) (bare_exec c p (B_close fd) s)"
proof (cases "F fd")
  case None
  then have "bs_files s fd = None" using rep by (simp add: bare_rep_def)
  then show ?thesis using None rep by (intro refinesI) (auto intro: sc_bad)
next
  case (Some x)
  obtain i mode pos where f: "F fd = Some (i, mode, pos)" using Some by (cases x) auto
  have "bare_exec c p (B_close fd) s = Some (s\<lparr>bs_files := (bs_files s)(fd := None)\<rparr>, B_value 0)"
    using bare_rep_file(1)[OF rep f] by (simp add: scull_release_def scull_fops_def)
  moreover have "bare_rep p nr used (s\<lparr>bs_files := (bs_files s)(fd := None)\<rparr>) (D, F(fd := None))"
    using rep by (auto simp: bare_rep_def fun_eq_iff)
  ultimately show ?thesis using sc_close[where F = F and D = D and c = c, OF f] by (intro refinesI) auto
qed

lemma bare_exec_refines:
  assumes "bare_rep p nr used s a" "used + bare_cost call < bare_budget p" "numbers_ok c nr"
    "geometry_ok (scull_quantum p) (scull_qset p)"
  shows "refines c p nr used call s a (bare_exec c p call s)"
proof -
  obtain D F where a: "a = (D, F)" by (cases a)
  show ?thesis
    using assms unfolding a
    by (cases call) (simp_all add: bare_open_refines bare_close_refines bare_read_refines bare_write_refines bare_lseek_refines
        del: bare_exec.simps)
qed

interpretation bare: call_refinement "bare_exec c p" "sparse_call c"
  "\<lambda>used s a. bare_rep p nr used s a \<and> numbers_ok c nr \<and> geometry_ok (scull_quantum p) (scull_qset p)"
  bare_cost "\<lambda>_. True" "bare_budget p" for c p nr
  by unfold_locales (use bare_exec_refines in \<open>auto simp: refines_def simp del: split_paired_Ex\<close>)

subsection \<open>Loading and using the devices\<close>

lemma loaded_numbers_ok: "na \<le> 4 \<Longrightarrow> numbers_ok (load_numbers ok first nr np na Map.empty) nr"
proof -
  assume na: "na \<le> 4"
  have "snd (scull_access_devs ! j) \<noteq> (Bare i, fo)" if "j < 4" for i j fo
  proof -
    have "j = 0 \<or> j = 1 \<or> j = 2 \<or> j = 3" using that by linarith
    then show ?thesis by (auto simp: scull_access_devs_def)
  qed
  then show ?thesis using na
    by (auto simp: numbers_ok_def load_numbers_lookup split: if_splits)
qed

definition bare_start :: "scull_module \<Rightarrow> bare_sys" where
  "bare_start m = \<lparr>bs_devs = (case sm_devices m of None \<Rightarrow> [] | Some ds \<Rightarrow> ds), bs_files = Map.empty\<rparr>"

lemma loaded_devices:
  assumes "scull_init_module None True p_reg p_ok a_reg p nr p_nr m = Some (m', Ret 0)"
  shows "sm_devices m' = Some (replicate nr (zero_dev\<lparr>quantum := scull_quantum p, qset := scull_qset p\<rparr>))"
  using assms by (auto simp: scull_init_module_def split: prod.splits)

lemma bare_start_rep:
  assumes "scull_init_module None True p_reg p_ok a_reg p nr p_nr m = Some (m', Ret 0)"
    and "geometry_ok (scull_quantum p) (scull_qset p)"
  shows "bare_rep p nr 0 (bare_start m') (\<lambda>_. empty_sparse, Map.empty)"
  using assms(2)
  by (auto simp: bare_rep_def bare_start_def loaded_devices[OF assms(1)] dev_rep_def scull_wf_def zero_dev_def empty_sparse_def
      scull_at_def blocks_def fun_eq_iff)

text \<open>C12. The bare devices of scull, loaded, found by their numbers and used through descriptors by any programs in any order of calls
  (open, read, write, lseek and close; ioctl, which changes the geometry of later files, is not among them): as long as the bytes
  written and the distances moved stay below a budget of 2 to the 62 and of 2 to the 31 quantum sets of the loaded geometry, every call returns, nothing is
  undefined, and the answers are those of files with holes, which no fault, signal or failing allocation can bring out of step.\<close>

theorem scull_system_refines_files:
  assumes "scull_init_module None True p_reg p_ok a_reg p nr p_nr m = Some (m', Ret 0)"
    and "geometry_ok (scull_quantum p) (scull_qset p)" "na \<le> 4" "sum_list (map bare_cost calls) < bare_budget p"
  shows "\<exists>answers s' a'. exec_calls (bare_exec (load_numbers ok first nr np na Map.empty) p) calls (bare_start m') = Some (answers, s') \<and>
    length answers = length calls \<and>
    run (sparse_call (load_numbers ok first nr np na Map.empty)) (\<lambda>_. empty_sparse, Map.empty) (zip calls answers) a'"
proof -
  have "bare_rep p nr 0 (bare_start m') (\<lambda>_. empty_sparse, Map.empty) \<and> numbers_ok (load_numbers ok first nr np na Map.empty) nr \<and>
      geometry_ok (scull_quantum p) (scull_qset p)"
    using bare_start_rep[OF assms(1,2)] loaded_numbers_ok[OF assms(3)] assms(2) by simp
  from bare.calls_refine[OF this] show ?thesis using assms(4) by (simp add: list_all_iff) blast
qed

text \<open>A write beyond the end stops at the end of its quantum and leaves a hole before it, where a read ends.\<close>

definition sys_params :: scull_params where "sys_params = \<lparr>scull_quantum = 4, scull_qset = 2, scull_p_buffer = 4\<rparr>"

definition sys_env :: kenv where "sys_env = \<lparr>signal = False, allocs = [True, True, True], uleft = 0\<rparr>"

definition sys_module :: scull_module where
  "sys_module = \<lparr>sm_devices = None, sm_region = False, sm_pipes = \<lparr>scull_p_devices = None, p_region = False\<rparr>, sm_access = no_access\<rparr>"

definition sys_calls :: "bare_call list" where
  "sys_calls = [B_open 3 7 O_RDWR False, B_lseek 3 6 0, B_write 3 sys_env [1, 2, 3], B_lseek 3 0 0, B_read 3 sys_env 9]"

definition sys_dev :: scull_dev where
  "sys_dev = zero_dev\<lparr>data := [\<lparr>qdata = Some [None, Some [None, None, Some 1, Some 2]]\<rparr>], quantum := 4, qset := 2, dev_size := 8\<rparr>"

lemma sys_transfers:
  "scull_write sys_env (zero_dev\<lparr>quantum := 4, qset := 2\<rparr>) [1, 2, 3] 6 = Some (sys_dev, 8, Ret 2)"
  "scull_read sys_env sys_dev 9 0 = Some (sys_dev, 0, Ret [])"
  by code_simp+

lemma sys_number: "load_numbers (\<lambda>_. True) 7 1 0 0 Map.empty 7 = Some (Bare 0, scull_fops)"
  by (simp add: load_numbers_lookup)

theorem scull_system_refines_files_witness:
  "\<exists>m' a'. scull_init_module None True (- 1) True (- 1) sys_params 1 0 sys_module = Some (m', Ret 0) \<and>
    run (sparse_call (load_numbers (\<lambda>_. True) 7 1 0 0 Map.empty)) (\<lambda>_. empty_sparse, Map.empty)
      (zip sys_calls [B_value 3, B_value 6, B_value 2, B_value 0, B_data []]) a'"
proof -
  let ?c = "load_numbers (\<lambda>_. True) 7 1 0 0 Map.empty"
  obtain m' where m: "scull_init_module None True (- 1) True (- 1) sys_params 1 0 sys_module = Some (m', Ret 0)"
    by (simp add: scull_init_module_def scull_p_init_def scull_access_init_def)
  have start: "bare_start m' = \<lparr>bs_devs = [zero_dev\<lparr>quantum := 4, qset := 2\<rparr>], bs_files = Map.empty\<rparr>"
    by (simp add: bare_start_def loaded_devices[OF m] sys_params_def)
  have "geometry_ok (scull_quantum sys_params) (scull_qset sys_params)" "sum_list (map bare_cost sys_calls) < bare_budget sys_params"
    by (simp_all add: geometry_ok_def bare_budget_def sys_params_def sys_calls_def)
  from scull_system_refines_files[OF m this(1) _ this(2), where na = 0 and np = 0 and first = 7 and ok = "\<lambda>_. True"]
  obtain answers s' a' where r: "exec_calls (bare_exec ?c sys_params) sys_calls (bare_start m') = Some (answers, s')"
    "run (sparse_call ?c) (\<lambda>_. empty_sparse, Map.empty) (zip sys_calls answers) a'"
    by (simp only: le0 zero_le simp_thms True_implies_equals) (elim exE conjE, rule that)
  have "exec_calls (bare_exec ?c sys_params) sys_calls (bare_start m') =
      Some ([B_value 3, B_value 6, B_value 2, B_value 0, B_data []], \<lparr>bs_devs = [sys_dev], bs_files = [3 \<mapsto> (scull_fops, 0, O_RDWR, 0)]\<rparr>)"
    by (simp add: start sys_calls_def bare_open_def sys_number[unfolded One_nat_def] scull_open_def scull_fops_def bare_lseek_def scull_llseek_def
        bare_write_def bare_read_def sys_transfers chunk_max_def)
  then show ?thesis using m r by (intro exI[of _ m'] exI[of _ a']) simp
qed

end
