(* ===== verification/Parport_Format.thy ===== *)
theory Parport_Format
  imports Kernel_Prelude
begin

section \<open>What the port drivers print and how they move in a page\<close>

text \<open>
  Shared by \<open>short\<close> and \<open>shortprint\<close>: the conversions of \<open>sprintf\<close> that they use, the operations on I/O ports and
  memory they issue, and the index increment of their one-page text buffers
  (\<open>short_incr_bp\<close>, \<open>shortp_incr_bp\<close>). An index is the offset into the page.
\<close>

definition PAGE_SIZE :: nat where "PAGE_SIZE = 4096"

datatype io_op =
  Inb nat | Inb_p nat | Ioread8 nat | Insb nat nat
| Outb nat byte | Outb_p nat byte | Iowrite8 nat byte | Outsb nat "byte list"

fun dec :: "nat \<Rightarrow> byte list" where
  "dec n = (if n < 10 then [word_of_nat (48 + n)] else dec (n div 10) @ [word_of_nat (48 + n mod 10)])"

declare dec.simps [simp del]

text \<open>\<open>%0wu\<close> and \<open>%wi\<close> for a number that is not negative.\<close>

definition fmt_zero :: "nat \<Rightarrow> nat \<Rightarrow> byte list" where
  "fmt_zero w n = replicate (w - length (dec n)) 48 @ dec n"

definition fmt_space :: "nat \<Rightarrow> nat \<Rightarrow> byte list" where
  "fmt_space w n = replicate (w - length (dec n)) 32 @ dec n"

lemma dec_length: "n < 10 ^ w \<Longrightarrow> 0 < w \<Longrightarrow> length (dec n) \<le> w"
proof (induction n arbitrary: w rule: dec.induct)
  case (1 n)
  show ?case
  proof (cases "n < 10")
    case True
    then show ?thesis using 1 by (simp add: dec.simps[of n])
  next
    case False
    define v where "v = w - 1"
    have v: "w = Suc v" "0 < v" using 1(2,3) False by (cases "w = 1"; simp add: v_def)+
    have "n div 10 < 10 ^ v" using 1(2) v by (simp add: less_mult_imp_div_less mult.commute)
    then show ?thesis using 1(1)[OF False _ v(2)] False v(1) by (simp add: dec.simps[of n])
  qed
qed

lemma fmt_length: "n < 10 ^ w \<Longrightarrow> 0 < w \<Longrightarrow> length (fmt_zero w n) = w \<and> length (fmt_space w n) = w"
  using dec_length[of n w] by (simp add: fmt_zero_def fmt_space_def)

text \<open>The value of a printed number.\<close>

fun dec_value :: "byte list \<Rightarrow> nat \<Rightarrow> nat" where
  "dec_value [] acc = acc"
| "dec_value (b # bs) acc = dec_value bs (10 * acc + (unat b - 48))"

lemma dec_value_append: "dec_value (xs @ ys) acc = dec_value ys (dec_value xs acc)"
  by (induction xs arbitrary: acc) simp_all

lemma digit_value: "d < 10 \<Longrightarrow> unat (word_of_nat (48 + d) :: byte) - 48 = d"
  using unat_of_nat[of "48 + d", where 'a = 8] by simp

lemma dec_value_dec: "dec_value (dec n) 0 = n"
proof (induction n rule: dec.induct)
  case (1 n)
  then show ?case
    using digit_value[of n] digit_value[of "n mod 10"]
    by (cases "n < 10") (simp_all add: dec.simps[of n] dec_value_append)
qed

lemma dec_value_zeros: "dec_value (replicate k 48) 0 = 0"
  by (induction k) simp_all

lemma fmt_zero_value: "dec_value (fmt_zero w n) 0 = n"
  by (simp add: fmt_zero_def dec_value_append dec_value_zeros dec_value_dec)

definition incr_bp :: "nat \<Rightarrow> nat \<Rightarrow> nat" where
  "incr_bp index delta = (let new = index + delta in if PAGE_SIZE \<le> new then 0 else new)"

text \<open>\<open>sprintf\<close> stores the text and a zero byte; what does not fit in the page has no value.\<close>

definition print_at :: "nat \<Rightarrow> byte list \<Rightarrow> cell list \<Rightarrow> cell list option" where
  "print_at head text page =
     (if head + length text < length page then Some (mem_write head (map Some (text @ [0])) page) else None)"

lemma print_at_length: "print_at head text page = Some page' \<Longrightarrow> length page' = length page"
  by (auto simp: print_at_def split: if_splits)

lemma print_at_take:
  "print_at head text page = Some page' \<Longrightarrow> k \<le> head \<Longrightarrow> take k page' = take k page"
  by (auto simp: print_at_def mem_write_def split: if_splits)

lemma print_at_drop:
  "print_at head text page = Some page' \<Longrightarrow> take (length text) (drop head page') = map Some text"
  by (auto simp: print_at_def mem_write_def split: if_splits)

text \<open>The part of the page between the indices that a read finds: up to the head, or to the end.\<close>

definition readable :: "nat \<Rightarrow> nat \<Rightarrow> nat" where
  "readable head tail = (if head < tail then PAGE_SIZE - tail else head - tail)"

end
