(* ===== verification/Scullx.thy ===== *)
theory Scullx
  imports Scull Parport_Format
begin

section \<open>The variants scullc, scullp, scullv and sculld\<close>

text \<open>
  Four copies of scull that take their quanta from a slab cache (\<open>scullc/main.c\<close>), from pages (\<open>scullp/main.c\<close>,
  \<open>sculld/main.c\<close>) or from \<open>vmalloc\<close> (\<open>scullv/main.c\<close>), with active mappings counted. The
  device is itself the first item of its list. The code of the four differs in names, in how a quantum is
  allocated and in what the quantum size is; the shared operations are defined once, with the allocation of a quantum as an
  argument, and each driver's operation is its instance. \<open>xbase\<close> reuses the record of scull:
  \<open>data\<close> is the list of items, never empty, and for the page-based drivers \<open>quantum\<close> is the order.
\<close>

record scullx_dev =
  xbase :: scull_dev
  vmas :: int

definition SCULLC_QUANTUM :: int where "SCULLC_QUANTUM = 4000"
definition SCULLC_QSET :: int where "SCULLC_QSET = 500"
definition SCULLP_ORDER :: int where "SCULLP_ORDER = 0"
definition SCULLP_QSET :: int where "SCULLP_QSET = 500"
definition SCULLV_ORDER :: int where "SCULLV_ORDER = 4"
definition SCULLV_QSET :: int where "SCULLV_QSET = 500"
definition SCULLD_ORDER :: int where "SCULLD_ORDER = 0"
definition SCULLD_QSET :: int where "SCULLD_QSET = 500"

subsection \<open>The shared operations\<close>

text \<open>A failed allocation is not checked: the code clears memory at address 0.\<close>

fun x_follow_loop :: "nat \<Rightarrow> scull_qset list \<Rightarrow> nat \<Rightarrow> allocs \<Rightarrow> (nat \<times> scull_qset list \<times> allocs) option" where
  "x_follow_loop 0 l i a = Some (i, l, a)"
| "x_follow_loop (Suc n) l i a =
     (if i + 1 < length l then x_follow_loop n l (i + 1) a
      else (case kmalloc a of
              (False, a') \<Rightarrow> None
            | (True, a') \<Rightarrow> x_follow_loop n (l @ [empty_qset]) (i + 1) a'))"

definition x_follow :: "scull_dev \<Rightarrow> int \<Rightarrow> allocs \<Rightarrow> (nat \<times> scull_dev \<times> allocs) option" where
  "x_follow dev n a = do {
     (i, l, a') \<leftarrow> x_follow_loop (nat (u32 n)) (data dev) 0 a;
     Some (i, dev\<lparr>data := l\<rparr>, a') }"

text \<open>
  \<open>newq i a\<close> allocates and clears a quantum for item \<open>i\<close>: \<open>Some (None, _)\<close> when the allocation fails,
  \<open>None\<close> when clearing it writes outside.
\<close>

type_synonym quantum_alloc = "nat \<Rightarrow> allocs \<Rightarrow> (cell list option \<times> allocs) option"

definition x_get_quantum :: "quantum_alloc \<Rightarrow> nat \<Rightarrow> cell list option \<Rightarrow> allocs \<Rightarrow> (cell list option \<times> allocs) option" where
  "x_get_quantum newq i ptr a = (case ptr of Some blk \<Rightarrow> Some (Some blk, a) | None \<Rightarrow> newq i a)"

definition x_read ::
  "int \<Rightarrow> int \<Rightarrow> kenv \<Rightarrow> scull_dev \<Rightarrow> int \<Rightarrow> int \<Rightarrow> (scull_dev \<times> int \<times> cell list outcome) option" where
  "x_read q qs env dev count f_pos =
     (if signal env then Some (dev, f_pos, Fail ERESTARTSYS)
      else if dev_size dev < u64 f_pos then Some (dev, f_pos, Ret [])
      else
        (let count1 = (if dev_size dev < u64 (f_pos + count) then u64 (dev_size dev - f_pos) else count)
         in do {
           (item, s_pos, q_pos) \<leftarrow> scull_find q qs f_pos;
           (i, dev1, _) \<leftarrow> x_follow dev item (allocs env);
           (case qdata (data dev1 ! i) of
              None \<Rightarrow> Some (dev1, f_pos, Ret [])
            | Some arr \<Rightarrow> do {
                ptr \<leftarrow> slot arr s_pos;
                (case ptr of
                   None \<Rightarrow> Some (dev1, f_pos, Ret [])
                 | Some blk \<Rightarrow>
                     (let count2 = (if u64 (q - q_pos) < count1 then u64 (q - q_pos) else count1)
                      in if q_pos < 0 \<or> int (length blk) < q_pos + count2 then None
                         else if 0 < min (uleft env) (nat count2) then Some (dev1, f_pos, Fail EFAULT)
                         else Some (dev1, s64 (f_pos + count2),
                                Ret (take (nat count2) (drop (nat q_pos) blk))))) }) }))"

definition x_write ::
  "int \<Rightarrow> int \<Rightarrow> quantum_alloc \<Rightarrow> kenv \<Rightarrow> scull_dev \<Rightarrow> byte list \<Rightarrow> int \<Rightarrow>
   (scull_dev \<times> int \<times> int outcome) option" where
  "x_write q qs newq env dev src f_pos =
     (if signal env then Some (dev, f_pos, Fail ERESTARTSYS)
      else do {
        (item, s_pos, q_pos) \<leftarrow> scull_find q qs f_pos;
        (i, dev1, a1) \<leftarrow> x_follow dev item (allocs env);
        (case scull_get_array qs (data dev1 ! i) a1 of
           (None, _) \<Rightarrow> Some (dev1, f_pos, Fail ENOMEM)
         | (Some arr, a2) \<Rightarrow>
             (let dev2 = set_array i arr dev1 in do {
                ptr \<leftarrow> slot arr s_pos;
                (got, _) \<leftarrow> x_get_quantum newq i ptr a2;
                (case got of
                   None \<Rightarrow> Some (dev2, f_pos, Fail ENOMEM)
                 | Some blk \<Rightarrow>
                     (let count = (if u64 (q - q_pos) < int (length src) then u64 (q - q_pos) else int (length src))
                      in if q_pos < 0 \<or> int (length blk) < q_pos + count then None
                         else
                           (let new = user_bytes (uleft env) (take (nat count) src);
                                dev3 = set_array i (arr[nat s_pos := Some (mem_write (nat q_pos) new blk)]) dev2;
                                f' = s64 (f_pos + count)
                            in if 0 < min (uleft env) (nat count) then Some (dev3, f_pos, Fail EFAULT)
                               else Some (if dev_size dev3 < u64 f' then dev3\<lparr>dev_size := u64 f'\<rparr> else dev3,
                                      f', Ret count)))) })) })"

definition x_trim :: "int \<Rightarrow> int \<Rightarrow> scullx_dev \<Rightarrow> (scullx_dev \<times> int outcome) option" where
  "x_trim q qs d =
     (if vmas d \<noteq> 0 then Some (d, Fail EBUSY)
      else do {
        scull_free_list (qset (xbase d)) (data (xbase d));
        Some (d\<lparr>xbase := (xbase d)\<lparr>data := [empty_qset], dev_size := 0, qset := qs, quantum := q\<rparr>\<rparr>, Ret 0) })"

definition x_open :: "int \<Rightarrow> int \<Rightarrow> bool \<Rightarrow> accmode \<Rightarrow> scullx_dev \<Rightarrow> (scullx_dev \<times> int outcome) option" where
  "x_open q qs intr mode d =
     (if mode = O_WRONLY then
        (if intr then Some (d, Fail ERESTARTSYS) else do { (d', _) \<leftarrow> x_trim q qs d; Some (d', Ret 0) })
      else Some (d, Ret 0))"

text \<open>
  The commands, with the same numbers in the four drivers; the magic number is the character K. The
  parameters are those of scull, the first being the order in the page-based drivers; nothing is reserved to
  the administrator.
\<close>

definition SCULLX_IOC_MAGIC :: nat where "SCULLX_IOC_MAGIC = 75"
definition SCULLX_IOCRESET :: nat where "SCULLX_IOCRESET = io_cmd SCULLX_IOC_MAGIC 0"
definition SCULLX_IOCSORDER :: nat where "SCULLX_IOCSORDER = iow_cmd SCULLX_IOC_MAGIC 1 4"
definition SCULLX_IOCTORDER :: nat where "SCULLX_IOCTORDER = io_cmd SCULLX_IOC_MAGIC 2"
definition SCULLX_IOCGORDER :: nat where "SCULLX_IOCGORDER = ior_cmd SCULLX_IOC_MAGIC 3 4"
definition SCULLX_IOCQORDER :: nat where "SCULLX_IOCQORDER = io_cmd SCULLX_IOC_MAGIC 4"
definition SCULLX_IOCXORDER :: nat where "SCULLX_IOCXORDER = iowr_cmd SCULLX_IOC_MAGIC 5 4"
definition SCULLX_IOCHORDER :: nat where "SCULLX_IOCHORDER = io_cmd SCULLX_IOC_MAGIC 6"
definition SCULLX_IOCSQSET :: nat where "SCULLX_IOCSQSET = iow_cmd SCULLX_IOC_MAGIC 7 4"
definition SCULLX_IOCTQSET :: nat where "SCULLX_IOCTQSET = io_cmd SCULLX_IOC_MAGIC 8"
definition SCULLX_IOCGQSET :: nat where "SCULLX_IOCGQSET = ior_cmd SCULLX_IOC_MAGIC 9 4"
definition SCULLX_IOCQQSET :: nat where "SCULLX_IOCQQSET = io_cmd SCULLX_IOC_MAGIC 10"
definition SCULLX_IOCXQSET :: nat where "SCULLX_IOCXQSET = iowr_cmd SCULLX_IOC_MAGIC 11 4"
definition SCULLX_IOCHQSET :: nat where "SCULLX_IOCHQSET = io_cmd SCULLX_IOC_MAGIC 12"
definition SCULLX_IOC_MAXNR :: nat where "SCULLX_IOC_MAXNR = 12"

definition x_ioctl :: "int \<Rightarrow> int \<Rightarrow> nat \<Rightarrow> ioctl_user \<Rightarrow> scull_params \<Rightarrow> ioctl_result" where
  "x_ioctl q0 qs0 cmd user p =
     (let u = user\<lparr>capable := True\<rparr> in
      if ioc_type cmd \<noteq> SCULLX_IOC_MAGIC then (p, None, Fail ENOTTY)
      else if SCULLX_IOC_MAXNR < ioc_nr cmd then (p, None, Fail ENOTTY)
      else if ioc_dir cmd \<noteq> 0 \<and> \<not> access_ok u then (p, None, Fail EFAULT)
      else if cmd = SCULLX_IOCRESET then (p\<lparr>scull_quantum := q0, scull_qset := qs0\<rparr>, None, Ret 0)
      else if cmd = SCULLX_IOCSORDER then ioctl_set scull_quantum_update u p
      else if cmd = SCULLX_IOCTORDER then ioctl_tell scull_quantum_update u p
      else if cmd = SCULLX_IOCGORDER then ioctl_get scull_quantum u p
      else if cmd = SCULLX_IOCQORDER then ioctl_query scull_quantum p
      else if cmd = SCULLX_IOCXORDER then ioctl_exchange scull_quantum scull_quantum_update u p
      else if cmd = SCULLX_IOCHORDER then ioctl_shift scull_quantum scull_quantum_update u p
      else if cmd = SCULLX_IOCSQSET then ioctl_set scull_qset_update u p
      else if cmd = SCULLX_IOCTQSET then ioctl_tell scull_qset_update u p
      else if cmd = SCULLX_IOCGQSET then ioctl_get scull_qset u p
      else if cmd = SCULLX_IOCQQSET then ioctl_query scull_qset p
      else if cmd = SCULLX_IOCXQSET then ioctl_exchange scull_qset scull_qset_update u p
      else if cmd = SCULLX_IOCHQSET then ioctl_shift scull_qset scull_qset_update u p
      else (p, None, Fail ENOTTY))"

subsection \<open>Listing\<close>

text \<open>
  The proc file of the debugging build. \<open>full k\<close> tells whether the buffer is past its limit once \<open>k\<close>
  lines have been printed; printing then stops. The lines printed and whether it stopped.
\<close>

fun x_show_quanta ::
  "(nat \<Rightarrow> bool) \<Rightarrow> cell list option list \<Rightarrow> nat \<Rightarrow> nat \<Rightarrow> seq_line list \<Rightarrow> (seq_line list \<times> bool) option" where
  "x_show_quanta full arr j 0 out = Some (out, False)"
| "x_show_quanta full arr j (Suc n) out = do {
     ptr \<leftarrow> slot arr (int j);
     let out' = (if ptr \<noteq> None then out @ [Seq_quantum j] else out);
     (if full (length out') then Some (out', True) else x_show_quanta full arr (Suc j) n out') }"

fun x_show_items :: "(nat \<Rightarrow> bool) \<Rightarrow> int \<Rightarrow> nat \<Rightarrow> scull_qset list \<Rightarrow> seq_line list \<Rightarrow> (seq_line list \<times> bool) option" where
  "x_show_items full qs k [] out = Some (out, False)"
| "x_show_items full qs k (d # l) out =
     (let out1 = out @ [Seq_item k (qdata d \<noteq> None)] in
      if full (length out1) then Some (out1, True)
      else (case qdata d of
          Some arr \<Rightarrow>
            (if l = [] then x_show_quanta full arr 0 (nat qs) out1 else x_show_items full qs (Suc k) l out1)
        | None \<Rightarrow> x_show_items full qs (Suc k) l out1))"

text \<open>\<open>intrs\<close> says for each device whether a signal ends the wait for its lock.\<close>

fun x_read_procmem ::
  "(nat \<Rightarrow> bool) \<Rightarrow> (nat \<Rightarrow> bool) \<Rightarrow> nat \<Rightarrow> scullx_dev list \<Rightarrow> seq_line list \<Rightarrow> (seq_line list \<times> int outcome) option" where
  "x_read_procmem full intrs i [] out = Some (out, Ret 0)"
| "x_read_procmem full intrs i (d # ds) out =
     (if intrs i then Some (out, Fail ERESTARTSYS)
      else do {
        let b = xbase d;
        (out', _) \<leftarrow> x_show_items full (qset b) 0 (data b)
          (out @ [Seq_device (int i) (qset b) (quantum b) (s64 (dev_size b))]);
        (if full (length out') then Some (out', Ret 0) else x_read_procmem full intrs (Suc i) ds out') })"

subsection \<open>Mappings\<close>

definition x_vma_open :: "scullx_dev \<Rightarrow> scullx_dev" where
  "x_vma_open d = d\<lparr>vmas := vmas d + 1\<rparr>"

definition x_vma_close :: "scullx_dev \<Rightarrow> scullx_dev" where
  "x_vma_close d = d\<lparr>vmas := vmas d - 1\<rparr>"

text \<open>The item that holds a page and the index left, from item \<open>i\<close> on.\<close>

fun x_page_item :: "int \<Rightarrow> nat \<Rightarrow> scull_qset list \<Rightarrow> int \<Rightarrow> (nat \<times> scull_qset \<times> int) option" where
  "x_page_item qs i [] offset = None"
| "x_page_item qs i (d # l) offset =
     (if u64 qs \<le> offset then x_page_item qs (Suc i) l (u64 (offset - qs)) else Some (i, d, offset))"

text \<open>
  The fault handler returns the page at the address stored in the slot, the first of its
  block: the block is given by item and slot, with the cells of its first page. \<open>Some None\<close> is
  \<open>VM_FAULT_NOPAGE\<close>.
\<close>

definition x_vma_nopage ::
  "int \<Rightarrow> int \<Rightarrow> int \<Rightarrow> scull_dev \<Rightarrow> (nat \<times> nat \<times> cell list) option option" where
  "x_vma_nopage address vm_start vm_pgoff dev =
     (let offset = u64 (u64 (address - vm_start) + u64 (vm_pgoff * 4096)) in
      if dev_size dev \<le> offset then Some None
      else (case x_page_item (qset dev) 0 (data dev) (offset div 4096) of
          None \<Rightarrow> Some None
        | Some (i, ptr, off) \<Rightarrow>
            (case qdata ptr of
               None \<Rightarrow> Some None
             | Some arr \<Rightarrow> do {
                 pageptr \<leftarrow> slot arr off;
                 Some (map_option (\<lambda>blk. (i, nat off, take PAGE_SIZE blk)) pageptr) })))"

text \<open>\<open>scullp\<close> and \<open>sculld\<close> refuse to map blocks of several pages.\<close>

definition x_mmap :: "scullx_dev \<Rightarrow> scullx_dev \<times> int outcome" where
  "x_mmap d = (if quantum (xbase d) \<noteq> 0 then (d, Fail ENODEV) else (x_vma_open d, Ret 0))"

subsection \<open>Loading and unloading\<close>

record x_module =
  x_devices :: "scullx_dev list option"
  x_region :: bool
  x_cache :: "int option"
  x_driver :: bool
  x_registered :: "nat list"

definition x_unloaded :: x_module where
  "x_unloaded = \<lparr>x_devices = None, x_region = False, x_cache = None, x_driver = False, x_registered = []\<rparr>"

definition x_new_dev :: "scull_params \<Rightarrow> scullx_dev" where
  "x_new_dev p =
     \<lparr>xbase = \<lparr>data = [empty_qset], quantum = scull_quantum p, qset = scull_qset p, dev_size = 0, access_key = 0\<rparr>,
      vmas = 0\<rparr>"

text \<open>\<open>reg\<close> is the error of the registration, if any. Failures of \<open>cdev_add\<close> are only logged.\<close>

definition x_init :: "errno option \<Rightarrow> allocs \<Rightarrow> scull_params \<Rightarrow> nat \<Rightarrow> x_module \<times> int outcome" where
  "x_init reg a p n =
     (case reg of
        Some e \<Rightarrow> (x_unloaded, Fail e)
      | None \<Rightarrow>
          (case kmalloc a of
             (False, _) \<Rightarrow> (x_unloaded, Fail ENOMEM)
           | (True, _) \<Rightarrow> (x_unloaded\<lparr>x_region := True, x_devices := Some (replicate n (x_new_dev p))\<rparr>, Ret 0)))"

fun x_trim_all :: "scull_params \<Rightarrow> scullx_dev list \<Rightarrow> unit option" where
  "x_trim_all p [] = Some ()"
| "x_trim_all p (d # ds) = do { x_trim (scull_quantum p) (scull_qset p) d; x_trim_all p ds }"

definition x_cleanup :: "scull_params \<Rightarrow> x_module \<Rightarrow> x_module option" where
  "x_cleanup p m =
     (case x_devices m of
        None \<Rightarrow> None
      | Some ds \<Rightarrow> do { x_trim_all p ds; Some (m\<lparr>x_devices := None, x_region := False\<rparr>) })"

subsection \<open>scullc\<close>

text \<open>
  \<open>obj\<close> is the object size of the cache, the quantum of the load time; a new quantum is cleared over the
  quantum size \<open>gq\<close> of now.
\<close>

definition scullc_new_quantum :: "int \<Rightarrow> int \<Rightarrow> quantum_alloc" where
  "scullc_new_quantum obj gq i a =
     (case kmalloc a of
        (False, a') \<Rightarrow> Some (None, a')
      | (True, a') \<Rightarrow>
          if gq < 0 \<or> obj < gq then None
          else Some (Some (replicate (nat gq) (Some 0) @ replicate (nat (obj - gq)) None), a'))"

definition scullc_follow where "scullc_follow = x_follow"

definition scullc_read ::
  "kenv \<Rightarrow> scullx_dev \<Rightarrow> int \<Rightarrow> int \<Rightarrow> (scullx_dev \<times> int \<times> cell list outcome) option" where
  "scullc_read env d count f_pos = do {
     (b, f, r) \<leftarrow> x_read (quantum (xbase d)) (qset (xbase d)) env (xbase d) count f_pos;
     Some (d\<lparr>xbase := b\<rparr>, f, r) }"

definition scullc_write ::
  "int \<Rightarrow> int \<Rightarrow> kenv \<Rightarrow> scullx_dev \<Rightarrow> byte list \<Rightarrow> int \<Rightarrow> (scullx_dev \<times> int \<times> int outcome) option" where
  "scullc_write obj gq env d src f_pos = do {
     (b, f, r) \<leftarrow> x_write (quantum (xbase d)) (qset (xbase d)) (scullc_new_quantum obj gq) env (xbase d) src f_pos;
     Some (d\<lparr>xbase := b\<rparr>, f, r) }"

definition scullc_trim where "scullc_trim p = x_trim (scull_quantum p) (scull_qset p)"
definition scullc_open where "scullc_open p = x_open (scull_quantum p) (scull_qset p)"
definition scullc_release :: "scullx_dev \<Rightarrow> scullx_dev \<times> int" where "scullc_release d = (d, 0)"
definition scullc_ioctl where "scullc_ioctl = x_ioctl SCULLC_QUANTUM SCULLC_QSET"
definition scullc_llseek where "scullc_llseek d = scull_llseek (xbase d)"
definition scullc_read_procmem where "scullc_read_procmem full intrs ds = x_read_procmem full intrs 0 ds []"

definition scullc_cleanup :: "scull_params \<Rightarrow> x_module \<Rightarrow> x_module option" where
  "scullc_cleanup p m = do { m' \<leftarrow> x_cleanup p m; Some (m'\<lparr>x_cache := None\<rparr>) }"

text \<open>\<open>cache\<close> tells whether the cache is created.\<close>

definition scullc_init :: "errno option \<Rightarrow> allocs \<Rightarrow> bool \<Rightarrow> scull_params \<Rightarrow> nat \<Rightarrow> (x_module \<times> int outcome) option" where
  "scullc_init reg a cache p n =
     (case x_init reg a p n of
        (m, Ret v) \<Rightarrow>
          if cache then Some (m\<lparr>x_cache := Some (scull_quantum p)\<rparr>, Ret 0)
          else do { m' \<leftarrow> scullc_cleanup p m; Some (m', Fail ENOMEM) }
      | (m, r) \<Rightarrow> Some (m, r))"

subsection \<open>scullp\<close>

text \<open>The quantum of an order: a \<open>long\<close> shifted, then converted to \<open>int\<close>. Other shifts have no meaning.\<close>

definition page_quantum :: "int \<Rightarrow> int option" where
  "page_quantum order = (if 0 \<le> order \<and> order < 64 then Some (s32 (u64 (4096 * 2 ^ nat order))) else None)"

text \<open>
  The order of an item is a field of the item: the device has its own, the items behind it were cleared
  to 0. The page allocator refuses orders beyond 10.
\<close>

definition item_order :: "int \<Rightarrow> nat \<Rightarrow> int" where
  "item_order order i = (if i = 0 then order else 0)"

definition scullp_new_quantum :: "int \<Rightarrow> quantum_alloc" where
  "scullp_new_quantum order i a =
     (let o' = item_order order i in
      if o' < 0 \<or> 10 < o' then Some (None, a)
      else (case kmalloc a of
          (False, a') \<Rightarrow> Some (None, a')
        | (True, a') \<Rightarrow> Some (Some (replicate (PAGE_SIZE * 2 ^ nat o') (Some 0)), a')))"

definition scullp_follow where "scullp_follow = x_follow"

definition scullp_read ::
  "kenv \<Rightarrow> scullx_dev \<Rightarrow> int \<Rightarrow> int \<Rightarrow> (scullx_dev \<times> int \<times> cell list outcome) option" where
  "scullp_read env d count f_pos = do {
     q \<leftarrow> page_quantum (quantum (xbase d));
     (b, f, r) \<leftarrow> x_read q (qset (xbase d)) env (xbase d) count f_pos;
     Some (d\<lparr>xbase := b\<rparr>, f, r) }"

definition scullp_write ::
  "kenv \<Rightarrow> scullx_dev \<Rightarrow> byte list \<Rightarrow> int \<Rightarrow> (scullx_dev \<times> int \<times> int outcome) option" where
  "scullp_write env d src f_pos = do {
     q \<leftarrow> page_quantum (quantum (xbase d));
     (b, f, r) \<leftarrow> x_write q (qset (xbase d)) (scullp_new_quantum (quantum (xbase d))) env (xbase d) src f_pos;
     Some (d\<lparr>xbase := b\<rparr>, f, r) }"

definition scullp_trim where "scullp_trim p = x_trim (scull_quantum p) (scull_qset p)"
definition scullp_open where "scullp_open p = x_open (scull_quantum p) (scull_qset p)"
definition scullp_release :: "scullx_dev \<Rightarrow> scullx_dev \<times> int" where "scullp_release d = (d, 0)"
definition scullp_ioctl where "scullp_ioctl = x_ioctl SCULLP_ORDER SCULLP_QSET"
definition scullp_llseek where "scullp_llseek d = scull_llseek (xbase d)"
definition scullp_read_procmem where "scullp_read_procmem full intrs ds = x_read_procmem full intrs 0 ds []"
definition scullp_init where "scullp_init = x_init"
definition scullp_cleanup where "scullp_cleanup = x_cleanup"
definition scullp_vma_open where "scullp_vma_open = x_vma_open"
definition scullp_vma_close where "scullp_vma_close = x_vma_close"
definition scullp_vma_nopage where "scullp_vma_nopage address start pgoff d = x_vma_nopage address start pgoff (xbase d)"
definition scullp_mmap where "scullp_mmap = x_mmap"

subsection \<open>scullv\<close>

text \<open>\<open>vmalloc\<close> of no bytes fails.\<close>

definition scullv_new_quantum :: "int \<Rightarrow> quantum_alloc" where
  "scullv_new_quantum order i a =
     (let o' = item_order order i; size = u64 (4096 * 2 ^ nat o') in
      if o' < 0 \<or> 64 \<le> o' then None
      else if size = 0 then Some (None, a)
      else (case kmalloc_size size a of
          (False, a') \<Rightarrow> Some (None, a')
        | (True, a') \<Rightarrow> Some (Some (replicate (nat size) (Some 0)), a')))"

definition scullv_follow where "scullv_follow = x_follow"
definition scullv_read where "scullv_read = scullp_read"

definition scullv_write ::
  "kenv \<Rightarrow> scullx_dev \<Rightarrow> byte list \<Rightarrow> int \<Rightarrow> (scullx_dev \<times> int \<times> int outcome) option" where
  "scullv_write env d src f_pos = do {
     q \<leftarrow> page_quantum (quantum (xbase d));
     (b, f, r) \<leftarrow> x_write q (qset (xbase d)) (scullv_new_quantum (quantum (xbase d))) env (xbase d) src f_pos;
     Some (d\<lparr>xbase := b\<rparr>, f, r) }"

definition scullv_trim where "scullv_trim p = x_trim (scull_quantum p) (scull_qset p)"
definition scullv_open where "scullv_open p = x_open (scull_quantum p) (scull_qset p)"
definition scullv_release :: "scullx_dev \<Rightarrow> scullx_dev \<times> int" where "scullv_release d = (d, 0)"
definition scullv_ioctl where "scullv_ioctl = x_ioctl SCULLV_ORDER SCULLV_QSET"
definition scullv_llseek where "scullv_llseek d = scull_llseek (xbase d)"
definition scullv_read_procmem where "scullv_read_procmem full intrs ds = x_read_procmem full intrs 0 ds []"
definition scullv_init where "scullv_init = x_init"
definition scullv_cleanup where "scullv_cleanup = x_cleanup"
definition scullv_vma_open where "scullv_vma_open = x_vma_open"
definition scullv_vma_close where "scullv_vma_close = x_vma_close"
definition scullv_vma_nopage where "scullv_vma_nopage address start pgoff d = x_vma_nopage address start pgoff (xbase d)"

text \<open>Mappings are accepted whatever the order.\<close>

definition scullv_mmap :: "scullx_dev \<Rightarrow> scullx_dev \<times> int outcome" where
  "scullv_mmap d = (x_vma_open d, Ret 0)"

subsection \<open>sculld\<close>

text \<open>
  \<open>sculld\<close> is \<open>scullp\<close> on the bus of \<open>lddbus\<close>: the module also registers a driver and the devices, whose
  results it ignores.
\<close>

definition sculld_follow where "sculld_follow = x_follow"
definition sculld_new_quantum where "sculld_new_quantum = scullp_new_quantum"
definition sculld_read where "sculld_read = scullp_read"
definition sculld_write where "sculld_write = scullp_write"
definition sculld_trim where "sculld_trim p = x_trim (scull_quantum p) (scull_qset p)"
definition sculld_open where "sculld_open p = x_open (scull_quantum p) (scull_qset p)"
definition sculld_release :: "scullx_dev \<Rightarrow> scullx_dev \<times> int" where "sculld_release d = (d, 0)"
definition sculld_ioctl where "sculld_ioctl = x_ioctl SCULLD_ORDER SCULLD_QSET"
definition sculld_llseek where "sculld_llseek d = scull_llseek (xbase d)"
definition sculld_read_procmem where "sculld_read_procmem full intrs ds = x_read_procmem full intrs 0 ds []"
definition sculld_vma_open where "sculld_vma_open = x_vma_open"
definition sculld_vma_close where "sculld_vma_close = x_vma_close"
definition sculld_vma_nopage where "sculld_vma_nopage address start pgoff d = x_vma_nopage address start pgoff (xbase d)"
definition sculld_mmap where "sculld_mmap = x_mmap"

definition sculld_register_dev :: "nat \<Rightarrow> x_module \<Rightarrow> x_module" where
  "sculld_register_dev i m = m\<lparr>x_registered := x_registered m @ [i]\<rparr>"

definition sculld_init :: "errno option \<Rightarrow> allocs \<Rightarrow> scull_params \<Rightarrow> nat \<Rightarrow> x_module \<times> int outcome" where
  "sculld_init reg a p n =
     (case x_init reg a p n of
        (m, r) \<Rightarrow>
          let m1 = (if reg = None then m\<lparr>x_driver := True\<rparr> else m)
          in (if r = Ret 0 then fold sculld_register_dev [0..<n] m1 else m1, r))"

definition sculld_cleanup :: "scull_params \<Rightarrow> x_module \<Rightarrow> x_module option" where
  "sculld_cleanup p m = do { m' \<leftarrow> x_cleanup p m; Some (m'\<lparr>x_registered := [], x_driver := False\<rparr>) }"

end
