(* ===== verification/Scullx_Props.thy ===== *)
theory Scullx_Props
  imports Scullx Scull_Correct
begin

section \<open>The variants against scull\<close>

text \<open>
  The variants do what scull does on the same contents, except that memory nobody wrote reads as 0
  and that a failing allocation of an item is fatal. \<open>fill_dev\<close> turns a device of scull into one of a
  variant; both operations commute with it. The mappings of the page-based variants show what a read returns.
\<close>

definition fill_cell :: "cell \<Rightarrow> cell" where
  "fill_cell c = Some (case c of None \<Rightarrow> 0 | Some b \<Rightarrow> b)"

definition fill_block :: "cell list \<Rightarrow> cell list" where
  "fill_block = map fill_cell"

definition fill_qset :: "scull_qset \<Rightarrow> scull_qset" where
  "fill_qset n = n\<lparr>qdata := map_option (map (map_option fill_block)) (qdata n)\<rparr>"

text \<open>\<open>o'\<close> is what the variant keeps in place of the quantum size.\<close>

definition fill_dev :: "int \<Rightarrow> scull_dev \<Rightarrow> scull_dev" where
  "fill_dev o' dev = dev\<lparr>data := map fill_qset (data dev), quantum := o'\<rparr>"

lemma fill_simps [simp]:
  "fill_qset empty_qset = empty_qset" "qdata (fill_qset n) = map_option (map (map_option fill_block)) (qdata n)"
  "length (fill_block b) = length b"
  "dev_size (fill_dev o' dev) = dev_size dev" "qset (fill_dev o' dev) = qset dev"
  "data (fill_dev o' dev) = map fill_qset (data dev)"
  "(fill_dev o' dev)\<lparr>dev_size := sz\<rparr> = fill_dev o' (dev\<lparr>dev_size := sz\<rparr>)"
  by (simp_all add: fill_qset_def empty_qset_def fill_dev_def fill_block_def)

lemma fill_block_simps [simp]:
  "fill_block (take n b) = take n (fill_block b)" "fill_block (drop n b) = drop n (fill_block b)"
  "fill_block (xs @ ys) = fill_block xs @ fill_block ys"
  "fill_block (replicate n None) = replicate n (Some 0)"
  "fill_block (map Some bs) = map Some bs" "fill_block [] = []"
  by (simp_all add: fill_block_def take_map drop_map fill_cell_def)

lemma fill_user_bytes [simp]: "fill_block (user_bytes l bs) = user_bytes l bs"
  by (simp add: user_bytes_def fill_block_def fill_cell_def)

lemma fill_mem_write: "fill_block new = new \<Longrightarrow> mem_write n new (fill_block b) = fill_block (mem_write n new b)"
  by (simp add: mem_write_def)

lemma follow_loop_fill:
  "x_follow_loop n (map fill_qset l) i a =
    (case follow_loop n l i a of (Some k, l', a') \<Rightarrow> Some (k, map fill_qset l', a') | (None, l', a') \<Rightarrow> None)"
proof (induction n l i a rule: follow_loop.induct)
  case (2 n l i a)
  have e: "map fill_qset (l @ [empty_qset]) = map fill_qset l @ [empty_qset]" by simp
  show ?case
  proof (cases "i + 1 < length l")
    case True
    then show ?thesis using 2(1) by simp
  next
    case False
    obtain b a' where k: "kmalloc a = (b, a')" by (cases "kmalloc a")
    show ?thesis using 2(2)[OF False k[symmetric]] False k e by (cases b) auto
  qed
qed simp

lemma follow_fill:
  "data dev \<noteq> [] \<Longrightarrow> x_follow (fill_dev o' dev) n a =
    (case scull_follow dev n a of (Some k, d, a') \<Rightarrow> Some (k, fill_dev o' d, a') | (None, d, a') \<Rightarrow> None)"
  by (auto simp: x_follow_def scull_follow_def follow_loop_fill fill_dev_def split: prod.splits option.splits)

lemma follow_index:
  assumes "scull_follow dev n a = (Some k, dev', a')"
  shows "k < length (data dev')"
proof -
  obtain l b where l: "follow_loop (nat (u32 n)) l 0 b = (Some k, data dev', a')" "l \<noteq> []"
    using assms by (fastforce simp: scull_follow_def split: option.splits prod.splits bool.splits if_splits)
  then show ?thesis using follow_loop_ok[OF _ l(1)] by auto
qed

lemma get_array_fill:
  "scull_get_array qs (fill_qset n) a = map_prod (map_option (map (map_option fill_block))) id (scull_get_array qs n a)"
  by (auto simp: scull_get_array_def split: option.splits prod.splits bool.splits)

lemma slot_map: "slot (map g arr) s = map_option g (slot arr s)"
  by (simp add: slot_def)

lemma set_array_fill:
  "set_array i (map (map_option fill_block) arr) (fill_dev o' dev) = fill_dev o' (set_array i arr dev)"
  by (cases "i < length (data dev)")
    (simp_all add: set_array_def fill_dev_def map_update fill_qset_def list_update_beyond)

lemma set_array_fill_update:
  assumes "fill_block new = new"
  shows "set_array i ((map (map_option fill_block) arr)[k := Some (mem_write n new (fill_block b))]) (fill_dev o' dev) =
    fill_dev o' (set_array i (arr[k := Some (mem_write n new b)]) dev)"
  using set_array_fill[of i "arr[k := Some (mem_write n new b)]" o' dev]
  by (simp add: map_update fill_mem_write[OF assms])

text \<open>A quantum for an item, allocated as scull does but cleared.\<close>

definition cleared :: "int \<Rightarrow> quantum_alloc \<Rightarrow> bool" where
  "cleared q newq \<longleftrightarrow> (\<forall>i a. newq i a = Some (map_prod (map_option fill_block) id (scull_get_quantum q None a)))"

lemma get_quantum_fill:
  "cleared q newq \<Longrightarrow> x_get_quantum newq i (map_option fill_block ptr) a =
    Some (map_prod (map_option fill_block) id (scull_get_quantum q ptr a))"
  by (cases ptr) (auto simp: cleared_def x_get_quantum_def scull_get_quantum_def)

text \<open>The list reaches the item of the position without an allocation that fails.\<close>

definition list_found :: "kenv \<Rightarrow> int \<Rightarrow> scull_dev \<Rightarrow> int \<Rightarrow> bool" where
  "list_found env q dev f \<longleftrightarrow> data dev \<noteq> [] \<and>
     (case scull_find q (qset dev) f of None \<Rightarrow> True
      | Some (item, s, p) \<Rightarrow> fst (scull_follow dev item (allocs env)) \<noteq> None)"

lemma x_write_fill:
  assumes "list_found env q dev f" "cleared q newq"
  shows "x_write q (qset dev) newq env (fill_dev o' dev) src f =
    map_option (\<lambda>(d, f', r). (fill_dev o' d, f', r))
      (if signal env then Some (dev, f, Fail ERESTARTSYS) else scull_write_locked q (qset dev) env dev src f)"
proof (cases "signal env")
  case True
  then show ?thesis by (simp add: x_write_def)
next
  case sig: False
  show ?thesis
  proof (cases "scull_find q (qset dev) f")
    case None
    then show ?thesis using sig by (simp add: x_write_def scull_write_locked_def)
  next
    case (Some p)
    obtain item s_pos q_pos where p: "p = (item, s_pos, q_pos)" by (cases p)
    obtain i dev1 a1 where f: "scull_follow dev item (allocs env) = (Some i, dev1, a1)"
      using assms(1) Some p by (cases "scull_follow dev item (allocs env)") (auto simp: list_found_def)
    have xf: "x_follow (fill_dev o' dev) item (allocs env) = Some (i, fill_dev o' dev1, a1)"
      using assms(1) f by (simp add: follow_fill list_found_def)
    note i = follow_index[OF f]
    show ?thesis
    proof (cases "scull_get_array (qset dev) (data dev1 ! i) a1")
      case (Pair got a2)
      show ?thesis
      proof (cases got)
        case None
        then show ?thesis using sig Some p f xf i Pair
          by (simp add: x_write_def scull_write_locked_def get_array_fill)
      next
        case arr: (Some arr)
        show ?thesis
        proof (cases "slot arr s_pos")
          case None
          then show ?thesis using sig Some p f xf i Pair arr
            by (simp add: x_write_def scull_write_locked_def get_array_fill slot_map set_array_fill Let_def)
        next
          case ptr: (Some ptr)
          obtain gq a3 where gq: "scull_get_quantum q ptr a2 = (gq, a3)" by (cases "scull_get_quantum q ptr a2")
          show ?thesis
            using sig Some p f xf i Pair arr ptr gq get_quantum_fill[OF assms(2), of i ptr a2]
            by (cases gq) (simp_all add: x_write_def scull_write_locked_def get_array_fill slot_map
                set_array_fill Let_def set_array_fill_update)
        qed
      qed
    qed
  qed
qed

lemma x_read_fill:
  assumes "list_found env q dev f" "u64 f < dev_size dev"
  shows "x_read q (qset dev) env (fill_dev o' dev) count f =
    map_option (\<lambda>(d, f', r). (fill_dev o' d, f', map_outcome fill_block r))
      (if signal env then Some (dev, f, Fail ERESTARTSYS) else scull_read_locked q (qset dev) env dev count f)"
proof (cases "signal env")
  case True
  then show ?thesis by (simp add: x_read_def)
next
  case sig: False
  show ?thesis
  proof (cases "scull_find q (qset dev) f")
    case None
    then show ?thesis using sig assms(2) by (simp add: x_read_def scull_read_locked_def)
  next
    case (Some p)
    obtain item s_pos q_pos where p: "p = (item, s_pos, q_pos)" by (cases p)
    obtain i dev1 a1 where f: "scull_follow dev item (allocs env) = (Some i, dev1, a1)"
      using assms(1) Some p by (cases "scull_follow dev item (allocs env)") (auto simp: list_found_def)
    have xf: "x_follow (fill_dev o' dev) item (allocs env) = Some (i, fill_dev o' dev1, a1)"
      using assms(1) f by (simp add: follow_fill list_found_def)
    note i = follow_index[OF f]
    show ?thesis
    proof (cases "qdata (data dev1 ! i)")
      case None
      then show ?thesis using sig Some p f xf i assms(2) by (simp add: x_read_def scull_read_locked_def Let_def)
    next
      case arr: (Some arr)
      show ?thesis
      proof (cases "slot arr s_pos")
        case None
        then show ?thesis using sig Some p f xf i assms(2) arr
          by (simp add: x_read_def scull_read_locked_def Let_def slot_map)
      next
        case ptr: (Some ptr)
        then show ?thesis using sig Some p f xf i assms(2) arr
          by (cases ptr) (simp_all add: x_read_def scull_read_locked_def Let_def slot_map)
      qed
    qed
  qed
qed

subsection \<open>What the allocation of a variant has to do\<close>

text \<open>\<open>bytes\<close> is the quantum size that a variant computes from its field, \<open>newq\<close> its allocation of a quantum.\<close>

locale scull_variant =
  fixes bytes :: "int \<Rightarrow> int option" and newq :: "int \<Rightarrow> quantum_alloc" and good :: "int \<Rightarrow> bool"
  assumes law: "good n \<Longrightarrow> \<exists>q. bytes n = Some q \<and> cleared q (newq n)"
begin

lemma write_like_scull:
  assumes "good n" "bytes n = Some (quantum dev)" "list_found env (quantum dev) dev f"
  shows "x_write (quantum dev) (qset dev) (newq n) env (fill_dev n dev) src f =
    map_option (\<lambda>(d, f', r). (fill_dev n d, f', r)) (scull_write env dev src f)"
  using law[OF assms(1)] assms(2,3) x_write_fill[of env "quantum dev" dev f "newq n" n src]
  by (simp add: scull_write_def)

end

lemma cleared_c: "0 \<le> q \<Longrightarrow> q < 2 ^ 63 \<Longrightarrow> cleared q (scullc_new_quantum q q)"
  by (auto simp: cleared_def scullc_new_quantum_def scull_get_quantum_def kmalloc_size_def
      split: prod.splits bool.splits)

lemma cleared_p: "cleared 4096 (scullp_new_quantum 0)"
  by (auto simp: cleared_def scullp_new_quantum_def scull_get_quantum_def kmalloc_size_def item_order_def
      PAGE_SIZE_def Let_def split: prod.splits bool.splits)

lemma cleared_v: "cleared 4096 (scullv_new_quantum 0)"
  by (auto simp: cleared_def scullv_new_quantum_def scull_get_quantum_def kmalloc_size_def item_order_def
      Let_def split: prod.splits bool.splits)

lemma page_quantum_0: "page_quantum 0 = Some 4096"
  by (simp add: page_quantum_def)

interpretation vc: scull_variant Some "\<lambda>q. scullc_new_quantum q q" "\<lambda>q. 0 \<le> q \<and> q < 2 ^ 63"
  by unfold_locales (use cleared_c in auto)

interpretation vp: scull_variant page_quantum scullp_new_quantum "\<lambda>n. n = 0"
  by unfold_locales (use cleared_p page_quantum_0 in auto)

interpretation vv: scull_variant page_quantum scullv_new_quantum "\<lambda>n. n = 0"
  by unfold_locales (use cleared_v page_quantum_0 in auto)

subsection \<open>Properties\<close>

definition variant :: "int \<Rightarrow> int \<Rightarrow> scull_dev \<Rightarrow> scullx_dev" where
  "variant m n dev = \<lparr>xbase = fill_dev n dev, vmas = m\<rparr>"

lemma variant_simps [simp]:
  "xbase (variant m n dev) = fill_dev n dev" "vmas (variant m n dev) = m"
  "(variant m n dev)\<lparr>xbase := fill_dev n dev'\<rparr> = variant m n dev'"
  "quantum (fill_dev n dev) = n"
  by (simp_all add: variant_def fill_dev_def)

text \<open>C18. On the same contents and with the same answers of the allocator, the write of scullc with an
  unchanged quantum size, and the writes of scullp, scullv and sculld with single pages, do what the write of
  scull does, except that bytes never written are 0 in a new quantum instead of undefined. (The list of
  items must be reachable without a failing allocation, which the variants do not survive.)\<close>

theorem scullx_write_is_scull_write:
  assumes "list_found env (quantum dev) dev f" "0 < quantum dev" "quantum dev < 2 ^ 31"
  shows "(\<forall>m. scullc_write (quantum dev) (quantum dev) env (variant m (quantum dev) dev) src f =
      map_option (\<lambda>(d, f', r). (variant m (quantum dev) d, f', r)) (scull_write env dev src f)) \<and>
    (quantum dev = 4096 \<longrightarrow> (\<forall>m. \<forall>w \<in> {scullp_write, scullv_write, sculld_write}.
      w env (variant m 0 dev) src f =
        map_option (\<lambda>(d, f', r). (variant m 0 d, f', r)) (scull_write env dev src f)))"
proof (intro conjI allI impI ballI)
  show "scullc_write (quantum dev) (quantum dev) env (variant m (quantum dev) dev) src f =
      map_option (\<lambda>(d, f', r). (variant m (quantum dev) d, f', r)) (scull_write env dev src f)" for m
    using vc.write_like_scull[of "quantum dev" dev env f src] assms
    by (cases "scull_write env dev src f") (auto simp: scullc_write_def)
  fix m w assume q: "quantum dev = 4096" "w \<in> {scullp_write, scullv_write, sculld_write}"
  then show "w env (variant m 0 dev) src f =
      map_option (\<lambda>(d, f', r). (variant m 0 d, f', r)) (scull_write env dev src f)"
    using vp.write_like_scull[of 0 dev env f src] vv.write_like_scull[of 0 dev env f src] assms page_quantum_0
    by (cases "scull_write env dev src f")
      (auto simp: scullp_write_def scullv_write_def sculld_write_def)
qed

definition demo_dev :: scull_dev where
  "demo_dev = \<lparr>data = [empty_qset], quantum = 4096, qset = 2, dev_size = 0, access_key = 0\<rparr>"

definition demo_env :: kenv where
  "demo_env = \<lparr>signal = False, allocs = [True, True, True], uleft = 0\<rparr>"

lemma demo_found: "list_found demo_env 4096 demo_dev 0"
  by (simp add: list_found_def demo_dev_def demo_env_def scull_find_def scull_follow_def)

lemma scullx_write_is_scull_write_witness:
  "\<exists>d. scullp_write demo_env (variant 0 0 demo_dev) [7] 0 = Some (d, 1, Ret 1)"
proof -
  have "\<exists>d. scull_write demo_env demo_dev [7] 0 = Some (d, 1, Ret 1)"
    by (simp add: scull_write_def scull_write_locked_def scull_find_def demo_dev_def demo_env_def scull_follow_def
      scull_get_array_def empty_qset_def kmalloc_size_def slot_def set_array_def scull_get_quantum_def
      user_bytes_def Let_def)
  then show ?thesis
    using scullx_write_is_scull_write[of demo_env demo_dev 0 "[7]"] demo_found by (auto simp: demo_dev_def)
qed

subsection \<open>Mappings\<close>

lemma page_item_found:
  "0 < qs \<Longrightarrow> qs < 2 ^ 31 \<Longrightarrow> 0 \<le> p \<Longrightarrow> p < 2 ^ 62 \<Longrightarrow>
    x_page_item qs i l p =
      (if nat p div nat qs < length l then Some (i + nat p div nat qs, l ! (nat p div nat qs), int (nat p mod nat qs)) else None)"
proof (induction l arbitrary: i p)
  case (Cons d l)
  have u: "u64 qs = qs" using Cons.prems by simp
  show ?case
  proof (cases "qs \<le> p")
    case True
    have v: "u64 (p - qs) = p - qs" using True Cons.prems by simp
    have n: "nat (p - qs) = nat p - nat qs" "nat qs \<le> nat p" "0 < nat qs" using True Cons.prems by auto
    have d: "nat p div nat qs = Suc (nat (p - qs) div nat qs)" "nat p mod nat qs = nat (p - qs) mod nat qs"
      using n by (simp_all add: le_div_geq le_mod_geq)
    show ?thesis using True u v Cons.IH[of "p - qs" "Suc i"] Cons.prems d by simp
  next
    case False
    then have "nat p < nat qs" using Cons.prems by simp
    then show ?thesis using False u Cons.prems by simp
  qed
qed simp

text \<open>The page that a fault finds: the first of the block that holds the position.\<close>

lemma nopage_ok:
  assumes wf: "scull_wf dev" and off: "off = u64 (u64 (address - start) + u64 (pgoff * 4096))" "off < dev_size dev"
    and sz: "dev_size dev < 2 ^ 62"
  shows "\<exists>i s. x_vma_nopage address start pgoff (fill_dev n dev) =
    Some (map_option (\<lambda>blk. (i, s, take PAGE_SIZE (fill_block blk))) (blocks dev (nat off div 4096)))"
proof -
  define p where "p = nat (off div 4096)"
  have off0: "0 \<le> off" unfolding off(1) by (simp add: u64_bounds)
  have p: "p = nat off div 4096" using off0 by (simp add: p_def nat_div_distrib)
  have g: "0 < qset dev" "qset dev < 2 ^ 31"
  proof -
    have q: "0 < quantum dev" "0 < qset dev" "quantum dev * qset dev < 2 ^ 31"
      using wf by (auto simp: scull_wf_def geometry_ok_def)
    then show "0 < qset dev" "qset dev < 2 ^ 31"
      using mult_right_mono[of 1 "quantum dev" "qset dev"] by linarith+
  qed
  have p62: "0 \<le> off div 4096" "off div 4096 < 2 ^ 62"
    using off0 zdiv_mono2[of off 1 4096] off(2) sz by simp_all
  let ?l = "map fill_qset (data dev)" and ?s = "nat (qset dev)"
  have it: "x_page_item (qset dev) 0 ?l (off div 4096) =
      (if p div ?s < length ?l then Some (p div ?s, ?l ! (p div ?s), int (p mod ?s)) else None)"
    using page_item_found[OF g p62, of 0 ?l] unfolding p_def[symmetric] length_map by simp
  have nl: "\<not> dev_size (fill_dev n dev) \<le> off" using off(2) by simp
  show ?thesis
  proof (cases "p div ?s < length (data dev)")
    case False
    then have "blocks dev p = None" by (simp add: blocks_def Let_def)
    then show ?thesis using it nl False p by (simp add: x_vma_nopage_def off(1)[symmetric] Let_def)
  next
    case True
    have ok: "qset_ok (quantum dev) (qset dev) (data dev ! (p div ?s))"
      using wf True by (auto simp: scull_wf_def)
    have b: "blocks dev p = node_slot (data dev ! (p div ?s)) (p mod ?s)" using True by (simp add: blocks_def Let_def)
    show ?thesis
    proof (cases "qdata (data dev ! (p div ?s))")
      case None
      then show ?thesis using it nl True p b
        by (simp add: x_vma_nopage_def off(1)[symmetric] Let_def node_slot_def)
    next
      case (Some arr)
      have "slot (map (map_option fill_block) arr) (int (p mod ?s)) = Some (map_option fill_block (arr ! (p mod ?s)))"
        using ok Some g by (simp add: slot_def qset_ok_def)
      then show ?thesis using it nl True p b Some
        by (auto simp: x_vma_nopage_def off(1)[symmetric] Let_def node_slot_def option.map_comp comp_def
            intro!: exI)
    qed
  qed
qed

text \<open>A read with enough memory, by the blocks of the device.\<close>

lemma x_read_blocks:
  assumes wf: "scull_wf dev" and f: "pos_ok dev f" "f < dev_size dev" and c: "0 \<le> count" "count < 2 ^ 62"
    and env: "good_env env" and l: "list_found env (quantum dev) dev f"
  shows "\<exists>d' f'. x_read (quantum dev) (qset dev) env (fill_dev n dev) count f = Some (fill_dev n d', f',
    Ret (case blocks dev (nat f div nat (quantum dev)) of None \<Rightarrow> []
      | Some blk \<Rightarrow> take (read_len dev count f) (drop (nat f mod nat (quantum dev)) (fill_block blk))))"
proof -
  have u: "u64 f = f" using f(1) by (simp add: pos_ok_def)
  obtain res where r: "scull_read env dev count f = Some res" "read_ok env dev count f res"
    using scull_read_ok[OF wf f(1) c] by blast
  obtain d' f' o' where res: "res = (d', f', o')" by (cases res)
  have e: "\<not> signal env" "uleft env = 0" using env by (simp_all add: good_env_def)
  show ?thesis
    using x_read_fill[OF l, of n count] r e f(2) u
    by (auto simp: scull_read_def res read_ok_def Let_def split: option.splits)
qed

text \<open>C19. A mapping with single pages shows what a read returns: the page that a fault at a mapped position
  finds holds the bytes that a read of this page's range returns, up to the end of the device, and the fault
  finds no page where the read returns nothing.\<close>

theorem scullp_mapping_shows_reads:
  assumes "scull_wf dev" "quantum dev = 4096" "dev_size dev < 2 ^ 62"
    and "off = u64 (u64 (address - start) + u64 (pgoff * 4096))" "off < dev_size dev" "off < 2 ^ 31 * (4096 * qset dev)"
    and "f = 4096 * (off div 4096)" "good_env env" "list_found env 4096 dev f"
  shows "\<exists>found d' f'. scullp_vma_nopage address start pgoff (variant m 0 dev) = Some found \<and>
    scullp_read env (variant m 0 dev) 4096 f = Some (d', f',
      Ret (case found of None \<Rightarrow> [] | Some (i, s, page) \<Rightarrow> take (nat (dev_size dev - f)) page))"
proof -
  have off0: "0 \<le> off" unfolding assms(4) by (simp add: u64_bounds)
  have f: "0 \<le> f" "f \<le> off" "nat f div 4096 = nat off div 4096" "nat f mod 4096 = 0"
    using off0 assms(7) by (simp_all add: nat_mult_distrib nat_div_distrib)
  have po: "pos_ok dev f" "f < dev_size dev" using f assms(2,3,5,6) by (auto simp: pos_ok_def)
  have fm: "nat f mod nat (quantum dev) = 0" "nat f div nat (quantum dev) = nat f div 4096"
    using f(4) assms(2) by simp_all
  obtain i s where np: "x_vma_nopage address start pgoff (fill_dev 0 dev) =
      Some (map_option (\<lambda>blk. (i, s, take PAGE_SIZE (fill_block blk))) (blocks dev (nat off div 4096)))"
    using nopage_ok[OF assms(1,4,5,3), of 0] by blast
  obtain d' f' where rd: "x_read 4096 (qset dev) env (fill_dev 0 dev) 4096 f = Some (fill_dev 0 d', f',
    Ret (case blocks dev (nat f div 4096) of None \<Rightarrow> []
      | Some blk \<Rightarrow> take (read_len dev 4096 f) (fill_block blk)))"
    using x_read_blocks[OF assms(1) po, of 4096 env 0] assms(2,8,9) unfolding fm drop_0 by auto
  have "read_len dev 4096 f = min 4096 (nat (dev_size dev - f))" using f(4) assms(2) po(2)
    by (simp add: read_len_def min_def) linarith
  then show ?thesis using np rd f(3)
    by (cases "blocks dev (nat off div 4096)")
      (simp_all add: scullp_vma_nopage_def scullp_read_def page_quantum_0 PAGE_SIZE_def min.commute)
qed

lemma demo_file: "scull_wf demo_dev"
  by (simp add: scull_wf_def demo_dev_def geometry_ok_def qset_ok_def empty_qset_def)

lemma scullp_mapping_shows_reads_witness:
  "\<exists>d' f'. scullp_vma_nopage 4096 4096 0 (variant 1 0 (demo_dev\<lparr>dev_size := 10\<rparr>)) = Some None \<and>
    scullp_read demo_env (variant 1 0 (demo_dev\<lparr>dev_size := 10\<rparr>)) 4096 0 = Some (d', f', Ret [])"
proof -
  let ?d = "demo_dev\<lparr>dev_size := 10\<rparr>"
  have "scull_wf ?d" by (rule wf_size[OF demo_file]) simp_all
  moreover have "list_found demo_env 4096 ?d 0"
    by (simp add: list_found_def demo_dev_def demo_env_def scull_find_def scull_follow_def)
  moreover have "scullp_vma_nopage 4096 4096 0 (variant 1 0 ?d) = Some None"
    by (simp add: scullp_vma_nopage_def x_vma_nopage_def demo_dev_def empty_qset_def)
  ultimately show ?thesis
    using scullp_mapping_shows_reads[of ?d 0 4096 4096 0 0 demo_env 1]
    by (auto simp: demo_dev_def demo_env_def good_env_def)
qed

text \<open>
  scullv maps blocks of several pages too, and a fault then finds the wrong block: here the second page of the
  first block is missing from the mapping.
\<close>

lemma scullv_mapping_misses_pages:
  assumes wf: "scull_wf dev" and q: "quantum dev = 65536" and sz: "8192 \<le> dev_size dev" "dev_size dev < 2 ^ 62"
    and bl: "blocks dev 0 = Some blk" "blocks dev 1 = None"
    and env: "good_env env" "list_found env 65536 dev 4096"
  shows "snd (scullv_mmap (variant m 4 dev)) = Ret 0 \<and>
    scullv_vma_nopage (start + 4096) start 0 (variant m 4 dev) = Some None \<and>
    (\<exists>d' f'. scullv_read env (variant m 4 dev) 4096 4096 = Some (d', f', Ret (take 4096 (drop 4096 (fill_block blk)))))"
proof -
  have qs: "1 \<le> qset dev" using wf by (auto simp: scull_wf_def geometry_ok_def)
  have po: "pos_ok dev 4096" "4096 < dev_size dev" using qs q sz by (auto simp: pos_ok_def)
  have rl: "read_len dev 4096 4096 = 4096" using q sz by (simp add: read_len_def min_def)
  have "scullv_vma_nopage (start + 4096) start 0 (variant m 4 dev) = Some None"
    using nopage_ok[OF wf, of 4096 "start + 4096" start 0 4] sz bl(2) by (simp add: scullv_vma_nopage_def)
  moreover have "page_quantum 4 = Some 65536" by (simp add: page_quantum_def)
  ultimately show ?thesis
    using x_read_blocks[OF wf po, of 4096 env 4] q bl(1) env rl
    by (auto simp: scullv_mmap_def scullv_read_def scullp_read_def)
qed

subsection \<open>Larger blocks\<close>

lemma x_follow_loop_found: "i + n < length l \<Longrightarrow> x_follow_loop n l i a = Some (i + n, l, a)"
  by (induction n arbitrary: i) auto

lemma x_follow_found: "0 \<le> n \<Longrightarrow> n < 2 ^ 32 \<Longrightarrow> nat n < length (data dev) \<Longrightarrow> x_follow dev n a = Some (nat n, dev, a)"
  by (simp add: x_follow_def x_follow_loop_found)

text \<open>C20. With an order above 0 (scullv has 4 by default) the items behind the first get blocks of a single
  page, while positions are computed for the larger blocks: a write into such an item that
  reaches beyond the first page of its quantum runs past the block.\<close>

theorem scullv_second_item_overflows:
  assumes "0 < order" "order \<le> 10" "quantum (xbase d) = order" "q = 4096 * 2 ^ nat order"
    and "geometry_ok q (qset (xbase d))" "0 \<le> f" "f < 2 ^ 31 * (q * qset (xbase d))"
    and "i = nat (f div q div qset (xbase d))" "0 < i" "i < length (data (xbase d))" "qdata (data (xbase d) ! i) = None"
    and "\<not> signal env" "allocs env = True # True # as" "4096 < f mod q + min (int (length src)) (q - f mod q)"
  shows "scullv_write env d src f = None \<and> scullp_write env d src f = None"
proof -
  let ?b = "xbase d" and ?qs = "qset (xbase d)"
  have q0: "0 < q" "0 < ?qs" "q * ?qs < 2 ^ 31" using assms(5) by (auto simp: geometry_ok_def)
  have q31: "q < 2 ^ 31" "?qs < 2 ^ 31"
    using q0 mult_left_mono[of 1 ?qs q] mult_right_mono[of 1 q ?qs] by linarith+
  have o64: "order < 64" "\<not> order < 0" "\<not> 64 \<le> order" using assms(1,2) by simp_all
  have "page_quantum order = Some (s32 (u64 q))"
    unfolding assms(4) using o64 by (simp only: page_quantum_def) simp
  then have pq: "page_quantum order = Some q" using q0(1) q31 by simp
  have find: "scull_find q ?qs f = Some (f div q div ?qs, f div q mod ?qs, f mod q)"
    by (rule scull_find_ok[OF assms(5,6,7)])
  have it: "0 \<le> f div q div ?qs" using assms(6) q0 by (simp add: pos_imp_zdiv_nonneg_iff)
  have "f div q div ?qs < 2 ^ 31"
    using assms(7) q0 by (simp add: zdiv_zmult2_eq[symmetric] int_div_less)
  then have fo: "x_follow ?b (f div q div ?qs) a = Some (i, ?b, a)" for a
    using x_follow_found[of "f div q div ?qs" ?b a] it assms(8,10) by simp
  have arr: "scull_get_array ?qs (data ?b ! i) (allocs env) = (Some (replicate (nat ?qs) None), True # as)"
    using assms(11,13) q0 q31 by (simp add: scull_get_array_def kmalloc_size_def)
  have sl: "slot (replicate (nat ?qs) None) (f div q mod ?qs) = Some None"
    using q0 by (simp add: slot_def nat_less_iff)
  have r: "0 \<le> f mod q" "f mod q < q" using q0 by simp_all
  have u: "u64 (q - f mod q) = q - f mod q" using r q31 by simp
  have cnt: "(if u64 (q - f mod q) < int (length src) then u64 (q - f mod q) else int (length src)) =
      min (int (length src)) (q - f mod q)" unfolding u by (simp add: min_def)
  have io: "item_order order i = 0" using assms(9) by (simp add: item_order_def)
  have nv: "x_get_quantum (scullv_new_quantum order) i None (True # as) = Some (Some (replicate 4096 (Some 0)), as)"
    using io by (simp add: x_get_quantum_def scullv_new_quantum_def kmalloc_size_def)
  have np: "x_get_quantum (scullp_new_quantum order) i None (True # as) = Some (Some (replicate 4096 (Some 0)), as)"
    using io by (simp add: x_get_quantum_def scullp_new_quantum_def PAGE_SIZE_def)
  have w: "x_write q ?qs newq env ?b src f = None"
    if "x_get_quantum newq i None (True # as) = Some (Some (replicate 4096 (Some 0)), as)" for newq
    using assms(12,14) find fo arr sl that cnt by (simp add: x_write_def Let_def)
  show ?thesis using pq assms(3) w[OF nv] w[OF np] by (simp add: scullv_write_def scullp_write_def)
qed

definition two_items :: scullx_dev where
  "two_items = \<lparr>xbase = \<lparr>data = [empty_qset, empty_qset], quantum = 1, qset = 2, dev_size = 0, access_key = 0\<rparr>, vmas = 0\<rparr>"

lemma scullv_second_item_overflows_witness:
  "scullv_write demo_env two_items [7] 20480 = None \<and> scullp_write demo_env two_items [7] 20480 = None"
  using scullv_second_item_overflows[of 1 two_items 8192 20480 1 demo_env "[True]" "[7]"]
  by (simp add: two_items_def demo_env_def geometry_ok_def empty_qset_def)

text \<open>
  scullc: when the quantum size has been raised after loading, clearing a new quantum runs past
  the object of the cache.
\<close>

lemma scullc_larger_quantum_overflows:
  assumes "obj < gq" shows "scullc_new_quantum obj gq i (True # as) = None"
  using assms by (simp add: scullc_new_quantum_def)

text \<open>sculld: a failing allocation of the devices leaves the driver registered on the bus.\<close>

lemma sculld_init_leaves_driver:
  "sculld_init None (False # as) p n = (x_unloaded\<lparr>x_driver := True\<rparr>, Fail ENOMEM)"
  by (simp add: sculld_init_def x_init_def)

end
