(* ===== verification/Snull.thy ===== *)
theory Snull
  imports Device_Interfaces
begin

unbundle bit_operations_syntax

section \<open>The snull network driver\<close>

text \<open>
  \<open>snull/snull.c\<close>: two interfaces, numbers 0 and 1, of which each receives what the other one
  transmits, with one bit of the third octet of both addresses changed. A packet buffer has
  an identity and an owner, the interface whose pool it comes from. A spin lock that is
  taken while it is held never returns; such a call has no value, as undefined behaviour.
  Statistics are unbounded naturals (\<open>unsigned long\<close> counters in the code).
\<close>

subsection \<open>Data\<close>

definition SNULL_RX_INTR :: "32 word" where "SNULL_RX_INTR = 1"
definition SNULL_TX_INTR :: "32 word" where "SNULL_TX_INTR = 2"

text \<open>\<open>ETH_DATA_LEN\<close>, \<open>ETH_ZLEN\<close>, \<open>ETH_HLEN\<close> and \<open>ETH_ALEN\<close> of the kernel headers.\<close>

definition ETH_DATA_LEN :: nat where "ETH_DATA_LEN = 1500"
definition ETH_ZLEN :: nat where "ETH_ZLEN = 60"
definition ETH_HLEN :: nat where "ETH_HLEN = 14"
definition IP_HLEN :: nat where "IP_HLEN = 20"

text \<open>A buffer; \<open>pdata\<close> are its first \<open>datalen\<close> bytes.\<close>

record snull_packet =
  pk_id :: nat
  pk_dev :: nat
  pdata :: "byte list"

record net_stats =
  rx_packets :: nat
  rx_bytes :: nat
  rx_dropped :: nat
  tx_packets :: nat
  tx_bytes :: nat
  tx_errors :: nat

text \<open>The private part of an interface and the fields of the network device in use.\<close>

record snull_dev =
  stats :: net_stats
  status :: "32 word"
  ppool :: "snull_packet list"
  rx_queue :: "snull_packet list"
  rx_int_enabled :: bool
  tx_packetlen :: nat
  skb :: "nat option"
  lock_held :: bool
  queue_stopped :: bool
  napi_enabled :: bool
  napi_scheduled :: bool
  dev_addr :: "byte list"
  mtu :: int
  if_up :: bool
  base_addr :: nat
  irq :: nat

text \<open>
  The driver: the interfaces, the socket buffers it owns, and what it has passed to the
  upper layers (interface and frame), newest last. \<open>napi\<close> and \<open>lockup\<close> are parameters.
\<close>

record snull_sys =
  sn :: "nat \<Rightarrow> snull_dev"
  skbs :: "nat list"
  delivered :: "(nat \<times> byte list) list"
  use_napi :: bool
  lockup :: nat

definition upd_dev :: "nat \<Rightarrow> (snull_dev \<Rightarrow> snull_dev) \<Rightarrow> snull_sys \<Rightarrow> snull_sys" where
  "upd_dev i f g = g\<lparr>sn := (sn g)(i := f (sn g i))\<rparr>"

definition upd_stats :: "nat \<Rightarrow> (net_stats \<Rightarrow> net_stats) \<Rightarrow> snull_sys \<Rightarrow> snull_sys" where
  "upd_stats i f g = upd_dev i (\<lambda>d. d\<lparr>stats := f (stats d)\<rparr>) g"

text \<open>Taking and releasing the lock of an interface around \<open>f\<close>.\<close>

definition with_lock :: "nat \<Rightarrow> (snull_dev \<Rightarrow> snull_dev) \<Rightarrow> snull_sys \<Rightarrow> snull_sys option" where
  "with_lock i f g = (if lock_held (sn g i) then None else Some (upd_dev i f g))"

subsection \<open>Packet pool and queues\<close>

text \<open>\<open>ids\<close> are the answers of the allocator, one for each of \<open>pool_size\<close> buffers.\<close>

fun fill_pool :: "nat \<Rightarrow> nat option list \<Rightarrow> snull_packet list \<Rightarrow> snull_packet list" where
  "fill_pool i [] pool = pool"
| "fill_pool i (None # ids) pool = pool"
| "fill_pool i (Some k # ids) pool = fill_pool i ids (\<lparr>pk_id = k, pk_dev = i, pdata = []\<rparr> # pool)"

definition snull_setup_pool :: "nat \<Rightarrow> nat option list \<Rightarrow> snull_sys \<Rightarrow> snull_sys" where
  "snull_setup_pool i ids g = upd_dev i (\<lambda>d. d\<lparr>ppool := fill_pool i ids []\<rparr>) g"

definition snull_teardown_pool :: "nat \<Rightarrow> snull_sys \<Rightarrow> snull_sys" where
  "snull_teardown_pool i g = upd_dev i (\<lambda>d. d\<lparr>ppool := []\<rparr>) g"

text \<open>With an empty pool the function returns without giving the lock back.\<close>

definition snull_get_tx_buffer :: "nat \<Rightarrow> snull_sys \<Rightarrow> (snull_packet option \<times> snull_sys) option" where
  "snull_get_tx_buffer i g =
     (if lock_held (sn g i) then None
      else (case ppool (sn g i) of
          [] \<Rightarrow> Some (None, upd_dev i (\<lambda>d. d\<lparr>lock_held := True\<rparr>) g)
        | pkt # rest \<Rightarrow>
            Some (Some pkt, upd_dev i (\<lambda>d. d\<lparr>ppool := rest,
              queue_stopped := (if rest = [] then True else queue_stopped d)\<rparr>) g)))"

definition snull_release_buffer :: "snull_packet \<Rightarrow> snull_sys \<Rightarrow> snull_sys option" where
  "snull_release_buffer pkt g = do {
     let i = pk_dev pkt;
     let next = ppool (sn g i);
     g1 \<leftarrow> with_lock i (\<lambda>d. d\<lparr>ppool := pkt # ppool d\<rparr>) g;
     Some (if queue_stopped (sn g1 i) \<and> next = []
           then upd_dev i (\<lambda>d. d\<lparr>queue_stopped := False\<rparr>) g1 else g1) }"

definition snull_enqueue_buf :: "nat \<Rightarrow> snull_packet \<Rightarrow> snull_sys \<Rightarrow> snull_sys option" where
  "snull_enqueue_buf i pkt g = with_lock i (\<lambda>d. d\<lparr>rx_queue := pkt # rx_queue d\<rparr>) g"

definition snull_dequeue_buf :: "nat \<Rightarrow> snull_sys \<Rightarrow> (snull_packet option \<times> snull_sys) option" where
  "snull_dequeue_buf i g =
     (case rx_queue (sn g i) of
        [] \<Rightarrow> do { g1 \<leftarrow> with_lock i (\<lambda>d. d) g; Some (None, g1) }
      | pkt # rest \<Rightarrow> do { g1 \<leftarrow> with_lock i (\<lambda>d. d\<lparr>rx_queue := rest\<rparr>) g; Some (Some pkt, g1) })"

definition snull_rx_ints :: "nat \<Rightarrow> bool \<Rightarrow> snull_sys \<Rightarrow> snull_sys" where
  "snull_rx_ints i enable g = upd_dev i (\<lambda>d. d\<lparr>rx_int_enabled := enable\<rparr>) g"

subsection \<open>Opening, closing, configuring\<close>

text \<open>The bytes of the address \<open>\0SNUL0\<close>, whose last byte is incremented for interface 1.\<close>

definition snull_open :: "nat \<Rightarrow> snull_sys \<Rightarrow> snull_sys \<times> int" where
  "snull_open i g =
     (let addr = [0, 83, 78, 85, 76, 48 + (if i = 1 then 1 else 0)];
          g1 = upd_dev i (\<lambda>d. d\<lparr>dev_addr := addr\<rparr>) g;
          g2 = (if use_napi g then upd_dev i (\<lambda>d. d\<lparr>napi_enabled := True\<rparr>) g1 else g1)
      in (upd_dev i (\<lambda>d. d\<lparr>queue_stopped := False\<rparr>) g2, 0))"

definition snull_release :: "nat \<Rightarrow> snull_sys \<Rightarrow> snull_sys \<times> int" where
  "snull_release i g =
     (let g1 = upd_dev i (\<lambda>d. d\<lparr>queue_stopped := True\<rparr>) g;
          g2 = (if use_napi g then upd_dev i (\<lambda>d. d\<lparr>napi_enabled := False\<rparr>) g1 else g1)
      in (g2, 0))"

definition snull_config :: "nat \<Rightarrow> nat \<Rightarrow> nat \<Rightarrow> snull_sys \<Rightarrow> snull_sys \<times> int outcome" where
  "snull_config i map_base map_irq g =
     (if if_up (sn g i) then (g, Fail EBUSY)
      else if map_base \<noteq> base_addr (sn g i) then (g, Fail EOPNOTSUPP)
      else (if map_irq \<noteq> irq (sn g i) then upd_dev i (\<lambda>d. d\<lparr>irq := map_irq\<rparr>) g else g, Ret 0))"

subsection \<open>Receiving\<close>

text \<open>\<open>ok\<close> is the answer of \<open>dev_alloc_skb\<close>.\<close>

definition snull_rx :: "bool \<Rightarrow> nat \<Rightarrow> snull_packet \<Rightarrow> snull_sys \<Rightarrow> snull_sys" where
  "snull_rx ok i pkt g =
     (if \<not> ok then upd_stats i (\<lambda>s. s\<lparr>rx_dropped := rx_dropped s + 1\<rparr>) g
      else
        (upd_stats i (\<lambda>s. s\<lparr>rx_packets := rx_packets s + 1,
            rx_bytes := rx_bytes s + length (pdata pkt)\<rparr>) g)
          \<lparr>delivered := delivered g @ [(i, pdata pkt)]\<rparr>)"

text \<open>A round of the loop of the poll method; \<open>ok\<close> is the answer of \<open>dev_alloc_skb\<close>.\<close>

definition snull_poll_one :: "bool \<Rightarrow> nat \<Rightarrow> snull_sys \<Rightarrow> snull_sys option" where
  "snull_poll_one ok i g = do {
     (pkt, g1) \<leftarrow> snull_dequeue_buf i g;
     (case pkt of None \<Rightarrow> None
      | Some p \<Rightarrow> snull_release_buffer p (snull_rx ok i p g1)) }"

text \<open>The loop; \<open>n\<close> is the rest of the budget.\<close>

fun snull_poll_loop :: "nat \<Rightarrow> allocs \<Rightarrow> nat \<Rightarrow> snull_sys \<Rightarrow> (nat \<times> snull_sys) option" where
  "snull_poll_loop 0 a i g = Some (0, g)"
| "snull_poll_loop (Suc n) a i g =
     (if rx_queue (sn g i) = [] then Some (0, g)
      else do {
        g2 \<leftarrow> snull_poll_one (fst (kmalloc a)) i g;
        (k, g3) \<leftarrow> snull_poll_loop n (snd (kmalloc a)) i g2;
        Some (Suc k, g3) })"

text \<open>The end of a poll that did not use up its budget; \<open>done_ok\<close> is the answer of \<open>napi_complete_done\<close>.\<close>

definition snull_poll_complete :: "bool \<Rightarrow> nat \<Rightarrow> snull_sys \<Rightarrow> snull_sys option" where
  "snull_poll_complete done_ok i g =
     with_lock i (\<lambda>d. if done_ok then d\<lparr>rx_int_enabled := True, napi_scheduled := False\<rparr> else d) g"

text \<open>
  The poll on its own. It holds the lock neither through the loop nor between the last test of the queue and its end, so that
  another processor may transmit in between: \<open>snull_poll_loses_frame\<close> shows what happens then.
\<close>

definition snull_poll :: "nat \<Rightarrow> allocs \<Rightarrow> bool \<Rightarrow> nat \<Rightarrow> snull_sys \<Rightarrow> (nat \<times> snull_sys) option" where
  "snull_poll budget a done_ok i g = do {
     (npackets, g1) \<leftarrow> snull_poll_loop budget a i g;
     (if npackets < budget then do { g2 \<leftarrow> snull_poll_complete done_ok i g1; Some (npackets, g2) }
      else Some (npackets, g1)) }"

subsection \<open>Interrupts\<close>

text \<open>Freeing no buffer is allowed, freeing a buffer the driver does not own is not.\<close>

definition dev_kfree_skb :: "nat option \<Rightarrow> snull_sys \<Rightarrow> snull_sys option" where
  "dev_kfree_skb p g =
     (case p of None \<Rightarrow> Some g
      | Some k \<Rightarrow> if k \<in> set (skbs g) then Some (g\<lparr>skbs := remove1 k (skbs g)\<rparr>) else None)"

definition tx_done_stats :: "nat \<Rightarrow> snull_sys \<Rightarrow> snull_sys" where
  "tx_done_stats i g = upd_stats i (\<lambda>s. s\<lparr>tx_packets := tx_packets s + 1,
     tx_bytes := tx_bytes s + tx_packetlen (sn g i)\<rparr>) g"

definition snull_regular_interrupt :: "bool \<Rightarrow> nat \<Rightarrow> snull_sys \<Rightarrow> snull_sys option" where
  "snull_regular_interrupt ok i g =
     (if lock_held (sn g i) then None
      else
        (let statusword = status (sn g i);
             g1 = upd_dev i (\<lambda>d. d\<lparr>status := 0\<rparr>) g;
             (pkt, g2) =
               (if statusword AND SNULL_RX_INTR \<noteq> 0 then
                  (case rx_queue (sn g1 i) of
                     [] \<Rightarrow> (None, g1)
                   | p # rest \<Rightarrow> (Some p, snull_rx ok i p (upd_dev i (\<lambda>d. d\<lparr>rx_queue := rest\<rparr>) g1)))
                else (None, g1))
         in do {
           g3 \<leftarrow> (if statusword AND SNULL_TX_INTR \<noteq> 0
                  then dev_kfree_skb (skb (sn g2 i)) (tx_done_stats i g2) else Some g2);
           (case pkt of None \<Rightarrow> Some g3 | Some p \<Rightarrow> snull_release_buffer p g3) }))"

definition snull_napi_interrupt :: "nat \<Rightarrow> snull_sys \<Rightarrow> snull_sys option" where
  "snull_napi_interrupt i g =
     (if lock_held (sn g i) then None
      else
        (let statusword = status (sn g i);
             g1 = upd_dev i (\<lambda>d. d\<lparr>status := 0\<rparr>) g;
             g2 = (if statusword AND SNULL_RX_INTR \<noteq> 0
                   then upd_dev i (\<lambda>d. d\<lparr>napi_scheduled := True\<rparr>) (snull_rx_ints i False g1) else g1)
         in if statusword AND SNULL_TX_INTR \<noteq> 0 then do {
              g3 \<leftarrow> dev_kfree_skb (skb (sn g2 i)) (tx_done_stats i g2);
              Some (upd_dev i (\<lambda>d. d\<lparr>skb := None\<rparr>) g3) }
            else Some g2))"

definition snull_interrupt :: "bool \<Rightarrow> nat \<Rightarrow> snull_sys \<Rightarrow> snull_sys option" where
  "snull_interrupt ok i g =
     (if use_napi g then snull_napi_interrupt i g else snull_regular_interrupt ok i g)"

subsection \<open>Transmitting\<close>

text \<open>
  The frame as the other side sees it. The IP header starts at byte 14; \<open>csum\<close> is
  \<open>ip_fast_csum\<close> of the header (its two bytes, as stored), a routine of the kernel.
\<close>

definition snull_rewrite :: "(byte list \<Rightarrow> byte \<times> byte) \<Rightarrow> byte list \<Rightarrow> byte list" where
  "snull_rewrite csum buf =
     (let b1 = buf[28 := buf ! 28 XOR 1];
          b2 = b1[32 := b1 ! 32 XOR 1];
          b3 = b2[24 := 0, 25 := 0];
          ihl = unat (b3 ! 14 AND 15);
          (c0, c1) = csum (take (4 * ihl) (drop 14 b3))
      in b3[24 := c0, 25 := c1])"

definition twin :: "nat \<Rightarrow> nat" where
  "twin i = (if i = 0 then 1 else 0)"

definition snull_hw_tx ::
  "(byte list \<Rightarrow> byte \<times> byte) \<Rightarrow> bool \<Rightarrow> byte list \<Rightarrow> nat \<Rightarrow> snull_sys \<Rightarrow> snull_sys option" where
  "snull_hw_tx csum ok buf i g =
     (if length buf < ETH_HLEN + IP_HLEN then Some g
      else
        (let frame = snull_rewrite csum buf; dest = twin i; len = length buf in do {
           (tx_buffer, g1) \<leftarrow> snull_get_tx_buffer i g;
           (case tx_buffer of
              None \<Rightarrow> Some g1
            | Some p \<Rightarrow>
                if ETH_DATA_LEN < len then None
                else do {
                  g2 \<leftarrow> snull_enqueue_buf dest (p\<lparr>pdata := frame\<rparr>) g1;
                  g3 \<leftarrow> (if rx_int_enabled (sn g2 dest)
                         then snull_interrupt ok dest
                           (upd_dev dest (\<lambda>d. d\<lparr>status := status d OR SNULL_RX_INTR\<rparr>) g2)
                         else Some g2);
                  let g4 = upd_dev i (\<lambda>d. d\<lparr>tx_packetlen := len, status := status d OR SNULL_TX_INTR\<rparr>) g3;
                  (if lockup g4 \<noteq> 0 \<and> (tx_packets (stats (sn g4 i)) + 1) mod lockup g4 = 0
                   then Some (upd_dev i (\<lambda>d. d\<lparr>queue_stopped := True\<rparr>) g4)
                   else snull_interrupt ok i g4) }) }))"

text \<open>The socket buffer \<open>k\<close> with the bytes \<open>bs\<close> comes from the kernel; short ones are padded.\<close>

definition snull_tx ::
  "(byte list \<Rightarrow> byte \<times> byte) \<Rightarrow> bool \<Rightarrow> nat \<Rightarrow> byte list \<Rightarrow> nat \<Rightarrow> snull_sys \<Rightarrow> (snull_sys \<times> int) option" where
  "snull_tx csum ok k bs i g =
     (let buf = (if length bs < ETH_ZLEN then bs @ replicate (ETH_ZLEN - length bs) 0 else bs);
          g1 = upd_dev i (\<lambda>d. d\<lparr>skb := Some k\<rparr>) (g\<lparr>skbs := k # skbs g\<rparr>)
      in do { g2 \<leftarrow> snull_hw_tx csum ok buf i g1; Some (g2, 0) })"

definition snull_tx_timeout :: "bool \<Rightarrow> nat option list \<Rightarrow> nat \<Rightarrow> snull_sys \<Rightarrow> snull_sys option" where
  "snull_tx_timeout ok ids i g = do {
     g1 \<leftarrow> snull_interrupt ok i (upd_dev i (\<lambda>d. d\<lparr>status := status d OR SNULL_TX_INTR\<rparr>) g);
     let g2 = upd_stats i (\<lambda>s. s\<lparr>tx_errors := tx_errors s + 1\<rparr>) g1;
     (if lock_held (sn g2 i) then None
      else Some (upd_dev i (\<lambda>d. d\<lparr>queue_stopped := False\<rparr>)
        (snull_setup_pool i ids (snull_teardown_pool i g2)))) }"

subsection \<open>Headers and the other methods\<close>

text \<open>Addresses of six bytes, type of two: destination, source, type (network order), payload.\<close>

definition flip_last :: "byte list \<Rightarrow> byte list" where
  "flip_last a = a[5 := a ! 5 XOR 1]"

definition snull_header ::
  "nat \<Rightarrow> byte \<times> byte \<Rightarrow> byte list option \<Rightarrow> byte list option \<Rightarrow> byte list \<Rightarrow> snull_sys \<Rightarrow> byte list \<times> nat" where
  "snull_header i type daddr saddr payload g =
     (let a = dev_addr (sn g i);
          src = (case saddr of None \<Rightarrow> a | Some s \<Rightarrow> s);
          dst = (case daddr of None \<Rightarrow> a | Some d \<Rightarrow> d)
      in (flip_last dst @ src @ [fst type, snd type] @ payload, ETH_HLEN))"

definition snull_rebuild_header :: "nat \<Rightarrow> byte list \<Rightarrow> snull_sys \<Rightarrow> byte list" where
  "snull_rebuild_header i frame g =
     (let a = dev_addr (sn g i) in flip_last a @ a @ drop 12 frame)"

definition snull_change_mtu :: "nat \<Rightarrow> int \<Rightarrow> snull_sys \<Rightarrow> (snull_sys \<times> int outcome) option" where
  "snull_change_mtu i new_mtu g =
     (if new_mtu < 68 \<or> 1500 < new_mtu then Some (g, Fail EINVAL)
      else do { g1 \<leftarrow> with_lock i (\<lambda>d. d\<lparr>mtu := new_mtu\<rparr>) g; Some (g1, Ret 0) })"

definition snull_ioctl :: "nat \<Rightarrow> snull_sys \<Rightarrow> snull_sys \<times> int" where
  "snull_ioctl i g = (g, 0)"

definition snull_stats :: "nat \<Rightarrow> snull_sys \<Rightarrow> net_stats" where
  "snull_stats i g = stats (sn g i)"

definition zero_stats :: net_stats where
  "zero_stats = \<lparr>rx_packets = 0, rx_bytes = 0, rx_dropped = 0, tx_packets = 0, tx_bytes = 0, tx_errors = 0\<rparr>"

text \<open>The private part after \<open>memset\<close>; \<open>ether_setup\<close> sets the other fields (mtu 1500).\<close>

definition snull_init :: "nat option list \<Rightarrow> nat \<Rightarrow> snull_sys \<Rightarrow> snull_sys" where
  "snull_init ids i g =
     (let g1 = upd_dev i (\<lambda>d. d\<lparr>stats := zero_stats, status := 0, ppool := [], rx_queue := [],
            rx_int_enabled := False, tx_packetlen := 0, skb := None, lock_held := False, mtu := 1500,
            napi_enabled := False, napi_scheduled := False\<rparr>) g
      in snull_setup_pool i ids (snull_rx_ints i True g1))"

text \<open>
  Loading: the interfaces that could be allocated and those that were registered. A failure
  of both allocations' or both registrations unloads what there is.
\<close>

record snull_module =
  allocated :: "nat list"
  registered :: "nat list"

definition snull_cleanup :: "snull_module \<Rightarrow> snull_module" where
  "snull_cleanup m = m\<lparr>allocated := [], registered := []\<rparr>"

definition snull_init_module :: "bool \<Rightarrow> bool \<Rightarrow> bool \<Rightarrow> bool \<Rightarrow> snull_module \<times> int outcome" where
  "snull_init_module alloc0 alloc1 reg0 reg1 =
     (let m0 = \<lparr>allocated = (if alloc0 then [0] else []) @ (if alloc1 then [1] else []), registered = []\<rparr>
      in if \<not> alloc0 \<or> \<not> alloc1 then (snull_cleanup m0, Fail ENOMEM)
         else
           (let m1 = m0\<lparr>registered := (if reg0 then [0] else []) @ (if reg1 then [1] else [])\<rparr>
            in if reg0 \<or> reg1 then (m1, Ret 0) else (snull_cleanup m1, Fail ENODEV)))"

end
