(* ===== verification/Snull_Props.thy ===== *)
theory Snull_Props
  imports Snull "HOL-Library.Multiset"
begin

unbundle bit_operations_syntax

section \<open>Correctness of snull\<close>

text \<open>
  For the driver in its default mode (NAPI): an invariant of the two interfaces under
  transmissions, polls and interrupts in any order, from which follow that no call hangs or
  misuses memory, that buffers neither get lost nor appear, and that every frame delivered
  was transmitted by the other side. Then the whole path of one frame, and the size bug.
\<close>

subsection \<open>Fields under updates\<close>

lemma sn_upd [simp]: "sn (upd_dev i f g) j = (if j = i then f (sn g i) else sn g j)"
  by (simp add: upd_dev_def)

lemma upd_dev_rest [simp]:
  "skbs (upd_dev i f g) = skbs g" "delivered (upd_dev i f g) = delivered g"
  "use_napi (upd_dev i f g) = use_napi g" "lockup (upd_dev i f g) = lockup g"
  by (simp_all add: upd_dev_def)

lemma twin_simps [simp]: "twin 0 = 1" "twin (Suc 0) = 0" "twin i \<noteq> i" "i \<noteq> twin i"
  by (simp_all add: twin_def)

lemma twin_twin: "i \<le> 1 \<Longrightarrow> twin (twin i) = i" "twin i \<le> 1"
  by (auto simp: twin_def)

subsection \<open>Invariant\<close>

text \<open>The parts of an interface that an interrupt leaves alone.\<close>

definition core :: "snull_sys \<Rightarrow> nat \<Rightarrow> snull_packet list \<times> snull_packet list \<times> bool \<times> bool \<times> nat" where
  "core g i = (let d = sn g i in (ppool d, rx_queue d, lock_held d, queue_stopped d, rx_dropped (stats d)))"

definition skb_ok :: "snull_sys \<Rightarrow> bool" where
  "skb_ok g \<longleftrightarrow> distinct (skbs g) \<and> set_option (skb (sn g 0)) \<subseteq> set (skbs g) \<and>
     set_option (skb (sn g 1)) \<subseteq> set (skbs g) \<and> set_option (skb (sn g 0)) \<inter> set_option (skb (sn g 1)) = {}"

definition same_core :: "snull_sys \<Rightarrow> snull_sys \<Rightarrow> bool" where
  "same_core g h \<longleftrightarrow> (\<forall>i. core g i = core h i) \<and> delivered g = delivered h \<and> use_napi g = use_napi h \<and>
     lockup g = lockup h"

text \<open>The flags of the poll: unchanged, or scheduled with the receive interrupt off.\<close>

definition woken :: "snull_sys \<Rightarrow> snull_sys \<Rightarrow> nat \<Rightarrow> bool" where
  "woken g h j \<longleftrightarrow> napi_scheduled (sn h j) \<and> \<not> rx_int_enabled (sn h j) \<or>
     napi_scheduled (sn h j) = napi_scheduled (sn g j) \<and> rx_int_enabled (sn h j) = rx_int_enabled (sn g j)"

lemma napi_interrupt_ok:
  assumes sk: "skb_ok g" and i: "i \<le> 1" and nl: "\<not> lock_held (sn g i)"
  shows "\<exists>h. snull_napi_interrupt i g = Some h \<and> skb_ok h \<and> same_core g h \<and> (\<forall>j. woken g h j) \<and>
    (status (sn g i) AND SNULL_RX_INTR \<noteq> 0 \<longrightarrow> napi_scheduled (sn h i)) \<and>
    set (skbs h) \<subseteq> set (skbs g)"
proof -
  have i01: "i = 0 \<or> i = 1" using i by auto
  define g2 where "g2 = (if status (sn g i) AND SNULL_RX_INTR \<noteq> 0
      then upd_dev i (\<lambda>d. d\<lparr>napi_scheduled := True\<rparr>)
        (snull_rx_ints i False (upd_dev i (\<lambda>d. d\<lparr>status := 0\<rparr>) g))
      else upd_dev i (\<lambda>d. d\<lparr>status := 0\<rparr>) g)"
  have g2: "skb (sn g2 j) = skb (sn g j)" "skbs g2 = skbs g" "core g2 j = core g j"
    "delivered g2 = delivered g" "use_napi g2 = use_napi g" "lockup g2 = lockup g" for j
    by (simp_all add: g2_def snull_rx_ints_def core_def Let_def)
  have w2: "woken g g2 j" "status (sn g i) AND SNULL_RX_INTR \<noteq> 0 \<longrightarrow> napi_scheduled (sn g2 i)" for j
    by (simp_all add: g2_def snull_rx_ints_def woken_def)
  show ?thesis
  proof (cases "status (sn g i) AND SNULL_TX_INTR \<noteq> 0")
    case False
    then have "snull_napi_interrupt i g = Some g2"
      using nl by (simp add: snull_napi_interrupt_def g2_def Let_def)
    then show ?thesis using sk w2 by (auto simp: skb_ok_def same_core_def g2)
  next
    case True
    then have r: "snull_napi_interrupt i g =
        do { g3 \<leftarrow> dev_kfree_skb (skb (sn g2 i)) (tx_done_stats i g2);
             Some (upd_dev i (\<lambda>d. d\<lparr>skb := None\<rparr>) g3) }"
      using nl by (simp add: snull_napi_interrupt_def g2_def Let_def)
    define g3 where "g3 = (case skb (sn g i) of None \<Rightarrow> tx_done_stats i g2
        | Some k \<Rightarrow> (tx_done_stats i g2)\<lparr>skbs := remove1 k (skbs g)\<rparr>)"
    have k: "dev_kfree_skb (skb (sn g2 i)) (tx_done_stats i g2) = Some g3"
      using sk i01 by (auto simp: dev_kfree_skb_def g2 g3_def tx_done_stats_def upd_stats_def skb_ok_def
          split: option.splits)
    have g3: "skb (sn g3 j) = skb (sn g j)" "core g3 j = core g j" "delivered g3 = delivered g"
      "use_napi g3 = use_napi g" "lockup g3 = lockup g"
      "skbs g3 = (case skb (sn g i) of None \<Rightarrow> skbs g | Some k \<Rightarrow> remove1 k (skbs g))" for j
      using g2 by (auto simp: g3_def tx_done_stats_def upd_stats_def core_def Let_def split: option.splits)
    have w3: "napi_scheduled (sn g3 j) = napi_scheduled (sn g2 j)"
      "rx_int_enabled (sn g3 j) = rx_int_enabled (sn g2 j)" for j
      by (simp_all add: g3_def tx_done_stats_def upd_stats_def split: option.split)
    let ?h = "upd_dev i (\<lambda>d. d\<lparr>skb := None\<rparr>) g3"
    have "skb_ok ?h" using sk i01 unfolding skb_ok_def
      by (cases "skb (sn g i)") (auto simp: g3)
    moreover have "core ?h j = core g3 j" for j by (simp add: core_def Let_def)
    then have "same_core g ?h" by (simp add: same_core_def g3)
    moreover have "woken g ?h j" for j using w2(1)[of j] w3[of j] by (auto simp: woken_def)
    moreover have "status (sn g i) AND SNULL_RX_INTR \<noteq> 0 \<longrightarrow> napi_scheduled (sn ?h i)"
      using w2(2) w3(1)[of i] by simp
    moreover have "set (skbs ?h) \<subseteq> set (skbs g)"
      by (auto simp: g3 dest: subsetD[OF set_remove1_subset] split: option.splits)
    ultimately show ?thesis using r k by auto
  qed
qed

text \<open>Frames sent so far: the interface and the frame as rewritten.\<close>

definition sent_to :: "nat \<Rightarrow> (nat \<times> byte list) list \<Rightarrow> byte list multiset" where
  "sent_to j sent = mset (map snd (filter (\<lambda>(i, _). twin i = j) sent))"

definition got_at :: "nat \<Rightarrow> snull_sys \<Rightarrow> byte list multiset" where
  "got_at j g = mset (map snd (filter (\<lambda>(i, _). i = j) (delivered g)))"

definition waiting_at :: "nat \<Rightarrow> snull_sys \<Rightarrow> byte list multiset" where
  "waiting_at j g = mset (map pdata (rx_queue (sn g j)))"

definition pool_ids :: "nat \<Rightarrow> snull_sys \<Rightarrow> nat multiset" where
  "pool_ids i g = mset (map pk_id (ppool (sn g i) @ rx_queue (sn g (twin i))))"

definition dev_ok :: "snull_sys \<Rightarrow> (nat \<times> byte list) list \<Rightarrow> nat \<Rightarrow> bool" where
  "dev_ok g sent i \<longleftrightarrow> \<not> lock_held (sn g i) \<and> (\<forall>p \<in> set (ppool (sn g i)). pk_dev p = i) \<and>
     (\<forall>p \<in> set (rx_queue (sn g i)). pk_dev p = twin i) \<and>
     (ppool (sn g i) = [] \<longrightarrow> queue_stopped (sn g i)) \<and>
     (napi_scheduled (sn g i) \<or> rx_int_enabled (sn g i) \<and> rx_queue (sn g i) = []) \<and>
     (\<exists>dropped. size dropped = rx_dropped (stats (sn g i)) \<and>
        sent_to i sent = got_at i g + waiting_at i g + dropped)"

definition snull_inv :: "(nat multiset \<times> nat multiset) \<Rightarrow> snull_sys \<times> (nat \<times> byte list) list \<Rightarrow> bool" where
  "snull_inv ids s \<longleftrightarrow> (case s of (g, sent) \<Rightarrow> use_napi g \<and> skb_ok g \<and> dev_ok g sent 0 \<and> dev_ok g sent 1 \<and>
     (pool_ids 0 g, pool_ids 1 g) = ids)"

lemma same_core_fields:
  assumes "same_core g h"
  shows "ppool (sn h i) = ppool (sn g i)" "rx_queue (sn h i) = rx_queue (sn g i)"
    "lock_held (sn h i) = lock_held (sn g i)" "queue_stopped (sn h i) = queue_stopped (sn g i)"
    "rx_dropped (stats (sn h i)) = rx_dropped (stats (sn g i))" "delivered h = delivered g"
    "use_napi h = use_napi g"
  using assms by (auto simp: same_core_def core_def Let_def)

lemma inv_interrupt:
  assumes inv: "snull_inv ids (g, sent)" and i: "i \<le> 1"
  shows "\<exists>h. snull_interrupt ok i g = Some h \<and> snull_inv ids (h, sent) \<and> same_core g h \<and>
    set (skbs h) \<subseteq> set (skbs g)"
proof -
  have "\<not> lock_held (sn g i)" using inv i by (cases i) (auto simp: snull_inv_def dev_ok_def)
  then obtain h where h: "snull_napi_interrupt i g = Some h" "skb_ok h" "same_core g h" "\<And>j. woken g h j"
    "set (skbs h) \<subseteq> set (skbs g)"
    using napi_interrupt_ok[of g i] inv i by (auto simp: snull_inv_def)
  note f = same_core_fields[OF h(3)]
  have "dev_ok h sent j" if "dev_ok g sent j" for j
    using that h(4)[of j] by (auto simp: dev_ok_def f woken_def got_at_def waiting_at_def)
  then have "snull_inv ids (h, sent)"
    using inv h(2) by (simp add: snull_inv_def f pool_ids_def)
  moreover have "snull_interrupt ok i g = Some h"
    using inv h(1) by (simp add: snull_interrupt_def snull_inv_def)
  ultimately show ?thesis using h(3,5) by blast
qed

subsection \<open>Transmission\<close>

definition pad_frame :: "byte list \<Rightarrow> byte list" where
  "pad_frame bs = (if length bs < ETH_ZLEN then bs @ replicate (ETH_ZLEN - length bs) 0 else bs)"

lemma pad_frame_length: "length (pad_frame bs) = max 60 (length bs)"
  by (simp add: pad_frame_def ETH_ZLEN_def)

lemma skb_ok_new:
  assumes "skb_ok g" "k \<notin> set (skbs g)" "i \<le> 1"
    and "\<And>j. skb (sn h j) = (if j = i then Some k else skb (sn g j))" "skbs h = k # skbs g"
  shows "skb_ok h"
proof -
  have "i = 0 \<or> i = 1" using assms(3) by auto
  then show ?thesis using assms(1,2,4,5) by (elim disjE) (auto simp: skb_ok_def)
qed

text \<open>The interrupt of the other side, when its receive interrupt is on.\<close>

lemma wake_other:
  assumes "skb_ok (upd_dev d (\<lambda>x. x\<lparr>status := status x OR SNULL_RX_INTR\<rparr>) g)" "skb_ok g"
    and d: "d \<le> 1" and nl: "\<not> lock_held (sn g d)" and nap: "use_napi g"
    and off: "\<not> rx_int_enabled (sn g d) \<longrightarrow> napi_scheduled (sn g d)"
  shows "\<exists>h. (if rx_int_enabled (sn g d)
      then snull_interrupt ok d (upd_dev d (\<lambda>x. x\<lparr>status := status x OR SNULL_RX_INTR\<rparr>) g)
      else Some g) = Some h \<and> skb_ok h \<and> same_core g h \<and> (\<forall>j. woken g h j) \<and> napi_scheduled (sn h d) \<and>
    set (skbs h) \<subseteq> set (skbs g)"
proof (cases "rx_int_enabled (sn g d)")
  case True
  let ?g = "upd_dev d (\<lambda>x. x\<lparr>status := status x OR SNULL_RX_INTR\<rparr>) g"
  have "(w OR 1) AND 1 = (1 :: 32 word)" for w by (rule bit_word_eqI) (auto simp: bit_simps)
  note or1 = this
  have bit: "status (sn ?g d) AND SNULL_RX_INTR \<noteq> 0"
    unfolding sn_upd SNULL_RX_INTR_def by (simp add: or1)
  have "\<not> lock_held (sn ?g d)" using nl by simp
  from napi_interrupt_ok[OF assms(1) d this] bit
  obtain h where h: "snull_napi_interrupt d ?g = Some h" "skb_ok h" "same_core ?g h" "\<forall>j. woken ?g h j"
    "napi_scheduled (sn h d)" "set (skbs h) \<subseteq> set (skbs g)" by auto
  have "core ?g j = core g j" for j by (simp add: core_def Let_def)
  then have "same_core g h" using h(3) by (simp only: same_core_def upd_dev_rest simp_thms)
  moreover have "woken g h j" for j using spec[OF h(4), of j] by (cases "j = d") (auto simp: woken_def)
  moreover have "snull_interrupt ok d ?g = Some h" using nap h(1) by (simp only: snull_interrupt_def upd_dev_rest if_True)
  ultimately show ?thesis unfolding if_P[OF True] using h(2,5,6) by blast
next
  case False
  then show ?thesis using assms(2) off by (simp add: same_core_def woken_def)
qed

lemma inv_tx:
  assumes inv: "snull_inv ids (g, sent)" and i: "i \<le> 1" and run: "\<not> queue_stopped (sn g i)"
    and k: "k \<notin> set (skbs g)" and len: "length bs \<le> ETH_DATA_LEN"
  shows "\<exists>h p rest. snull_tx csum ok k bs i g = Some (h, 0) \<and>
    snull_inv ids (h, sent @ [(i, snull_rewrite csum (pad_frame bs))]) \<and> ppool (sn g i) = p # rest \<and>
    ppool (sn h i) = rest \<and> delivered h = delivered g \<and> set (skbs h) \<subseteq> insert k (set (skbs g)) \<and>
    lockup h = lockup g \<and> (lockup g = 0 \<longrightarrow> queue_stopped (sn h i) = (rest = [])) \<and>
    rx_queue (sn h (twin i)) = p\<lparr>pdata := snull_rewrite csum (pad_frame bs)\<rparr> # rx_queue (sn g (twin i))"
proof -
  let ?buf = "pad_frame bs" and ?d = "twin i"
  let ?fr = "snull_rewrite csum ?buf"
  have i01: "i = 0 \<or> i = 1" using i by auto
  have di: "dev_ok g sent i" and dd: "dev_ok g sent ?d" and nap: "use_napi g" and sk: "skb_ok g"
    using inv i01 by (auto simp: snull_inv_def)
  obtain p rest where pool: "ppool (sn g i) = p # rest"
    using di run by (cases "ppool (sn g i)") (auto simp: dev_ok_def)
  define g0 where "g0 = upd_dev i (\<lambda>d. d\<lparr>skb := Some k\<rparr>) (g\<lparr>skbs := k # skbs g\<rparr>)"
  define g1 where "g1 = upd_dev i (\<lambda>d. d\<lparr>ppool := rest,
      queue_stopped := (if rest = [] then True else queue_stopped d)\<rparr>) g0"
  define g2 where "g2 = upd_dev ?d (\<lambda>d. d\<lparr>rx_queue := p\<lparr>pdata := ?fr\<rparr> # rx_queue d\<rparr>) g1"
  define gs where "gs = upd_dev ?d (\<lambda>d. d\<lparr>status := status d OR SNULL_RX_INTR\<rparr>) g2"
  have get: "snull_get_tx_buffer i g0 = Some (Some p, g1)"
    using di pool by (simp add: snull_get_tx_buffer_def g0_def g1_def dev_ok_def)
  have enq: "snull_enqueue_buf ?d (p\<lparr>pdata := ?fr\<rparr>) g1 = Some g2"
    using dd by (simp add: snull_enqueue_buf_def with_lock_def g2_def g1_def g0_def dev_ok_def)
  have skb2: "skb (sn gs j) = (if j = i then Some k else skb (sn g j))"
    "skb (sn g2 j) = (if j = i then Some k else skb (sn g j))" for j
    by (simp_all add: gs_def g2_def g1_def g0_def)
  have skbs2: "skbs gs = k # skbs g" "skbs g2 = k # skbs g"
    by (simp_all add: gs_def g2_def g1_def g0_def)
  have sk2: "skb_ok gs" "skb_ok g2" using skb_ok_new[OF sk k i] skb2 skbs2 by blast+
  have fields: "core g2 i = (rest, rx_queue (sn g i), False, rest = [], rx_dropped (stats (sn g i)))"
    "core g2 ?d = (ppool (sn g ?d), p\<lparr>pdata := ?fr\<rparr> # rx_queue (sn g ?d), False,
       queue_stopped (sn g ?d), rx_dropped (stats (sn g ?d)))"
    "delivered g2 = delivered g" "use_napi g2 = use_napi g"
    using di dd run by (auto simp: core_def g2_def g1_def g0_def dev_ok_def)
  have flags: "napi_scheduled (sn g2 j) = napi_scheduled (sn g j)"
    "rx_int_enabled (sn g2 j) = rx_int_enabled (sn g j)" for j
    by (simp_all add: g2_def g1_def g0_def)
  have nl2: "\<not> lock_held (sn g2 ?d)" and nap2: "use_napi g2"
    and off2: "\<not> rx_int_enabled (sn g2 ?d) \<longrightarrow> napi_scheduled (sn g2 ?d)"
    using dd nap by (auto simp: flags fields dev_ok_def g2_def g1_def g0_def)
  obtain g3 where g3: "(if rx_int_enabled (sn g2 ?d) then snull_interrupt ok ?d gs else Some g2) = Some g3"
    and sk3: "skb_ok g3" and sc3: "same_core g2 g3" and w3: "\<And>j. woken g2 g3 j"
    and sch3: "napi_scheduled (sn g3 ?d)" and sub3: "set (skbs g3) \<subseteq> set (skbs g2)"
    using wake_other[OF sk2(1)[unfolded gs_def] sk2(2) twin_twin(2)] nl2 nap2 off2 unfolding gs_def by blast
  define g4 where "g4 = upd_dev i (\<lambda>d. d\<lparr>tx_packetlen := length ?buf, status := status d OR SNULL_TX_INTR\<rparr>) g3"
  have f3: "ppool (sn g3 j) = ppool (sn g2 j)" "rx_queue (sn g3 j) = rx_queue (sn g2 j)"
    "lock_held (sn g3 j) = lock_held (sn g2 j)" "queue_stopped (sn g3 j) = queue_stopped (sn g2 j)"
    "rx_dropped (stats (sn g3 j)) = rx_dropped (stats (sn g2 j))" "delivered g3 = delivered g2"
    "use_napi g3 = use_napi g2" for j
    using same_core_fields[OF sc3] by auto
  have f4: "core g4 j = core g3 j" "napi_scheduled (sn g4 j) = napi_scheduled (sn g3 j)"
    "rx_int_enabled (sn g4 j) = rx_int_enabled (sn g3 j)" "skb (sn g4 j) = skb (sn g3 j)"
    "skbs g4 = skbs g3" "delivered g4 = delivered g3" "use_napi g4 = use_napi g3" for j
    by (simp_all add: g4_def core_def Let_def)
  let ?sent = "sent @ [(i, ?fr)]"
  have c2: "ppool (sn g2 i) = rest" "rx_queue (sn g2 i) = rx_queue (sn g i)" "lock_held (sn g2 i) = False"
    "queue_stopped (sn g2 i) = (rest = [])" "rx_dropped (stats (sn g2 i)) = rx_dropped (stats (sn g i))"
    "ppool (sn g2 ?d) = ppool (sn g ?d)" "rx_queue (sn g2 ?d) = p\<lparr>pdata := ?fr\<rparr> # rx_queue (sn g ?d)"
    "lock_held (sn g2 ?d) = False" "queue_stopped (sn g2 ?d) = queue_stopped (sn g ?d)"
    "rx_dropped (stats (sn g2 ?d)) = rx_dropped (stats (sn g ?d))"
    using fields by (auto simp: core_def Let_def)
  have c4: "ppool (sn g4 j) = ppool (sn g2 j)" "rx_queue (sn g4 j) = rx_queue (sn g2 j)"
    "lock_held (sn g4 j) = lock_held (sn g2 j)" "queue_stopped (sn g4 j) = queue_stopped (sn g2 j)"
    "rx_dropped (stats (sn g4 j)) = rx_dropped (stats (sn g2 j))" for j
    using f4(1)[of j] by (simp_all add: core_def Let_def f3)
  have got: "got_at j g4 = got_at j g" for j by (simp add: got_at_def f4 f3 fields)
  have snt: "sent_to i ?sent = sent_to i sent" "sent_to ?d ?sent = add_mset ?fr (sent_to ?d sent)"
    by (simp_all add: sent_to_def)
  have wi: "waiting_at i g4 = waiting_at i g" "waiting_at ?d g4 = add_mset ?fr (waiting_at ?d g)"
    by (simp_all add: waiting_at_def c4 c2)
  have ni: "napi_scheduled (sn g4 i) \<or> rx_int_enabled (sn g4 i) \<and> rx_queue (sn g4 i) = []"
    using di w3[of i] by (auto simp: woken_def f4 flags c4 c2 dev_ok_def)
  have "dev_ok g4 ?sent i"
    using di ni unfolding dev_ok_def c4 c2 got snt wi by (simp add: pool)
  moreover have "dev_ok g4 ?sent ?d"
    using dd di sch3 unfolding dev_ok_def c4 c2 got snt wi f4(2) by (simp add: pool twin_twin(1)[OF i])
  moreover have "pool_ids i g4 = pool_ids i g" "pool_ids ?d g4 = pool_ids ?d g"
    by (simp_all add: pool_ids_def c4 c2 pool twin_twin(1)[OF i])
  moreover have "skb_ok g4" using sk3 by (simp add: skb_ok_def f4)
  ultimately have i4: "snull_inv ids (g4, ?sent)"
    using inv i01 nap by (auto simp: snull_inv_def f4 f3 fields)
  let ?g5 = "upd_dev i (\<lambda>d. d\<lparr>queue_stopped := True\<rparr>) g4"
  have "dev_ok ?g5 ?sent j" if "dev_ok g4 ?sent j" for j
    using that by (auto simp: dev_ok_def got_at_def waiting_at_def)
  moreover have "skb (sn ?g5 j) = skb (sn g4 j)" "ppool (sn ?g5 j) = ppool (sn g4 j)"
    "rx_queue (sn ?g5 j) = rx_queue (sn g4 j)" for j by simp_all
  ultimately have i5: "snull_inv ids (?g5, ?sent)"
    using i4 unfolding snull_inv_def skb_ok_def pool_ids_def upd_dev_rest by simp
  have tx: "snull_tx csum ok k bs i g = do {
      h \<leftarrow> (if lockup g4 \<noteq> 0 \<and> (tx_packets (stats (sn g4 i)) + 1) mod lockup g4 = 0
            then Some ?g5 else snull_interrupt ok i g4); Some (h, 0) }"
  proof -
    have "\<not> length ?buf < ETH_HLEN + IP_HLEN" "\<not> ETH_DATA_LEN < length ?buf"
      using len by (simp_all add: pad_frame_length ETH_HLEN_def IP_HLEN_def ETH_DATA_LEN_def)
    then show ?thesis
      unfolding snull_tx_def snull_hw_tx_def pad_frame_def[symmetric] Let_def g0_def[symmetric]
      by (simp only: if_False get enq g3[unfolded gs_def] g4_def Option.bind.bind_lunit bind_assoc
          prod.case option.case)
  qed
  have lk: "lockup g4 = lockup g"
    using sc3 by (simp add: g4_def same_core_def g2_def g1_def g0_def)
  have sub: "set (skbs g4) \<subseteq> insert k (set (skbs g))" using sub3 by (simp add: f4 skbs2)
  show ?thesis
  proof (cases "lockup g4 \<noteq> 0 \<and> (tx_packets (stats (sn g4 i)) + 1) mod lockup g4 = 0")
    case True
    have "lockup g4 = lockup g" using lk by simp
    then show ?thesis using tx i5 True c4 c2 f4(5,6) f3(6) fields(3) sub by (auto simp: pool)
  next
    case False
    then have "snull_tx csum ok k bs i g = do { h \<leftarrow> snull_interrupt ok i g4; Some (h, 0) }"
      unfolding tx by (simp only: if_False)
    moreover obtain h where h: "snull_interrupt ok i g4 = Some h" "snull_inv ids (h, ?sent)"
      "same_core g4 h" "set (skbs h) \<subseteq> set (skbs g4)"
      using inv_interrupt[OF i4 i, of ok] by auto
    ultimately have "snull_tx csum ok k bs i g = Some (h, 0)" by simp
    moreover have "lockup h = lockup g" using h(3) lk by (simp add: same_core_def)
    moreover have "delivered h = delivered g"
      by (simp only: same_core_fields(6)[OF h(3)] f4(6) f3(6) fields(3))
    moreover have "set (skbs h) \<subseteq> insert k (set (skbs g))" using h(4) sub by blast
    moreover note h(2) pool c4 c2
    ultimately show ?thesis using same_core_fields(1,2,4)[OF h(3)] by auto
  qed
qed

subsection \<open>Polling\<close>

lemma rx_release:
  assumes inv: "snull_inv ids (g, sent)" and i: "i \<le> 1" and q: "rx_queue (sn g i) = p # rest"
  shows "\<exists>h. snull_release_buffer p (snull_rx ok i p (upd_dev i (\<lambda>d. d\<lparr>rx_queue := rest\<rparr>) g)) = Some h \<and>
    snull_inv ids (h, sent) \<and> rx_queue (sn h i) = rest \<and>
    delivered h = delivered g @ (if ok then [(i, pdata p)] else [])"
proof -
  let ?d = "twin i"
  define g2 where "g2 = snull_rx ok i p (upd_dev i (\<lambda>d. d\<lparr>rx_queue := rest\<rparr>) g)"
  define gp where "gp = upd_dev ?d (\<lambda>d. d\<lparr>ppool := p # ppool d\<rparr>) g2"
  define g3 where "g3 = (if queue_stopped (sn gp ?d) \<and> ppool (sn g2 ?d) = []
      then upd_dev ?d (\<lambda>d. d\<lparr>queue_stopped := False\<rparr>) gp else gp)"
  have i01: "i = 0 \<or> i = 1" using i by auto
  have di: "dev_ok g sent i" and dd: "dev_ok g sent ?d" and sk: "skb_ok g" and nap: "use_napi g"
    using inv i01 by (auto simp: snull_inv_def)
  have pd: "pk_dev p = ?d" using di q by (simp add: dev_ok_def)
  have c2: "ppool (sn g2 j) = ppool (sn g j)" "lock_held (sn g2 j) = lock_held (sn g j)"
    "queue_stopped (sn g2 j) = queue_stopped (sn g j)" "skb (sn g2 j) = skb (sn g j)"
    "napi_scheduled (sn g2 j) = napi_scheduled (sn g j)" "rx_int_enabled (sn g2 j) = rx_int_enabled (sn g j)"
    "rx_queue (sn g2 j) = (if j = i then rest else rx_queue (sn g j))"
    "rx_dropped (stats (sn g2 j)) = (if j = i \<and> \<not> ok then 1 else 0) + rx_dropped (stats (sn g j))"
    "skbs g2 = skbs g" "use_napi g2 = use_napi g"
    "delivered g2 = delivered g @ (if ok then [(i, pdata p)] else [])" for j
    by (simp_all add: g2_def snull_rx_def upd_stats_def)
  have c3: "ppool (sn g3 i) = ppool (sn g i)" "ppool (sn g3 ?d) = p # ppool (sn g ?d)"
    "lock_held (sn g3 j) = lock_held (sn g j)"
    "queue_stopped (sn g3 i) = queue_stopped (sn g i)"
    "queue_stopped (sn g3 ?d) = (queue_stopped (sn g ?d) \<and> ppool (sn g ?d) \<noteq> [])"
    "skb (sn g3 j) = skb (sn g j)"
    "napi_scheduled (sn g3 j) = napi_scheduled (sn g j)" "rx_int_enabled (sn g3 j) = rx_int_enabled (sn g j)"
    "rx_queue (sn g3 i) = rest" "rx_queue (sn g3 ?d) = rx_queue (sn g ?d)"
    "rx_dropped (stats (sn g3 ?d)) = rx_dropped (stats (sn g ?d))"
    "rx_dropped (stats (sn g3 i)) = (if ok then 0 else 1) + rx_dropped (stats (sn g i))"
    "skbs g3 = skbs g" "use_napi g3 = use_napi g"
    "delivered g3 = delivered g @ (if ok then [(i, pdata p)] else [])" for j
    by (auto simp: g3_def gp_def c2)
  have rel: "snull_release_buffer p g2 = Some g3"
    using dd pd unfolding snull_release_buffer_def with_lock_def Let_def g3_def gp_def by (simp add: c2 dev_ok_def)
  have got: "got_at ?d g3 = got_at ?d g" "got_at i g3 = got_at i g + (if ok then {#pdata p#} else {#})"
    by (simp_all add: got_at_def c3)
  have wait: "waiting_at ?d g3 = waiting_at ?d g" "waiting_at i g = add_mset (pdata p) (waiting_at i g3)"
    by (simp_all add: waiting_at_def c3 q)
  have "dev_ok g3 sent i"
  proof -
    obtain dr where dr: "size dr = rx_dropped (stats (sn g i))" "sent_to i sent = got_at i g + waiting_at i g + dr"
      using di by (auto simp: dev_ok_def)
    have "\<exists>dr. size dr = rx_dropped (stats (sn g3 i)) \<and> sent_to i sent = got_at i g3 + waiting_at i g3 + dr"
      by (rule exI[of _ "if ok then dr else add_mset (pdata p) dr"]) (simp add: dr got wait c3)
    then show ?thesis using di q unfolding dev_ok_def c3 by simp
  qed
  moreover have "dev_ok g3 sent ?d"
    using dd pd unfolding dev_ok_def c3 got wait by simp
  moreover have "pool_ids i g3 = pool_ids i g" "pool_ids ?d g3 = pool_ids ?d g"
    by (simp_all add: pool_ids_def c3 q twin_twin(1)[OF i])
  moreover have "skb_ok g3" using sk by (simp add: skb_ok_def c3)
  ultimately have "snull_inv ids (g3, sent)"
    using inv i01 nap by (auto simp: snull_inv_def c3)
  then show ?thesis using rel unfolding g2_def by (simp add: c3)
qed

text \<open>The packets of which a buffer could be had for the copy, when the allocator answers \<open>a\<close>.\<close>

fun kept :: "allocs \<Rightarrow> 'a list \<Rightarrow> 'a list" where
  "kept a [] = []"
| "kept a (x # xs) = (if fst (kmalloc a) then [x] else []) @ kept (snd (kmalloc a)) xs"

lemma kept_map: "kept a (map f xs) = map f (kept a xs)"
  by (induction xs arbitrary: a) auto

lemma kept_all: "take n a = replicate n True \<Longrightarrow> length xs \<le> n \<Longrightarrow> kept a xs = xs"
proof (induction xs arbitrary: a n)
  case (Cons x xs)
  then obtain m where n: "n = Suc m" by (cases n) auto
  then obtain a' where "a = True # a'" "take m a' = replicate m True" using Cons.prems by (cases a) auto
  then show ?case using Cons n by auto
qed simp

abbreviation passed :: "nat \<Rightarrow> snull_packet \<Rightarrow> nat \<times> byte list" where
  "passed i p \<equiv> (i, pdata p)"

lemma inv_poll_one:
  assumes inv: "snull_inv ids (g, sent)" and i: "i \<le> 1" and q: "rx_queue (sn g i) = p # rest"
  shows "\<exists>h. snull_poll_one ok i g = Some h \<and> snull_inv ids (h, sent) \<and> rx_queue (sn h i) = rest \<and>
    delivered h = delivered g @ (if ok then [(i, pdata p)] else [])"
proof -
  have "\<not> lock_held (sn g i)" using inv i by (cases i) (auto simp: snull_inv_def dev_ok_def)
  then have "snull_dequeue_buf i g = Some (Some p, upd_dev i (\<lambda>d. d\<lparr>rx_queue := rest\<rparr>) g)"
    using q by (simp add: snull_dequeue_buf_def with_lock_def)
  then show ?thesis using rx_release[OF inv i q, of ok] by (simp add: snull_poll_one_def)
qed

lemma inv_poll_loop:
  "snull_inv ids (g, sent) \<Longrightarrow> i \<le> 1 \<Longrightarrow>
    \<exists>h. snull_poll_loop budget a i g = Some (min budget (length (rx_queue (sn g i))), h) \<and>
      snull_inv ids (h, sent) \<and> rx_queue (sn h i) = drop budget (rx_queue (sn g i)) \<and>
      delivered h = delivered g @ map (passed i) (kept a (take budget (rx_queue (sn g i))))"
proof (induction budget arbitrary: a g)
  case (Suc budget)
  show ?case
  proof (cases "rx_queue (sn g i)")
    case Nil
    then show ?thesis using Suc.prems by auto
  next
    case (Cons p rest)
    obtain g3 where g3: "snull_poll_one (fst (kmalloc a)) i g = Some g3" "snull_inv ids (g3, sent)"
      "rx_queue (sn g3 i) = rest" "delivered g3 = delivered g @ (if fst (kmalloc a) then [(i, pdata p)] else [])"
      using inv_poll_one[OF Suc.prems Cons, of "fst (kmalloc a)"] by blast
    obtain h where h: "snull_poll_loop budget (snd (kmalloc a)) i g3 = Some (min budget (length rest), h)"
      "snull_inv ids (h, sent)" "rx_queue (sn h i) = drop budget rest"
      "delivered h = delivered g3 @ map (passed i) (kept (snd (kmalloc a)) (take budget rest))"
      using Suc.IH[OF g3(2) Suc.prems(2), of "snd (kmalloc a)"] unfolding g3(3) by blast
    show ?thesis using Cons g3(1,4) h by auto
  qed
qed simp

lemma inv_poll:
  assumes inv: "snull_inv ids (g, sent)" and i: "i \<le> 1"
  shows "\<exists>h. snull_poll budget a ok i g = Some (min budget (length (rx_queue (sn g i))), h) \<and>
    snull_inv ids (h, sent) \<and> rx_queue (sn h i) = drop budget (rx_queue (sn g i)) \<and>
    delivered h = delivered g @ map (passed i) (kept a (take budget (rx_queue (sn g i))))"
proof -
  obtain g1 where g1: "snull_poll_loop budget a i g = Some (min budget (length (rx_queue (sn g i))), g1)"
    and i1: "snull_inv ids (g1, sent)" and q1: "rx_queue (sn g1 i) = drop budget (rx_queue (sn g i))"
    and d1: "delivered g1 = delivered g @ map (passed i) (kept a (take budget (rx_queue (sn g i))))"
    using inv_poll_loop[OF inv i] by blast
  have nl: "\<not> lock_held (sn g1 i)" using i1 i by (cases i) (auto simp: snull_inv_def dev_ok_def)
  show ?thesis
  proof (cases "length (rx_queue (sn g i)) < budget \<and> ok")
    case False
    have "upd_dev i (\<lambda>d. d) g1 = g1" by (simp add: upd_dev_def)
    then show ?thesis using False g1 i1 q1 d1 nl by (auto simp: snull_poll_def snull_poll_complete_def with_lock_def)
  next
    case True
    let ?h = "upd_dev i (\<lambda>d. d\<lparr>rx_int_enabled := True, napi_scheduled := False\<rparr>) g1"
    have "snull_poll budget a ok i g = Some (min budget (length (rx_queue (sn g i))), ?h)"
      using g1 nl True by (simp add: snull_poll_def snull_poll_complete_def with_lock_def min_def)
    moreover have "dev_ok ?h sent j" if "dev_ok g1 sent j" for j
      using that True q1 by (auto simp: dev_ok_def got_at_def waiting_at_def)
    moreover have "skb (sn ?h j) = skb (sn g1 j)" "ppool (sn ?h j) = ppool (sn g1 j)"
      "rx_queue (sn ?h j) = rx_queue (sn g1 j)" for j by simp_all
    ultimately show ?thesis
      using i1 q1 d1 unfolding snull_inv_def skb_ok_def pool_ids_def upd_dev_rest by simp
  qed
qed

subsection \<open>Any order of events\<close>

text \<open>
  What the kernel can ask of the driver: transmit on a queue that is not stopped, with a
  buffer of its own; poll an interface that asked for it; and an interrupt at any time.
\<close>

datatype snull_event =
  Xmit bool nat "byte list" nat
| Poll nat allocs bool nat
| Intr nat

fun snull_enabled :: "snull_sys \<times> (nat \<times> byte list) list \<Rightarrow> snull_event \<Rightarrow> bool" where
  "snull_enabled (g, sent) (Xmit ok k bs i) \<longleftrightarrow>
     i \<le> 1 \<and> \<not> queue_stopped (sn g i) \<and> k \<notin> set (skbs g) \<and> length bs \<le> ETH_DATA_LEN"
| "snull_enabled (g, sent) (Poll budget a ok i) \<longleftrightarrow> i \<le> 1 \<and> napi_scheduled (sn g i)"
| "snull_enabled (g, sent) (Intr i) \<longleftrightarrow> i \<le> 1"

fun snull_exec :: "(byte list \<Rightarrow> byte \<times> byte) \<Rightarrow> snull_event \<Rightarrow>
    snull_sys \<times> (nat \<times> byte list) list \<Rightarrow> (snull_sys \<times> (nat \<times> byte list) list) option" where
  "snull_exec csum (Xmit ok k bs i) (g, sent) = do {
     (h, r) \<leftarrow> snull_tx csum ok k bs i g;
     Some (h, sent @ [(i, snull_rewrite csum (pad_frame bs))]) }"
| "snull_exec csum (Poll budget a ok i) (g, sent) = do { (n, h) \<leftarrow> snull_poll budget a ok i g; Some (h, sent) }"
| "snull_exec csum (Intr i) (g, sent) = do { h \<leftarrow> snull_interrupt True i g; Some (h, sent) }"

lemma snull_exec_safe:
  assumes "snull_inv ids s" and "snull_enabled s e"
  shows "\<exists>t. snull_exec csum e s = Some t \<and> snull_inv ids t"
proof -
  obtain g sent where s: "s = (g, sent)" by (cases s)
  show ?thesis
  proof (cases e)
    case (Xmit ok k bs i)
    then show ?thesis using inv_tx[of ids g sent i k bs csum ok] assms unfolding s by auto
  next
    case (Poll budget a ok i)
    then show ?thesis using inv_poll[of ids g sent i budget a ok] assms unfolding s by force
  next
    case (Intr i)
    then show ?thesis using inv_interrupt[of ids g sent i True] assms unfolding s by auto
  qed
qed

interpretation snull: safe_handlers "snull_exec csum" snull_enabled "snull_inv ids" for csum ids
  by unfold_locales (rule snull_exec_safe)

subsection \<open>Two interfaces after loading and opening\<close>

text \<open>Every pool buffer could be allocated; \<open>l0\<close> and \<open>l1\<close> are their identities.\<close>

definition snull_up :: "nat list \<Rightarrow> nat list \<Rightarrow> snull_sys \<Rightarrow> snull_sys" where
  "snull_up l0 l1 g =
     fst (snull_open 1 (fst (snull_open 0 (snull_init (map Some l1) 1 (snull_init (map Some l0) 0 g)))))"

definition pool_of :: "nat \<Rightarrow> nat list \<Rightarrow> snull_packet list" where
  "pool_of i l = rev (map (\<lambda>k. \<lparr>pk_id = k, pk_dev = i, pdata = []\<rparr>) l)"

lemma fill_pool_all: "fill_pool i (map Some l) acc = pool_of i l @ acc"
  by (induction l arbitrary: acc) (simp_all add: pool_of_def)

lemma up_fields:
  "ppool (sn (snull_up l0 l1 g) 0) = pool_of 0 l0" "ppool (sn (snull_up l0 l1 g) 1) = pool_of 1 l1"
  "i \<le> 1 \<Longrightarrow> rx_queue (sn (snull_up l0 l1 g) i) = [] \<and> \<not> lock_held (sn (snull_up l0 l1 g) i) \<and>
     \<not> queue_stopped (sn (snull_up l0 l1 g) i) \<and> rx_int_enabled (sn (snull_up l0 l1 g) i) \<and>
     skb (sn (snull_up l0 l1 g) i) = None \<and> stats (sn (snull_up l0 l1 g) i) = zero_stats \<and>
     mtu (sn (snull_up l0 l1 g) i) = 1500"
  "skbs (snull_up l0 l1 g) = skbs g" "delivered (snull_up l0 l1 g) = delivered g"
  "use_napi (snull_up l0 l1 g) = use_napi g" "lockup (snull_up l0 l1 g) = lockup g"
  by (cases i; simp add: snull_up_def snull_open_def snull_init_def snull_setup_pool_def snull_rx_ints_def
      fill_pool_all Let_def)+

lemma up_inv:
  assumes "use_napi g" "skbs g = []" "delivered g = []" "l0 \<noteq> []" "l1 \<noteq> []"
  shows "snull_inv (mset l0, mset l1) (snull_up l0 l1 g, [])"
proof -
  have ids: "image_mset pk_id (mset (pool_of i l)) = mset l" and dev: "\<forall>p \<in> set (pool_of i l). pk_dev p = i"
    and ne: "pool_of i l = [] \<longleftrightarrow> l = []" for i l
    by (simp_all add: pool_of_def image_mset.compositionality comp_def)
  note u0 = up_fields(3)[of 0 l0 l1 g, simplified] and u1 = up_fields(3)[of 1 l0 l1 g, simplified]
  have "dev_ok (snull_up l0 l1 g) [] 0" "dev_ok (snull_up l0 l1 g) [] 1"
    using u0 u1 dev assms up_fields(1,2)[of l0 l1 g]
    by (simp_all add: dev_ok_def ne sent_to_def got_at_def waiting_at_def up_fields(5) zero_stats_def)
  moreover have "pool_ids 0 (snull_up l0 l1 g) = mset l0" "pool_ids 1 (snull_up l0 l1 g) = mset l1"
    using u0 u1 up_fields(1,2)[of l0 l1 g]
    by (simp_all add: pool_ids_def ids)
  moreover have "skb_ok (snull_up l0 l1 g)"
    using u0 u1 assms by (simp add: skb_ok_def up_fields(4))
  ultimately show ?thesis using assms by (simp add: snull_inv_def up_fields)
qed

subsection \<open>Properties\<close>

text \<open>C33. With NAPI, any sequence of transmissions (frames of at most 1500 bytes), polls with any
  budget and allocation failures, and interrupts returns: no lock is taken twice, no socket
  buffer is freed twice, no empty pool is used. After it each pool still has exactly its
  buffers (in the pool or in the other side's receive queue), every frame sent to an
  interface was delivered to it, waits, or was counted as dropped, and an interface with
  waiting frames is scheduled to be polled.\<close>

theorem snull_events_safe:
  assumes "use_napi g0" "skbs g0 = []" "delivered g0 = []" "l0 \<noteq> []" "l1 \<noteq> []"
  shows "\<exists>g sent. exec_all (snull_exec csum) snull_enabled events (snull_up l0 l1 g0, []) = Some (g, sent) \<and>
    pool_ids 0 g = mset l0 \<and> pool_ids 1 g = mset l1 \<and>
    (\<forall>i \<in> {0, 1}. got_at i g + waiting_at i g \<subseteq># sent_to i sent \<and>
      size (sent_to i sent) = size (got_at i g) + size (waiting_at i g) + rx_dropped (stats (sn g i)) \<and>
      (rx_queue (sn g i) \<noteq> [] \<longrightarrow> napi_scheduled (sn g i)))"
proof -
  obtain g sent where g: "exec_all (snull_exec csum) snull_enabled events (snull_up l0 l1 g0, []) = Some (g, sent)"
    and inv: "snull_inv (mset l0, mset l1) (g, sent)"
    using snull.exec_all_safe[OF up_inv[OF assms]] by fast
  have "got_at i g + waiting_at i g \<subseteq># sent_to i sent \<and>
      size (sent_to i sent) = size (got_at i g) + size (waiting_at i g) + rx_dropped (stats (sn g i)) \<and>
      (rx_queue (sn g i) \<noteq> [] \<longrightarrow> napi_scheduled (sn g i))" if "dev_ok g sent i" for i
    using that by (auto simp: dev_ok_def)
  then show ?thesis using g inv by (auto simp: snull_inv_def)
qed

definition demo_sys :: snull_sys where
  "demo_sys = \<lparr>sn = (\<lambda>i. \<lparr>stats = zero_stats, status = 0, ppool = [], rx_queue = [],
     rx_int_enabled = False, tx_packetlen = 0, skb = None, lock_held = False, queue_stopped = True,
     napi_enabled = False, napi_scheduled = False, dev_addr = [], mtu = 0, if_up = False,
     base_addr = 0, irq = 0\<rparr>), skbs = [], delivered = [], use_napi = True, lockup = 0\<rparr>"

lemma snull_events_safe_witness:
  "\<exists>g sent. exec_all (snull_exec (\<lambda>h. (0, 0))) snull_enabled
      [Xmit True 7 (replicate 40 1) 0, Poll 4 [True] True 1] (snull_up [1, 2] [3] demo_sys, []) = Some (g, sent) \<and>
    pool_ids 0 g = mset [1, 2] \<and> pool_ids 1 g = mset [3]"
  using snull_events_safe[of demo_sys "[1, 2]" "[3]" "\<lambda>h. (0, 0)"
    "[Xmit True 7 (replicate 40 1) 0, Poll 4 [True] True 1]"]
  by (auto simp: demo_sys_def)

text \<open>A burst of transmissions; the buffers and the frames are given in the order of sending.\<close>

definition burst :: "nat \<Rightarrow> (nat \<times> byte list) list \<Rightarrow> snull_event list" where
  "burst i fs = map (\<lambda>(k, bs). Xmit True k bs i) fs"

lemma burst_queues:
  assumes "snull_inv ids (g, sent)" "i \<le> 1" "lockup g = 0" "\<not> queue_stopped (sn g i)"
    "length fs < length (ppool (sn g i))" "distinct (map fst fs)" "set (map fst fs) \<inter> set (skbs g) = {}"
    "\<forall>f \<in> set fs. length (snd f) \<le> ETH_DATA_LEN"
  shows "\<exists>h s. exec_all (snull_exec csum) snull_enabled (burst i fs) (g, sent) = Some (h, s) \<and>
    snull_inv ids (h, s) \<and> delivered h = delivered g \<and>
    map pdata (rx_queue (sn h (twin i))) =
      rev (map (\<lambda>f. snull_rewrite csum (pad_frame (snd f))) fs) @ map pdata (rx_queue (sn g (twin i)))"
  using assms
proof (induction fs arbitrary: g sent)
  case (Cons f fs)
  obtain k bs where f: "f = (k, bs)" by (cases f)
  obtain h p rest where h: "snull_tx csum True k bs i g = Some (h, 0)"
    "snull_inv ids (h, sent @ [(i, snull_rewrite csum (pad_frame bs))])" "ppool (sn g i) = p # rest"
    "ppool (sn h i) = rest" "delivered h = delivered g" "set (skbs h) \<subseteq> insert k (set (skbs g))"
    "lockup h = 0" "queue_stopped (sn h i) = (rest = [])"
    "rx_queue (sn h (twin i)) = p\<lparr>pdata := snull_rewrite csum (pad_frame bs)\<rparr> # rx_queue (sn g (twin i))"
    using inv_tx[OF Cons.prems(1,2,4), of k bs csum True] Cons.prems(3,7,8) by (auto simp: f)
  have "set (map fst fs) \<inter> set (skbs h) = {}" using h(6) Cons.prems(6,7) by (auto simp: f)
  moreover have "length fs < length rest" using Cons.prems(5) h(3) by simp
  ultimately obtain u s where u: "exec_all (snull_exec csum) snull_enabled (burst i fs)
        (h, sent @ [(i, snull_rewrite csum (pad_frame bs))]) = Some (u, s)"
    "snull_inv ids (u, s)" "delivered u = delivered h"
    "map pdata (rx_queue (sn u (twin i))) =
      rev (map (\<lambda>f. snull_rewrite csum (pad_frame (snd f))) fs) @ map pdata (rx_queue (sn h (twin i)))"
    using Cons.IH[OF h(2) Cons.prems(2) h(7)] h(4,8) Cons.prems(6,8) by fastforce
  have en: "snull_enabled (g, sent) (Xmit True k bs i)"
    using Cons.prems by (simp add: f)
  show ?case
    using u h(1,5,9) en by (simp add: burst_def f del: snull_enabled.simps)
qed (simp add: burst_def)

lemma exec_all_append:
  "exec_all exec enabled (xs @ ys) s = do { t \<leftarrow> exec_all exec enabled xs s; exec_all exec enabled ys t }"
  by (induction xs arbitrary: s) (auto split: option.splits)

text \<open>One poll after the other, as long as the kernel has the interface scheduled: with the budget \<open>w\<close> for each, they
  take the queue from its head.\<close>

definition polls :: "nat \<Rightarrow> nat \<Rightarrow> allocs list \<Rightarrow> snull_event list" where
  "polls w i as = map (\<lambda>a. Poll w a True i) as"

fun kept_by_polls :: "nat \<Rightarrow> allocs list \<Rightarrow> 'a list \<Rightarrow> 'a list" where
  "kept_by_polls w [] xs = []"
| "kept_by_polls w (a # as) xs = kept a (take w xs) @ kept_by_polls w as (drop w xs)"

lemma kept_by_polls_map: "kept_by_polls w as (map f xs) = map f (kept_by_polls w as xs)"
  by (induction as arbitrary: xs) (simp_all add: take_map drop_map kept_map)

lemma kept_by_polls_all:
  "\<forall>a \<in> set as. take w a = replicate w True \<Longrightarrow> kept_by_polls w as xs = take (w * length as) xs"
  by (induction as arbitrary: xs) (simp_all add: kept_all[of w] take_add)

lemma kept_by_polls_Nil [simp]: "kept_by_polls w as [] = []"
  by (induction as) simp_all

lemma polls_pass_on:
  "snull_inv ids (g, sent) \<Longrightarrow> i \<le> 1 \<Longrightarrow>
    \<exists>h. exec_all (snull_exec csum) snull_enabled (polls w i as) (g, sent) = Some (h, sent) \<and>
      rx_queue (sn h i) = drop (w * length as) (rx_queue (sn g i)) \<and>
      delivered h = delivered g @ map (passed i) (kept_by_polls w as (rx_queue (sn g i)))"
proof (induction as arbitrary: g)
  case Nil
  then show ?case by (simp add: polls_def)
next
  case (Cons a as)
  let ?q = "rx_queue (sn g i)"
  show ?case
  proof (cases "napi_scheduled (sn g i)")
    case True
    obtain h where h: "snull_poll w a True i g = Some (min w (length ?q), h)" "snull_inv ids (h, sent)"
      "rx_queue (sn h i) = drop w ?q" "delivered h = delivered g @ map (passed i) (kept a (take w ?q))"
      using inv_poll[OF Cons.prems] by blast
    show ?thesis using Cons.IH[OF h(2) Cons.prems(2)] h(1,3,4) True Cons.prems(2)
      by (auto simp: polls_def add.commute)
  next
    case False
    have "?q = []" using False Cons.prems by (cases i) (auto simp: snull_inv_def dev_ok_def)
    then show ?thesis using Cons.IH[OF Cons.prems] False by (auto simp: polls_def)
  qed
qed

text \<open>C34. With NAPI and the simulated lockups off, a burst of frames of at most 1500 bytes from interface 0, shorter than its
  pool, is taken by the following polls of interface 1, each with the budget w (the driver registers the weight 2) and enough of
  them: each frame rewritten, and in the reverse of the order of sending, because the receive queue is a stack. Delivered are exactly
  the frames whose socket buffer could be had; when every allocation succeeds, all of them. Nothing stays in the queue.\<close>

theorem snull_burst_reversed:
  assumes "use_napi g0" "skbs g0 = []" "delivered g0 = []" "lockup g0 = 0" "l1 \<noteq> []"
    and "length fs < length l0" "distinct (map fst fs)" "\<forall>f \<in> set fs. length (snd f) \<le> ETH_DATA_LEN"
    and "length fs \<le> w * length as"
  shows "let frames = rev (map (\<lambda>f. (1, snull_rewrite csum (pad_frame (snd f)))) fs) in
    \<exists>h s. exec_all (snull_exec csum) snull_enabled (burst 0 fs @ polls w 1 as) (snull_up l0 l1 g0, []) = Some (h, s) \<and>
      delivered h = kept_by_polls w as frames \<and> rx_queue (sn h 1) = [] \<and>
      ((\<forall>a \<in> set as. take w a = replicate w True) \<longrightarrow> delivered h = frames)"
proof -
  let ?frames = "rev (map (\<lambda>f. (1, snull_rewrite csum (pad_frame (snd f)))) fs)"
  have l0: "l0 \<noteq> []" using assms by auto
  note u = up_fields(3)[of 0 l0 l1 g0, simplified] up_fields(3)[of 1 l0 l1 g0, simplified]
  note inv = up_inv[OF assms(1-3) l0 assms(5)]
  obtain g s where g: "exec_all (snull_exec csum) snull_enabled (burst 0 fs) (snull_up l0 l1 g0, []) = Some (g, s)"
    and ig: "snull_inv (mset l0, mset l1) (g, s)" and dg: "delivered g = []"
    and q: "map pdata (rx_queue (sn g 1)) = rev (map (\<lambda>f. snull_rewrite csum (pad_frame (snd f))) fs)"
    using burst_queues[OF inv, of 0 fs csum] u assms(2-8) by (fastforce simp: up_fields pool_of_def)
  have len: "length (rx_queue (sn g 1)) = length fs" using arg_cong[OF q, of length] by simp
  obtain h where h: "exec_all (snull_exec csum) snull_enabled (polls w 1 as) (g, s) = Some (h, s)"
    "rx_queue (sn h 1) = []" "delivered h = map (passed 1) (kept_by_polls w as (rx_queue (sn g 1)))"
    using polls_pass_on[OF ig, of 1 csum w as] len assms(9) dg by auto
  have "map (passed 1) (rx_queue (sn g 1)) = map (Pair 1) (map pdata (rx_queue (sn g 1)))" by simp
  also have "\<dots> = ?frames" unfolding q by (simp add: rev_map)
  finally have d: "delivered h = kept_by_polls w as ?frames" using h(3) by (simp add: kept_by_polls_map [symmetric])
  then have "(\<forall>a \<in> set as. take w a = replicate w True) \<longrightarrow> delivered h = ?frames"
    using assms(9) by (simp add: kept_by_polls_all)
  then show ?thesis using g h(1,2) d by (simp add: exec_all_append)
qed

lemma snull_burst_reversed_witness:
  "\<exists>h s. exec_all (snull_exec (\<lambda>h. (0, 0))) snull_enabled
      (burst 0 [(1, replicate 60 1), (2, replicate 60 2), (3, replicate 60 3)] @ polls 2 1 [[True, False], [True]])
      (snull_up [1, 2, 3, 4] [5] demo_sys, []) = Some (h, s) \<and> length (delivered h) = 2 \<and> rx_queue (sn h 1) = []"
proof -
  have "use_napi demo_sys" "skbs demo_sys = []" "delivered demo_sys = []" "lockup demo_sys = 0" by (simp_all add: demo_sys_def)
  from snull_burst_reversed[OF this, of "[5]" "[(1, replicate 60 1), (2, replicate 60 2), (3, replicate 60 3)]" "[1, 2, 3, 4]" 2
      "[[True, False], [True]]" "\<lambda>h. (0, 0)"] show ?thesis
    by (auto simp: ETH_DATA_LEN_def Let_def simp del: exec_all.simps snull_exec.simps)
qed

subsection \<open>A frame between the last test and the end of a poll\<close>

text \<open>
  The poll of interface \<open>j\<close> has found its queue empty and has not yet ended, when the other interface transmits: the receive interrupt
  is still off, so that the frame is only queued. The end of the poll turns the interrupt on and takes the interface off the
  schedule. The frame waits, and nothing asks for it until the next frame comes.
\<close>

lemma snull_poll_loses_frame:
  assumes inv: "snull_inv ids (g, sent)" and i: "i \<le> 1" and run: "\<not> queue_stopped (sn g i)"
    and k: "k \<notin> set (skbs g)" and len: "length bs \<le> ETH_DATA_LEN"
    and poll: "rx_queue (sn g (twin i)) = []"
  shows "\<exists>h h'. snull_poll_loop (Suc n) a (twin i) g = Some (0, g) \<and> snull_tx csum ok k bs i g = Some (h, 0) \<and>
    snull_poll_complete True (twin i) h = Some h' \<and>
    length (rx_queue (sn h' (twin i))) = 1 \<and> \<not> napi_scheduled (sn h' (twin i)) \<and> rx_int_enabled (sn h' (twin i)) \<and>
    \<not> snull_enabled (h', s') (Poll budget a' ok' (twin i))"
proof -
  obtain h p where h: "snull_tx csum ok k bs i g = Some (h, 0)"
    "snull_inv ids (h, sent @ [(i, snull_rewrite csum (pad_frame bs))])"
    "rx_queue (sn h (twin i)) = [p\<lparr>pdata := snull_rewrite csum (pad_frame bs)\<rparr>]"
    using inv_tx[OF inv i run k len, of csum ok] poll by auto
  have "\<not> lock_held (sn h (twin i))"
    using h(2) i by (cases i) (auto simp: snull_inv_def dev_ok_def)
  then show ?thesis using h(1,3) poll by (simp add: snull_poll_complete_def with_lock_def)
qed

text \<open>The header the checksum is computed over: its length is in the first byte.\<close>

definition ip_header :: "byte list \<Rightarrow> byte list" where
  "ip_header b = take (4 * unat (b ! 14 AND 15)) (drop 14 (b[24 := 0, 25 := 0]))"

lemma rewrite_nth:
  assumes "34 \<le> length b" "j < length b" "j \<noteq> 24" "j \<noteq> 25"
  shows "snull_rewrite csum b ! j = (if j = 28 \<or> j = 32 then b ! j XOR 1 else b ! j)"
  using assms by (auto simp: snull_rewrite_def Let_def nth_list_update split: prod.split)

lemma rewrite_length [simp]: "length (snull_rewrite csum b) = length b"
  by (simp add: snull_rewrite_def Let_def split: prod.split)

text \<open>What the peer receives differs from the frame sent in exactly the lowest bit of the
  third octet of both IP addresses and the checksum bytes; a frame whose checksum is right
  and that crosses the two interfaces twice comes back unchanged.\<close>

lemma snull_rewrite_round_trip:
  assumes "34 \<le> length b"
  shows "(\<forall>j < length b. j \<notin> {24, 25} \<longrightarrow>
      snull_rewrite csum b ! j = (if j \<in> {28, 32} then b ! j XOR 1 else b ! j)) \<and>
    ((b ! 24, b ! 25) = csum (ip_header b) \<longrightarrow> snull_rewrite csum (snull_rewrite csum b) = b)"
proof (intro conjI impI)
  show "\<forall>j < length b. j \<notin> {24, 25} \<longrightarrow>
      snull_rewrite csum b ! j = (if j \<in> {28, 32} then b ! j XOR 1 else b ! j)"
    using rewrite_nth[OF assms, where csum = csum] by auto
  assume cs: "(b ! 24, b ! 25) = csum (ip_header b)"
  let ?r = "snull_rewrite csum b"
  define z where "z = ((?r[28 := ?r ! 28 XOR 1])[32 := ?r[28 := ?r ! 28 XOR 1] ! 32 XOR 1])[24 := 0, 25 := 0]"
  have flip: "(x XOR 1) XOR 1 = (x :: byte)" for x by (simp add: xor.assoc)
  have z: "z = b[24 := 0, 25 := 0]"
  proof (rule nth_equalityI)
    fix j assume "j < length z"
    then have j: "j < length b" by (simp add: z_def)
    show "z ! j = b[24 := 0, 25 := 0] ! j"
      using assms j rewrite_nth[OF assms j, of csum] rewrite_nth[OF assms, of 28 csum]
        rewrite_nth[OF assms, of 32 csum]
      by (auto simp: z_def nth_list_update flip)
  qed (simp add: z_def)
  have "snull_rewrite csum ?r =
      (let (c0, c1) = csum (take (4 * unat (z ! 14 AND 15)) (drop 14 z)) in z[24 := c0, 25 := c1])"
    unfolding snull_rewrite_def[of csum ?r] Let_def z_def by simp
  also have "take (4 * unat (z ! 14 AND 15)) (drop 14 z) = ip_header b"
    using assms by (simp add: z ip_header_def nth_list_update)
  also have "(let (c0, c1) = csum (ip_header b) in z[24 := c0, 25 := c1]) = z[24 := b ! 24, 25 := b ! 25]"
    by (simp flip: cs)
  also have "\<dots> = b"
    using assms by (intro nth_equalityI) (auto simp: z nth_list_update)
  finally show "snull_rewrite csum ?r = b" .
qed

lemma snull_rewrite_round_trip_example:
  "snull_rewrite (\<lambda>h. (9, 9)) (snull_rewrite (\<lambda>h. (9, 9)) (replicate 60 9)) = replicate 60 9"
  using snull_rewrite_round_trip[of "replicate 60 9" "\<lambda>h. (9, 9)"] by simp

text \<open>The interfaces announce an MTU of 1500, so that the kernel may hand over frames of up to
  1514 bytes with the link header, but a pool buffer holds 1500: transmitting any frame of
  1501 to 1514 bytes from an open interface with a free buffer writes past the buffer.\<close>

lemma snull_full_frame_overflows:
  assumes "l0 \<noteq> []" "ETH_DATA_LEN < length bs" "int (length bs) \<le> mtu (sn (snull_up l0 l1 g0) 0) + int ETH_HLEN"
  shows "snull_tx csum ok k bs 0 (snull_up l0 l1 g0) = None"
proof -
  note u = up_fields(3)[of 0 l0 l1 g0, simplified]
  obtain p rest where p: "pool_of 0 l0 = p # rest"
    using assms(1) by (cases "pool_of 0 l0") (auto simp: pool_of_def)
  have "\<not> length bs < 34" "\<not> length bs < 60" using assms(2) by (simp_all add: ETH_DATA_LEN_def)
  then show ?thesis
    using u assms(2)
    by (simp add: snull_tx_def snull_hw_tx_def snull_get_tx_buffer_def ETH_HLEN_def IP_HLEN_def
        ETH_ZLEN_def up_fields(1) p)
qed

lemma snull_full_frame_overflows_example:
  "snull_tx (\<lambda>h. (0, 0)) True 1 (replicate 1514 0) 0 (snull_up [1] [2] demo_sys) = None"
  using snull_full_frame_overflows[of "[1]" "replicate 1514 0" "[2]" demo_sys] up_fields(3)[of 0 "[1]" "[2]" demo_sys]
  by (simp add: ETH_DATA_LEN_def ETH_HLEN_def)

end
