(* ===== verification/Sbull.thy ===== *)
theory Sbull
  imports Device_Interfaces
begin

section \<open>The sbull block device\<close>

text \<open>
  \<open>sbull/sbull.c\<close>: a disk in memory. A request consists of bios, a bio of segments; a segment
  is the memory of its \<open>bio_vec\<close>, and a copy beyond it has no value. The number of
  bytes of the current segment of a bio or request (\<open>bio_cur_bytes\<close>, \<open>blk_rq_cur_sectors\<close>) is
  the kernel's answer and a parameter, as is the allocator.
\<close>

subsection \<open>Data\<close>

definition KERNEL_SECTOR_SIZE :: nat where "KERNEL_SECTOR_SIZE = 512"
definition SBULL_MINORS :: nat where "SBULL_MINORS = 16"

datatype request_mode = RM_SIMPLE | RM_FULL | RM_NOQUEUE | Other_mode int

record gendisk =
  first_minor :: nat
  capacity :: int

definition s16 :: "int \<Rightarrow> int" where
  "s16 x = (x + 2 ^ 15) mod 2 ^ 16 - 2 ^ 15"

text \<open>\<open>sb_data\<close> is the address of the data array; the queue is known by the mode it serves.\<close>

record sbull_dev =
  sb_size :: int
  sb_data :: "nat option"
  users :: int
  media_change :: int
  queue :: "request_mode option"
  gd :: "gendisk option"
  timer_pending :: bool

record sbio =
  bi_sector :: nat
  segs :: "cell list list"

record srequest =
  rq_pos :: nat
  rq_write :: bool
  passthrough :: bool
  bios :: "sbio list"

datatype blk_status = BLK_STS_OK | BLK_STS_IOERR

subsection \<open>Transfers\<close>

text \<open>All sizes are \<open>unsigned long\<close>; the device size, an \<open>int\<close>, is converted for the comparison.\<close>

definition sbull_transfer ::
  "sbull_dev \<Rightarrow> nat \<Rightarrow> nat \<Rightarrow> cell list \<Rightarrow> bool \<Rightarrow> heap \<Rightarrow> (heap \<times> cell list) option" where
  "sbull_transfer d sector nsect buffer write h =
     (let offset = sector * KERNEL_SECTOR_SIZE mod 2 ^ 64;
          nbytes = nsect * KERNEL_SECTOR_SIZE mod 2 ^ 64
      in if u64 (sb_size d) < int ((offset + nbytes) mod 2 ^ 64) then Some (h, buffer)
         else if length buffer < nbytes then None
         else if write then do { h1 \<leftarrow> heap_store (sb_data d) offset (take nbytes buffer) h; Some (h1, buffer) }
         else do { bs \<leftarrow> heap_load (sb_data d) offset nbytes h; Some (h, bs @ drop nbytes buffer) })"

text \<open>The segments one after the other, \<open>num\<close> sectors each; returns the segments' memory.\<close>

fun seg_loop ::
  "sbull_dev \<Rightarrow> nat \<Rightarrow> bool \<Rightarrow> nat \<Rightarrow> cell list list \<Rightarrow> heap \<Rightarrow> (heap \<times> cell list list) option" where
  "seg_loop d num write pos [] h = Some (h, [])"
| "seg_loop d num write pos (s # ss) h = do {
     (h1, s1) \<leftarrow> sbull_transfer d pos num s write h;
     (h2, ss2) \<leftarrow> seg_loop d num write ((pos + num) mod 2 ^ 64) ss h1;
     Some (h2, s1 # ss2) }"

definition sbull_request ::
  "(srequest \<Rightarrow> nat) \<Rightarrow> sbull_dev \<Rightarrow> srequest \<Rightarrow> heap \<Rightarrow> (heap \<times> cell list list \<times> blk_status) option" where
  "sbull_request cur_sectors d req h =
     (if passthrough req then Some (h, concat (map segs (bios req)), BLK_STS_IOERR)
      else do {
        (h1, ss) \<leftarrow> seg_loop d (cur_sectors req) (rq_write req) (rq_pos req) (concat (map segs (bios req))) h;
        Some (h1, ss, BLK_STS_OK) })"

definition sbull_xfer_bio ::
  "(sbio \<Rightarrow> nat) \<Rightarrow> sbull_dev \<Rightarrow> bool \<Rightarrow> sbio \<Rightarrow> heap \<Rightarrow> (heap \<times> cell list list \<times> int) option" where
  "sbull_xfer_bio cur_bytes d write bio h = do {
     (h1, ss) \<leftarrow> seg_loop d (cur_bytes bio div KERNEL_SECTOR_SIZE) write (bi_sector bio) (segs bio) h;
     Some (h1, ss, 0) }"

fun sbull_xfer_request ::
  "(sbio \<Rightarrow> nat) \<Rightarrow> sbull_dev \<Rightarrow> bool \<Rightarrow> sbio list \<Rightarrow> heap \<Rightarrow> (heap \<times> cell list list \<times> nat) option" where
  "sbull_xfer_request cur_bytes d write [] h = Some (h, [], 0)"
| "sbull_xfer_request cur_bytes d write (b # bs) h = do {
     (h1, ss1, r) \<leftarrow> sbull_xfer_bio cur_bytes d write b h;
     (h2, ss2, n) \<leftarrow> sbull_xfer_request cur_bytes d write bs h1;
     Some (h2, ss1 @ ss2, sum_list (map length (segs b)) div KERNEL_SECTOR_SIZE + n) }"

definition sbull_full_request ::
  "(sbio \<Rightarrow> nat) \<Rightarrow> sbull_dev \<Rightarrow> srequest \<Rightarrow> heap \<Rightarrow> (heap \<times> cell list list \<times> blk_status) option" where
  "sbull_full_request cur_bytes d req h =
     (if passthrough req then Some (h, concat (map segs (bios req)), BLK_STS_IOERR)
      else do {
        (h1, ss, n) \<leftarrow> sbull_xfer_request cur_bytes d (rq_write req) (bios req) h;
        Some (h1, ss, BLK_STS_OK) })"

definition sbull_make_request ::
  "(sbio \<Rightarrow> nat) \<Rightarrow> sbull_dev \<Rightarrow> bool \<Rightarrow> sbio \<Rightarrow> heap \<Rightarrow> (heap \<times> cell list list \<times> int) option" where
  "sbull_make_request cur_bytes d write bio h = sbull_xfer_bio cur_bytes d write bio h"

subsection \<open>Opening, closing, media change\<close>

definition sbull_media_changed :: "sbull_dev \<Rightarrow> bool" where
  "sbull_media_changed d = (media_change d \<noteq> 0)"

definition sbull_revalidate :: "sbull_dev \<Rightarrow> heap \<Rightarrow> (sbull_dev \<times> heap) option" where
  "sbull_revalidate d h =
     (if media_change d \<noteq> 0 then do {
        h1 \<leftarrow> heap_store (sb_data d) 0 (replicate (nat (sb_size d)) (Some 0)) h;
        Some (d\<lparr>media_change := 0\<rparr>, h1) }
      else Some (d, h))"

text \<open>\<open>check\<close> is the kernel's media check, which calls \<open>sbull_media_changed\<close> where it exists.\<close>

definition sbull_open :: "(sbull_dev \<Rightarrow> bool) \<Rightarrow> sbull_dev \<Rightarrow> heap \<Rightarrow> (sbull_dev \<times> heap) option" where
  "sbull_open check d h = do {
     let d1 = d\<lparr>timer_pending := False\<rparr>;
     (d2, h2) \<leftarrow> (if users d1 = 0 \<and> check d1 then sbull_revalidate d1 h else Some (d1, h));
     Some (d2\<lparr>users := s16 (users d2 + 1)\<rparr>, h2) }"

definition sbull_release :: "sbull_dev \<Rightarrow> sbull_dev" where
  "sbull_release d =
     (let d1 = d\<lparr>users := s16 (users d - 1)\<rparr>
      in if users d1 = 0 then d1\<lparr>timer_pending := True\<rparr> else d1)"

text \<open>The timer runs this function once.\<close>

definition sbull_invalidate :: "sbull_dev \<Rightarrow> sbull_dev" where
  "sbull_invalidate d =
     (let d1 = d\<lparr>timer_pending := False\<rparr>
      in if users d1 \<noteq> 0 \<or> sb_data d1 = None then d1 else d1\<lparr>media_change := 1\<rparr>)"

record hd_geometry =
  cylinders :: int
  heads :: nat
  sectors :: nat
  start :: nat

text \<open>
  The argument is the parameter \<open>hardsect_size\<close>; the product is computed as an \<open>int\<close> and
  \<open>cylinders\<close> is an \<open>unsigned short\<close>.
\<close>

definition sbull_ioctl :: "int \<Rightarrow> nat \<Rightarrow> nat \<Rightarrow> nat \<Rightarrow> sbull_dev \<Rightarrow> hd_geometry outcome" where
  "sbull_ioctl hardsect_size HDIO_GETGEO cmd uncopied d =
     (if cmd = HDIO_GETGEO then
        (let sz = s32 (sb_size d * (hardsect_size sdiv int KERNEL_SECTOR_SIZE));
             geo = \<lparr>cylinders = (sz div 64) mod 2 ^ 16, heads = 4, sectors = 16, start = 4\<rparr>
         in if uncopied \<noteq> 0 then Fail EFAULT else Ret geo)
      else Fail ENOTTY)"

subsection \<open>Loading and unloading\<close>

record sbull_params =
  hardsect :: int
  nsectors :: int
  mode :: request_mode

definition zero_dev :: sbull_dev where
  "zero_dev = \<lparr>sb_size = 0, sb_data = None, users = 0, media_change = 0, queue = None, gd = None,
     timer_pending = False\<rparr>"

text \<open>\<open>vmalloc\<close> of an \<open>int\<close> size: nothing for 0, and a negative size is one that no memory has.\<close>

definition vmalloc :: "allocator \<Rightarrow> int \<Rightarrow> heap \<Rightarrow> nat option" where
  "vmalloc alloc n h = (if n \<le> 0 then None else alloc h (nat n))"

text \<open>\<open>qs\<close> are the answers for the queue and the disk. The label \<open>out_vfree\<close> frees the array
  but leaves its address in the device.\<close>

definition setup_device ::
  "sbull_params \<Rightarrow> allocator \<Rightarrow> nat \<Rightarrow> allocs \<Rightarrow> heap \<Rightarrow> (sbull_dev \<times> heap \<times> allocs) option" where
  "setup_device p alloc which qs h =
     (let d0 = zero_dev\<lparr>sb_size := s32 (nsectors p * hardsect p)\<rparr>
      in case vmalloc alloc (sb_size d0) h of
        None \<Rightarrow> Some (d0, h, qs)
      | Some a \<Rightarrow>
          (let d1 = d0\<lparr>sb_data := Some a\<rparr>;
               h1 = heap_new a (nat (sb_size d0)) h;
               (queue_ok, qs1) = kmalloc qs
           in if \<not> queue_ok then do { h2 \<leftarrow> kfree (sb_data d1) h1; Some (d1, h2, qs1) }
              else
                (let kind = (case mode p of RM_NOQUEUE \<Rightarrow> RM_NOQUEUE | RM_FULL \<Rightarrow> RM_FULL
                       | RM_SIMPLE \<Rightarrow> RM_SIMPLE | Other_mode m \<Rightarrow> RM_SIMPLE);
                     d2 = d1\<lparr>queue := Some kind\<rparr>;
                     (disk_ok, qs2) = kmalloc qs1
                 in if \<not> disk_ok then do { h2 \<leftarrow> kfree (sb_data d2) h1; Some (d2, h2, qs2) }
                    else Some (d2\<lparr>gd := Some \<lparr>first_minor = which * SBULL_MINORS,
                           capacity = s32 (nsectors p * (hardsect p sdiv int KERNEL_SECTOR_SIZE))\<rparr>\<rparr>,
                         h1, qs2))))"

fun setup_all ::
  "sbull_params \<Rightarrow> allocator \<Rightarrow> nat \<Rightarrow> nat \<Rightarrow> allocs \<Rightarrow> heap \<Rightarrow> (sbull_dev list \<times> heap \<times> allocs) option" where
  "setup_all p alloc i 0 qs h = Some ([], h, qs)"
| "setup_all p alloc i (Suc n) qs h = do {
     (d, h1, qs1) \<leftarrow> setup_device p alloc i qs h;
     (ds, h2, qs2) \<leftarrow> setup_all p alloc (Suc i) n qs1 h1;
     Some (d # ds, h2, qs2) }"

record sbull_module =
  Devices :: "nat option"
  devs :: "sbull_dev list"
  sb_heap :: heap
  blkdev_registered :: bool

text \<open>
  \<open>reg\<close> is the answer of \<open>register_blkdev\<close> and \<open>arr\<close> the size of the device array. By the
  documentation of the kernel the answer to a request for a given major number is 0.
\<close>

definition sbull_init ::
  "sbull_params \<Rightarrow> allocator \<Rightarrow> int \<Rightarrow> nat \<Rightarrow> nat \<Rightarrow> allocs \<Rightarrow> heap \<Rightarrow> (sbull_module \<times> int outcome) option" where
  "sbull_init p alloc reg arr ndevices qs h =
     (if reg \<le> 0 then
        Some (\<lparr>Devices = None, devs = [], sb_heap = h, blkdev_registered = (reg = 0)\<rparr>, Fail EBUSY)
      else case alloc h arr of
        None \<Rightarrow> Some (\<lparr>Devices = None, devs = [], sb_heap = h, blkdev_registered = False\<rparr>, Fail ENOMEM)
      | Some a \<Rightarrow> do {
          (ds, h1, qs1) \<leftarrow> setup_all p alloc 0 ndevices qs (heap_new a arr h);
          Some (\<lparr>Devices = Some a, devs = ds, sb_heap = h1, blkdev_registered = True\<rparr>, Ret 0) })"

fun free_all :: "sbull_dev list \<Rightarrow> heap \<Rightarrow> heap option" where
  "free_all [] h = Some h"
| "free_all (d # ds) h = do { h1 \<leftarrow> kfree (sb_data d) h; free_all ds h1 }"

definition sbull_exit :: "sbull_module \<Rightarrow> sbull_module option" where
  "sbull_exit m = do {
     h1 \<leftarrow> free_all (devs m) (sb_heap m);
     h2 \<leftarrow> kfree (Devices m) h1;
     Some (m\<lparr>Devices := None, devs := [], sb_heap := h2, blkdev_registered := False\<rparr>) }"

end
