(* ===== verification/Sbull_Props.thy ===== *)
theory Sbull_Props
  imports Sbull
begin

section \<open>Correctness of sbull\<close>

text \<open>
  The request modes against a disk that is one array: they agree and are right when all
  segments of a request have the same length, and are wrong otherwise. Then the life of the medium under opens,
  releases and the timer, and loading and unloading with what happens when a queue or disk cannot be had.
\<close>

subsection \<open>Transfers\<close>

definition disk :: "sbull_dev \<Rightarrow> heap \<Rightarrow> nat \<Rightarrow> cell list \<Rightarrow> bool" where
  "disk d h a blk \<longleftrightarrow> sb_data d = Some a \<and> h a = Some blk \<and> sb_size d = int (length blk) \<and> length blk < 2 ^ 31"

lemma mem_write_append:
  "off + length xs + length ys \<le> length blk \<Longrightarrow>
    mem_write (off + length xs) ys (mem_write off xs blk) = mem_write off (xs @ ys) blk"
  by (simp add: mem_write_def ac_simps)

lemma transfer_in_range:
  assumes "disk d h a blk" "512 * (pos + n) \<le> length blk" "512 * n \<le> length buf"
  shows "sbull_transfer d pos n buf write h =
    (if write then Some (h(a \<mapsto> mem_write (512 * pos) (take (512 * n) buf) blk), buf)
     else Some (h, take (512 * n) (drop (512 * pos) blk) @ drop (512 * n) buf))"
proof -
  have sz: "length blk < 2147483648" "sb_data d = Some a" "h a = Some blk" "sb_size d = int (length blk)"
    using assms(1) by (auto simp: disk_def)
  have m: "pos * 512 mod 2 ^ 64 = 512 * pos" "n * 512 mod 2 ^ 64 = 512 * n"
    "(512 * pos + 512 * n) mod 2 ^ 64 = 512 * (pos + n)"
    using assms(2) sz by simp_all
  have u: "u64 (sb_size d) = int (length blk)" using sz by simp
  have off: "512 * pos + 512 * n \<le> length blk" using assms(2) by simp
  have "\<not> int (length blk) < int (512 * (pos + n))" using assms(2) by linarith
  then show ?thesis
    unfolding sbull_transfer_def KERNEL_SECTOR_SIZE_def Let_def m u
    using assms(3) off sz(2,3) by (auto simp: heap_store_def heap_load_def)
qed

text \<open>A transfer that reaches beyond the end does nothing, and says nothing.\<close>

lemma transfer_beyond_end:
  assumes "disk d h a blk" "length blk < 512 * (pos + n)" "pos + n < 2 ^ 55"
  shows "sbull_transfer d pos n buf write h = Some (h, buf)"
proof -
  have sz: "length blk < 2147483648" "sb_size d = int (length blk)"
    using assms(1) by (auto simp: disk_def)
  have m: "pos * 512 mod 2 ^ 64 = 512 * pos" "n * 512 mod 2 ^ 64 = 512 * n"
    "(512 * pos + 512 * n) mod 2 ^ 64 = 512 * (pos + n)"
    using assms(3) by simp_all
  have u: "u64 (sb_size d) = int (length blk)" using sz by simp
  have "int (length blk) < int (512 * (pos + n))" using assms(2) by linarith
  then show ?thesis
    unfolding sbull_transfer_def KERNEL_SECTOR_SIZE_def Let_def m u by simp
qed

lemma seg_loop_write:
  "disk d h a blk \<Longrightarrow> \<forall>s \<in> set ss. length s = 512 * n \<Longrightarrow> 512 * (pos + n * length ss) \<le> length blk \<Longrightarrow>
    seg_loop d n True pos ss h = Some (h(a \<mapsto> mem_write (512 * pos) (concat ss) blk), ss)"
proof (induction ss arbitrary: pos h blk)
  case Nil
  then show ?case by (auto simp: disk_def fun_eq_iff)
next
  case (Cons s ss)
  let ?blk = "mem_write (512 * pos) s blk"
  have len: "512 * (pos + n) \<le> length blk" using Cons.prems(3) by (simp add: algebra_simps)
  have t: "sbull_transfer d pos n s True h = Some (h(a \<mapsto> ?blk), s)"
    using transfer_in_range[OF Cons.prems(1) len, of s True] Cons.prems(2) by simp
  have lb: "length ?blk = length blk" using len Cons.prems(2) by simp
  then have d: "disk d (h(a \<mapsto> ?blk)) a ?blk" using Cons.prems(1) by (simp add: disk_def)
  have p: "(pos + n) mod 2 ^ 64 = pos + n" using len Cons.prems(1) by (simp add: disk_def)
  have bd: "512 * (pos + n + n * length ss) \<le> length ?blk"
    using Cons.prems(3) lb by (simp add: algebra_simps)
  have al: "\<forall>s \<in> set ss. length s = 512 * n" using Cons.prems(2) by simp
  have ih: "seg_loop d n True (pos + n) ss (h(a \<mapsto> ?blk)) =
      Some (h(a \<mapsto> mem_write (512 * (pos + n)) (concat ss) ?blk), ss)"
    using Cons.IH[OF d al bd] by (simp only: fun_upd_upd)
  have "length (concat ss) = 512 * n * length ss"
    using al by (induction ss) (auto simp: algebra_simps)
  then have "mem_write (512 * (pos + n)) (concat ss) ?blk = mem_write (512 * pos) (s @ concat ss) blk"
    using mem_write_append[of "512 * pos" s "concat ss" blk] Cons.prems(2,3)
    by (simp add: algebra_simps)
  then show ?case using t ih p by (simp add: fun_eq_iff)
qed

lemma seg_loop_read:
  "disk d h a blk \<Longrightarrow> \<forall>s \<in> set ss. length s = 512 * n \<Longrightarrow> 512 * (pos + n * length ss) \<le> length blk \<Longrightarrow>
    \<exists>ss'. seg_loop d n False pos ss h = Some (h, ss') \<and> map length ss' = map length ss \<and>
      concat ss' = take (512 * n * length ss) (drop (512 * pos) blk)"
proof (induction ss arbitrary: pos)
  case (Cons s ss)
  have len: "512 * (pos + n) \<le> length blk" using Cons.prems(3) by (simp add: algebra_simps)
  have t: "sbull_transfer d pos n s False h = Some (h, take (512 * n) (drop (512 * pos) blk))"
    using transfer_in_range[OF Cons.prems(1) len, of s False] Cons.prems(2) by simp
  have p: "(pos + n) mod 2 ^ 64 = pos + n" using len Cons.prems(1) by (simp add: disk_def)
  obtain ss' where ih: "seg_loop d n False (pos + n) ss h = Some (h, ss')" "map length ss' = map length ss"
    "concat ss' = take (512 * n * length ss) (drop (512 * (pos + n)) blk)"
    using Cons.IH[of "pos + n"] Cons.prems by (auto simp: algebra_simps)
  have "take (512 * n + 512 * n * length ss) (drop (512 * pos) blk) =
      take (512 * n) (drop (512 * pos) blk) @ take (512 * n * length ss) (drop (512 * (pos + n)) blk)"
    by (simp add: take_add algebra_simps)
  then show ?case using t ih p Cons.prems len by (auto simp: algebra_simps)
qed simp

subsection \<open>Requests\<close>

text \<open>
  What the kernel documents of its answers: the current segment of a bio that has not been
  advanced is its first one, and the current segment of a request is that of its first bio.
\<close>

definition kernel_cur :: "(sbio \<Rightarrow> nat) \<Rightarrow> (srequest \<Rightarrow> nat) \<Rightarrow> bool" where
  "kernel_cur cur cur_s \<longleftrightarrow> (\<forall>b. segs b \<noteq> [] \<longrightarrow> cur b = length (hd (segs b))) \<and>
     (\<forall>r. bios r \<noteq> [] \<longrightarrow> cur_s r = cur (hd (bios r)) div 512)"

text \<open>Consecutive bios from sector \<open>pos\<close>, all segments of \<open>n\<close> sectors.\<close>

fun even_bios :: "nat \<Rightarrow> nat \<Rightarrow> sbio list \<Rightarrow> bool" where
  "even_bios n pos [] = True"
| "even_bios n pos (b # bs) \<longleftrightarrow> bi_sector b = pos \<and> segs b \<noteq> [] \<and> (\<forall>s \<in> set (segs b). length s = 512 * n) \<and>
     even_bios n (pos + n * length (segs b)) bs"

definition req_bytes :: "sbio list \<Rightarrow> cell list" where
  "req_bytes bs = concat (concat (map segs bs))"

lemma even_bios_segs: "even_bios n pos bs \<Longrightarrow> s \<in> set (concat (map segs bs)) \<Longrightarrow> length s = 512 * n"
  by (induction n pos bs rule: even_bios.induct) auto

lemma concat_even: "\<forall>s \<in> set ss. length s = m \<Longrightarrow> length (concat ss) = m * length ss"
  by (induction ss) auto

lemma even_bios_length:
  "even_bios n pos bs \<Longrightarrow> length (req_bytes bs) = 512 * (n * length (concat (map segs bs)))"
  unfolding req_bytes_def using concat_even[of "concat (map segs bs)" "512 * n"] even_bios_segs by auto

lemma seg_loop_append:
  "pos + n * length ss < 2 ^ 64 \<Longrightarrow> seg_loop d n w pos (ss @ ts) h = do {
    (h1, ss1) \<leftarrow> seg_loop d n w pos ss h;
    (h2, ts2) \<leftarrow> seg_loop d n w (pos + n * length ss) ts h1;
    Some (h2, ss1 @ ts2) }"
proof (induction ss arbitrary: pos h)
  case Nil
  then show ?case by (cases "seg_loop d n w pos ts h") auto
next
  case (Cons s ss)
  have m: "(pos + n) mod 2 ^ 64 = pos + n" using Cons.prems by simp
  have ih: "seg_loop d n w (pos + n) (ss @ ts) h0 = do {
    (h1, ss1) \<leftarrow> seg_loop d n w (pos + n) ss h0;
    (h2, ts2) \<leftarrow> seg_loop d n w (pos + n * length (s # ss)) ts h1;
    Some (h2, ss1 @ ts2) }" for h0
    using Cons.IH[of "pos + n" h0] Cons.prems by (simp add: algebra_simps)
  show ?case
    unfolding append_Cons seg_loop.simps(2) m ih
    by (auto split: Option.bind_split)
qed

text \<open>The bio-by-bio transfer is the segment loop over the whole request.\<close>

lemma xfer_request_seg_loop:
  assumes "kernel_cur cur cur_s"
  shows "even_bios n pos bs \<Longrightarrow> pos + n * length (concat (map segs bs)) < 2 ^ 64 \<Longrightarrow>
    sbull_xfer_request cur d w bs h = do {
      (h1, ss) \<leftarrow> seg_loop d n w pos (concat (map segs bs)) h;
      Some (h1, ss, n * length (concat (map segs bs))) }"
proof (induction bs arbitrary: pos h)
  case (Cons b bs)
  have b: "segs b \<noteq> []" "bi_sector b = pos" "\<forall>s \<in> set (segs b). length s = 512 * n"
    "even_bios n (pos + n * length (segs b)) bs"
    using Cons.prems(1) by auto
  then have cur: "cur b div 512 = n" using assms by (cases "segs b") (auto simp: kernel_cur_def)
  have size: "sum_list (map length (segs b)) div 512 = n * length (segs b)"
    using concat_even[OF b(3)] by (simp add: length_concat)
  have bd: "pos + n * length (segs b) + n * length (concat (map segs bs)) < 2 ^ 64"
    using Cons.prems(2) by (simp add: algebra_simps)
  have bd1: "pos + n * length (segs b) < 2 ^ 64" using bd by linarith
  have ih: "sbull_xfer_request cur d w bs h0 = do {
      (h1, ss) \<leftarrow> seg_loop d n w (pos + n * length (segs b)) (concat (map segs bs)) h0;
      Some (h1, ss, n * length (concat (map segs bs))) }" for h0
    by (rule Cons.IH[OF b(4) bd])
  show ?case
    unfolding sbull_xfer_request.simps(2) sbull_xfer_bio_def KERNEL_SECTOR_SIZE_def cur b(2) size ih
      list.map(2) concat.simps(2) seg_loop_append[OF bd1]
    by (auto simp: add_mult_distrib2 split: Option.bind_split)
qed simp

text \<open>C35. For a request within the disk whose segments all have the same number of sectors, the
  simple and the full request function do the same: a write stores the bytes of the
  segments, in order, at 512 times the start sector and changes nothing else; a read fills
  the segments, whose lengths stay, with the bytes of that range; both report success.\<close>

theorem sbull_modes_correct:
  assumes "kernel_cur cur cur_s" "disk d h a blk" "\<not> passthrough r" "bios r \<noteq> []"
    and "even_bios n (rq_pos r) (bios r)" "512 * rq_pos r + length (req_bytes (bios r)) \<le> length blk"
  shows "sbull_full_request cur d r h = sbull_request cur_s d r h \<and>
    (if rq_write r then
       sbull_request cur_s d r h = Some (h(a \<mapsto> mem_write (512 * rq_pos r) (req_bytes (bios r)) blk),
         concat (map segs (bios r)), BLK_STS_OK)
     else \<exists>ss. sbull_request cur_s d r h = Some (h, ss, BLK_STS_OK) \<and>
       map length ss = map length (concat (map segs (bios r))) \<and>
       concat ss = take (length (req_bytes (bios r))) (drop (512 * rq_pos r) blk))"
proof -
  let ?ss = "concat (map segs (bios r))"
  obtain b bs where r: "bios r = b # bs" using assms(4) by (cases "bios r") auto
  have b: "segs b \<noteq> []" "\<forall>s \<in> set (segs b). length s = 512 * n" using assms(5) r by auto
  then have cur: "cur_s r = n" using assms(1) r by (cases "segs b") (auto simp: kernel_cur_def)
  have al: "\<forall>s \<in> set ?ss. length s = 512 * n" using even_bios_segs[OF assms(5)] by blast
  have len: "length (req_bytes (bios r)) = 512 * (n * length ?ss)" by (rule even_bios_length[OF assms(5)])
  have bd: "512 * (rq_pos r + n * length ?ss) \<le> length blk" using assms(6) len by simp
  then have bd64: "rq_pos r + n * length ?ss < 2 ^ 64" using assms(2) by (simp add: disk_def)
  have "sbull_full_request cur d r h = sbull_request cur_s d r h"
    using assms(3) unfolding sbull_full_request_def sbull_request_def cur
      xfer_request_seg_loop[OF assms(1,5) bd64] by (auto split: Option.bind_split)
  moreover have "rq_write r \<Longrightarrow> sbull_request cur_s d r h =
      Some (h(a \<mapsto> mem_write (512 * rq_pos r) (req_bytes (bios r)) blk), ?ss, BLK_STS_OK)"
    using assms(3) seg_loop_write[OF assms(2) al bd] by (simp add: sbull_request_def cur req_bytes_def)
  moreover have "\<not> rq_write r \<Longrightarrow> \<exists>ss. sbull_request cur_s d r h = Some (h, ss, BLK_STS_OK) \<and>
      map length ss = map length ?ss \<and> concat ss = take (length (req_bytes (bios r))) (drop (512 * rq_pos r) blk)"
    using assms(3) seg_loop_read[OF assms(2) al bd] unfolding len
    by (auto simp: sbull_request_def cur mult.assoc)
  ultimately show ?thesis by simp
qed

definition first_seg_bytes :: "sbio \<Rightarrow> nat" where
  "first_seg_bytes b = (case segs b of [] \<Rightarrow> 0 | s # ss \<Rightarrow> length s)"

definition first_bio_sectors :: "srequest \<Rightarrow> nat" where
  "first_bio_sectors r = (case bios r of [] \<Rightarrow> 0 | b # bs \<Rightarrow> first_seg_bytes b div 512)"

lemma kernel_cur_first: "kernel_cur first_seg_bytes first_bio_sectors"
  by (auto simp: kernel_cur_def first_seg_bytes_def first_bio_sectors_def split: list.splits)

definition demo_disk :: sbull_dev where
  "demo_disk = zero_dev\<lparr>sb_size := 2048, sb_data := Some 0\<rparr>"

lemma demo_disk_ok: "disk demo_disk [0 \<mapsto> replicate 2048 None] 0 (replicate 2048 None)"
  by (simp add: disk_def demo_disk_def zero_dev_def)

lemma sbull_modes_correct_witness:
  "sbull_request first_bio_sectors demo_disk \<lparr>rq_pos = 1, rq_write = True, passthrough = False,
      bios = [\<lparr>bi_sector = 1, segs = [replicate 512 (Some 7)]\<rparr>]\<rparr> [0 \<mapsto> replicate 2048 None] =
    Some ([0 \<mapsto> mem_write 512 (replicate 512 (Some 7)) (replicate 2048 None)],
      [replicate 512 (Some 7)], BLK_STS_OK)"
  using sbull_modes_correct[OF kernel_cur_first demo_disk_ok, of "\<lparr>rq_pos = 1, rq_write = True,
      passthrough = False, bios = [\<lparr>bi_sector = 1, segs = [replicate 512 (Some 7)]\<rparr>]\<rparr>" 1]
  by (simp add: req_bytes_def)

text \<open>The length of the first segment is used for all: with a second segment that is shorter
  than the first the copy runs past it, and with a longer one a write reports success but
  leaves the rest of the second segment off the disk.\<close>

lemma sbull_uneven_segments:
  assumes "kernel_cur cur cur_s" "disk d h a blk" "length s1 = 512 * m" "length s2 = 512 * n" "m \<noteq> n"
    and "512 * (pos + m + m) \<le> length blk"
    and "r = \<lparr>rq_pos = pos, rq_write = w, passthrough = False, bios = [\<lparr>bi_sector = pos, segs = [s1, s2]\<rparr>]\<rparr>"
  shows "(n < m \<longrightarrow> sbull_request cur_s d r h = None \<and> sbull_full_request cur d r h = None) \<and>
    (m < n \<and> w \<longrightarrow> sbull_request cur_s d r h =
       Some (h(a \<mapsto> mem_write (512 * pos) (s1 @ take (512 * m) s2) blk), [s1, s2], BLK_STS_OK))"
proof -
  have cur: "cur_s r = m" "cur \<lparr>bi_sector = pos, segs = [s1, s2]\<rparr> div 512 = m"
    using assms(1,3) by (auto simp: kernel_cur_def assms(7))
  let ?blk = "mem_write (512 * pos) s1 blk"
  have len: "512 * (pos + m) \<le> length blk" using assms(6) by simp
  have p: "(pos + m) mod 2 ^ 64 = pos + m" using len assms(2) by (simp add: disk_def)
  note t1 = transfer_in_range[OF assms(2) len, of s1 w]
  show ?thesis
  proof (intro conjI impI)
    assume nm: "n < m"
    have "sbull_transfer d (pos + m) m s2 w h' = None" if "disk d h' a blk'" "length blk' = length blk" for h' blk'
    proof -
      have sz: "length blk' < 2147483648" "sb_size d = int (length blk')"
        using that by (auto simp: disk_def)
      have "(pos + m) * 512 mod 2 ^ 64 = 512 * (pos + m)" "m * 512 mod 2 ^ 64 = 512 * m"
        "(512 * (pos + m) + 512 * m) mod 2 ^ 64 = 512 * (pos + m + m)"
        using assms(6) sz that by simp_all
      moreover have "u64 (sb_size d) = int (length blk')" using sz by simp
      moreover have "\<not> int (length blk') < int (512 * (pos + m + m))" using assms(6) that(2) by linarith
      ultimately show ?thesis
        using nm assms(4) unfolding sbull_transfer_def KERNEL_SECTOR_SIZE_def Let_def by simp
    qed
    moreover have "disk d (h(a \<mapsto> ?blk)) a ?blk" "length ?blk = length blk"
      using assms(2,3) len by (auto simp: disk_def)
    ultimately have "seg_loop d m w pos [s1, s2] h = None"
      using t1 p assms(2,3) by (cases w) auto
    then show "sbull_request cur_s d r h = None" "sbull_full_request cur d r h = None"
      using cur by (simp_all add: sbull_request_def sbull_full_request_def sbull_xfer_bio_def assms(7)
          KERNEL_SECTOR_SIZE_def)
  next
    assume mn: "m < n \<and> w"
    have lb: "length ?blk = length blk" using len assms(3) by simp
    have d1: "disk d (h(a \<mapsto> ?blk)) a ?blk" using assms(2) lb by (simp add: disk_def)
    have "mem_write (512 * pos + 512 * m) (take (512 * m) s2) ?blk =
        mem_write (512 * pos) (s1 @ take (512 * m) s2) blk"
      using mem_write_append[of "512 * pos" s1 "take (512 * m) s2" blk] assms(3,4,6) mn by simp
    moreover have "sbull_transfer d (pos + m) m s2 w (h(a \<mapsto> ?blk)) =
        Some (h(a \<mapsto> mem_write (512 * (pos + m)) (take (512 * m) s2) ?blk), s2)"
      using transfer_in_range[OF d1, of "pos + m" m s2 w] lb assms(4,6) mn by simp
    ultimately have "seg_loop d m w pos [s1, s2] h =
        Some (h(a \<mapsto> mem_write (512 * pos) (s1 @ take (512 * m) s2) blk), [s1, s2])"
      using t1 p assms(3) mn by (simp add: algebra_simps)
    then show "sbull_request cur_s d r h =
       Some (h(a \<mapsto> mem_write (512 * pos) (s1 @ take (512 * m) s2) blk), [s1, s2], BLK_STS_OK)"
      using cur by (simp add: sbull_request_def assms(7))
  qed
qed

lemma sbull_uneven_segments_example:
  "sbull_request first_bio_sectors demo_disk \<lparr>rq_pos = 0, rq_write = False, passthrough = False,
      bios = [\<lparr>bi_sector = 0, segs = [replicate 1024 None, replicate 512 None]\<rparr>]\<rparr> [0 \<mapsto> replicate 2048 None] = None"
  using sbull_uneven_segments[OF kernel_cur_first demo_disk_ok, of "replicate 1024 None" 2 "replicate 512 None" 1 0
      "\<lparr>rq_pos = 0, rq_write = False, passthrough = False,
        bios = [\<lparr>bi_sector = 0, segs = [replicate 1024 None, replicate 512 None]\<rparr>]\<rparr>" False]
  by simp

subsection \<open>The life of the medium\<close>

datatype sb_event = Sb_open | Sb_release | Sb_timer | Sb_write nat nat "cell list"

text \<open>The device and the events it has handled. The kernel uses only a device that is open.\<close>

type_synonym sb_state = "sbull_dev \<times> heap \<times> sb_event list"

fun sb_enabled :: "sb_state \<Rightarrow> sb_event \<Rightarrow> bool" where
  "sb_enabled (d, h, tr) Sb_open \<longleftrightarrow> users d < 32767"
| "sb_enabled (d, h, tr) Sb_release \<longleftrightarrow> 0 < users d"
| "sb_enabled (d, h, tr) Sb_timer \<longleftrightarrow> timer_pending d"
| "sb_enabled (d, h, tr) (Sb_write pos n buf) \<longleftrightarrow> 0 < users d \<and> pos + n < 2 ^ 55 \<and> length buf = 512 * n"

text \<open>
  The media check of the kernel. Before 5.9 it asks the driver (\<open>asks\<close>), whose table of operations then has \<open>media_changed\<close>;
  from 5.9 on the table does not have it, the driver reports no event of its own, and the kernel never finds a change.
\<close>

definition kernel_check :: "bool \<Rightarrow> sbull_dev \<Rightarrow> bool" where
  "kernel_check asks d \<longleftrightarrow> asks \<and> sbull_media_changed d"

fun sb_exec :: "bool \<Rightarrow> sb_event \<Rightarrow> sb_state \<Rightarrow> sb_state option" where
  "sb_exec asks Sb_open (d, h, tr) = do {
     (d1, h1) \<leftarrow> sbull_open (kernel_check asks) d h; Some (d1, h1, tr @ [Sb_open]) }"
| "sb_exec asks Sb_release (d, h, tr) = Some (sbull_release d, h, tr @ [Sb_release])"
| "sb_exec asks Sb_timer (d, h, tr) = Some (sbull_invalidate d, h, tr @ [Sb_timer])"
| "sb_exec asks (Sb_write pos n buf) (d, h, tr) = do {
     (h1, b) \<leftarrow> sbull_transfer d pos n buf True h; Some (d, h1, tr @ [Sb_write pos n buf]) }"

definition is_write :: "sb_event \<Rightarrow> bool" where
  "is_write e = (case e of Sb_write _ _ _ \<Rightarrow> True | _ \<Rightarrow> False)"

lemma is_write_simps [simp]:
  "\<not> is_write Sb_open" "\<not> is_write Sb_release" "\<not> is_write Sb_timer" "is_write (Sb_write p n b)"
  by (simp_all add: is_write_def)

definition sb_inv :: "bool \<Rightarrow> nat \<Rightarrow> cell list \<Rightarrow> sb_state \<Rightarrow> bool" where
  "sb_inv asks a blk0 s \<longleftrightarrow> (case s of (d, h, tr) \<Rightarrow> 0 \<le> users d \<and> users d < 32768 \<and>
     (0 < users d \<longrightarrow> (asks \<longrightarrow> media_change d = 0) \<and> \<not> timer_pending d) \<and>
     (\<exists>blk. disk d h a blk \<and> length blk = length blk0 \<and>
       (\<not> (\<exists>e \<in> set tr. is_write e) \<longrightarrow> blk = blk0 \<or> asks \<and> blk = replicate (length blk0) (Some 0)) \<and>
       (\<not> (\<exists>e \<in> set tr. is_write e \<or> e = Sb_timer) \<longrightarrow> blk = blk0 \<and> media_change d = 0)))"

lemma s16_id: "- 32768 \<le> x \<Longrightarrow> x < 32768 \<Longrightarrow> s16 x = x"
  by (simp add: s16_def)

lemma disk_update: "disk d h a blk \<Longrightarrow> sb_data d' = sb_data d \<Longrightarrow> sb_size d' = sb_size d \<Longrightarrow>
    length blk' = length blk \<Longrightarrow> disk d' (h(a \<mapsto> blk')) a blk'"
  by (simp add: disk_def)

lemma disk_fields: "disk d h a blk \<Longrightarrow> sb_data d' = sb_data d \<Longrightarrow> sb_size d' = sb_size d \<Longrightarrow> disk d' h a blk"
  by (simp add: disk_def)

lemma open_wipes:
  assumes "disk d h a blk" "users d = 0" "kernel_check asks d"
  shows "\<exists>d' h'. sbull_open (kernel_check asks) d h = Some (d', h') \<and> users d' = 1 \<and> media_change d' = 0 \<and>
    \<not> timer_pending d' \<and> disk d' h' a (replicate (length blk) (Some 0))"
  using assms
  by (auto simp: sbull_open_def kernel_check_def sbull_media_changed_def sbull_revalidate_def disk_def heap_store_def
      mem_write_def s16_def Let_def)

lemma open_keeps:
  assumes "disk d h a blk" "0 \<le> users d" "users d < 32767" "users d \<noteq> 0 \<or> \<not> kernel_check asks d"
  shows "\<exists>d'. sbull_open (kernel_check asks) d h = Some (d', h) \<and> users d' = users d + 1 \<and>
    media_change d' = media_change d \<and> \<not> timer_pending d' \<and> disk d' h a blk"
  using assms by (auto simp: sbull_open_def kernel_check_def sbull_media_changed_def disk_def s16_id Let_def)

lemma sb_exec_safe:
  assumes inv: "sb_inv asks a blk0 s" and en: "sb_enabled s e"
  shows "\<exists>t. sb_exec asks e s = Some t \<and> sb_inv asks a blk0 t"
proof -
  obtain d h tr where s: "s = (d, h, tr)" by (cases s)
  obtain blk where blk: "disk d h a blk" "length blk = length blk0"
    and nw: "\<not> (\<exists>e \<in> set tr. is_write e) \<longrightarrow> blk = blk0 \<or> asks \<and> blk = replicate (length blk0) (Some 0)"
    and nt: "\<not> (\<exists>e \<in> set tr. is_write e \<or> e = Sb_timer) \<longrightarrow> blk = blk0 \<and> media_change d = 0"
    and u: "0 \<le> users d" "users d < 32768" "0 < users d \<longrightarrow> (asks \<longrightarrow> media_change d = 0) \<and> \<not> timer_pending d"
    using inv by (auto simp: sb_inv_def s)
  show ?thesis
  proof (cases e)
    case Sb_open
    show ?thesis
    proof (cases "users d = 0 \<and> kernel_check asks d")
      case True
      then obtain d' h' where o: "sbull_open (kernel_check asks) d h = Some (d', h')" "users d' = 1"
        "media_change d' = 0" "\<not> timer_pending d'" "disk d' h' a (replicate (length blk0) (Some 0))"
        using open_wipes[OF blk(1), of asks] True blk(2) by auto
      have "\<exists>e \<in> set tr. is_write e \<or> e = Sb_timer" using nt True by (auto simp: kernel_check_def sbull_media_changed_def)
      moreover have asks using True by (simp add: kernel_check_def)
      ultimately show ?thesis using o by (auto simp: s Sb_open sb_inv_def intro!: exI[of _ "replicate (length blk0) (Some 0)"])
    next
      case False
      then obtain d' where o: "sbull_open (kernel_check asks) d h = Some (d', h)" "users d' = users d + 1"
        "media_change d' = media_change d" "\<not> timer_pending d'" "disk d' h a blk"
        using open_keeps[OF blk(1) u(1), of asks] False en by (auto simp: s Sb_open)
      have "asks \<longrightarrow> media_change d = 0" using False u by (auto simp: kernel_check_def sbull_media_changed_def)
      then show ?thesis using o u en blk(2) nw nt by (auto simp: s Sb_open sb_inv_def)
    qed
  next
    case Sb_release
    have "0 < users d" using en by (simp add: s Sb_release)
    then have "sb_inv asks a blk0 (sbull_release d, h, tr @ [Sb_release])"
      using u blk nw nt disk_fields[OF blk(1), of "sbull_release d"]
      by (auto simp: sb_inv_def sbull_release_def Let_def s16_id intro!: exI[of _ blk])
    then show ?thesis by (simp add: s Sb_release)
  next
    case Sb_timer
    have "users d = 0" using en u by (auto simp: s Sb_timer)
    then have "sb_inv asks a blk0 (sbull_invalidate d, h, tr @ [Sb_timer])"
      using u blk nw disk_fields[OF blk(1), of "sbull_invalidate d"]
      by (auto simp: sb_inv_def sbull_invalidate_def Let_def intro!: exI[of _ blk])
    then show ?thesis by (simp add: s Sb_timer)
  next
    case (Sb_write pos n buf)
    have "\<exists>h' b blk'. sbull_transfer d pos n buf True h = Some (h', b) \<and> disk d h' a blk' \<and> length blk' = length blk"
    proof (cases "512 * (pos + n) \<le> length blk")
      case True
      then show ?thesis
        using transfer_in_range[OF blk(1) True, of buf True] en
          disk_update[OF blk(1), of d "mem_write (512 * pos) buf blk"]
        by (auto simp: s Sb_write intro!: exI[of _ "mem_write (512 * pos) buf blk"])
    next
      case False
      then show ?thesis using transfer_beyond_end[OF blk(1), of pos n buf True] en blk by (auto simp: s Sb_write)
    qed
    then show ?thesis using u blk(2) by (auto simp: s Sb_write sb_inv_def)
  qed
qed

interpretation medium: safe_handlers "sb_exec asks" sb_enabled "sb_inv asks a blk0" for asks a blk0
  by unfold_locales (rule sb_exec_safe)

text \<open>C36. Under any sequence of opens, releases, writes (in or out of range) and expiries of the
  idle timer, no call fails and a device in use has no timer running. On a kernel before 5.9, which asks the driver about the
  medium, a device in use is never marked changed, without writes the disk holds what it held or only zeros, and the
  first open of a changed device finds zeros. From 5.9 on the driver is not asked: without writes the disk holds what it held, and
  an open of a changed device leaves it marked and its contents as they are. With neither a write nor an expiry the disk always
  holds what it held.\<close>

theorem sbull_medium_correct:
  assumes "disk d a0 a blk" "users d = 0" "media_change d = 0" "\<not> timer_pending d"
  shows "\<exists>d' h' tr blk'. exec_all (sb_exec asks) sb_enabled events (d, a0, []) = Some (d', h', tr) \<and>
    disk d' h' a blk' \<and> length blk' = length blk \<and>
    (0 < users d' \<longrightarrow> (asks \<longrightarrow> \<not> sbull_media_changed d') \<and> \<not> timer_pending d') \<and>
    (filter is_write tr = [] \<longrightarrow> blk' = blk \<or> asks \<and> blk' = replicate (length blk) (Some 0)) \<and>
    (filter is_write tr = [] \<and> Sb_timer \<notin> set tr \<longrightarrow> blk' = blk) \<and>
    (users d' = 0 \<and> sbull_media_changed d' \<longrightarrow>
      (\<exists>d2 h2. sbull_open (kernel_check asks) d' h' = Some (d2, h2) \<and>
        (if asks then disk d2 h2 a (replicate (length blk) (Some 0))
         else disk d2 h2 a blk' \<and> sbull_media_changed d2)))"
proof -
  have "sb_inv asks a blk (d, a0, [])" using assms by (simp add: sb_inv_def)
  then obtain d' h' tr where e: "exec_all (sb_exec asks) sb_enabled events (d, a0, []) = Some (d', h', tr)"
    and inv: "sb_inv asks a blk (d', h', tr)"
    using medium.exec_all_safe[of asks a blk "(d, a0, [])" events] by fast
  obtain blk' where b: "disk d' h' a blk'" "length blk' = length blk"
    "\<not> (\<exists>e \<in> set tr. is_write e) \<longrightarrow> blk' = blk \<or> asks \<and> blk' = replicate (length blk) (Some 0)"
    "\<not> (\<exists>e \<in> set tr. is_write e \<or> e = Sb_timer) \<longrightarrow> blk' = blk"
    using inv by (auto simp: sb_inv_def)
  have open': "\<exists>d2 h2. sbull_open (kernel_check asks) d' h' = Some (d2, h2) \<and>
      (if asks then disk d2 h2 a (replicate (length blk) (Some 0)) else disk d2 h2 a blk' \<and> sbull_media_changed d2)"
    if "users d' = 0" "sbull_media_changed d'"
  proof (cases asks)
    case True
    then show ?thesis using open_wipes[OF b(1), of asks] that b(2) by (auto simp: kernel_check_def)
  next
    case False
    then show ?thesis using open_keeps[OF b(1), of asks] that by (auto simp: kernel_check_def sbull_media_changed_def)
  qed
  have u: "0 < users d' \<longrightarrow> (asks \<longrightarrow> \<not> sbull_media_changed d') \<and> \<not> timer_pending d'"
    using inv by (auto simp: sb_inv_def sbull_media_changed_def)
  have w: "filter is_write tr = [] \<longrightarrow> blk' = blk \<or> asks \<and> blk' = replicate (length blk) (Some 0)"
    "filter is_write tr = [] \<and> Sb_timer \<notin> set tr \<longrightarrow> blk' = blk"
    using b(3,4) by (auto simp: filter_empty_conv)
  show ?thesis using e b(1,2) u w open' by blast
qed

text \<open>The same events on a kernel of each kind.\<close>

lemma sbull_medium_correct_witness:
  "\<exists>d' h' tr d2 h2 tr2. exec_all (sb_exec True) sb_enabled [Sb_open, Sb_release, Sb_timer]
      (demo_disk, [0 \<mapsto> replicate 2048 None], []) = Some (d', h', tr) \<and>
    (users d' = 0 \<and> sbull_media_changed d' \<longrightarrow> (\<exists>d3 h3. sbull_open (kernel_check True) d' h' = Some (d3, h3) \<and>
      disk d3 h3 0 (replicate 2048 (Some 0)))) \<and>
    exec_all (sb_exec False) sb_enabled [Sb_open, Sb_release, Sb_timer, Sb_open]
      (demo_disk, [0 \<mapsto> replicate 2048 None], []) = Some (d2, h2, tr2) \<and> (0 < users d2 \<longrightarrow> \<not> timer_pending d2)"
proof -
  have d: "users demo_disk = 0" "media_change demo_disk = 0" "\<not> timer_pending demo_disk" by (simp_all add: demo_disk_def zero_dev_def)
  from sbull_medium_correct[OF demo_disk_ok d, of True "[Sb_open, Sb_release, Sb_timer]"] obtain d' h' tr where
    "exec_all (sb_exec True) sb_enabled [Sb_open, Sb_release, Sb_timer] (demo_disk, [0 \<mapsto> replicate 2048 None], []) = Some (d', h', tr)"
    "users d' = 0 \<and> sbull_media_changed d' \<longrightarrow> (\<exists>d3 h3. sbull_open (kernel_check True) d' h' = Some (d3, h3) \<and>
      disk d3 h3 0 (replicate 2048 (Some 0)))" by (auto simp del: exec_all.simps)
  moreover from sbull_medium_correct[OF demo_disk_ok d, of False "[Sb_open, Sb_release, Sb_timer, Sb_open]"] obtain d2 h2 tr2 where
    "exec_all (sb_exec False) sb_enabled [Sb_open, Sb_release, Sb_timer, Sb_open]
      (demo_disk, [0 \<mapsto> replicate 2048 None], []) = Some (d2, h2, tr2)" "0 < users d2 \<longrightarrow> \<not> timer_pending d2"
    by (auto simp del: exec_all.simps)
  ultimately show ?thesis by blast
qed

text \<open>On a newer kernel the simulated change of the medium has no effect: the device is used while it is marked changed.\<close>

lemma sbull_change_unnoticed:
  "map_option (\<lambda>(d, h, tr). (users d, media_change d, h 0)) (exec_all (sb_exec False) sb_enabled
      [Sb_open, Sb_release, Sb_timer, Sb_open] (demo_disk, [0 \<mapsto> replicate 2048 None], [])) =
    Some (1, 1, Some (replicate 2048 None))"
  by (simp add: demo_disk_def zero_dev_def sbull_open_def kernel_check_def sbull_release_def sbull_invalidate_def s16_def Let_def)

subsection \<open>Loading and unloading\<close>

definition addrs :: "sbull_dev list \<Rightarrow> nat list" where
  "addrs ds = concat (map (\<lambda>d. case sb_data d of None \<Rightarrow> [] | Some a \<Rightarrow> [a]) ds)"

lemma free_all_restrict:
  "distinct (addrs ds) \<Longrightarrow> set (addrs ds) \<subseteq> dom h \<Longrightarrow> free_all ds h = Some (h |` (- set (addrs ds)))"
proof (induction ds arbitrary: h)
  case Nil
  then show ?case by (simp add: addrs_def restrict_map_def)
next
  case (Cons d ds)
  show ?case
  proof (cases "sb_data d")
    case None
    then show ?thesis using Cons by (simp add: addrs_def kfree_def)
  next
    case (Some a)
    have nd: "distinct (addrs ds)" "a \<notin> set (addrs ds)" "a \<in> dom h" "set (addrs ds) \<subseteq> dom (h(a := None))"
      using Cons.prems Some by (auto simp: addrs_def)
    have "(h(a := None)) |` (- set (addrs ds)) = h |` (- set (addrs (d # ds)))"
      using Some by (auto simp: fun_eq_iff restrict_map_def addrs_def)
    moreover have "free_all (d # ds) h = free_all ds (h(a := None))" using Some nd(3) by (auto simp: kfree_def)
    ultimately show ?thesis by (simp only: Cons.IH[OF nd(1,4)])
  qed
qed

lemma setup_device_ok:
  assumes "fresh_alloc alloc" "2 \<le> m"
  shows "\<exists>d h1 m1. setup_device p alloc i (replicate m True) h = Some (d, h1, replicate m1 True) \<and> m \<le> m1 + 2 \<and>
    h1 |` (- set (addrs [d])) = h \<and> dom h1 = dom h \<union> set (addrs [d]) \<and> distinct (addrs [d]) \<and>
    set (addrs [d]) \<inter> dom h = {} \<and> (gd d = None \<longleftrightarrow> sb_data d = None)"
proof (cases "vmalloc alloc (s32 (nsectors p * hardsect p)) h")
  case None
  then show ?thesis
    by (auto simp: setup_device_def zero_dev_def addrs_def restrict_map_def fun_eq_iff)
next
  case (Some a)
  then have ha: "h a = None" using assms(1) by (auto simp: vmalloc_def fresh_alloc_def split: if_splits)
  define k where "k = m - 2"
  have k: "m = Suc (Suc k)" using assms(2) by (simp add: k_def)
  define z where "z = s32 (nsectors p * hardsect p)"
  let ?q = "(case mode p of RM_NOQUEUE \<Rightarrow> RM_NOQUEUE | RM_FULL \<Rightarrow> RM_FULL
      | RM_SIMPLE \<Rightarrow> RM_SIMPLE | Other_mode m \<Rightarrow> RM_SIMPLE)"
  let ?g = "\<lparr>first_minor = i * SBULL_MINORS, capacity = s32 (nsectors p * (hardsect p sdiv int KERNEL_SECTOR_SIZE))\<rparr>"
  have sm: "vmalloc alloc z h = Some a" using Some by (simp add: z_def)
  have d: "setup_device p alloc i (replicate m True) h =
      Some (zero_dev\<lparr>sb_size := z, sb_data := Some a, queue := Some ?q, gd := Some ?g\<rparr>,
        heap_new a (nat z) h, replicate k True)"
    unfolding setup_device_def z_def[symmetric] Let_def k by (simp add: sm)
  have "(heap_new a n h) |` (- {a}) = h" for n using ha by (auto simp: heap_new_def restrict_map_def)
  then show ?thesis using d ha k by (auto simp: zero_dev_def addrs_def heap_new_def)
qed

lemma setup_all_ok:
  assumes "fresh_alloc alloc"
  shows "2 * n \<le> m \<Longrightarrow> \<exists>ds h1 m1. setup_all p alloc i n (replicate m True) h = Some (ds, h1, replicate m1 True) \<and>
    m \<le> m1 + 2 * n \<and> length ds = n \<and> distinct (addrs ds) \<and> set (addrs ds) \<inter> dom h = {} \<and>
    dom h1 = dom h \<union> set (addrs ds) \<and> h1 |` (- set (addrs ds)) = h \<and>
    (\<forall>d \<in> set ds. gd d = None \<longleftrightarrow> sb_data d = None)"
proof (induction n arbitrary: m i h)
  case 0
  then show ?case by (auto simp: addrs_def restrict_map_def)
next
  case (Suc n)
  obtain d h1 m1 where d: "setup_device p alloc i (replicate m True) h = Some (d, h1, replicate m1 True)"
    "m \<le> m1 + 2" "h1 |` (- set (addrs [d])) = h" "dom h1 = dom h \<union> set (addrs [d])" "distinct (addrs [d])"
    "set (addrs [d]) \<inter> dom h = {}" "gd d = None \<longleftrightarrow> sb_data d = None"
    using setup_device_ok[OF assms, of m p i h] Suc.prems by (metis mult_Suc_right add_leD1)
  then obtain ds h2 m2 where r: "setup_all p alloc (Suc i) n (replicate m1 True) h1 = Some (ds, h2, replicate m2 True)"
    "m1 \<le> m2 + 2 * n" "length ds = n" "distinct (addrs ds)" "set (addrs ds) \<inter> dom h1 = {}"
    "dom h2 = dom h1 \<union> set (addrs ds)" "h2 |` (- set (addrs ds)) = h1"
    "\<forall>d \<in> set ds. gd d = None \<longleftrightarrow> sb_data d = None"
    using Suc.IH[of m1 "Suc i" h1] Suc.prems by auto
  have ad: "addrs (d # ds) = addrs [d] @ addrs ds" by (simp add: addrs_def)
  have "h2 |` (- set (addrs (d # ds))) = h2 |` (- set (addrs ds)) |` (- set (addrs [d]))"
    unfolding ad by (simp add: Int_commute)
  then have "h2 |` (- set (addrs (d # ds))) = h" using r(7) d(3) by simp
  moreover have "distinct (addrs (d # ds))" "set (addrs (d # ds)) \<inter> dom h = {}"
    using d(4,5,6) r(4,5) unfolding ad by auto
  moreover have "dom h2 = dom h \<union> set (addrs (d # ds))" using r(6) d(4) unfolding ad by auto
  ultimately show ?case using d(1,2,7) r(1,2,3,8) by auto
qed

text \<open>When the queues and disks can be had (memory may fail for any device), loading succeeds
  and unloading frees exactly what loading took, each block once. When one device is asked
  for and its queue cannot be had, loading still reports success and unloading frees its array a second time. And for a
  major number given as parameter, where the registration's answer is 0, loading fails and leaves it registered.\<close>

lemma sbull_load_unload:
  assumes "fresh_alloc alloc" "0 < reg" "alloc h arr = Some a"
  shows "(\<exists>m. sbull_init p alloc reg arr n (replicate (2 * n) True) h = Some (m, Ret 0) \<and> length (devs m) = n \<and>
    (\<exists>m'. sbull_exit m = Some m' \<and> sb_heap m' = h \<and> \<not> blkdev_registered m')) \<and>
    (0 < s32 (nsectors p * hardsect p) \<and> alloc (heap_new a arr h) (nat (s32 (nsectors p * hardsect p))) \<noteq> None \<longrightarrow>
      (\<exists>m. sbull_init p alloc reg arr 1 [False] h = Some (m, Ret 0) \<and> sbull_exit m = None)) \<and>
    (\<exists>m. sbull_init p alloc 0 arr n qs h = Some (m, Fail EBUSY) \<and> blkdev_registered m)"
proof (intro conjI impI)
  have ha: "h a = None" using assms(1,3) by (auto simp: fresh_alloc_def)
  let ?h = "heap_new a arr h"
  obtain ds h1 qs1 where s: "setup_all p alloc 0 n (replicate (2 * n) True) ?h = Some (ds, h1, qs1)"
    "length ds = n" "distinct (addrs ds)" "set (addrs ds) \<inter> dom ?h = {}"
    "dom h1 = dom ?h \<union> set (addrs ds)" "h1 |` (- set (addrs ds)) = ?h"
    using setup_all_ok[OF assms(1), of n "2 * n" p 0 ?h] by auto
  have "free_all ds h1 = Some ?h" using free_all_restrict[OF s(3), of h1] s(5,6) by auto
  moreover have "kfree (Some a) ?h = Some h" using ha by (auto simp: kfree_def heap_new_def fun_eq_iff)
  ultimately show "\<exists>m. sbull_init p alloc reg arr n (replicate (2 * n) True) h = Some (m, Ret 0) \<and>
      length (devs m) = n \<and> (\<exists>m'. sbull_exit m = Some m' \<and> sb_heap m' = h \<and> \<not> blkdev_registered m')"
    using assms s(1,2) by (auto simp: sbull_init_def sbull_exit_def)
  show "\<exists>m. sbull_init p alloc 0 arr n qs h = Some (m, Fail EBUSY) \<and> blkdev_registered m"
    by (simp add: sbull_init_def)
  assume "0 < s32 (nsectors p * hardsect p) \<and> alloc ?h (nat (s32 (nsectors p * hardsect p))) \<noteq> None"
  then obtain b where b: "vmalloc alloc (s32 (nsectors p * hardsect p)) ?h = Some b" "?h b = None"
    using assms(1) by (auto simp: vmalloc_def fresh_alloc_def)
  then show "\<exists>m. sbull_init p alloc reg arr 1 [False] h = Some (m, Ret 0) \<and> sbull_exit m = None"
    using assms by (auto simp: sbull_init_def sbull_exit_def setup_device_def zero_dev_def kfree_def heap_new_def)
qed

lemma sbull_load_unload_example:
  "\<exists>m. sbull_init \<lparr>hardsect = 512, nsectors = 4, mode = RM_SIMPLE\<rparr> first_free 240 10 1 [False] (\<lambda>_. None) = Some (m, Ret 0) \<and>
    sbull_exit m = None"
  using sbull_load_unload[OF fresh_first_free, of 240 "\<lambda>_. None" 10 0 "\<lparr>hardsect = 512, nsectors = 4, mode = RM_SIMPLE\<rparr>"]
  by (simp add: s32_def first_free_def heap_new_def upt_rec)

end
