(* ===== verification/Short.thy ===== *)
theory Short
  imports Parport_Format Device_Interfaces
begin

unbundle bit_operations_syntax

section \<open>The short driver\<close>

text \<open>
  \<open>short/short.c\<close>: raw access to I/O ports in four modes, and a device that reports the times of interrupts through
  a one-page text buffer, written by the interrupt handler directly or by a bottom half
  (workqueue or tasklet) from a ring of 512 time values. What ports answer is a
  parameter; the operations issued are recorded. Addresses are naturals.
\<close>

subsection \<open>Data\<close>

definition SHORT_NR_PORTS :: nat where "SHORT_NR_PORTS = 8"
definition NR_TIMEVAL :: nat where "NR_TIMEVAL = 512"

datatype short_mode = SHORT_DEFAULT | SHORT_PAUSE | SHORT_STRING | SHORT_MEMORY | No_mode nat

definition mode_of :: "nat \<Rightarrow> short_mode" where
  "mode_of m = (if m = 0 then SHORT_DEFAULT else if m = 1 then SHORT_PAUSE
     else if m = 2 then SHORT_STRING else if m = 3 then SHORT_MEMORY else No_mode m)"

text \<open>Seconds and nanoseconds.\<close>

type_synonym timespec = "nat \<times> nat"

record short_sys =
  short_base :: nat
  use_mem :: bool
  short_page :: "cell list"
  short_head :: nat
  short_tail :: nat
  tv_data :: "timespec list"
  tv_head :: nat
  tv_tail :: nat
  short_wq_count :: nat
  bh_scheduled :: bool
  io :: "io_op list"

subsection \<open>The port device\<close>

text \<open>Whether the minor number selects the interrupt device.\<close>

definition short_open :: "nat \<Rightarrow> bool" where
  "short_open minor = ((minor div 128) mod 2 = 1)"

definition short_address :: "short_sys \<Rightarrow> nat \<Rightarrow> nat" where
  "short_address s minor = short_base s + minor mod 16"

definition effective_mode :: "short_sys \<Rightarrow> nat \<Rightarrow> short_mode" where
  "effective_mode s minor = (if use_mem s then SHORT_MEMORY else mode_of ((minor div 16) mod 8))"

text \<open>\<open>port\<close> is what the hardware answers to the reads of the call, one after the other.\<close>

definition do_short_read ::
  "bool \<Rightarrow> (nat \<Rightarrow> byte) \<Rightarrow> nat \<Rightarrow> nat \<Rightarrow> nat \<Rightarrow> short_sys \<Rightarrow> short_sys \<times> byte list \<times> int outcome" where
  "do_short_read alloc_ok port uncopied minor count s =
     (let a = short_address s minor;
          retval = s32 (int count);
          answers = map port [0..<count];
          issue = (\<lambda>ops. s\<lparr>io := io s @ ops\<rparr>);
          finish = (\<lambda>s'. if 0 < retval \<and> uncopied \<noteq> 0 then (s', [], Fail EFAULT)
                         else (s', answers, Ret retval))
      in if \<not> alloc_ok then (s, [], Fail ENOMEM)
         else (case effective_mode s minor of
             SHORT_STRING \<Rightarrow> finish (issue [Insb a count])
           | SHORT_DEFAULT \<Rightarrow> finish (issue (replicate count (Inb a)))
           | SHORT_MEMORY \<Rightarrow> finish (issue (replicate count (Ioread8 a)))
           | SHORT_PAUSE \<Rightarrow> finish (issue (replicate count (Inb_p a)))
           | No_mode m \<Rightarrow> (s, [], Fail EINVAL)))"

definition do_short_write ::
  "bool \<Rightarrow> nat \<Rightarrow> nat \<Rightarrow> byte list \<Rightarrow> short_sys \<Rightarrow> short_sys \<times> int outcome" where
  "do_short_write alloc_ok uncopied minor buf s =
     (let a = short_address s minor;
          retval = s32 (int (length buf));
          issue = (\<lambda>ops. s\<lparr>io := io s @ ops\<rparr>)
      in if \<not> alloc_ok then (s, Fail ENOMEM)
         else if uncopied \<noteq> 0 then (s, Fail EFAULT)
         else (case effective_mode s minor of
             SHORT_PAUSE \<Rightarrow> (issue (map (Outb_p a) buf), Ret retval)
           | SHORT_STRING \<Rightarrow> (issue [Outsb a buf], Ret retval)
           | SHORT_DEFAULT \<Rightarrow> (issue (map (Outb a) buf), Ret retval)
           | SHORT_MEMORY \<Rightarrow> (issue (map (Iowrite8 a) buf), Ret retval)
           | No_mode m \<Rightarrow> (s, Fail EINVAL)))"

text \<open>The entries of the table of the device.\<close>

definition short_read where "short_read = do_short_read"
definition short_write where "short_write = do_short_write"
definition short_release :: int where "short_release = 0"

text \<open>Always readable and writable.\<close>

definition short_poll :: "bool \<times> bool" where "short_poll = (True, True)"

subsection \<open>The interrupt device\<close>

definition short_i_read :: "kenv \<Rightarrow> nat \<Rightarrow> short_sys \<Rightarrow> (short_sys \<times> cell list \<times> int outcome) option" where
  "short_i_read k count s =
     (if short_head s = short_tail s then Some (s, [], if signal k then Fail ERESTARTSYS else Blocked)
      else
        (let n = min count (readable (short_head s) (short_tail s))
         in if length (short_page s) < short_tail s + n then None
            else if uleft k \<noteq> 0 then Some (s, [], Fail EFAULT)
            else Some (s\<lparr>short_tail := incr_bp (short_tail s) n\<rparr>,
                   take n (drop (short_tail s) (short_page s)), Ret (int n))))"

text \<open>The bytes alternate between 255 and 0, starting with 255 at an even file position.\<close>

definition short_i_write :: "nat \<Rightarrow> nat \<Rightarrow> short_sys \<Rightarrow> short_sys \<times> nat \<times> nat" where
  "short_i_write count f_pos s =
     (let vals = map (\<lambda>w. if (w + f_pos mod 2) mod 2 = 1 then 255 else 0) [1..<count + 1];
          ops = (if use_mem s then map (Iowrite8 (short_base s)) vals else map (Outb (short_base s)) vals)
      in (s\<lparr>io := io s @ ops\<rparr>, f_pos + count, count))"

text \<open>\<open>%08u.%06lu\<close> and a newline.\<close>

definition time_record :: "timespec \<Rightarrow> byte list" where
  "time_record tv = fmt_zero 8 (fst tv mod 100000000) @ [46] @ fmt_zero 6 (snd tv div 1000) @ [10]"

definition emit :: "byte list \<Rightarrow> short_sys \<Rightarrow> short_sys option" where
  "emit text s = do {
     page \<leftarrow> print_at (short_head s) text (short_page s);
     Some (s\<lparr>short_page := page, short_head := incr_bp (short_head s) (length text)\<rparr>) }"

text \<open>\<open>BUG_ON\<close> stops the kernel: no value.\<close>

definition short_interrupt :: "timespec \<Rightarrow> short_sys \<Rightarrow> short_sys option" where
  "short_interrupt tv s = (if length (time_record tv) \<noteq> 16 then None else emit (time_record tv) s)"

definition short_incr_tv :: "nat \<Rightarrow> nat" where
  "short_incr_tv p = (if p = NR_TIMEVAL - 1 then 0 else p + 1)"

text \<open>The loop of the bottom half; it runs at least once, at most \<open>NR_TIMEVAL\<close> times.\<close>

fun tv_loop :: "nat \<Rightarrow> short_sys \<Rightarrow> short_sys option" where
  "tv_loop 0 s = None"
| "tv_loop (Suc fuel) s = do {
     s1 \<leftarrow> emit (time_record (tv_data s ! tv_tail s)) s;
     let s2 = s1\<lparr>tv_tail := short_incr_tv (tv_tail s1)\<rparr>;
     (if tv_tail s2 \<noteq> tv_head s2 then tv_loop fuel s2 else Some s2) }"

definition bh_line :: "nat \<Rightarrow> byte list" where
  "bh_line n = [98, 104, 32, 97, 102, 116, 101, 114, 32] @ fmt_space 6 n @ [10]"

definition short_do_tasklet :: "short_sys \<Rightarrow> short_sys option" where
  "short_do_tasklet s = do {
     s1 \<leftarrow> emit (bh_line (short_wq_count s)) (s\<lparr>short_wq_count := 0, bh_scheduled := False\<rparr>);
     tv_loop NR_TIMEVAL s1 }"

text \<open>The two top halves differ in where they queue the bottom half.\<close>

definition short_wq_interrupt :: "timespec \<Rightarrow> short_sys \<Rightarrow> short_sys" where
  "short_wq_interrupt tv s =
     s\<lparr>tv_data := (tv_data s)[tv_head s := tv], tv_head := short_incr_tv (tv_head s), bh_scheduled := True,
       short_wq_count := short_wq_count s + 1\<rparr>"

definition short_tl_interrupt :: "timespec \<Rightarrow> short_sys \<Rightarrow> short_sys" where
  "short_tl_interrupt tv s =
     s\<lparr>tv_data := (tv_data s)[tv_head s := tv], tv_head := short_incr_tv (tv_head s), bh_scheduled := True,
       short_wq_count := short_wq_count s + 1\<rparr>"

text \<open>The shared handler: whether the interrupt was ours is in bit 7 of the port.\<close>

definition short_sh_interrupt :: "byte \<Rightarrow> timespec \<Rightarrow> short_sys \<Rightarrow> (short_sys \<times> bool) option" where
  "short_sh_interrupt value tv s =
     (let s1 = s\<lparr>io := io s @ [Inb (short_base s)]\<rparr>
      in if value AND 128 = 0 then Some (s1, False)
         else do {
           s2 \<leftarrow> emit (time_record tv) (s1\<lparr>io := io s1 @ [Outb (short_base s) (value AND 127)]\<rparr>);
           Some (s2, True) })"

subsection \<open>Finding the interrupt line\<close>

definition probe_ops :: "nat \<Rightarrow> io_op list" where
  "probe_ops b = [Outb_p (b + 2) 16, Outb_p b 0, Outb_p b 255, Outb_p (b + 2) 0]"

text \<open>\<open>answers\<close> of \<open>probe_irq_off\<close>: 0 for no line, negative for several. Returns line and count.\<close>

fun kernelprobe_loop :: "nat \<Rightarrow> int list \<Rightarrow> int \<times> nat" where
  "kernelprobe_loop count [] = (-1, count)"
| "kernelprobe_loop count (a # as) =
     (let irq = (if a = 0 then -1 else a)
      in if irq < 0 then (if count < 5 then kernelprobe_loop (count + 1) as else (irq, count + 1))
         else (irq, count))"

definition short_kernelprobe :: "int list \<Rightarrow> int \<times> nat" where
  "short_kernelprobe answers = kernelprobe_loop 0 answers"

definition short_probing :: "int \<Rightarrow> int \<Rightarrow> int" where
  "short_probing line short_irq =
     (let i = (if short_irq = 0 then line else short_irq) in if i \<noteq> line then - line else i)"

text \<open>Each round is the list of lines whose handler ran.\<close>

fun selfprobe_loop :: "nat \<Rightarrow> int list list \<Rightarrow> int \<times> nat" where
  "selfprobe_loop count [] = (0, count)"
| "selfprobe_loop count (r # rs) =
     (let irq = fold short_probing r 0
      in if irq \<le> 0 then (if count < 5 then selfprobe_loop (count + 1) rs else (irq, count + 1))
         else (irq, count))"

definition short_selfprobe :: "int list list \<Rightarrow> int \<times> nat" where
  "short_selfprobe rounds = selfprobe_loop 0 rounds"

subsection \<open>Loading and unloading\<close>

datatype short_handler = H_short | H_sh | H_wq | H_tl

text \<open>What the module holds; a region is known by its first address.\<close>

record short_res =
  io_region :: "nat option"
  mem_region :: "nat option"
  mapping :: "nat option"
  chrdev :: bool
  page_held :: bool
  handler :: "(int \<times> short_handler) option"

record short_params =
  p_use_mem :: bool
  p_base :: nat
  p_irq :: int
  p_probe :: int
  p_wq :: int
  p_tasklet :: int
  p_share :: int

text \<open>Releasing a region that is not held does nothing but warn.\<close>

definition release_region :: "nat \<Rightarrow> short_res \<Rightarrow> short_res" where
  "release_region b r = (if io_region r = Some b then r\<lparr>io_region := None\<rparr> else r)"

definition release_mem_region :: "nat \<Rightarrow> short_res \<Rightarrow> short_res" where
  "release_mem_region b r = (if mem_region r = Some b then r\<lparr>mem_region := None\<rparr> else r)"

text \<open>The second argument says whether the identity passed is that of the shared handler.\<close>

definition free_irq :: "int \<Rightarrow> bool \<Rightarrow> short_res \<Rightarrow> short_res" where
  "free_irq i shared r =
     (case handler r of
        Some (j, h) \<Rightarrow> if i = j \<and> shared = (h = H_sh) then r\<lparr>handler := None\<rparr> else r
      | None \<Rightarrow> r)"

definition default_irq :: "nat \<Rightarrow> int \<Rightarrow> int" where
  "default_irq b i = (if b = 888 then 7 else if b = 632 then 2 else if b = 956 then 5 else i)"

definition find_irq :: "short_params \<Rightarrow> nat \<Rightarrow> int list \<Rightarrow> int list list \<Rightarrow> int" where
  "find_irq p b answers rounds =
     (let i0 = p_irq p;
          i1 = (if i0 < 0 \<and> p_probe p = 1 then fst (short_kernelprobe answers) else i0);
          i2 = (if i1 < 0 \<and> p_probe p = 2 then fst (short_selfprobe rounds) else i1)
      in if i2 < 0 then default_irq b i2 else i2)"

definition install_irq :: "short_params \<Rightarrow> allocs \<Rightarrow> int \<Rightarrow> short_res \<Rightarrow> short_res \<times> int" where
  "install_irq p oks i r =
     (if 0 \<le> i \<and> 0 < p_share p then
        (if fst (kmalloc oks) then (r\<lparr>handler := Some (i, H_sh)\<rparr>, i) else (r, -1))
      else
        (let (r1, i1) = (if 0 \<le> i then
               (if fst (kmalloc oks) then (r\<lparr>handler := Some (i, H_short)\<rparr>, i) else (r, -1)) else (r, i))
         in if 0 \<le> i1 \<and> 0 < p_wq p + p_tasklet p then
              (let r2 = free_irq i1 False r1
               in if fst (kmalloc (snd (kmalloc oks)))
                  then (r2\<lparr>handler := Some (i1, if p_tasklet p \<noteq> 0 then H_tl else H_wq)\<rparr>, i1)
                  else (r2, -1))
            else (r1, i1)))"

text \<open>
  \<open>mapped\<close> is the answer of \<open>ioremap\<close>, \<open>reg\<close> that of \<open>register_chrdev\<close> (an error number
  stands for a negative answer), \<open>oks\<close> those of \<open>request_irq\<close>. Returns the resources, the base
  and the line in use, and the outcome.
\<close>

definition short_init ::
  "short_params \<Rightarrow> bool \<Rightarrow> nat \<Rightarrow> int outcome \<Rightarrow> int list \<Rightarrow> int list list \<Rightarrow> allocs \<Rightarrow>
   short_res \<Rightarrow> short_res \<times> nat \<times> int \<times> int outcome" where
  "short_init p region_ok mapped reg answers rounds oks r =
     (if \<not> region_ok then (r, p_base p, p_irq p, Fail ENODEV)
      else
        (let (r1, b) = (if p_use_mem p
               then (r\<lparr>mem_region := Some (p_base p), mapping := Some mapped\<rparr>, mapped)
               else (r\<lparr>io_region := Some (p_base p)\<rparr>, p_base p))
         in case reg of
             Fail e \<Rightarrow> (if p_use_mem p then release_mem_region b r1 else release_region b r1, b, p_irq p, Fail e)
           | Blocked \<Rightarrow> (r1, b, p_irq p, Blocked)
           | Ret _ \<Rightarrow>
               (let r2 = r1\<lparr>chrdev := True, page_held := True\<rparr>;
                    (r3, i) = install_irq p oks (find_irq p b answers rounds) r2
                in (r3, b, i, Ret 0))))"

definition short_cleanup :: "short_params \<Rightarrow> nat \<Rightarrow> int \<Rightarrow> short_res \<Rightarrow> short_res" where
  "short_cleanup p b i r =
     (let r1 = (if 0 \<le> i then free_irq i (p_share p \<noteq> 0) r else r);
          r2 = r1\<lparr>chrdev := False\<rparr>;
          r3 = (if p_use_mem p then release_mem_region (p_base p) (r2\<lparr>mapping := None\<rparr>)
                else release_region b r2)
      in r3\<lparr>page_held := False\<rparr>)"

end
