(* ===== verification/Short_Props.thy ===== *)
theory Short_Props
  imports Short
begin

unbundle bit_operations_syntax

section \<open>Correctness of short\<close>

text \<open>
  The records of the interrupt device and the page they are printed to, the bottom half and its ring
  of time values, and the resources taken and released at loading and unloading.
\<close>

subsection \<open>Port transfers\<close>

text \<open>All modes transfer every byte, in order, to or from one address.\<close>

fun op_addr :: "io_op \<Rightarrow> nat" where
  "op_addr (Inb a) = a" | "op_addr (Inb_p a) = a" | "op_addr (Ioread8 a) = a" | "op_addr (Insb a n) = a"
| "op_addr (Outb a b) = a" | "op_addr (Outb_p a b) = a" | "op_addr (Iowrite8 a b) = a" | "op_addr (Outsb a bs) = a"

fun op_out :: "io_op \<Rightarrow> byte list" where
  "op_out (Outb a b) = [b]" | "op_out (Outb_p a b) = [b]" | "op_out (Iowrite8 a b) = [b]"
| "op_out (Outsb a bs) = bs" | "op_out _ = []"

lemma concat_singletons: "(\<And>x. f x = [x]) \<Longrightarrow> concat (map f xs) = xs"
  by (induction xs) simp_all

lemma short_write_all_modes:
  assumes "do_short_write True 0 minor buf s = (t, Ret r)"
  shows "\<exists>ops. io t = io s @ ops \<and> concat (map op_out ops) = buf \<and> (\<forall>x \<in> set ops. op_addr x = short_address s minor)"
  using assms
  by (auto simp: do_short_write_def Let_def comp_def concat_singletons split: short_mode.splits)

subsection \<open>Records\<close>

lemma time_record_length:
  "snd tv < 1000000000 \<Longrightarrow> length (time_record tv) = 16"
proof -
  assume a: "snd tv < 1000000000"
  have "fst tv mod 100000000 < 10 ^ 8" by simp
  moreover have "snd tv div 1000 < 10 ^ 6" using a by (simp add: less_mult_imp_div_less)
  ultimately show ?thesis
    using fmt_length[of "fst tv mod 100000000" 8] fmt_length[of "snd tv div 1000" 6]
    by (simp add: time_record_def)
qed

lemma bh_line_length: "n < 1000000 \<Longrightarrow> length (bh_line n) = 16"
  using fmt_length[of n 6] by (simp add: bh_line_def)

text \<open>Printing a record of 16 bytes: what was printed before and the record are in the page.\<close>

lemma emit_16:
  assumes "length text = 16" "length (short_page s) = PAGE_SIZE" "short_head s = 16 * k" "k < 255"
  shows "\<exists>page. emit text s = Some (s\<lparr>short_page := page, short_head := 16 * (k + 1)\<rparr>) \<and> length page = PAGE_SIZE \<and>
    take (16 * (k + 1)) page = take (16 * k) (short_page s) @ map Some text"
proof -
  obtain page where p: "print_at (16 * k) text (short_page s) = Some page"
    using assms by (auto simp: print_at_def PAGE_SIZE_def)
  have "take (16 * k + 16) page = take (16 * k) page @ take 16 (drop (16 * k) page)" by (simp add: take_add)
  also have "\<dots> = take (16 * k) (short_page s) @ map Some text"
    using print_at_take[OF p, of "16 * k"] print_at_drop[OF p] assms(1) by simp
  finally have "take (16 * (k + 1)) page = take (16 * k) (short_page s) @ map Some text" by (simp add: algebra_simps)
  then show ?thesis
    using p assms print_at_length[OF p]
    by (intro exI[of _ page]) (simp add: emit_def incr_bp_def PAGE_SIZE_def Let_def add.commute)
qed

lemma emit_page_end:
  assumes "length text = 16" "length (short_page s) = PAGE_SIZE" "short_head s = 4080"
  shows "emit text s = None"
  using assms by (simp add: emit_def print_at_def PAGE_SIZE_def)

fun interrupts :: "timespec list \<Rightarrow> short_sys \<Rightarrow> short_sys option" where
  "interrupts [] s = Some s"
| "interrupts (tv # tvs) s = do { t \<leftarrow> short_interrupt tv s; interrupts tvs t }"

lemma interrupts_ok:
  "\<forall>tv \<in> set tvs. snd tv < 1000000000 \<Longrightarrow> length (short_page s) = PAGE_SIZE \<Longrightarrow> short_head s = 16 * k \<Longrightarrow>
    k + length tvs \<le> 255 \<Longrightarrow>
    \<exists>page. interrupts tvs s = Some (s\<lparr>short_page := page, short_head := 16 * (k + length tvs)\<rparr>) \<and>
      length page = PAGE_SIZE \<and>
      take (16 * (k + length tvs)) page = take (16 * k) (short_page s) @ map Some (concat (map time_record tvs))"
proof (induction tvs arbitrary: s k)
  case Nil
  have "s = s\<lparr>short_page := short_page s, short_head := 16 * k\<rparr>" using Nil(3) by (cases s) simp
  then show ?case using Nil by (intro exI[of _ "short_page s"]) simp
next
  case (Cons tv tvs)
  have l: "length (time_record tv) = 16" using Cons.prems(1) by (simp add: time_record_length)
  obtain page where e: "emit (time_record tv) s = Some (s\<lparr>short_page := page, short_head := 16 * (k + 1)\<rparr>)"
    "length page = PAGE_SIZE" "take (16 * (k + 1)) page = take (16 * k) (short_page s) @ map Some (time_record tv)"
    using emit_16[OF l Cons.prems(2,3)] Cons.prems(4) by auto
  let ?t = "s\<lparr>short_page := page, short_head := 16 * (k + 1)\<rparr>"
  obtain page' where r: "interrupts tvs ?t = Some (?t\<lparr>short_page := page', short_head := 16 * (k + 1 + length tvs)\<rparr>)"
    "length page' = PAGE_SIZE"
    "take (16 * (k + 1 + length tvs)) page' = take (16 * (k + 1)) page @ map Some (concat (map time_record tvs))"
    using Cons.IH[of ?t "k + 1"] Cons.prems e(2) by auto
  show ?case using e r l by (auto simp: short_interrupt_def)
qed

text \<open>Each interrupt prints a record of exactly 16 bytes. Up to 255 interrupts the page holds the records
  in order and one read of any larger size returns all of them, leaving nothing; the 256th
  interrupt starts in the last 16 bytes and the zero byte of its text lands behind the page.\<close>

lemma short_records_correct:
  assumes "length (short_page s) = PAGE_SIZE" "short_head s = 0" "short_tail s = 0"
    and "\<forall>tv \<in> set tvs. snd tv < 1000000000" "snd tv' < 1000000000"
  shows "(\<forall>tv \<in> set tvs. length (time_record tv) = 16) \<and>
    (0 < length tvs \<and> length tvs \<le> 255 \<longrightarrow> (\<exists>t u. interrupts tvs s = Some t \<and>
      (\<forall>k n. good_env k \<and> 16 * length tvs \<le> n \<longrightarrow>
        short_i_read k n t = Some (u, map Some (concat (map time_record tvs)), Ret (16 * int (length tvs)))) \<and>
      short_tail u = short_head u)) \<and>
    (length tvs = 255 \<longrightarrow> interrupts (tvs @ [tv']) s = None)"
proof (intro conjI impI)
  show "\<forall>tv \<in> set tvs. length (time_record tv) = 16" using assms(4) by (simp add: time_record_length)
  show "interrupts (tvs @ [tv']) s = None" if n: "length tvs = 255"
  proof -
    obtain page where p: "interrupts tvs s = Some (s\<lparr>short_page := page, short_head := 4080\<rparr>)" "length page = PAGE_SIZE"
      using interrupts_ok[OF assms(4,1), of 0] assms(2) n by auto
    have "interrupts (xs @ ys) s = do { t \<leftarrow> interrupts xs s; interrupts ys t }" for xs ys and s :: short_sys
      by (induction xs arbitrary: s) (auto split: Option.bind_split)
    moreover have "short_interrupt tv' (s\<lparr>short_page := page, short_head := 4080\<rparr>) = None"
      using emit_page_end[of "time_record tv'"] p(2) assms(5) by (simp add: short_interrupt_def time_record_length)
    ultimately show ?thesis using p(1) by simp
  qed
  assume n: "0 < length tvs \<and> length tvs \<le> 255"
  let ?m = "length tvs"
  obtain page where p: "interrupts tvs s = Some (s\<lparr>short_page := page, short_head := 16 * ?m\<rparr>)" "length page = PAGE_SIZE"
    "take (16 * ?m) page = map Some (concat (map time_record tvs))"
    using interrupts_ok[OF assms(4,1), of 0] assms(2) n by auto
  let ?t = "s\<lparr>short_page := page, short_head := 16 * ?m\<rparr>"
  have "short_i_read k c ?t = Some (?t\<lparr>short_tail := 16 * ?m\<rparr>, map Some (concat (map time_record tvs)), Ret (16 * int ?m))"
    if "good_env k \<and> 16 * ?m \<le> c" for k c
    using that n p assms(3)
    by (auto simp: short_i_read_def readable_def Let_def incr_bp_def PAGE_SIZE_def good_env_def min_def)
  then show "\<exists>t u. interrupts tvs s = Some t \<and>
      (\<forall>k n. good_env k \<and> 16 * ?m \<le> n \<longrightarrow>
        short_i_read k n t = Some (u, map Some (concat (map time_record tvs)), Ret (16 * int ?m))) \<and>
      short_tail u = short_head u"
    using p(1) by (intro exI[of _ ?t] exI[of _ "?t\<lparr>short_tail := 16 * ?m\<rparr>"]) simp
qed

definition demo_short :: short_sys where
  "demo_short = \<lparr>short_base = 888, use_mem = False, short_page = replicate PAGE_SIZE None, short_head = 0,
     short_tail = 0, tv_data = replicate NR_TIMEVAL (0, 0), tv_head = 0, tv_tail = 0, short_wq_count = 0,
     bh_scheduled = False, io = []\<rparr>"

lemma short_records_correct_example:
  "\<exists>t u. interrupts [(5, 2000)] demo_short = Some t \<and>
    short_i_read \<lparr>signal = False, allocs = [], uleft = 0\<rparr> 64 t = Some (u, map Some (time_record (5, 2000)), Ret 16)"
proof -
  have d: "length (short_page demo_short) = PAGE_SIZE" "short_head demo_short = 0" "short_tail demo_short = 0"
    by (simp_all add: demo_short_def)
  show ?thesis
    using short_records_correct[OF d, of "[(5, 2000)]" "(0, 0)"]
    by (auto simp: good_env_def simp del: interrupts.simps)
qed

subsection \<open>The bottom half\<close>

text \<open>\<open>n\<close> time values are waiting in the ring, from the tail on.\<close>

definition waiting :: "nat \<Rightarrow> short_sys \<Rightarrow> timespec list" where
  "waiting n s = map (\<lambda>j. tv_data s ! ((tv_tail s + j) mod NR_TIMEVAL)) [0..<n]"

lemma incr_tv_mod: "p < NR_TIMEVAL \<Longrightarrow> short_incr_tv p = (p + 1) mod NR_TIMEVAL"
  by (auto simp: short_incr_tv_def NR_TIMEVAL_def)

lemma waiting_Suc:
  "tv_tail s < NR_TIMEVAL \<Longrightarrow> waiting (Suc n) s = tv_data s ! tv_tail s # waiting n (s\<lparr>tv_tail := short_incr_tv (tv_tail s)\<rparr>)"
  by (simp add: waiting_def incr_tv_mod upt_conv_Cons map_Suc_upt[symmetric] mod_add_left_eq del: upt_Suc)

lemma waiting_cong:
  "tv_data t = tv_data s \<Longrightarrow> tv_tail t = tv_tail s \<Longrightarrow> waiting n t = waiting n s"
  by (simp add: waiting_def)

lemma tv_loop_ok:
  "length (short_page s) = PAGE_SIZE \<Longrightarrow> short_head s = 16 * k \<Longrightarrow> k + n \<le> 255 \<Longrightarrow> 0 < n \<Longrightarrow> n \<le> fuel \<Longrightarrow>
    tv_tail s < NR_TIMEVAL \<Longrightarrow> tv_head s = (tv_tail s + n) mod NR_TIMEVAL \<Longrightarrow>
    \<forall>tv \<in> set (waiting n s). snd tv < 1000000000 \<Longrightarrow>
    \<exists>page. tv_loop fuel s = Some (s\<lparr>short_page := page, short_head := 16 * (k + n), tv_tail := tv_head s\<rparr>) \<and>
      length page = PAGE_SIZE \<and>
      take (16 * (k + n)) page = take (16 * k) (short_page s) @ map Some (concat (map time_record (waiting n s)))"
proof (induction fuel arbitrary: s k n)
  case (Suc fuel)
  obtain m where n: "n = Suc m" using Suc.prems(4) by (cases n) auto
  let ?tv = "tv_data s ! tv_tail s"
  have w: "waiting n s = ?tv # waiting m (s\<lparr>tv_tail := short_incr_tv (tv_tail s)\<rparr>)"
    unfolding n by (rule waiting_Suc[OF Suc.prems(6)])
  have l: "length (time_record ?tv) = 16" using Suc.prems(8) w by (simp add: time_record_length)
  obtain page where e: "emit (time_record ?tv) s = Some (s\<lparr>short_page := page, short_head := 16 * (k + 1)\<rparr>)"
    "length page = PAGE_SIZE" "take (16 * (k + 1)) page = take (16 * k) (short_page s) @ map Some (time_record ?tv)"
    using emit_16[OF l Suc.prems(1,2)] Suc.prems(3,4) by auto
  let ?t = "s\<lparr>short_page := page, short_head := 16 * (k + 1), tv_tail := short_incr_tv (tv_tail s)\<rparr>"
  have step: "tv_loop (Suc fuel) s = (if tv_tail ?t \<noteq> tv_head s then tv_loop fuel ?t else Some ?t)"
    using e by simp
  have wt: "waiting m (s\<lparr>tv_tail := short_incr_tv (tv_tail s)\<rparr>) = waiting m ?t" by (rule waiting_cong) simp_all
  have tl: "tv_tail ?t = (tv_tail s + 1) mod NR_TIMEVAL" using incr_tv_mod[OF Suc.prems(6)] by simp
  show ?case
  proof (cases m)
    case 0
    have "tv_tail ?t = tv_head s" using tl Suc.prems(7) n 0 by simp
    then show ?thesis using step e w n 0 by (auto simp: waiting_def)
  next
    case (Suc m')
    have "m < 255" using Suc.prems(3) n by simp
    then have "(tv_tail s + 1 + m) mod NR_TIMEVAL \<noteq> (tv_tail s + 1) mod NR_TIMEVAL"
      using Suc by (auto simp: NR_TIMEVAL_def mod_eq_dvd_iff_nat nat_dvd_not_less)
    then have ne: "tv_tail ?t \<noteq> tv_head s" using tl Suc.prems(7) n by (simp add: add.assoc)
    have hd: "tv_head ?t = (tv_tail ?t + m) mod NR_TIMEVAL"
      using tl Suc.prems(7) n by (simp add: mod_add_left_eq)
    obtain page' where r: "tv_loop fuel ?t = Some (?t\<lparr>short_page := page', short_head := 16 * (k + 1 + m), tv_tail := tv_head ?t\<rparr>)"
      "length page' = PAGE_SIZE"
      "take (16 * (k + 1 + m)) page' = take (16 * (k + 1)) page @ map Some (concat (map time_record (waiting m ?t)))"
      using Suc.IH[of ?t "k + 1" m] Suc.prems e(2) hd n Suc w wt tl by (auto simp: NR_TIMEVAL_def)
    then show ?thesis using step ne e w wt n by (auto simp: algebra_simps)
  qed
qed simp

text \<open>With more records than fit before the end of the page, the loop comes to the last 16 bytes.\<close>

lemma tv_loop_page_end:
  "length (short_page s) = PAGE_SIZE \<Longrightarrow> short_head s = 16 * k \<Longrightarrow> k \<le> 255 \<Longrightarrow> 255 < k + n \<Longrightarrow> n \<le> NR_TIMEVAL \<Longrightarrow>
    tv_tail s < NR_TIMEVAL \<Longrightarrow> tv_head s = (tv_tail s + n) mod NR_TIMEVAL \<Longrightarrow>
    \<forall>tv \<in> set (waiting n s). snd tv < 1000000000 \<Longrightarrow> tv_loop fuel s = None"
proof (induction fuel arbitrary: s k n)
  case (Suc fuel)
  obtain m where n: "n = Suc m" using Suc.prems(3,4) by (cases n) auto
  let ?tv = "tv_data s ! tv_tail s"
  have w: "waiting n s = ?tv # waiting m (s\<lparr>tv_tail := short_incr_tv (tv_tail s)\<rparr>)"
    unfolding n by (rule waiting_Suc[OF Suc.prems(6)])
  have l: "length (time_record ?tv) = 16" using Suc.prems(8) w by (simp add: time_record_length)
  show ?case
  proof (cases "k = 255")
    case True
    then show ?thesis using emit_page_end[OF l Suc.prems(1)] Suc.prems(2) by simp
  next
    case False
    then obtain page where e: "emit (time_record ?tv) s = Some (s\<lparr>short_page := page, short_head := 16 * (k + 1)\<rparr>)"
      "length page = PAGE_SIZE"
      using emit_16[OF l Suc.prems(1,2)] Suc.prems(3) by auto
    let ?t = "s\<lparr>short_page := page, short_head := 16 * (k + 1), tv_tail := short_incr_tv (tv_tail s)\<rparr>"
    have wt: "waiting m (s\<lparr>tv_tail := short_incr_tv (tv_tail s)\<rparr>) = waiting m ?t" by (rule waiting_cong) simp_all
    have tl: "tv_tail ?t = (tv_tail s + 1) mod NR_TIMEVAL" using incr_tv_mod[OF Suc.prems(6)] by simp
    have m: "0 < m" "m < NR_TIMEVAL" using Suc.prems(3-5) False n by simp_all
    then have "(tv_tail s + 1 + m) mod NR_TIMEVAL \<noteq> (tv_tail s + 1) mod NR_TIMEVAL"
      by (auto simp: mod_eq_dvd_iff_nat nat_dvd_not_less)
    then have ne: "tv_tail ?t \<noteq> tv_head s" using tl Suc.prems(7) n by (simp add: add.assoc)
    have hd: "tv_head ?t = (tv_tail ?t + m) mod NR_TIMEVAL"
      using tl Suc.prems(7) n by (simp add: mod_add_left_eq)
    have "tv_loop fuel ?t = None"
      using Suc.IH[of ?t "k + 1" m] Suc.prems False e(2) hd n m w wt tl by (auto simp: NR_TIMEVAL_def)
    then show ?thesis using e ne by simp
  qed
qed simp

text \<open>C37. The bottom half, run with the page filled to a record boundary, normalised times and a count of at most six
  digits: as long as its line and its records fit before the last 16 bytes of the page, it ends, having printed one line with the number
  of interrupts since its last run and then a record for each of the waiting time values, in their order, and leaves the ring of
  time values empty. When they do not fit, it comes to the last 16 bytes of the page, and the zero byte of the text printed there
  lands behind the page.\<close>

theorem short_bottom_half_ends:
  assumes "length (short_page s) = PAGE_SIZE" "short_head s = 16 * k" "k \<le> 255" "0 < n" "n \<le> NR_TIMEVAL"
    and "tv_tail s < NR_TIMEVAL" "tv_head s = (tv_tail s + n) mod NR_TIMEVAL"
    and "short_wq_count s < 1000000" "\<forall>tv \<in> set (waiting n s). snd tv < 1000000000"
  shows "if k + 1 + n \<le> 255
    then \<exists>page. short_do_tasklet s = Some (s\<lparr>short_wq_count := 0, bh_scheduled := False, short_page := page,
        short_head := 16 * (k + 1 + n), tv_tail := tv_head s\<rparr>) \<and>
      take (16 * (k + 1 + n)) page =
        take (16 * k) (short_page s) @ map Some (bh_line (short_wq_count s) @ concat (map time_record (waiting n s)))
    else short_do_tasklet s = None"
proof (cases "k = 255")
  case True
  then show ?thesis
    using emit_page_end[OF bh_line_length[OF assms(8)], of "s\<lparr>short_wq_count := 0, bh_scheduled := False\<rparr>"] assms(1,2)
    by (simp add: short_do_tasklet_def)
next
  case False
  let ?s = "s\<lparr>short_wq_count := 0, bh_scheduled := False\<rparr>"
  obtain p where p: "emit (bh_line (short_wq_count s)) ?s = Some (?s\<lparr>short_page := p, short_head := 16 * (k + 1)\<rparr>)"
    "length p = PAGE_SIZE" "take (16 * (k + 1)) p = take (16 * k) (short_page s) @ map Some (bh_line (short_wq_count s))"
    using emit_16[OF bh_line_length[OF assms(8)], of ?s k] assms(1-3) False by auto
  let ?t = "?s\<lparr>short_page := p, short_head := 16 * (k + 1)\<rparr>"
  have w: "waiting n ?t = waiting n s" by (rule waiting_cong) simp_all
  show ?thesis
  proof (cases "k + 1 + n \<le> 255")
    case True
    obtain page where "tv_loop NR_TIMEVAL ?t = Some (?t\<lparr>short_page := page, short_head := 16 * (k + 1 + n), tv_tail := tv_head ?t\<rparr>)"
      "take (16 * (k + 1 + n)) page = take (16 * (k + 1)) p @ map Some (concat (map time_record (waiting n ?t)))"
      using tv_loop_ok[of ?t "k + 1" n NR_TIMEVAL] p(2) assms(4-7,9) True w by auto
    then show ?thesis unfolding if_P[OF True] using p w by (intro exI[of _ page]) (simp add: short_do_tasklet_def)
  next
    case out: False
    have "tv_loop NR_TIMEVAL ?t = None"
      using tv_loop_page_end[of ?t "k + 1" n NR_TIMEVAL] p(2) assms(3-7,9) False out w by simp
    then show ?thesis using p(1) out by (simp add: short_do_tasklet_def)
  qed
qed

lemma short_bottom_half_ends_witness:
  "\<exists>t. short_do_tasklet (short_wq_interrupt (5, 2000) demo_short) = Some t \<and> tv_tail t = 1 \<and> short_head t = 32"
proof -
  let ?s = "short_wq_interrupt (5, 2000) demo_short"
  have s: "short_page ?s = replicate PAGE_SIZE None" "short_head ?s = 0" "tv_tail ?s = 0" "tv_head ?s = 1" "short_wq_count ?s = 1"
    by (simp_all add: short_wq_interrupt_def demo_short_def short_incr_tv_def NR_TIMEVAL_def)
  have "waiting 1 ?s = [(5, 2000)]"
    by (simp add: waiting_def short_wq_interrupt_def demo_short_def NR_TIMEVAL_def)
  then show ?thesis
    using short_bottom_half_ends[of ?s 0 1] by (auto simp: s NR_TIMEVAL_def)
qed

end
