(* ===== verification/Shortprint.thy ===== *)
theory Shortprint
  imports Parport_Format Device_Interfaces
begin

unbundle bit_operations_syntax

section \<open>The shortprint driver\<close>

text \<open>
  \<open>shortprint/shortprint.c\<close>: writes go through a ring of one page to a parallel printer, one
  byte for each run of the work function, which interrupts and a timer queue; reads return the times of
  interrupts from a second page. Positions are offsets into their page. What the ports
  answer is a parameter, the operations issued are recorded.
\<close>

subsection \<open>Data\<close>

definition SP_DATA :: nat where "SP_DATA = 0"
definition SP_STATUS :: nat where "SP_STATUS = 1"
definition SP_CONTROL :: nat where "SP_CONTROL = 2"
definition SHORTP_NR_PORTS :: nat where "SHORTP_NR_PORTS = 3"
definition SP_SR_BUSY :: byte where "SP_SR_BUSY = 128"
definition SP_SR_ACK :: byte where "SP_SR_ACK = 64"
definition SP_CR_IRQ :: byte where "SP_CR_IRQ = 16"
definition SP_CR_SELECT :: byte where "SP_CR_SELECT = 8"
definition SP_CR_INIT :: byte where "SP_CR_INIT = 4"
definition SP_CR_STROBE :: byte where "SP_CR_STROBE = 1"
definition SP_MIN_SPACE :: nat where "SP_MIN_SPACE = PAGE_SIZE div 2"

record shortp_sys =
  shortp_base :: nat
  in_page :: "cell list"
  in_head :: nat
  in_tail :: nat
  out_page :: "cell list"
  out_head :: nat
  out_tail :: nat
  output_active :: bool
  timer_on :: bool
  work_queued :: bool
  shortp_tv :: "nat \<times> nat"
  spio :: "io_op list"

subsection \<open>The output ring\<close>

definition shortp_incr_bp :: "nat \<Rightarrow> nat \<Rightarrow> nat" where
  "shortp_incr_bp index delta = incr_bp index delta"

definition shortp_out_space :: "shortp_sys \<Rightarrow> int" where
  "shortp_out_space s =
     (if out_tail s \<le> out_head s then
        (let space = int PAGE_SIZE - int (out_head s) in if out_tail s = 0 then space - 1 else space)
      else int (out_tail s) - int (out_head s) - 1)"

definition shortp_incr_out_bp :: "nat \<Rightarrow> nat \<Rightarrow> nat" where
  "shortp_incr_out_bp bp incr = (let new = bp + incr in if PAGE_SIZE \<le> new then new - PAGE_SIZE else new)"

text \<open>\<open>cr\<close> is what the control port answers. A byte that was never written has no value.\<close>

definition shortp_do_write :: "byte \<Rightarrow> shortp_sys \<Rightarrow> shortp_sys option" where
  "shortp_do_write cr s =
     (if length (out_page s) \<le> out_tail s then None
      else do {
        b \<leftarrow> out_page s ! out_tail s;
        Some (s\<lparr>timer_on := True, out_tail := shortp_incr_out_bp (out_tail s) 1,
          spio := spio s @ [Inb (shortp_base s + SP_CONTROL), Outb_p (shortp_base s + SP_DATA) b,
            Outb_p (shortp_base s + SP_CONTROL) (cr OR SP_CR_STROBE),
            Outb_p (shortp_base s + SP_CONTROL) (cr AND NOT SP_CR_STROBE)]\<rparr>) })"

definition shortp_start_output :: "shortp_sys \<Rightarrow> shortp_sys" where
  "shortp_start_output s =
     (if output_active s then s else s\<lparr>output_active := True, timer_on := True, work_queued := True\<rparr>)"

text \<open>One round of the write loop: as much as fits before the end of the page or the tail.\<close>

definition shortp_put :: "nat \<Rightarrow> byte list \<Rightarrow> shortp_sys \<Rightarrow> shortp_sys option" where
  "shortp_put space src s =
     (if length (out_page s) < out_head s + space then None
      else Some (shortp_start_output (s\<lparr>out_page := mem_write (out_head s) (map Some (take space src)) (out_page s),
             out_head := shortp_incr_out_bp (out_head s) space\<rparr>)))"

text \<open>The consumer at work while a writer sleeps: \<open>n\<close> bytes, or what there is.\<close>

fun shortp_drain :: "byte \<Rightarrow> nat \<Rightarrow> shortp_sys \<Rightarrow> shortp_sys option" where
  "shortp_drain cr 0 s = Some s"
| "shortp_drain cr (Suc n) s =
     (if out_head s = out_tail s then Some s else do { t \<leftarrow> shortp_do_write cr s; shortp_drain cr n t })"

text \<open>
  The loop of the write. \<open>drains\<close> says how many bytes are printed during each sleep; when
  it is used up a signal ends the sleep. \<open>okay\<close> is the number of bytes the user memory
  has; what is there of a failing copy is already in the page. The mutex is held throughout, so that no other writer interferes.
\<close>

function shortp_write_loop ::
  "byte \<Rightarrow> nat list \<Rightarrow> nat \<Rightarrow> byte list \<Rightarrow> nat \<Rightarrow> shortp_sys \<Rightarrow> (shortp_sys \<times> int outcome) option" where
  "shortp_write_loop cr drains okay src written s =
     (if written < length src then
        (let space = shortp_out_space s in
         if space \<le> 0 then
           (case drains of
              [] \<Rightarrow> Some (s, Ret (int written))
            | n # ns \<Rightarrow> do { t \<leftarrow> shortp_drain cr n s; shortp_write_loop cr ns okay src written t })
         else
           (let sp = min (nat space) (length src - written)
            in if okay < written + sp then
                 Some (s\<lparr>out_page := mem_write (out_head s) (map Some (take (okay - written) (drop written src))) (out_page s)\<rparr>,
                   Fail EFAULT)
               else (case shortp_put sp (drop written src) s of
                   None \<Rightarrow> None
                 | Some t \<Rightarrow> shortp_write_loop cr drains okay src (written + sp) t)))
      else Some (s, Ret (int written)))"
  by pat_completeness auto
termination
  by (relation "measure (\<lambda>(cr, drains, okay, src, written, s). length drains + (length src - written))") auto

declare shortp_write_loop.simps [simp del]

text \<open>The outcome and the file position afterwards.\<close>

definition shortp_write ::
  "byte \<Rightarrow> bool \<Rightarrow> nat list \<Rightarrow> nat \<Rightarrow> byte list \<Rightarrow> int \<Rightarrow> shortp_sys \<Rightarrow> (shortp_sys \<times> int \<times> int outcome) option" where
  "shortp_write cr interrupted drains okay src f_pos s =
     (if interrupted then Some (s, f_pos, Fail ERESTARTSYS)
      else do {
        (t, r) \<leftarrow> shortp_write_loop cr drains okay src 0 s;
        Some (t, (case r of Ret n \<Rightarrow> f_pos + n | _ \<Rightarrow> f_pos), r) })"

subsection \<open>The work function, interrupts and the timer\<close>

text \<open>
  The status answers until the printer is ready; without such an answer the wait never ends. When the
  first answer is that it is not, the next one is only for the log.
\<close>

fun shortp_wait_loop :: "nat \<Rightarrow> byte list \<Rightarrow> (io_op list \<times> byte list) option" where
  "shortp_wait_loop base [] = None"
| "shortp_wait_loop base (st # sts) =
     (if st AND SP_SR_BUSY = 0 then do { (ops, r) \<leftarrow> shortp_wait_loop base sts; Some (Inb (base + SP_STATUS) # ops, r) }
      else Some ([Inb (base + SP_STATUS)], sts))"

fun shortp_wait :: "nat \<Rightarrow> byte list \<Rightarrow> (io_op list \<times> byte list) option" where
  "shortp_wait base [] = None"
| "shortp_wait base (st # sts) =
     (if st AND SP_SR_BUSY = 0 then
        do { (ops, r) \<leftarrow> shortp_wait_loop base (drop 1 sts);
             Some (Inb (base + SP_STATUS) # Inb (base + SP_STATUS) # ops, r) }
      else Some ([Inb (base + SP_STATUS)], sts))"

definition shortp_record :: "nat \<times> nat \<Rightarrow> byte list" where
  "shortp_record tv = fmt_zero 8 (fst tv mod 100000000) @ [46] @ fmt_zero 9 (snd tv) @ [10]"

text \<open>Whether the sleeping writers are woken.\<close>

definition wake_writers :: "shortp_sys \<Rightarrow> bool" where
  "wake_writers s \<longleftrightarrow> SP_MIN_SPACE < (PAGE_SIZE + out_tail s - out_head s) mod PAGE_SIZE"

definition shortp_do_work :: "byte list \<Rightarrow> byte \<Rightarrow> shortp_sys \<Rightarrow> (shortp_sys \<times> bool) option" where
  "shortp_do_work status cr s = do {
     (ops, _) \<leftarrow> shortp_wait (shortp_base s) status;
     let s1 = s\<lparr>work_queued := False, spio := spio s @ ops\<rparr>;
     s2 \<leftarrow> (if out_head s1 = out_tail s1 then Some (s1\<lparr>output_active := False, timer_on := False\<rparr>)
            else shortp_do_write cr s1);
     page \<leftarrow> print_at (in_head s2) (shortp_record (shortp_tv s2)) (in_page s2);
     Some (s2\<lparr>in_page := page, in_head := shortp_incr_bp (in_head s2) (length (shortp_record (shortp_tv s2)))\<rparr>,
       wake_writers s2) }"

definition shortp_interrupt :: "nat \<times> nat \<Rightarrow> shortp_sys \<Rightarrow> shortp_sys \<times> bool" where
  "shortp_interrupt tv s =
     (if \<not> output_active s then (s, False) else (s\<lparr>shortp_tv := tv, work_queued := True\<rparr>, True))"

definition shortp_timeout :: "byte \<Rightarrow> nat \<times> nat \<Rightarrow> shortp_sys \<Rightarrow> shortp_sys" where
  "shortp_timeout status tv s =
     (let s0 = s\<lparr>timer_on := False\<rparr>
      in if \<not> output_active s0 then s0
         else
           (let s1 = s0\<lparr>spio := spio s0 @ [Inb (shortp_base s0 + SP_STATUS)]\<rparr>
            in if status AND SP_SR_BUSY = 0 \<or> status AND SP_SR_ACK \<noteq> 0 then s1\<lparr>timer_on := True\<rparr>
               else fst (shortp_interrupt tv s1)))"

subsection \<open>The other operations\<close>

text \<open>\<open>None\<close>: the release waits for the output to end; a signal ends the wait too.\<close>

definition shortp_release :: "bool \<Rightarrow> shortp_sys \<Rightarrow> int option" where
  "shortp_release interrupted s = (if output_active s \<and> \<not> interrupted then None else Some 0)"

definition shortp_open :: "shortp_sys \<Rightarrow> int" where
  "shortp_open s = 0"

definition shortp_poll :: "shortp_sys \<Rightarrow> bool \<times> bool" where
  "shortp_poll s = (True, True)"

definition shortp_read :: "kenv \<Rightarrow> nat \<Rightarrow> shortp_sys \<Rightarrow> (shortp_sys \<times> cell list \<times> int outcome) option" where
  "shortp_read k count s =
     (if in_head s = in_tail s then Some (s, [], if signal k then Fail ERESTARTSYS else Blocked)
      else
        (let n = min count (readable (in_head s) (in_tail s))
         in if length (in_page s) < in_tail s + n then None
            else if uleft k \<noteq> 0 then Some (s, [], Fail EFAULT)
            else Some (s\<lparr>in_tail := shortp_incr_bp (in_tail s) n\<rparr>, take n (drop (in_tail s) (in_page s)), Ret (int n))))"

subsection \<open>Loading and unloading\<close>

record shortp_res =
  sp_region :: bool
  sp_chrdev :: bool
  sp_pages :: bool
  sp_workqueue :: bool
  sp_irq :: "int option"

definition shortp_cleanup :: "nat \<Rightarrow> int \<Rightarrow> shortp_res \<Rightarrow> shortp_sys \<Rightarrow> shortp_res \<times> shortp_sys" where
  "shortp_cleanup base irq r s =
     (let (r1, s1) = (if 0 \<le> irq
            then (r\<lparr>sp_irq := None\<rparr>, s\<lparr>spio := spio s @ [Outb (base + SP_CONTROL) 0]\<rparr>) else (r, s));
          s2 = (if output_active s1 then s1\<lparr>timer_on := False\<rparr> else s1)
      in (r1\<lparr>sp_chrdev := False, sp_region := False, sp_workqueue := False, sp_pages := False\<rparr>,
          s2\<lparr>work_queued := False\<rparr>))"

text \<open>The state of the driver after the buffers have been set up.\<close>

definition shortp_start :: "nat \<Rightarrow> shortp_sys" where
  "shortp_start base =
     \<lparr>shortp_base = base, in_page = replicate PAGE_SIZE None, in_head = 0, in_tail = 0,
      out_page = replicate PAGE_SIZE None, out_head = 0, out_tail = 0, output_active = False, timer_on = False,
      work_queued = False, shortp_tv = (0, 0), spio = []\<rparr>"

definition shortp_default_irq :: "nat \<Rightarrow> int \<Rightarrow> int" where
  "shortp_default_irq b i =
     (if i < 0 then (if b = 888 then 7 else if b = 632 then 2 else if b = 956 then 5 else i) else i)"

text \<open>\<open>reg\<close> is the answer of \<open>register_chrdev\<close>, \<open>irq_err\<close> that of \<open>request_irq\<close>.\<close>

definition shortp_init ::
  "nat \<Rightarrow> int \<Rightarrow> bool \<Rightarrow> int outcome \<Rightarrow> errno option \<Rightarrow> shortp_res \<times> shortp_sys \<times> int \<times> int outcome" where
  "shortp_init base irq region_ok reg irq_err =
     (let r0 = \<lparr>sp_region = False, sp_chrdev = False, sp_pages = False, sp_workqueue = False, sp_irq = None\<rparr>;
          s0 = shortp_start base
      in if \<not> region_ok then (r0, s0, irq, Fail ENODEV)
         else (case reg of
             Fail e \<Rightarrow> (r0, s0, irq, Fail e)
           | Blocked \<Rightarrow> (r0, s0, irq, Blocked)
           | Ret _ \<Rightarrow>
               (let r1 = r0\<lparr>sp_region := True, sp_chrdev := True, sp_pages := True, sp_workqueue := True\<rparr>;
                    i = shortp_default_irq base irq
                in case irq_err of
                     Some e \<Rightarrow> (let (r2, s2) = shortp_cleanup base (-1) r1 s0 in (r2, s2, -1, Fail e))
                   | None \<Rightarrow> (r1\<lparr>sp_irq := Some i\<rparr>,
                       s0\<lparr>spio := [Outb (base + SP_CONTROL) (SP_CR_IRQ OR SP_CR_SELECT OR SP_CR_INIT)]\<rparr>, i, Ret 0))))"

end
