(* ===== verification/Shortprint_Props.thy ===== *)
theory Shortprint_Props
  imports Shortprint
begin

unbundle bit_operations_syntax

section \<open>Correctness of shortprint\<close>

text \<open>
  The output ring is a queue: what the printer gets, followed by what the ring holds, is
  what was written, in order. A sleeping writer is woken in time. The record page
  is overrun.
\<close>

subsection \<open>The ring as a queue\<close>

definition ring_list :: "'a list \<Rightarrow> nat \<Rightarrow> nat \<Rightarrow> 'a list" where
  "ring_list page h t = (if t \<le> h then take (h - t) (drop t page) else drop t page @ take h page)"

lemma ring_pop:
  assumes "t < length page" "h < length page" "t \<noteq> h"
  shows "ring_list page h t = page ! t # ring_list page h (if Suc t = length page then 0 else Suc t)"
proof -
  have d: "drop t page = page ! t # drop (Suc t) page" by (rule Cons_nth_drop_Suc[OF assms(1), symmetric])
  show ?thesis
  proof (cases "t < h")
    case True
    then obtain k where "h - t = Suc k" by (metis Suc_diff_Suc)
    then have "take (h - t) (drop t page) = page ! t # take (h - Suc t) (drop (Suc t) page)"
      unfolding d using True by (simp add: Suc_diff_Suc[symmetric])
    then show ?thesis using True assms by (auto simp: ring_list_def)
  next
    case False
    then show ?thesis using assms d by (auto simp: ring_list_def)
  qed
qed

text \<open>New elements at the head: \<open>xs\<close> must fit before the end, and before the tail less one.\<close>

lemma ring_push:
  assumes "t < length page" "h + length xs \<le> length page" "h < length page"
    and "h < t \<longrightarrow> h + length xs < t" "t = 0 \<longrightarrow> h + length xs < length page"
  shows "ring_list (mem_write h xs page) (if h + length xs = length page then 0 else h + length xs) t =
    ring_list page h t @ xs"
proof (cases "t \<le> h")
  case True
  have a: "drop t (mem_write h xs page) = take (h - t) (drop t page) @ xs @ drop (h + length xs) page"
    using True assms by (simp add: mem_write_def drop_take)
  have "length (take (h - t) (drop t page) @ xs) = h + length xs - t" using True assms by simp
  then have b: "take (h + length xs - t) (drop t (mem_write h xs page)) = take (h - t) (drop t page) @ xs"
    unfolding a by (metis append.assoc append_eq_conv_conj)
  show ?thesis
  proof (cases "h + length xs = length page")
    case True2: True
    then have "t \<noteq> 0" using assms(5) by auto
    moreover have "drop t (mem_write h xs page) = take (h - t) (drop t page) @ xs" using a True2 by simp
    ultimately show ?thesis using True True2 by (simp add: ring_list_def)
  next
    case False
    then show ?thesis using True b by (simp add: ring_list_def)
  qed
next
  case False
  then have l: "h + length xs < t" using assms(4) by simp
  have "drop t (mem_write h xs page) = drop t page" using l assms by (simp add: mem_write_def)
  moreover have "take (h + length xs) (mem_write h xs page) = take h page @ xs"
    using assms by (simp add: mem_write_def)
  ultimately show ?thesis using False l assms by (simp add: ring_list_def)
qed

definition used :: "shortp_sys \<Rightarrow> nat" where
  "used s = (if out_tail s \<le> out_head s then out_head s - out_tail s else PAGE_SIZE + out_head s - out_tail s)"

definition queued :: "shortp_sys \<Rightarrow> cell list" where
  "queued s = ring_list (out_page s) (out_head s) (out_tail s)"

definition ring_ok :: "shortp_sys \<Rightarrow> bool" where
  "ring_ok s \<longleftrightarrow> length (out_page s) = PAGE_SIZE \<and> out_head s < PAGE_SIZE \<and> out_tail s < PAGE_SIZE \<and>
     None \<notin> set (queued s) \<and> (out_head s \<noteq> out_tail s \<longrightarrow> output_active s)"

lemma queued_length: "ring_ok s \<Longrightarrow> length (queued s) = used s"
  by (auto simp: ring_ok_def queued_def used_def ring_list_def)

lemma used_room: "ring_ok s \<Longrightarrow> used s < PAGE_SIZE"
  by (auto simp: ring_ok_def used_def)

text \<open>The space is positive unless the ring is full, and never more than what is free.\<close>

lemma out_space_bounds:
  "ring_ok s \<Longrightarrow> 0 \<le> shortp_out_space s \<and> shortp_out_space s + int (used s) < int PAGE_SIZE \<and>
     (shortp_out_space s = 0 \<longleftrightarrow> used s = PAGE_SIZE - 1) \<and> int (out_head s) + shortp_out_space s \<le> int PAGE_SIZE"
  by (auto simp: ring_ok_def shortp_out_space_def used_def Let_def)

fun printed_op :: "nat \<Rightarrow> io_op \<Rightarrow> byte list" where
  "printed_op base (Outb_p a b) = (if a = base then [b] else [])"
| "printed_op base _ = []"

text \<open>What the data port of the printer has been given.\<close>

definition printed :: "shortp_sys \<Rightarrow> byte list" where
  "printed s = concat (map (printed_op (shortp_base s)) (spio s))"

lemma do_write_ok:
  assumes "ring_ok s" "out_head s \<noteq> out_tail s"
  shows "\<exists>t b. shortp_do_write cr s = Some t \<and> ring_ok t \<and> queued s = Some b # queued t \<and>
    printed t = printed s @ [b] \<and> used s = Suc (used t) \<and> shortp_base t = shortp_base s \<and>
    in_page t = in_page s \<and> in_head t = in_head s \<and> output_active t = output_active s \<and>
    out_head t = out_head s"
proof -
  have l: "length (out_page s) = PAGE_SIZE" "out_head s < PAGE_SIZE" "out_tail s < PAGE_SIZE"
    "None \<notin> set (queued s)"
    using assms(1) by (auto simp: ring_ok_def)
  let ?tl = "shortp_incr_out_bp (out_tail s) 1"
  have tl: "?tl = (if Suc (out_tail s) = length (out_page s) then 0 else Suc (out_tail s))"
    using l by (auto simp: shortp_incr_out_bp_def)
  have q: "queued s = (out_page s ! out_tail s) # queued (s\<lparr>out_tail := ?tl\<rparr>)"
    using ring_pop[of "out_tail s" "out_page s" "out_head s"] l assms(2) unfolding tl by (simp add: queued_def)
  have u: "used s = Suc (used (s\<lparr>out_tail := ?tl\<rparr>))"
    using l assms(2) unfolding tl by (auto simp: used_def)
  obtain b where b: "out_page s ! out_tail s = Some b"
    using l(4) unfolding q by (cases "out_page s ! out_tail s") auto
  define t where "t = s\<lparr>timer_on := True, out_tail := ?tl,
          spio := spio s @ [Inb (shortp_base s + SP_CONTROL), Outb_p (shortp_base s + SP_DATA) b,
            Outb_p (shortp_base s + SP_CONTROL) (cr OR SP_CR_STROBE),
            Outb_p (shortp_base s + SP_CONTROL) (cr AND NOT SP_CR_STROBE)]\<rparr>"
  have w: "shortp_do_write cr s = Some t" using b l by (simp add: shortp_do_write_def t_def)
  have qt: "queued t = queued (s\<lparr>out_tail := ?tl\<rparr>)" "used t = used (s\<lparr>out_tail := ?tl\<rparr>)"
    by (simp_all add: queued_def used_def t_def)
  have "?tl < PAGE_SIZE" using l by (simp add: shortp_incr_out_bp_def)
  then have "ring_ok t" using assms l q qt(1) by (auto simp: ring_ok_def t_def)
  moreover have "printed t = printed s @ [b]"
    by (simp add: printed_def t_def SP_DATA_def SP_CONTROL_def)
  ultimately show ?thesis using w q u b qt by (auto simp: t_def)
qed

lemma shp_put_ok:
  assumes "ring_ok s" "0 < sp" "int sp \<le> shortp_out_space s" "sp \<le> length src"
  shows "\<exists>t. shortp_put sp src s = Some t \<and> ring_ok t \<and> queued t = queued s @ map Some (take sp src) \<and>
    printed t = printed s \<and> shortp_base t = shortp_base s \<and> in_page t = in_page s \<and> in_head t = in_head s"
proof -
  have l: "length (out_page s) = PAGE_SIZE" "out_head s < PAGE_SIZE" "out_tail s < PAGE_SIZE"
    "None \<notin> set (queued s)"
    using assms(1) by (auto simp: ring_ok_def)
  let ?xs = "map Some (take sp src)"
  have len: "length ?xs = sp" using assms(4) by simp
  have fit: "out_head s + sp \<le> PAGE_SIZE" "out_head s < out_tail s \<longrightarrow> out_head s + sp < out_tail s"
    "out_tail s = 0 \<longrightarrow> out_head s + sp < PAGE_SIZE"
    using assms(2,3) l by (auto simp: shortp_out_space_def Let_def split: if_splits)
  define hd where "hd = shortp_incr_out_bp (out_head s) sp"
  have hd: "hd = (if out_head s + sp = PAGE_SIZE then 0 else out_head s + sp)" "hd < PAGE_SIZE"
    using fit(1) by (auto simp: hd_def shortp_incr_out_bp_def Let_def PAGE_SIZE_def)
  have q: "ring_list (mem_write (out_head s) ?xs (out_page s)) hd (out_tail s) = queued s @ ?xs"
    using ring_push[of "out_tail s" "out_page s" "out_head s" ?xs] l fit unfolding hd(1) queued_def
    by (simp only: len)
  define t where "t = shortp_start_output
      (s\<lparr>out_page := mem_write (out_head s) ?xs (out_page s), out_head := hd\<rparr>)"
  have fs: "out_page t = mem_write (out_head s) ?xs (out_page s)" "out_head t = hd" "out_tail t = out_tail s"
    "output_active t" "spio t = spio s" "shortp_base t = shortp_base s" "in_page t = in_page s" "in_head t = in_head s"
    by (simp_all add: t_def shortp_start_output_def)
  have put: "shortp_put sp src s = Some t" using l fit(1) by (simp add: shortp_put_def t_def hd_def)
  have qt: "queued t = queued s @ ?xs" unfolding queued_def fs q[unfolded queued_def] ..
  have "length (out_page t) = PAGE_SIZE" using l fit(1) len by (simp add: fs(1))
  then have "ring_ok t" using l hd(2) qt fs(4) unfolding ring_ok_def fs(2,3) by auto
  then show ?thesis using put qt fs by (simp add: printed_def)
qed

lemma drain_ok:
  "ring_ok s \<Longrightarrow> \<exists>t. shortp_drain cr n s = Some t \<and> ring_ok t \<and>
    map Some (printed t) @ queued t = map Some (printed s) @ queued s \<and> used t = used s - n"
proof (induction n arbitrary: s)
  case (Suc n)
  show ?case
  proof (cases "out_head s = out_tail s")
    case True
    then show ?thesis using Suc.prems by (simp add: used_def)
  next
    case False
    obtain t b where t: "shortp_do_write cr s = Some t" "ring_ok t" "queued s = Some b # queued t"
      "printed t = printed s @ [b]" "used s = Suc (used t)"
      using do_write_ok[OF Suc.prems False] by blast
    then show ?thesis using Suc.IH[OF t(2)] False by auto
  qed
qed simp

definition positive :: "nat list \<Rightarrow> nat" where
  "positive ns = length (filter (\<lambda>n. 0 < n) ns)"

lemma shp_write_loop_ok:
  "ring_ok s \<Longrightarrow> length src \<le> okay \<Longrightarrow> written \<le> length src \<Longrightarrow>
    \<exists>t n. shortp_write_loop cr drains okay src written s = Some (t, Ret (int n)) \<and> ring_ok t \<and>
      written \<le> n \<and> n \<le> length src \<and> (length src - written \<le> positive drains + (if 0 < shortp_out_space s then 1 else 0) \<longrightarrow> n = length src) \<and>
      map Some (printed t) @ queued t =
        map Some (printed s) @ queued s @ map Some (take (n - written) (drop written src))"
proof (induction cr drains okay src written s rule: shortp_write_loop.induct)
  case (1 cr drains okay src written s)
  show ?case
  proof (cases "written < length src")
    case False
    then show ?thesis using 1(3,5) by (simp add: shortp_write_loop.simps[of cr drains])
  next
    case True
    note u = shortp_write_loop.simps[of cr drains okay src written s]
    show ?thesis
    proof (cases "shortp_out_space s \<le> 0")
      case full: True
      show ?thesis
      proof (cases drains)
        case Nil
        have "shortp_write_loop cr drains okay src written s = Some (s, Ret (int written))"
          unfolding u using True full Nil by simp
        then show ?thesis using True full 1(3,5) Nil by (simp add: positive_def)
      next
        case (Cons k ns)
        obtain t where t: "shortp_drain cr k s = Some t" "ring_ok t"
          "map Some (printed t) @ queued t = map Some (printed s) @ queued s" "used t = used s - k"
          using drain_ok[OF 1(3)] by blast
        have r: "shortp_write_loop cr drains okay src written s = shortp_write_loop cr ns okay src written t"
          unfolding u using True full Cons t(1) by simp
        obtain v n where v: "shortp_write_loop cr ns okay src written t = Some (v, Ret (int n))" "ring_ok v"
          "written \<le> n" "n \<le> length src"
          "length src - written \<le> positive ns + (if 0 < shortp_out_space t then 1 else 0) \<longrightarrow> n = length src"
          "map Some (printed v) @ queued v = map Some (printed t) @ queued t @ map Some (take (n - written) (drop written src))"
          using 1(1)[OF True refl full Cons, of t] t(1,2) 1(4,5) by auto
        have sp: "0 < shortp_out_space t" if "0 < k"
          using out_space_bounds[OF t(2)] out_space_bounds[OF 1(3)] full that t(4) by (auto simp: PAGE_SIZE_def)
        have "positive drains \<le> positive ns + (if 0 < shortp_out_space t then 1 else 0)"
          using sp Cons by (auto simp: positive_def)
        then have "length src - written \<le> positive drains + (if 0 < shortp_out_space s then 1 else 0) \<longrightarrow> n = length src"
          using v(5) full by auto
        moreover have "map Some (printed v) @ queued v =
            map Some (printed s) @ queued s @ map Some (take (n - written) (drop written src))"
          unfolding v(6) using t(3) by (metis append.assoc)
        ultimately show ?thesis using v(1-4) r by auto
      qed
    next
      case False
      define sp where "sp = min (nat (shortp_out_space s)) (length src - written)"
      have sp: "0 < sp" "int sp \<le> shortp_out_space s" "written + sp \<le> length src"
        using False True by (auto simp: sp_def)
      have ln: "sp \<le> length (drop written src)" using sp(3) by simp
      obtain t where t: "shortp_put sp (drop written src) s = Some t" "ring_ok t"
        "queued t = queued s @ map Some (take sp (drop written src))" "printed t = printed s"
        using shp_put_ok[OF 1(3) sp(1,2) ln] by blast
      have r: "shortp_write_loop cr drains okay src written s = shortp_write_loop cr drains okay src (written + sp) t"
        unfolding u Let_def sp_def[symmetric] using True False t(1) sp(3) 1(4) by simp
      have ok: "\<not> okay < written + min (nat (shortp_out_space s)) (length src - written)"
        using sp(3) 1(4) by (simp add: sp_def)
      obtain v n where v: "shortp_write_loop cr drains okay src (written + sp) t = Some (v, Ret (int n))" "ring_ok v"
        "written + sp \<le> n" "n \<le> length src"
        "length src - (written + sp) \<le> positive drains + (if 0 < shortp_out_space t then 1 else 0) \<longrightarrow> n = length src"
        "map Some (printed v) @ queued v =
          map Some (printed t) @ queued t @ map Some (take (n - (written + sp)) (drop (written + sp) src))"
        using 1(2)[OF True refl False refl ok, of t] t(1,2) sp(3) 1(4) unfolding sp_def[symmetric] by auto
      have "take sp (drop written src) @ take (n - (written + sp)) (drop (written + sp) src) =
          take (n - written) (drop written src)"
        using v(3) by (simp add: take_add[symmetric] add.commute flip: drop_drop)
      then have "map Some (printed v) @ queued v =
          map Some (printed s) @ queued s @ map Some (take (n - written) (drop written src))"
        unfolding v(6) t(3,4) by (simp flip: map_append)
      moreover have "length src - written \<le> positive drains + (if 0 < shortp_out_space s then 1 else 0) \<longrightarrow> n = length src"
        using v(5) sp(1) by (auto split: if_splits)
      ultimately show ?thesis using v(1-4) r sp(1) by auto
    qed
  qed
qed

subsection \<open>Runs of the ring\<close>

datatype ring_event = Ring_put "byte list" | Ring_print byte

inductive ring_step :: "shortp_sys \<Rightarrow> ring_event \<Rightarrow> shortp_sys \<Rightarrow> bool" where
  ring_put: "bs \<noteq> [] \<Longrightarrow> int (length bs) \<le> shortp_out_space s \<Longrightarrow> shortp_put (length bs) bs s = Some t \<Longrightarrow>
    ring_step s (Ring_put bs) t"
| ring_print: "out_head s \<noteq> out_tail s \<Longrightarrow> shortp_do_write cr s = Some t \<Longrightarrow> printed t = printed s @ [b] \<Longrightarrow>
    ring_step s (Ring_print b) t"

fun ring_in :: "ring_event \<Rightarrow> cell list" where
  "ring_in (Ring_put bs) = map Some bs" | "ring_in (Ring_print b) = []"

fun ring_out :: "ring_event \<Rightarrow> cell list" where
  "ring_out (Ring_put bs) = []" | "ring_out (Ring_print b) = [Some b]"

interpretation out_ring: fifo_channel ring_step ring_ok queued ring_in ring_out
proof unfold_locales
  fix s e t
  assume ok: "ring_ok s" and st: "ring_step s e t"
  have "ring_ok t \<and> queued s @ ring_in e = ring_out e @ queued t"
    using st
  proof cases
    case (ring_put bs)
    then show ?thesis using shp_put_ok[OF ok, of "length bs" bs] by auto
  next
    case (ring_print cr b)
    then show ?thesis using do_write_ok[OF ok, of cr] by auto
  qed
  then show "ring_ok t" "queued s @ ring_in e = ring_out e @ queued t" by auto
qed

lemma start_ok: "ring_ok (shortp_start base) \<and> queued (shortp_start base) = [] \<and> printed (shortp_start base) = []"
  by (simp add: ring_ok_def shortp_start_def queued_def ring_list_def printed_def PAGE_SIZE_def)

subsection \<open>Properties\<close>

text \<open>After a write the bytes given to the printer so far, followed by what the ring holds, are
  those of before followed by the part of the data that was taken, whatever the consumer printed in
  between; the result and the file position tell the size of this part; and it is all of the data when
  the consumer prints in as many of the sleeps as there are bytes.\<close>

lemma shortp_write_correct:
  assumes "ring_ok s" "length src \<le> okay"
  shows "\<exists>t n. shortp_write cr False drains okay src f_pos s = Some (t, f_pos + int n, Ret (int n)) \<and>
    ring_ok t \<and> n \<le> length src \<and>
    map Some (printed t) @ queued t = map Some (printed s) @ queued s @ map Some (take n src) \<and>
    (length src \<le> length (filter (\<lambda>k. 0 < k) drains) + (if 0 < shortp_out_space s then 1 else 0) \<longrightarrow> n = length src)"
  using shp_write_loop_ok[OF assms, of 0 cr drains] by (auto simp: shortp_write_def positive_def)

lemma shortp_write_correct_example:
  "\<exists>t n. shortp_write 0 False [] 3 [1, 2, 3] 0 (shortp_start 888) = Some (t, int n, Ret (int n)) \<and>
    map Some (printed t) @ queued t = map Some (take n [1, 2, 3])"
  using shortp_write_correct[of "shortp_start 888" "[1, 2, 3]" 3 0 "[]" 0] start_ok[of 888] by auto

text \<open>C38. Writers and the printer may take turns in any order: the bytes printed are a prefix of the
  bytes written, and the ring holds the rest.\<close>

theorem shortp_output_fifo:
  assumes "run ring_step (shortp_start base) es s"
  shows "ring_ok s \<and> concat (map ring_in es) = concat (map ring_out es) @ queued s"
  using out_ring.run_contents[OF assms] out_ring.inv_run[OF assms] start_ok[of base] by simp

lemma start_space: "shortp_out_space (shortp_start base) = 4095"
  by (simp add: shortp_out_space_def shortp_start_def PAGE_SIZE_def)

lemma shortp_output_fifo_witness:
  "\<exists>t. run ring_step (shortp_start 888) [Ring_put [1, 2]] t \<and> queued t = [Some 1, Some 2]"
proof -
  obtain t where t: "shortp_put 2 [1, 2] (shortp_start 888) = Some t"
    using shp_put_ok[of "shortp_start 888" 2 "[1, 2]"] start_ok start_space by auto
  then have r: "run ring_step (shortp_start 888) [Ring_put [1, 2]] t"
    using start_space
    by (intro run_Cons[where t = t] ring_put run_Nil) (simp_all add: numeral_2_eq_2)
  then show ?thesis using shortp_output_fifo[OF r] by auto
qed

text \<open>A writer sleeps only when the ring is full; from there the work function wakes the writers
  after 2048 bytes have been printed, and not before.\<close>

lemma shortp_wakes_writer:
  assumes "ring_ok s" "shortp_out_space s \<le> 0" "n < 4095"
  shows "\<exists>t. shortp_drain cr n s = Some t \<and> (wake_writers t \<longleftrightarrow> 2048 \<le> n)"
proof -
  obtain t where t: "shortp_drain cr n s = Some t" "ring_ok t" "used t = used s - n"
    using drain_ok[OF assms(1)] by blast
  have "used s = 4095" using out_space_bounds[OF assms(1)] assms(2) by (auto simp: PAGE_SIZE_def)
  then have u: "used t = 4095 - n" "0 < used t" using t(3) assms(3) by auto
  have r: "out_head t < 4096" "out_tail t < 4096" using t(2) by (auto simp: ring_ok_def PAGE_SIZE_def)
  have "(4096 + out_tail t - out_head t) mod 4096 = 4096 - used t"
    using r u(2) by (auto simp: used_def PAGE_SIZE_def mod_if split: if_splits)
  then have "wake_writers t \<longleftrightarrow> 2048 < 4096 - used t"
    by (simp add: wake_writers_def PAGE_SIZE_def SP_MIN_SPACE_def)
  then show ?thesis using t(1) u assms(3) by auto
qed

lemma shortp_wakes_writer_example:
  "\<exists>s t. shortp_put 4095 (replicate 4095 0) (shortp_start 888) = Some s \<and>
    shortp_drain 0 2048 s = Some t \<and> wake_writers t"
proof -
  obtain s where s: "shortp_put 4095 (replicate 4095 0) (shortp_start 888) = Some s" "ring_ok s"
    "queued s = queued (shortp_start 888) @ map Some (take 4095 (replicate 4095 0))"
    using shp_put_ok[of "shortp_start 888" 4095 "replicate 4095 0"] start_ok start_space by auto
  then have "used s = 4095" using queued_length[OF s(2)] start_ok by simp
  then have "shortp_out_space s \<le> 0" using out_space_bounds[OF s(2)] by (simp add: PAGE_SIZE_def)
  then show ?thesis using shortp_wakes_writer[OF s(2), of 2048 0] s(1) by auto
qed

lemma record_length: "snd tv < 1000000000 \<Longrightarrow> length (shortp_record tv) = 19"
  using fmt_length[of "fst tv mod 100000000" 8] fmt_length[of "snd tv" 9] by (simp add: shortp_record_def)

definition work_ok :: "nat \<Rightarrow> shortp_sys \<Rightarrow> bool" where
  "work_ok k s \<longleftrightarrow> ring_ok s \<and> length (in_page s) = PAGE_SIZE \<and> in_head s = 19 * k \<and> snd (shortp_tv s) < 1000000000"

text \<open>A printer that is ready within the answers: the wait ends.\<close>

definition printer_ready :: "byte list \<Rightarrow> bool" where
  "printer_ready sts \<longleftrightarrow> sts \<noteq> [] \<and> (hd sts AND SP_SR_BUSY \<noteq> 0 \<or> (\<exists>st \<in> set (drop 2 sts). st AND SP_SR_BUSY \<noteq> 0))"

lemma wait_loop_ready:
  "\<exists>st \<in> set sts. st AND SP_SR_BUSY \<noteq> 0 \<Longrightarrow> \<exists>ops r. shortp_wait_loop base sts = Some (ops, r)"
  by (induction sts) force+

lemma wait_ready: "printer_ready sts \<Longrightarrow> \<exists>ops r. shortp_wait base sts = Some (ops, r)"
  using wait_loop_ready[of "drop 2 sts" base]
  by (cases sts) (fastforce simp: printer_ready_def numeral_2_eq_2)+

text \<open>One run of the work function while the record fits, and when it does not.\<close>

lemma do_work_step:
  assumes "work_ok k s" "printer_ready sts"
  shows "(k < 215 \<longrightarrow> (\<exists>t w. shortp_do_work sts cr s = Some (t, w) \<and> work_ok (Suc k) t)) \<and>
    (k = 215 \<longrightarrow> shortp_do_work sts cr s = None)"
proof -
  obtain ops r where w: "shortp_wait (shortp_base s) sts = Some (ops, r)" using wait_ready[OF assms(2)] by blast
  define s1 where "s1 = s\<lparr>work_queued := False, spio := spio s @ ops\<rparr>"
  have s1: "ring_ok s1" "in_page s1 = in_page s" "in_head s1 = in_head s" "shortp_tv s1 = shortp_tv s"
    using assms(1) by (auto simp: s1_def work_ok_def ring_ok_def queued_def)
  have "\<exists>s2. (if out_head s1 = out_tail s1 then Some (s1\<lparr>output_active := False, timer_on := False\<rparr>)
      else shortp_do_write cr s1) = Some s2 \<and> ring_ok s2 \<and> in_page s2 = in_page s \<and> in_head s2 = in_head s \<and>
      shortp_tv s2 = shortp_tv s"
  proof (cases "out_head s1 = out_tail s1")
    case True
    then show ?thesis using s1 by (simp add: ring_ok_def queued_def)
  next
    case False
    obtain t where t: "shortp_do_write cr s1 = Some t" "ring_ok t" "in_page t = in_page s1" "in_head t = in_head s1"
      using do_write_ok[OF s1(1) False] by blast
    moreover have "shortp_tv t = shortp_tv s1"
      using t(1) by (auto simp: shortp_do_write_def split: if_splits Option.bind_splits)
    ultimately show ?thesis using False s1 by simp
  qed
  then obtain s2 where s2: "(if out_head s1 = out_tail s1 then Some (s1\<lparr>output_active := False, timer_on := False\<rparr>)
      else shortp_do_write cr s1) = Some s2" "ring_ok s2" "in_page s2 = in_page s" "in_head s2 = in_head s"
      "shortp_tv s2 = shortp_tv s" by blast
  have len: "length (shortp_record (shortp_tv s2)) = 19"
    using assms(1) s2(5) by (simp add: work_ok_def record_length)
  have eq: "shortp_do_work sts cr s = do {
      page \<leftarrow> print_at (in_head s) (shortp_record (shortp_tv s2)) (in_page s);
      Some (s2\<lparr>in_page := page, in_head := shortp_incr_bp (in_head s) 19\<rparr>, wake_writers s2) }"
    unfolding shortp_do_work_def w Option.bind.bind_lunit prod.case Let_def s1_def[symmetric] s2(1)
    by (simp add: s2(3-5) len[unfolded s2(5)])
  show ?thesis
  proof (intro conjI impI)
    assume k: "k < 215"
    then obtain page where p: "print_at (in_head s) (shortp_record (shortp_tv s2)) (in_page s) = Some page"
      using assms(1) len by (auto simp: work_ok_def print_at_def PAGE_SIZE_def)
    have "work_ok (Suc k) (s2\<lparr>in_page := page, in_head := shortp_incr_bp (in_head s) 19\<rparr>)"
      using assms(1) s2 k print_at_length[OF p]
      by (auto simp: work_ok_def ring_ok_def queued_def shortp_incr_bp_def incr_bp_def PAGE_SIZE_def)
    then show "\<exists>t w. shortp_do_work sts cr s = Some (t, w) \<and> work_ok (Suc k) t"
      using eq p by simp
  next
    assume k: "k = 215"
    then have "print_at (in_head s) (shortp_record (shortp_tv s2)) (in_page s) = None"
      using assms(1) len by (simp add: work_ok_def print_at_def PAGE_SIZE_def)
    then show "shortp_do_work sts cr s = None" using eq by simp
  qed
qed

lemma write_keeps_input:
  "shortp_write_loop cr drains okay src written s = Some (t, r) \<Longrightarrow>
    in_page t = in_page s \<and> in_head t = in_head s \<and> shortp_tv t = shortp_tv s"
proof (induction cr drains okay src written s rule: shortp_write_loop.induct)
  case (1 cr drains okay src written s)
  have put: "shortp_put n bs s = Some u \<Longrightarrow> in_page u = in_page s \<and> in_head u = in_head s \<and> shortp_tv u = shortp_tv s" for n bs u
    by (auto simp: shortp_put_def shortp_start_output_def split: if_splits)
  have dr: "shortp_drain cr n v = Some u \<Longrightarrow> in_page u = in_page v \<and> in_head u = in_head v \<and> shortp_tv u = shortp_tv v" for n u v
    by (induction n arbitrary: v) (auto simp: shortp_do_write_def split: if_splits Option.bind_splits)
  show ?case
    using 1(3) 1(1)[OF _ refl] 1(2)[OF _ refl _ refl] put dr
    by (subst (asm) shortp_write_loop.simps) (auto simp: Let_def split: if_splits list.splits option.splits Option.bind_splits)
qed

text \<open>Each round a process may write, then an interrupt comes and the work function runs.\<close>

record work_round =
  w_src :: "byte list"
  w_time :: "nat \<times> nat"
  w_status :: "byte list"

fun works :: "work_round list \<Rightarrow> shortp_sys \<Rightarrow> shortp_sys option" where
  "works [] s = Some s"
| "works (w # ws) s = do {
     (s1, _, _) \<leftarrow> shortp_write 0 False [] (length (w_src w)) (w_src w) 0 s;
     (t, _) \<leftarrow> shortp_do_work (w_status w) 0 (fst (shortp_interrupt (w_time w) s1));
     works ws t }"

definition good_work :: "work_round \<Rightarrow> bool" where
  "good_work w \<longleftrightarrow> snd (w_time w) < 1000000000 \<and> printer_ready (w_status w)"

lemma works_ok:
  "work_ok k s \<Longrightarrow> \<forall>w \<in> set ws. good_work w \<Longrightarrow>
    (k + length ws \<le> 215 \<longrightarrow> (\<exists>t. works ws s = Some t \<and> work_ok (k + length ws) t)) \<and>
    (k \<le> 215 \<and> 215 < k + length ws \<longrightarrow> works ws s = None)"
proof (induction ws arbitrary: k s)
  case (Cons w ws)
  have g: "snd (w_time w) < 1000000000" "printer_ready (w_status w)"
    using Cons.prems(2) by (auto simp: good_work_def)
  have rs: "ring_ok s" using Cons.prems(1) by (simp add: work_ok_def)
  obtain s1 n where s1: "shortp_write_loop 0 [] (length (w_src w)) (w_src w) 0 s = Some (s1, Ret (int n))" "ring_ok s1"
    using shp_write_loop_ok[OF rs, of "w_src w" "length (w_src w)" 0 0 "[]"] by auto
  have wr: "shortp_write 0 False [] (length (w_src w)) (w_src w) 0 s = Some (s1, int n, Ret (int n))"
    using s1(1) by (simp add: shortp_write_def)
  have "work_ok k s1" using Cons.prems(1) s1(2) write_keeps_input[OF s1(1)] by (simp add: work_ok_def)
  then have "work_ok k (fst (shortp_interrupt (w_time w) s1))"
    using g(1) by (auto simp: work_ok_def shortp_interrupt_def ring_ok_def queued_def)
  note st = do_work_step[OF this g(2), of 0]
  show ?case
  proof (cases "k < 215")
    case True
    then obtain t v where t: "shortp_do_work (w_status w) 0 (fst (shortp_interrupt (w_time w) s1)) = Some (t, v)"
      "work_ok (Suc k) t"
      using st by blast
    then show ?thesis using Cons.IH[OF t(2)] Cons.prems(2) True wr by auto
  next
    case False
    then show ?thesis using st wr by auto
  qed
qed simp

text \<open>Each run of the work function also prints a record of 19 bytes to the input page: from the
  start, 215 runs are fine, whatever is written in between, and the 216th writes past the page.\<close>

lemma shortp_records_overflow:
  assumes "\<forall>w \<in> set ws. good_work w"
  shows "(length ws \<le> 215 \<longrightarrow> works ws (shortp_start base) \<noteq> None) \<and>
    (215 < length ws \<longrightarrow> works ws (shortp_start base) = None)"
proof -
  have "length (in_page (shortp_start base)) = PAGE_SIZE \<and> in_head (shortp_start base) = 19 * 0 \<and>
      snd (shortp_tv (shortp_start base)) < 1000000000"
    by (simp add: shortp_start_def)
  then have "work_ok 0 (shortp_start base)" using start_ok[of base] by (simp add: work_ok_def)
  from works_ok[OF this assms] show ?thesis by auto
qed

lemma shortp_records_overflow_example:
  "works (replicate 216 \<lparr>w_src = [65], w_time = (0, 0), w_status = [128]\<rparr>) (shortp_start 888) = None"
proof -
  have "\<forall>w \<in> set (replicate 216 \<lparr>w_src = [65], w_time = (0, 0), w_status = [128]\<rparr>). good_work w"
    by (simp add: good_work_def printer_ready_def SP_SR_BUSY_def)
  from shortp_records_overflow[OF this, of 888] show ?thesis by simp
qed

end
