(* ===== verification/Tiny_Tty.thy ===== *)
theory Tiny_Tty
  imports Device_Interfaces
begin

unbundle bit_operations_syntax

section \<open>The tiny terminal driver\<close>

text \<open>
  \<open>tty/tiny_tty.c\<close>: a terminal driver without hardware, with four ports; a timer delivers one character every
  two seconds while a port is open. A port structure comes from \<open>kmalloc\<close> and is not cleared: \<open>junk\<close>
  stands for what the memory held. A terminal is identified with its index, its \<open>driver_data\<close> is either NULL or the
  port of the index.
\<close>

subsection \<open>Data\<close>

definition TINY_TTY_MINORS :: nat where "TINY_TTY_MINORS = 4"
definition TINY_DATA_CHARACTER :: byte where "TINY_DATA_CHARACTER = 116"
definition MCR_DTR :: "32 word" where "MCR_DTR = 0x01"
definition MCR_RTS :: "32 word" where "MCR_RTS = 0x02"
definition MCR_LOOP :: "32 word" where "MCR_LOOP = 0x04"
definition MSR_CTS :: "32 word" where "MSR_CTS = 0x08"
definition MSR_CD :: "32 word" where "MSR_CD = 0x10"
definition MSR_RI :: "32 word" where "MSR_RI = 0x20"
definition MSR_DSR :: "32 word" where "MSR_DSR = 0x40"

text \<open>Constants of the terminal headers.\<close>

definition TIOCM_DTR :: "32 word" where "TIOCM_DTR = 0x002"
definition TIOCM_RTS :: "32 word" where "TIOCM_RTS = 0x004"
definition TIOCM_CTS :: "32 word" where "TIOCM_CTS = 0x020"
definition TIOCM_CAR :: "32 word" where "TIOCM_CAR = 0x040"
definition TIOCM_RI :: "32 word" where "TIOCM_RI = 0x080"
definition TIOCM_DSR :: "32 word" where "TIOCM_DSR = 0x100"
definition TIOCM_LOOP :: "32 word" where "TIOCM_LOOP = 0x8000"
definition TIOCGSERIAL :: nat where "TIOCGSERIAL = 0x541E"
definition TIOCMIWAIT :: nat where "TIOCMIWAIT = 0x545C"
definition TIOCGICOUNT :: nat where "TIOCGICOUNT = 0x545D"
definition ASYNC_SKIP_TEST :: int where "ASYNC_SKIP_TEST = 64"
definition ASYNC_AUTO_IRQ :: int where "ASYNC_AUTO_IRQ = 128"

record serial_struct =
  s_type :: int
  s_line :: int
  s_port :: int
  s_irq :: int
  s_flags :: int
  s_xmit_fifo_size :: int
  s_baud_base :: int
  s_close_delay :: int
  s_closing_wait :: int
  s_custom_divisor :: int
  s_hub6 :: int
  s_io_type :: int

record async_icount =
  ic_cts :: int
  ic_dsr :: int
  ic_rng :: int
  ic_dcd :: int
  ic_rx :: int
  ic_tx :: int
  ic_frame :: int
  ic_overrun :: int
  ic_parity :: int
  ic_brk :: int
  ic_buf_overrun :: int

record tiny_serial =
  open_count :: int
  timer_armed :: bool
  msr :: "32 word"
  mcr :: "32 word"
  tserial :: serial_struct
  icount :: async_icount

record tiny_sys =
  tiny_table :: "nat \<Rightarrow> tiny_serial option"
  driver_data :: "nat \<Rightarrow> bool"
  received :: "nat \<Rightarrow> byte list"

text \<open>The port of a terminal whose \<open>driver_data\<close> is set.\<close>

definition tiny_of :: "nat \<Rightarrow> tiny_sys \<Rightarrow> tiny_serial option" where
  "tiny_of i s = (if driver_data s i then tiny_table s i else None)"

subsection \<open>The timer\<close>

text \<open>
  The handler, in two parts: the kernel has taken the timer off when it calls it; \<open>room\<close> tells whether the flip buffer takes a
  character once what it holds has been pushed; then the timer is added again.
\<close>

definition tiny_timer_deliver :: "bool \<Rightarrow> nat \<Rightarrow> tiny_sys \<Rightarrow> tiny_sys option" where
  "tiny_timer_deliver room i s = do {
     t \<leftarrow> tiny_table s i;
     Some (s\<lparr>received := (received s)(i := received s i @ (if room then [TINY_DATA_CHARACTER] else [])),
       tiny_table := (tiny_table s)(i \<mapsto> t\<lparr>timer_armed := False\<rparr>)\<rparr>) }"

definition tiny_timer_resubmit :: "nat \<Rightarrow> tiny_sys \<Rightarrow> tiny_sys option" where
  "tiny_timer_resubmit i s = do {
     t \<leftarrow> tiny_table s i;
     Some (s\<lparr>tiny_table := (tiny_table s)(i \<mapsto> t\<lparr>timer_armed := True\<rparr>)\<rparr>) }"

text \<open>
  The handler on its own. It takes no lock, and \<open>del_timer\<close> does not wait for it: what a close between its two parts
  does is in \<open>tiny_timer_outlives_close\<close>.
\<close>

definition tiny_timer :: "bool \<Rightarrow> nat \<Rightarrow> tiny_sys \<Rightarrow> tiny_sys option" where
  "tiny_timer room i s = do { s1 \<leftarrow> tiny_timer_deliver room i s; tiny_timer_resubmit i s1 }"

subsection \<open>Opening and closing\<close>

definition tiny_open :: "tiny_serial \<Rightarrow> bool \<Rightarrow> nat \<Rightarrow> tiny_sys \<Rightarrow> tiny_sys \<times> int outcome" where
  "tiny_open junk ok index s =
     (let s0 = s\<lparr>driver_data := (driver_data s)(index := False)\<rparr> in
      case (case tiny_table s index of
              Some t \<Rightarrow> Some t
            | None \<Rightarrow> if ok then Some (junk\<lparr>open_count := 0, timer_armed := False\<rparr>) else None) of
        None \<Rightarrow> (s0, Fail ENOMEM)
      | Some t \<Rightarrow>
          (let t1 = t\<lparr>open_count := s32 (open_count t + 1)\<rparr>;
               t2 = (if open_count t1 = 1 then t1\<lparr>timer_armed := True\<rparr> else t1)
           in (s0\<lparr>driver_data := (driver_data s0)(index := True), tiny_table := (tiny_table s0)(index \<mapsto> t2)\<rparr>, Ret 0)))"

definition do_close :: "tiny_serial \<Rightarrow> tiny_serial" where
  "do_close t =
     (if open_count t = 0 then t
      else (let t1 = t\<lparr>open_count := s32 (open_count t - 1)\<rparr>
            in if open_count t1 \<le> 0 then t1\<lparr>timer_armed := False\<rparr> else t1))"

definition tiny_close :: "nat \<Rightarrow> tiny_sys \<Rightarrow> tiny_sys" where
  "tiny_close i s =
     (case tiny_of i s of None \<Rightarrow> s | Some t \<Rightarrow> s\<lparr>tiny_table := (tiny_table s)(i \<mapsto> do_close t)\<rparr>)"

subsection \<open>Writing\<close>

text \<open>The bytes that go to the log, and the result.\<close>

definition tiny_write :: "byte list \<Rightarrow> nat \<Rightarrow> tiny_sys \<Rightarrow> byte list \<times> int outcome" where
  "tiny_write buffer i s =
     (case tiny_of i s of
        None \<Rightarrow> ([], Fail ENODEV)
      | Some t \<Rightarrow> if open_count t = 0 then ([], Fail EINVAL) else (buffer, Fail EINVAL))"

definition tiny_write_room :: "nat \<Rightarrow> tiny_sys \<Rightarrow> int outcome" where
  "tiny_write_room i s =
     (case tiny_of i s of
        None \<Rightarrow> Fail ENODEV
      | Some t \<Rightarrow> if open_count t = 0 then Fail EINVAL else Ret 255)"

subsection \<open>Line settings\<close>

definition RELEVANT_IFLAG :: "32 word \<Rightarrow> 32 word" where
  "RELEVANT_IFLAG iflag = iflag AND (1 OR 2 OR 4 OR 8 OR 16)"

text \<open>What the function reports; it changes nothing.\<close>

datatype setting =
  Data_bits nat | Parity_odd | Parity_even | Parity_none | Stop_bits nat | Rts_cts bool
| Inbound_xon bool | Outbound_xon bool | Baud int

record termios =
  c_cflag :: "32 word"
  c_iflag :: "32 word"

definition tiny_set_termios :: "int \<Rightarrow> termios \<Rightarrow> termios option \<Rightarrow> setting list" where
  "tiny_set_termios baud new old =
     (let cflag = c_cflag new;
          ixoff = (c_iflag new AND 0x1000 \<noteq> 0);
          ixon = (c_iflag new AND 0x400 \<noteq> 0);
          same = (case old of None \<Rightarrow> False
            | Some o' \<Rightarrow> cflag = c_cflag o' \<and> RELEVANT_IFLAG (c_iflag new) = RELEVANT_IFLAG (c_iflag o'))
      in if same then []
         else
           [Data_bits (if cflag AND 48 = 0 then 5 else if cflag AND 48 = 16 then 6 else if cflag AND 48 = 32 then 7 else 8),
            (if cflag AND 256 \<noteq> 0 then (if cflag AND 512 \<noteq> 0 then Parity_odd else Parity_even) else Parity_none),
            Stop_bits (if cflag AND 64 \<noteq> 0 then 2 else 1),
            Rts_cts (cflag AND 0x80000000 \<noteq> 0)] @
           (if ixoff \<or> ixon then [Inbound_xon ixoff, Outbound_xon ixon] else []) @
           [Baud baud])"

subsection \<open>Modem control\<close>

definition flag :: "32 word \<Rightarrow> 32 word \<Rightarrow> 32 word \<Rightarrow> 32 word" where
  "flag v b tiocm = (if v AND b \<noteq> 0 then tiocm else 0)"

definition tiny_tiocmget :: "nat \<Rightarrow> tiny_sys \<Rightarrow> 32 word option" where
  "tiny_tiocmget i s = do {
     t \<leftarrow> tiny_of i s;
     Some (flag (mcr t) MCR_DTR TIOCM_DTR OR flag (mcr t) MCR_RTS TIOCM_RTS OR flag (mcr t) MCR_LOOP TIOCM_LOOP OR
       flag (msr t) MSR_CTS TIOCM_CTS OR flag (msr t) MSR_CD TIOCM_CAR OR flag (msr t) MSR_RI TIOCM_RI OR
       flag (msr t) MSR_DSR TIOCM_DSR) }"

definition tiny_tiocmset :: "32 word \<Rightarrow> 32 word \<Rightarrow> nat \<Rightarrow> tiny_sys \<Rightarrow> tiny_sys option" where
  "tiny_tiocmset sets clears i s = do {
     t \<leftarrow> tiny_of i s;
     let m1 = (if sets AND TIOCM_RTS \<noteq> 0 then mcr t OR MCR_RTS else mcr t);
     let m2 = (if sets AND TIOCM_DTR \<noteq> 0 then m1 OR MCR_RTS else m1);
     let m3 = (if clears AND TIOCM_RTS \<noteq> 0 then m2 AND NOT MCR_RTS else m2);
     let m4 = (if clears AND TIOCM_DTR \<noteq> 0 then m3 AND NOT MCR_RTS else m3);
     Some (s\<lparr>tiny_table := (tiny_table s)(i \<mapsto> t\<lparr>mcr := m4\<rparr>)\<rparr>) }"

subsection \<open>The proc file and the ioctl method\<close>

definition tiny_proc_show :: "tiny_sys \<Rightarrow> nat list" where
  "tiny_proc_show s = filter (\<lambda>i. tiny_table s i \<noteq> None) [0..<TINY_TTY_MINORS]"

text \<open>\<open>hz\<close> is the tick rate; \<open>copy_ok\<close> tells whether the copy to the user succeeds.\<close>

definition tiny_ioctl_tiocgserial ::
  "int \<Rightarrow> int \<Rightarrow> bool \<Rightarrow> tiny_serial \<Rightarrow> serial_struct option \<times> int outcome" where
  "tiny_ioctl_tiocgserial hz uarg copy_ok t =
     (if uarg = 0 then (None, Fail EFAULT)
      else if \<not> copy_ok then (None, Fail EFAULT)
      else (Some ((tserial t)\<lparr>s_flags := ASYNC_SKIP_TEST + ASYNC_AUTO_IRQ, s_close_delay := 5 * hz,
        s_closing_wait := 30 * hz\<rparr>), Ret 0))"

text \<open>Each wake-up comes with a signal or finds the counters with some values.\<close>

datatype tiny_wake = Wake_signal | Wake_counts async_icount

definition counts_same :: "async_icount \<Rightarrow> async_icount \<Rightarrow> bool" where
  "counts_same c d \<longleftrightarrow> ic_rng c = ic_rng d \<and> ic_dsr c = ic_dsr d \<and> ic_dcd c = ic_dcd d \<and> ic_cts c = ic_cts d"

definition counts_wanted :: "32 word \<Rightarrow> async_icount \<Rightarrow> async_icount \<Rightarrow> bool" where
  "counts_wanted wanted c d \<longleftrightarrow>
     (wanted AND TIOCM_RI \<noteq> 0 \<and> ic_rng c \<noteq> ic_rng d) \<or> (wanted AND TIOCM_DSR \<noteq> 0 \<and> ic_dsr c \<noteq> ic_dsr d) \<or>
     (wanted AND TIOCM_CAR \<noteq> 0 \<and> ic_dcd c \<noteq> ic_dcd d) \<or> (wanted AND TIOCM_CTS \<noteq> 0 \<and> ic_cts c \<noteq> ic_cts d)"

fun tiny_ioctl_tiocmiwait :: "32 word \<Rightarrow> tiny_wake list \<Rightarrow> async_icount \<Rightarrow> int outcome" where
  "tiny_ioctl_tiocmiwait wanted [] cprev = Blocked"
| "tiny_ioctl_tiocmiwait wanted (Wake_signal # ws) cprev = Fail ERESTARTSYS"
| "tiny_ioctl_tiocmiwait wanted (Wake_counts cnow # ws) cprev =
     (if counts_same cnow cprev then Fail EIO
      else if counts_wanted wanted cnow cprev then Ret 0
      else tiny_ioctl_tiocmiwait wanted ws cnow)"

definition tiny_ioctl_tiocgicount :: "bool \<Rightarrow> tiny_serial \<Rightarrow> async_icount option \<times> int outcome" where
  "tiny_ioctl_tiocgicount copy_ok t = (if \<not> copy_ok then (None, Fail EFAULT) else (Some (icount t), Ret 0))"

datatype tiny_answer = No_answer | Serial serial_struct | Counts async_icount

definition tiny_ioctl ::
  "int \<Rightarrow> bool \<Rightarrow> tiny_wake list \<Rightarrow> nat \<Rightarrow> int \<Rightarrow> nat \<Rightarrow> tiny_sys \<Rightarrow> (tiny_answer \<times> int outcome) option" where
  "tiny_ioctl hz copy_ok ws cmd uarg i s =
     (if cmd = TIOCGSERIAL then do {
        t \<leftarrow> tiny_of i s;
        (case tiny_ioctl_tiocgserial hz uarg copy_ok t of
           (None, r) \<Rightarrow> Some (No_answer, r) | (Some x, r) \<Rightarrow> Some (Serial x, r)) }
      else if cmd = TIOCMIWAIT then do {
        t \<leftarrow> tiny_of i s;
        Some (No_answer, tiny_ioctl_tiocmiwait (word_of_int uarg) ws (icount t)) }
      else if cmd = TIOCGICOUNT then do {
        t \<leftarrow> tiny_of i s;
        (case tiny_ioctl_tiocgicount copy_ok t of
           (None, r) \<Rightarrow> Some (No_answer, r) | (Some x, r) \<Rightarrow> Some (Counts x, r)) }
      else Some (No_answer, Fail ENOIOCTLCMD))"

subsection \<open>Loading and unloading\<close>

record tiny_module =
  tiny_tty_driver :: bool
  registered :: bool
  devices :: "nat list"

definition tiny_init :: "bool \<Rightarrow> errno option \<Rightarrow> tiny_module \<times> int outcome" where
  "tiny_init alloc_ok reg =
     (let none = \<lparr>tiny_tty_driver = False, registered = False, devices = []\<rparr> in
      if \<not> alloc_ok then (none, Fail ENOMEM)
      else (case reg of
          Some e \<Rightarrow> (none, Fail e)
        | None \<Rightarrow> (\<lparr>tiny_tty_driver = True, registered = True, devices = [0..<TINY_TTY_MINORS]\<rparr>, Ret 0)))"

text \<open>The loop that closes a port; \<open>None\<close> when it does not end within the fuel.\<close>

fun close_all :: "nat \<Rightarrow> tiny_serial \<Rightarrow> tiny_serial option" where
  "close_all 0 t = (if open_count t = 0 then Some t else None)"
| "close_all (Suc n) t = (if open_count t = 0 then Some t else close_all n (do_close t))"

fun free_ports :: "nat list \<Rightarrow> tiny_sys \<Rightarrow> tiny_sys option" where
  "free_ports [] s = Some s"
| "free_ports (i # is) s =
     (case tiny_table s i of
        None \<Rightarrow> free_ports is s
      | Some t \<Rightarrow> do {
          close_all (nat (open_count t)) t;
          free_ports is (s\<lparr>tiny_table := (tiny_table s)(i := None)\<rparr>) })"

definition tiny_exit :: "tiny_module \<Rightarrow> tiny_sys \<Rightarrow> (tiny_module \<times> tiny_sys) option" where
  "tiny_exit m s = do {
     s' \<leftarrow> free_ports [0..<TINY_TTY_MINORS] s;
     Some (m\<lparr>devices := [], registered := False\<rparr>, s') }"

subsection \<open>Correctness\<close>

text \<open>What can happen to the driver; the timer of a port fires only while it is armed.\<close>

datatype tiny_event =
  Ev_open tiny_serial bool nat | Ev_close nat | Ev_timer bool nat | Ev_tiocmset "32 word" "32 word" nat

fun tiny_exec :: "tiny_event \<Rightarrow> tiny_sys \<Rightarrow> tiny_sys option" where
  "tiny_exec (Ev_open junk ok i) s = Some (fst (tiny_open junk ok i s))"
| "tiny_exec (Ev_close i) s = Some (tiny_close i s)"
| "tiny_exec (Ev_timer room i) s = tiny_timer room i s"
| "tiny_exec (Ev_tiocmset a b i) s = tiny_tiocmset a b i s"

text \<open>A terminal is opened less than \<open>2 ^ 31 - 1\<close> times at once, and used only while it has a port.\<close>

fun tiny_enabled :: "tiny_sys \<Rightarrow> tiny_event \<Rightarrow> bool" where
  "tiny_enabled s (Ev_open junk ok i) \<longleftrightarrow> i < TINY_TTY_MINORS \<and> (case tiny_table s i of None \<Rightarrow> True | Some t \<Rightarrow> open_count t < 2 ^ 31 - 1)"
| "tiny_enabled s (Ev_close i) \<longleftrightarrow> True"
| "tiny_enabled s (Ev_timer room i) \<longleftrightarrow> (case tiny_table s i of None \<Rightarrow> False | Some t \<Rightarrow> timer_armed t)"
| "tiny_enabled s (Ev_tiocmset a b i) \<longleftrightarrow> driver_data s i"

definition port_ok :: "tiny_serial \<Rightarrow> bool" where
  "port_ok t \<longleftrightarrow> 0 \<le> open_count t \<and> open_count t < 2 ^ 31 \<and> (timer_armed t \<longleftrightarrow> 0 < open_count t)"

definition tiny_ok :: "tiny_sys \<Rightarrow> bool" where
  "tiny_ok s \<longleftrightarrow> (\<forall>i t. tiny_table s i = Some t \<longrightarrow> port_ok t \<and> i < TINY_TTY_MINORS) \<and>
     (\<forall>i. driver_data s i \<longrightarrow> tiny_table s i \<noteq> None)"

lemma port_ok_open:
  assumes "port_ok t" "open_count t < 2 ^ 31 - 1"
  shows "port_ok (let t1 = t\<lparr>open_count := s32 (open_count t + 1)\<rparr> in if open_count t1 = 1 then t1\<lparr>timer_armed := True\<rparr> else t1)"
  using assms by (auto simp: port_ok_def Let_def)

lemma port_ok_close: "port_ok t \<Longrightarrow> port_ok (do_close t)"
  by (auto simp: port_ok_def do_close_def Let_def)

lemma tiny_ok_upd:
  "tiny_ok s \<Longrightarrow> port_ok t \<Longrightarrow> i < TINY_TTY_MINORS \<Longrightarrow> tiny_ok (s\<lparr>tiny_table := (tiny_table s)(i \<mapsto> t)\<rparr>)"
  by (simp add: tiny_ok_def)

lemma tiny_open_ok:
  assumes "tiny_ok s" "i < TINY_TTY_MINORS" "case tiny_table s i of None \<Rightarrow> True | Some t \<Rightarrow> open_count t < 2 ^ 31 - 1"
  shows "tiny_ok (fst (tiny_open junk ok i s))"
proof (cases "case tiny_table s i of Some t \<Rightarrow> Some t
    | None \<Rightarrow> if ok then Some (junk\<lparr>open_count := 0, timer_armed := False\<rparr>) else None")
  case None
  then show ?thesis using assms(1)
    by (simp add: tiny_open_def Let_def tiny_ok_def split: option.splits if_splits)
next
  case (Some t)
  have "port_ok t" "open_count t < 2 ^ 31 - 1"
    using Some assms(1,3) by (auto simp: tiny_ok_def port_ok_def split: option.splits if_splits)
  note p = port_ok_open[OF this]
  show ?thesis using Some assms(1,2) p by (simp add: tiny_open_def Let_def tiny_ok_def split: if_splits)
qed

interpretation tiny: safe_handlers tiny_exec tiny_enabled tiny_ok
proof
  fix s l assume ok: "tiny_ok s" and en: "tiny_enabled s l"
  show "\<exists>t. tiny_exec l s = Some t \<and> tiny_ok t"
  proof (cases l)
    case (Ev_open junk b i)
    then show ?thesis using tiny_open_ok[OF ok, of i junk b] en by simp
  next
    case (Ev_close i)
    have "tiny_ok (tiny_close i s)"
    proof (cases "tiny_of i s")
      case (Some t)
      then have "tiny_table s i = Some t" by (simp add: tiny_of_def split: if_splits)
      then have "port_ok (do_close t)" "i < TINY_TTY_MINORS" using ok port_ok_close[of t] by (auto simp: tiny_ok_def)
      then show ?thesis using Some tiny_ok_upd[OF ok] by (simp add: tiny_close_def)
    qed (simp add: tiny_close_def ok)
    then show ?thesis using Ev_close by simp
  next
    case (Ev_timer room i)
    then obtain t where t: "tiny_table s i = Some t" "timer_armed t" using en by (auto split: option.splits)
    then have "port_ok t" "i < TINY_TTY_MINORS" using ok by (auto simp: tiny_ok_def)
    then show ?thesis using Ev_timer t ok by (auto simp: tiny_timer_def tiny_timer_deliver_def tiny_timer_resubmit_def tiny_ok_def port_ok_def)
  next
    case (Ev_tiocmset a b i)
    then obtain t where t: "tiny_of i s = Some t" "tiny_table s i = Some t"
      using en ok by (auto simp: tiny_of_def tiny_ok_def)
    then have "port_ok t" "i < TINY_TTY_MINORS" using ok by (auto simp: tiny_ok_def)
    then show ?thesis using Ev_tiocmset t tiny_ok_upd[OF ok] by (auto simp: tiny_tiocmset_def port_ok_def Let_def)
  qed
qed

lemma close_all_ends: "0 \<le> open_count t \<Longrightarrow> open_count t < 2 ^ 31 \<Longrightarrow> nat (open_count t) \<le> n \<Longrightarrow> close_all n t \<noteq> None"
proof (induction n arbitrary: t)
  case (Suc n)
  show ?case
  proof (cases "open_count t = 0")
    case False
    then have "open_count (do_close t) = open_count t - 1" using Suc.prems by (simp add: do_close_def Let_def)
    then show ?thesis using Suc False by simp
  qed simp
qed simp

lemma free_ports_ok:
  "\<forall>i t. tiny_table s i = Some t \<longrightarrow> 0 \<le> open_count t \<and> open_count t < 2 ^ 31 \<Longrightarrow>
    \<exists>s'. free_ports js s = Some s' \<and> (\<forall>i. tiny_table s' i = (if i \<in> set js then None else tiny_table s i))"
proof (induction js arbitrary: s)
  case (Cons j js)
  show ?case
  proof (cases "tiny_table s j")
    case None
    then show ?thesis using Cons.IH[OF Cons.prems] by auto
  next
    case (Some t)
    then obtain u where u: "close_all (nat (open_count t)) t = Some u"
      using close_all_ends[of t "nat (open_count t)"] Cons.prems by auto
    let ?s = "s\<lparr>tiny_table := (tiny_table s)(j := None)\<rparr>"
    have ok: "\<forall>i t. tiny_table ?s i = Some t \<longrightarrow> 0 \<le> open_count t \<and> open_count t < 2 ^ 31" using Cons.prems by simp
    obtain s' where s': "free_ports js ?s = Some s'"
      "\<forall>i. tiny_table s' i = (if i \<in> set js then None else tiny_table ?s i)"
      using Cons.IH[OF ok] by blast
    then show ?thesis using Some u by (intro exI[of _ s']) simp
  qed
qed simp

definition tiny_start :: tiny_sys where
  "tiny_start = \<lparr>tiny_table = \<lambda>_. None, driver_data = \<lambda>_. False, received = \<lambda>_. []\<rparr>"

text \<open>C39. Whatever is opened, closed and set, in any order and with any failures of the allocator, and with the timer handlers
  run between these (not during one of them: tiny_timer_outlives_close), every port keeps a count of at least 0 and its timer is armed exactly while it is open; and the module can then be unloaded: the
  closing loops end and no port stays allocated.\<close>

theorem tiny_tty_well_formed:
  "\<exists>s. exec_all tiny_exec tiny_enabled es tiny_start = Some s \<and>
    (\<forall>i t. tiny_table s i = Some t \<longrightarrow> 0 \<le> open_count t \<and> (timer_armed t \<longleftrightarrow> 0 < open_count t)) \<and>
    (\<exists>m' s'. tiny_exit m s = Some (m', s') \<and> tiny_table s' = (\<lambda>_. None))"
proof -
  have "tiny_ok tiny_start" by (simp add: tiny_ok_def tiny_start_def)
  from tiny.exec_all_safe[OF this, of es] obtain s where s: "exec_all tiny_exec tiny_enabled es tiny_start = Some s" "tiny_ok s"
    by blast
  have "\<forall>i t. tiny_table s i = Some t \<longrightarrow> 0 \<le> open_count t \<and> open_count t < 2 ^ 31" using s(2) by (auto simp: tiny_ok_def port_ok_def)
  from free_ports_ok[OF this, of "[0..<TINY_TTY_MINORS]"] obtain s' where f: "free_ports [0..<TINY_TTY_MINORS] s = Some s'"
    "\<forall>i. tiny_table s' i = (if i \<in> set [0..<TINY_TTY_MINORS] then None else tiny_table s i)"
    by blast
  have "tiny_table s' i = None" for i
    using f(2) s(2) by (cases "tiny_table s i") (auto simp: tiny_ok_def)
  then have "tiny_table s' = (\<lambda>_. None)" by (simp add: fun_eq_iff)
  then show ?thesis using s f(1) by (auto simp: tiny_exit_def tiny_ok_def port_ok_def)
qed

definition demo_junk :: tiny_serial where
  "demo_junk = \<lparr>open_count = 7, timer_armed = True, msr = 5, mcr = 9,
     tserial = \<lparr>s_type = 0, s_line = 0, s_port = 0, s_irq = 0, s_flags = 0, s_xmit_fifo_size = 0, s_baud_base = 0,
       s_close_delay = 0, s_closing_wait = 0, s_custom_divisor = 0, s_hub6 = 0, s_io_type = 0\<rparr>,
     icount = \<lparr>ic_cts = 0, ic_dsr = 0, ic_rng = 0, ic_dcd = 0, ic_rx = 0, ic_tx = 0, ic_frame = 0, ic_overrun = 0,
       ic_parity = 0, ic_brk = 0, ic_buf_overrun = 0\<rparr>\<rparr>"

lemma tiny_tty_well_formed_witness:
  "\<exists>s t. exec_all tiny_exec tiny_enabled [Ev_open demo_junk True 0, Ev_open demo_junk True 0, Ev_close 0] tiny_start = Some s \<and>
    tiny_table s 0 = Some t \<and> open_count t = 1 \<and> timer_armed t"
proof -
  let ?es = "[Ev_open demo_junk True 0, Ev_open demo_junk True 0, Ev_close 0]"
  obtain s where s: "exec_all tiny_exec tiny_enabled ?es tiny_start = Some s"
    "\<forall>i t. tiny_table s i = Some t \<longrightarrow> 0 \<le> open_count t \<and> (timer_armed t \<longleftrightarrow> 0 < open_count t)"
    using tiny_tty_well_formed[of ?es] by blast
  have "\<exists>t. tiny_table s 0 = Some t \<and> open_count t = 1"
    using s(1) by (auto simp: tiny_start_def tiny_open_def tiny_close_def tiny_of_def do_close_def TINY_TTY_MINORS_def Let_def)
  then show ?thesis using s by auto
qed

text \<open>
  The last close while the handler of the port runs: \<open>del_timer\<close> finds the timer taken off and returns, and the handler adds it
  again. The timer of the closed port goes on firing; unloading the module skips the closing loop, frees the port, and the
  next expiry is a use of freed memory.
\<close>

lemma tiny_timer_outlives_close:
  assumes t: "tiny_table s i = Some t" "open_count t = 1" "driver_data s i" and i: "i < TINY_TTY_MINORS"
    and others: "\<forall>j u. tiny_table s j = Some u \<longrightarrow> port_ok u"
  shows "\<exists>s1 s2 u m' s3. tiny_timer_deliver room i s = Some s1 \<and> tiny_timer_resubmit i (tiny_close i s1) = Some s2 \<and>
    tiny_table s2 i = Some u \<and> open_count u = 0 \<and> timer_armed u \<and>
    tiny_exit m s2 = Some (m', s3) \<and> tiny_timer room' i s3 = None"
proof -
  let ?t1 = "t\<lparr>timer_armed := False\<rparr>"
  let ?s1 = "s\<lparr>received := (received s)(i := received s i @ (if room then [TINY_DATA_CHARACTER] else [])),
     tiny_table := (tiny_table s)(i \<mapsto> ?t1)\<rparr>"
  let ?s2 = "?s1\<lparr>tiny_table := (tiny_table s)(i \<mapsto> ?t1\<lparr>open_count := 0, timer_armed := True\<rparr>)\<rparr>"
  have steps: "tiny_timer_deliver room i s = Some ?s1" "tiny_timer_resubmit i (tiny_close i ?s1) = Some ?s2"
    using t by (simp_all add: tiny_timer_deliver_def tiny_timer_resubmit_def tiny_close_def tiny_of_def do_close_def Let_def)
  have "\<forall>j u. tiny_table ?s2 j = Some u \<longrightarrow> 0 \<le> open_count u \<and> open_count u < 2 ^ 31" using others by (auto simp: port_ok_def)
  from free_ports_ok[OF this, of "[0..<TINY_TTY_MINORS]"] obtain s3 where
    s3: "free_ports [0..<TINY_TTY_MINORS] ?s2 = Some s3" "tiny_table s3 i = None" using i by auto
  have "tiny_exit m ?s2 = Some (m\<lparr>devices := [], registered := False\<rparr>, s3)" "tiny_timer room' i s3 = None"
    using s3 by (simp_all add: tiny_exit_def tiny_timer_def tiny_timer_deliver_def)
  then show ?thesis using steps by (intro exI[of _ ?s1] exI[of _ ?s2]) auto
qed

text \<open>A write logs its bytes and never reports success.\<close>

lemma tiny_write_fails: "snd (tiny_write buffer i s) \<in> {Fail ENODEV, Fail EINVAL}"
  by (auto simp: tiny_write_def split: option.splits)

text \<open>Setting or clearing DTR acts on RTS, and DTR never changes.\<close>

lemma tiocmset_dtr:
  assumes "tiny_tiocmset TIOCM_DTR 0 i s = Some s'" "tiny_of i s = Some t"
  shows "\<exists>t'. tiny_of i s' = Some t' \<and> mcr t' = mcr t OR MCR_RTS"
  using assms by (auto simp: tiny_tiocmset_def tiny_of_def TIOCM_DTR_def TIOCM_RTS_def Let_def split: if_splits)

lemma mcr_dtr_kept: "(m AND NOT MCR_RTS) AND MCR_DTR = m AND MCR_DTR" "(m OR MCR_RTS) AND MCR_DTR = m AND MCR_DTR"
  by (simp_all add: MCR_RTS_def MCR_DTR_def and.assoc bit.conj_disj_distrib2)

text \<open>After the first open the modem lines are those of the memory that \<open>kmalloc\<close> returned.\<close>

lemma tiocmget_uninitialised:
  assumes "tiny_table s i = None"
  shows "tiny_tiocmget i (fst (tiny_open junk True i s)) =
    tiny_tiocmget i (s\<lparr>tiny_table := (tiny_table s)(i \<mapsto> junk), driver_data := (driver_data s)(i := True)\<rparr>)"
  using assms by (simp add: tiny_open_def tiny_tiocmget_def tiny_of_def Let_def)

end
