(* ===== verification/Tiny_Serial.thy ===== *)
theory Tiny_Serial
  imports Device_Interfaces
begin

unbundle bit_operations_syntax

section \<open>The tiny serial driver\<close>

text \<open>
  \<open>tty/tiny_serial.c\<close>: a driver for the serial core without hardware. A timer delivers a character and sends
  what the transmit ring of the core holds, half a hardware buffer at a time. Operations that do nothing
  in the source are listed with their constant results.
\<close>

subsection \<open>Data\<close>

definition UART_XMIT_SIZE :: nat where "UART_XMIT_SIZE = 4096"
definition WAKEUP_CHARS :: nat where "WAKEUP_CHARS = 256"
definition UART_DATA_CHARACTER :: byte where "UART_DATA_CHARACTER = 116"

record uart_port =
  x_char :: byte
  fifosize :: nat
  tx_count :: int
  tx_stopped :: bool
  xmit_buf :: "byte list"
  xmit_head :: nat
  xmit_tail :: nat
  wrote :: "byte list"
  wakeups :: nat

definition uart_circ_empty :: "uart_port \<Rightarrow> bool" where
  "uart_circ_empty p \<longleftrightarrow> xmit_head p = xmit_tail p"

definition uart_circ_chars_pending :: "uart_port \<Rightarrow> nat" where
  "uart_circ_chars_pending p = (xmit_head p + UART_XMIT_SIZE - xmit_tail p) mod UART_XMIT_SIZE"

subsection \<open>Transmission\<close>

definition tx_one :: "uart_port \<Rightarrow> uart_port option" where
  "tx_one p =
     (if length (xmit_buf p) \<le> xmit_tail p then None
      else Some (p\<lparr>wrote := wrote p @ [xmit_buf p ! xmit_tail p], xmit_tail := (xmit_tail p + 1) mod UART_XMIT_SIZE,
        tx_count := tx_count p + 1\<rparr>))"

text \<open>The loop runs at least once, whatever the count.\<close>

function tx_loop :: "nat \<Rightarrow> uart_port \<Rightarrow> uart_port option" where
  "tx_loop count p = do {
     q \<leftarrow> tx_one p;
     (if uart_circ_empty q then Some q
      else if 1 < count then tx_loop (count - 1) q else Some q) }"
  by pat_completeness auto
termination by (relation "measure fst") auto

declare tx_loop.simps [simp del]

definition tiny_tx_chars :: "uart_port \<Rightarrow> uart_port option" where
  "tiny_tx_chars p =
     (if x_char p \<noteq> 0 then
        Some (p\<lparr>wrote := wrote p @ [x_char p], tx_count := tx_count p + 1, x_char := 0\<rparr>)
      else if uart_circ_empty p \<or> tx_stopped p then Some p
      else do {
        q \<leftarrow> tx_loop (fifosize p div 2) p;
        Some (if uart_circ_chars_pending q < WAKEUP_CHARS then q\<lparr>wakeups := wakeups q + 1\<rparr> else q) })"

subsection \<open>The timer, startup and shutdown\<close>

text \<open>
  What the timer function gets as its argument: the port before Linux 4.15, and since then the timer
  structure, which it still takes for a port.
\<close>

datatype timer_arg = Arg_port | Arg_timer

record serial_sys =
  serial_port :: uart_port
  stimer :: "timer_arg option"
  stimer_armed :: bool
  sreceived :: "byte list"

text \<open>\<open>open_tty\<close>: the port has a state and a terminal. \<open>room\<close>: the character is accepted.\<close>

definition serial_timer :: "bool \<Rightarrow> bool \<Rightarrow> serial_sys \<Rightarrow> serial_sys option" where
  "serial_timer open_tty room s =
     (case stimer s of
        None \<Rightarrow> None
      | Some Arg_timer \<Rightarrow> None
      | Some Arg_port \<Rightarrow>
          if \<not> open_tty then Some (s\<lparr>stimer_armed := False\<rparr>)
          else do {
            p \<leftarrow> tiny_tx_chars (serial_port s);
            Some (s\<lparr>sreceived := sreceived s @ (if room then [UART_DATA_CHARACTER] else []), stimer_armed := True,
              serial_port := p\<rparr>) })"

definition tiny_startup :: "bool \<Rightarrow> bool \<Rightarrow> serial_sys \<Rightarrow> serial_sys \<times> int outcome" where
  "tiny_startup before_4_15 ok s =
     (if stimer s = None \<and> \<not> ok then (s, Fail ENOMEM)
      else (s\<lparr>stimer := Some (if before_4_15 then Arg_port else Arg_timer), stimer_armed := True\<rparr>, Ret 0))"

definition tiny_shutdown :: "serial_sys \<Rightarrow> serial_sys option" where
  "tiny_shutdown s = (if stimer s = None then None else Some (s\<lparr>stimer_armed := False\<rparr>))"

definition tiny_stop_tx :: "uart_port \<Rightarrow> uart_port" where "tiny_stop_tx p = p"
definition tiny_start_tx :: "uart_port \<Rightarrow> uart_port" where "tiny_start_tx p = p"
definition tiny_stop_rx :: "uart_port \<Rightarrow> uart_port" where "tiny_stop_rx p = p"
definition tiny_enable_ms :: "uart_port \<Rightarrow> uart_port" where "tiny_enable_ms p = p"
definition tiny_tx_empty :: "uart_port \<Rightarrow> int" where "tiny_tx_empty p = 0"
definition tiny_get_mctrl :: "uart_port \<Rightarrow> int" where "tiny_get_mctrl p = 0"
definition tiny_set_mctrl :: "int \<Rightarrow> uart_port \<Rightarrow> uart_port" where "tiny_set_mctrl mctrl p = p"
definition tiny_break_ctl :: "int \<Rightarrow> uart_port \<Rightarrow> uart_port" where "tiny_break_ctl state p = p"
text \<open>
  What is logged of the settings; the port stays as it is. The divisor is computed and thrown away.
\<close>

definition CSIZE :: "32 word" where "CSIZE = 0x30"
definition CS5 :: "32 word" where "CS5 = 0"
definition CS6 :: "32 word" where "CS6 = 0x10"
definition CS7 :: "32 word" where "CS7 = 0x20"
definition CSTOPB :: "32 word" where "CSTOPB = 0x40"
definition PARENB :: "32 word" where "PARENB = 0x100"
definition PARODD :: "32 word" where "PARODD = 0x200"
definition CRTSCTS :: "32 word" where "CRTSCTS = 0x80000000"

definition tiny_set_termios :: "32 word \<Rightarrow> uart_port \<Rightarrow> uart_port \<times> string list" where
  "tiny_set_termios cflag p =
     (p,
      [if cflag AND CSIZE = CS5 then '' - data bits = 5'' else if cflag AND CSIZE = CS6 then '' - data bits = 6''
       else if cflag AND CSIZE = CS7 then '' - data bits = 7'' else '' - data bits = 8'',
       if cflag AND PARENB \<noteq> 0 then (if cflag AND PARODD \<noteq> 0 then '' - parity = odd'' else '' - parity = even'')
       else '' - parity = none'',
       if cflag AND CSTOPB \<noteq> 0 then '' - stop bits = 2'' else '' - stop bits = 1'',
       if cflag AND CRTSCTS \<noteq> 0 then '' - RTS/CTS is enabled'' else '' - RTS/CTS is disabled''])"

definition tiny_type :: "uart_port \<Rightarrow> string" where "tiny_type p = ''tinytty''"
definition tiny_release_port :: "uart_port \<Rightarrow> uart_port" where "tiny_release_port p = p"
definition tiny_request_port :: "uart_port \<Rightarrow> int" where "tiny_request_port p = 0"
definition tiny_config_port :: "int \<Rightarrow> uart_port \<Rightarrow> uart_port" where "tiny_config_port flags p = p"
definition tiny_verify_port :: "uart_port \<Rightarrow> int" where "tiny_verify_port p = 0"

text \<open>Whether the driver and the port are registered afterwards. A module without an exit function stays loaded.\<close>

definition serial_init :: "errno option \<Rightarrow> errno option \<Rightarrow> bool \<times> bool \<times> int outcome" where
  "serial_init driver port =
     (case driver of Some e \<Rightarrow> (False, False, Fail e)
      | None \<Rightarrow> (case port of Some e \<Rightarrow> (False, False, Fail e) | None \<Rightarrow> (True, True, Ret 0)))"

subsection \<open>Correctness\<close>

definition port_wf :: "uart_port \<Rightarrow> bool" where
  "port_wf p \<longleftrightarrow> length (xmit_buf p) = UART_XMIT_SIZE \<and> xmit_head p < UART_XMIT_SIZE \<and> xmit_tail p < UART_XMIT_SIZE"

text \<open>The characters waiting in the ring.\<close>

definition tx_pending :: "uart_port \<Rightarrow> byte list" where
  "tx_pending p = map (\<lambda>k. xmit_buf p ! ((xmit_tail p + k) mod UART_XMIT_SIZE)) [0..<uart_circ_chars_pending p]"

lemma pending_empty: "port_wf p \<Longrightarrow> uart_circ_empty p \<longleftrightarrow> tx_pending p = []"
  by (auto simp: uart_circ_empty_def tx_pending_def uart_circ_chars_pending_def port_wf_def UART_XMIT_SIZE_def
      mod_if split: if_splits)

lemma tx_one_ok:
  assumes "port_wf p" "\<not> uart_circ_empty p"
  shows "\<exists>q. tx_one p = Some q \<and> port_wf q \<and> tx_pending p = hd (tx_pending p) # tx_pending q \<and>
    wrote q = wrote p @ [hd (tx_pending p)] \<and> tx_count q = tx_count p + 1 \<and> fifosize q = fifosize p \<and>
    wakeups q = wakeups p"
proof -
  let ?q = "p\<lparr>wrote := wrote p @ [xmit_buf p ! xmit_tail p], xmit_tail := (xmit_tail p + 1) mod UART_XMIT_SIZE,
    tx_count := tx_count p + 1\<rparr>"
  have w: "length (xmit_buf p) = UART_XMIT_SIZE" "xmit_head p < UART_XMIT_SIZE" "xmit_tail p < UART_XMIT_SIZE"
    using assms(1) by (simp_all add: port_wf_def)
  have t: "tx_one p = Some ?q" using w by (simp add: tx_one_def)
  have wf: "port_wf ?q" using w by (simp add: port_wf_def UART_XMIT_SIZE_def)
  have n: "uart_circ_chars_pending p = Suc (uart_circ_chars_pending ?q)"
    using assms(2) w by (auto simp: uart_circ_chars_pending_def uart_circ_empty_def UART_XMIT_SIZE_def mod_if)
  have "tx_pending p = xmit_buf p ! xmit_tail p # tx_pending ?q"
    using w(3) unfolding tx_pending_def n
    by (simp add: upt_conv_Cons map_Suc_upt[symmetric] mod_add_left_eq del: upt_Suc)
  then show ?thesis using t wf by (intro exI[of _ ?q]) simp
qed

text \<open>A transmission ends and sends, in their order, the waiting characters up to half the
  size of the hardware buffer, and always at least one.\<close>

lemma tiny_tx_chars_correct:
  assumes "port_wf p" "x_char p = 0" "\<not> tx_stopped p" "tx_pending p \<noteq> []"
  shows "\<exists>q. tiny_tx_chars p = Some q \<and> port_wf q \<and>
    wrote q = wrote p @ take (max 1 (fifosize p div 2)) (tx_pending p) \<and>
    tx_pending q = drop (max 1 (fifosize p div 2)) (tx_pending p)"
proof -
  have loop: "port_wf p \<Longrightarrow> tx_pending p \<noteq> [] \<Longrightarrow> \<exists>q. tx_loop c p = Some q \<and> port_wf q \<and>
      wrote q = wrote p @ take (max 1 c) (tx_pending p) \<and> tx_pending q = drop (max 1 c) (tx_pending p)" for c p
  proof (induction c p rule: tx_loop.induct)
    case (1 c p)
    have ne: "\<not> uart_circ_empty p" using 1(2,3) pending_empty by simp
    obtain q where q: "tx_one p = Some q" "port_wf q" "tx_pending p = hd (tx_pending p) # tx_pending q"
      "wrote q = wrote p @ [hd (tx_pending p)]"
      using tx_one_ok[OF 1(2) ne] by blast
    let ?x = "hd (tx_pending p)"
    show ?case
    proof (cases "tx_pending q = [] \<or> c \<le> 1")
      case True
      then have r: "tx_loop c p = Some q"
        using q pending_empty[OF q(2)] by (auto simp: tx_loop.simps[of c p])
      have "take (max 1 c) (?x # tx_pending q) = [?x] \<and> drop (max 1 c) (?x # tx_pending q) = tx_pending q"
        using True by (auto simp: max_def take_Cons' drop_Cons')
      then show ?thesis using r q by (metis (no_types))
    next
      case False
      then have nq: "\<not> uart_circ_empty q" "1 < c" using pending_empty[OF q(2)] by auto
      then have "tx_loop c p = tx_loop (c - 1) q" using q(1) by (simp add: tx_loop.simps[of c p])
      moreover obtain u where u: "tx_loop (c - 1) q = Some u" "port_wf u"
        "wrote u = wrote q @ take (max 1 (c - 1)) (tx_pending q)" "tx_pending u = drop (max 1 (c - 1)) (tx_pending q)"
        using 1(1)[OF q(1) nq(1) nq(2) q(2)] False by blast
      moreover have "max 1 c = Suc (max 1 (c - 1))" using nq(2) by auto
      ultimately show ?thesis using q(3,4) by (metis append.assoc append_Cons append_Nil drop_Suc_Cons take_Suc_Cons)
    qed
  qed
  have ne: "\<not> uart_circ_empty p" using assms(1,4) pending_empty by simp
  obtain q where q: "tx_loop (fifosize p div 2) p = Some q" "port_wf q"
    "wrote q = wrote p @ take (max 1 (fifosize p div 2)) (tx_pending p)"
    "tx_pending q = drop (max 1 (fifosize p div 2)) (tx_pending p)"
    using loop[OF assms(1,4), of "fifosize p div 2"] by blast
  have "port_wf (q\<lparr>wakeups := n\<rparr>) = port_wf q" "tx_pending (q\<lparr>wakeups := n\<rparr>) = tx_pending q" for n
    by (simp_all add: port_wf_def tx_pending_def uart_circ_chars_pending_def)
  then show ?thesis using q ne assms(2,3) by (auto simp: tiny_tx_chars_def)
qed

definition demo_port :: uart_port where
  "demo_port = \<lparr>x_char = 0, fifosize = 4, tx_count = 0, tx_stopped = False, xmit_buf = replicate UART_XMIT_SIZE 65,
     xmit_head = 1, xmit_tail = 4094, wrote = [], wakeups = 0\<rparr>"

lemma tiny_tx_chars_correct_example:
  "\<exists>q. tiny_tx_chars demo_port = Some q \<and> wrote q = [65, 65] \<and> length (tx_pending q) = 1"
proof -
  have wf: "port_wf demo_port" by (simp add: port_wf_def demo_port_def UART_XMIT_SIZE_def)
  have n: "uart_circ_chars_pending demo_port = 3"
    by (simp add: uart_circ_chars_pending_def demo_port_def UART_XMIT_SIZE_def)
  have "tx_pending demo_port = [65, 65, 65]"
    by (simp add: tx_pending_def n upt_rec numeral_3_eq_3) (simp add: demo_port_def UART_XMIT_SIZE_def nth_replicate)
  moreover have "x_char demo_port = 0" "\<not> tx_stopped demo_port" "max 1 (fifosize demo_port div 2) = 2" "wrote demo_port = []"
    by (simp_all add: demo_port_def)
  ultimately show ?thesis using tiny_tx_chars_correct[OF wf] by auto
qed

text \<open>Since Linux 4.15 the first expiry of the timer after a startup takes the timer for a port.\<close>

lemma serial_timer_bad_argument:
  "serial_timer open_tty room (fst (tiny_startup False True s)) = None"
  by (simp add: serial_timer_def tiny_startup_def)

end
