(* ===== verification/Usb_Skeleton.thy ===== *)
theory Usb_Skeleton
  imports Device_Interfaces
begin

unbundle bit_operations_syntax

section \<open>The USB skeleton driver\<close>

text \<open>
  \<open>usb/usb-skeleton.c\<close>: one interface with a bulk-in and a bulk-out endpoint. Every attachment has a device structure of its
  own, which is counted: the interface holds one reference while it is attached, and so does every open file. A structure
  is named by the number of the attachment; open files and requests in flight keep this name as the code keeps the pointer, also
  when the interface has been detached and attached again. What the USB core answers is a parameter.
\<close>

subsection \<open>Data\<close>

definition USB_DIR_IN :: byte where "USB_DIR_IN = 0x80"
definition USB_ENDPOINT_XFERTYPE_MASK :: byte where "USB_ENDPOINT_XFERTYPE_MASK = 3"
definition USB_ENDPOINT_XFER_BULK :: byte where "USB_ENDPOINT_XFER_BULK = 2"

record endpoint =
  bEndpointAddress :: byte
  bmAttributes :: byte
  wMaxPacketSize :: nat

record usb_skel =
  kref :: int
  bulk_in_buffer :: "cell list option"
  bulk_in_size :: nat
  bulk_in_endpointAddr :: byte
  bulk_out_endpointAddr :: byte

text \<open>
  \<open>skels\<close> are the structures that are allocated, \<open>next_skel\<close> counts the attachments, \<open>open_files\<close> has the \<open>private_data\<close> of
  each open file and \<open>in_flight\<close> the \<open>context\<close> of each submitted request.
\<close>

record usb_sys =
  skels :: "nat \<Rightarrow> usb_skel option"
  next_skel :: nat
  intfdata :: "nat option"
  minor_taken :: bool
  open_files :: "nat list"
  sent :: "cell list list"
  in_flight :: "nat list"

definition usb_start :: usb_sys where
  "usb_start = \<lparr>skels = Map.empty, next_skel = 0, intfdata = None, minor_taken = False, open_files = [], sent = [], in_flight = []\<rparr>"

subsection \<open>Reference counting\<close>

text \<open>Dropping a reference; the last one frees the device.\<close>

definition skel_delete :: "nat \<Rightarrow> usb_sys \<Rightarrow> usb_sys" where
  "skel_delete i s = s\<lparr>skels := (skels s)(i := None)\<rparr>"

definition kref_put :: "nat \<Rightarrow> usb_sys \<Rightarrow> usb_sys option" where
  "kref_put i s = do {
     d \<leftarrow> skels s i;
     let d' = d\<lparr>kref := kref d - 1\<rparr>;
     Some (if kref d' = 0 then skel_delete i s else s\<lparr>skels := (skels s)(i \<mapsto> d')\<rparr>) }"

text \<open>The core opens a file and gives back a minor number under the same lock, so that an open is one step.\<close>

definition skel_open :: "usb_sys \<Rightarrow> (usb_sys \<times> int outcome) option" where
  "skel_open s =
     (if \<not> minor_taken s then Some (s, Fail ENODEV)
      else (case intfdata s of
          None \<Rightarrow> Some (s, Fail ENODEV)
        | Some i \<Rightarrow> do {
            d \<leftarrow> skels s i;
            Some (s\<lparr>skels := (skels s)(i \<mapsto> d\<lparr>kref := kref d + 1\<rparr>), open_files := i # open_files s\<rparr>, Ret 0) }))"

text \<open>\<open>file\<close> is the \<open>private_data\<close> of the file that is closed.\<close>

definition skel_release :: "nat option \<Rightarrow> usb_sys \<Rightarrow> (usb_sys \<times> int outcome) option" where
  "skel_release file s =
     (case file of
        None \<Rightarrow> Some (s, Fail ENODEV)
      | Some i \<Rightarrow> do { t \<leftarrow> kref_put i s; Some (t\<lparr>open_files := remove1 i (open_files t)\<rparr>, Ret 0) })"

subsection \<open>Attaching and detaching\<close>

text \<open>The loop over the endpoints takes the first of each kind; \<open>None\<close> when the buffer cannot be allocated.\<close>

fun skel_endpoints :: "endpoint list \<Rightarrow> allocs \<Rightarrow> usb_skel \<Rightarrow> usb_skel option" where
  "skel_endpoints [] a d = Some d"
| "skel_endpoints (e # es) a d =
     (let bulk = (bmAttributes e AND USB_ENDPOINT_XFERTYPE_MASK = USB_ENDPOINT_XFER_BULK);
          dir_in = (bEndpointAddress e AND USB_DIR_IN \<noteq> 0)
      in case (if bulk_in_endpointAddr d = 0 \<and> dir_in \<and> bulk then
                 (case kmalloc a of
                    (False, a') \<Rightarrow> None
                  | (True, a') \<Rightarrow> Some (d\<lparr>bulk_in_size := wMaxPacketSize e, bulk_in_endpointAddr := bEndpointAddress e,
                      bulk_in_buffer := Some (replicate (wMaxPacketSize e) None)\<rparr>, a'))
               else Some (d, a)) of
           None \<Rightarrow> None
         | Some (d1, a1) \<Rightarrow>
             skel_endpoints es a1
               (if bulk_out_endpointAddr d1 = 0 \<and> \<not> dir_in \<and> bulk
                then d1\<lparr>bulk_out_endpointAddr := bEndpointAddress e\<rparr> else d1))"

text \<open>\<open>reg\<close> is the error of \<open>usb_register_dev\<close>, if any. Every failure drops the only reference.\<close>

definition skel_probe :: "endpoint list \<Rightarrow> allocs \<Rightarrow> errno option \<Rightarrow> usb_sys \<Rightarrow> usb_sys \<times> int outcome" where
  "skel_probe es a reg s =
     (let i = next_skel s; s1 = s\<lparr>next_skel := i + 1\<rparr> in
      case kmalloc a of
        (False, _) \<Rightarrow> (s, Fail ENOMEM)
      | (True, a1) \<Rightarrow>
          (case skel_endpoints es a1 \<lparr>kref = 1, bulk_in_buffer = None, bulk_in_size = 0,
                bulk_in_endpointAddr = 0, bulk_out_endpointAddr = 0\<rparr> of
             None \<Rightarrow> (skel_delete i s1, Fail ENOMEM)
           | Some d \<Rightarrow>
               if bulk_in_endpointAddr d = 0 \<or> bulk_out_endpointAddr d = 0 then (skel_delete i s1, Fail ENOMEM)
               else (case reg of
                   Some e \<Rightarrow> (skel_delete i (s1\<lparr>intfdata := None\<rparr>), Fail e)
                 | None \<Rightarrow> (s1\<lparr>skels := (skels s)(i \<mapsto> d), intfdata := Some i, minor_taken := True\<rparr>, Ret 0))))"

definition skel_disconnect :: "usb_sys \<Rightarrow> usb_sys option" where
  "skel_disconnect s = do {
     i \<leftarrow> intfdata s;
     kref_put i (s\<lparr>intfdata := None, minor_taken := False\<rparr>) }"

subsection \<open>Reading and writing\<close>


text \<open>
  The error path frees the buffer twice, and reads the request even when its allocation has failed: both have no
  meaning. Freeing a NULL buffer does nothing.
\<close>

definition skel_write_error :: "bool \<Rightarrow> bool \<Rightarrow> errno \<Rightarrow> usb_sys \<Rightarrow> (usb_sys \<times> int outcome) option" where
  "skel_write_error have_urb have_buf e s =
     (if \<not> have_urb then None else if have_buf then None else Some (s, Fail e))"

definition skel_write ::
  "bool \<Rightarrow> bool \<Rightarrow> nat \<Rightarrow> errno option \<Rightarrow> byte list \<Rightarrow> nat \<Rightarrow> usb_sys \<Rightarrow> (usb_sys \<times> int outcome) option" where
  "skel_write urb_ok buf_ok left submit src i s =
     (if src = [] then Some (s, Ret 0)
      else if \<not> urb_ok then skel_write_error False False ENOMEM s
      else do {
        d \<leftarrow> skels s i;
        (if \<not> buf_ok then skel_write_error True False ENOMEM s
         else if 0 < min left (length src) then skel_write_error True True EFAULT s
         else (case submit of
             Some e \<Rightarrow> skel_write_error True True e s
           | None \<Rightarrow> Some (s\<lparr>sent := sent s @ [map Some src], in_flight := i # in_flight s\<rparr>, Ret (int (length src))))) })"

text \<open>
  The completion of a request with the context \<open>i\<close> frees its buffer. A status that is an error and not that of an unlinked
  request (-ENOENT, -ECONNRESET, -ESHUTDOWN) is reported with \<open>dev->interface\<close>; \<open>debug\<close> tells whether \<open>dev_dbg\<close> is compiled
  in and on, so that it reads its argument.
\<close>

definition unlinked :: "int \<Rightarrow> bool" where
  "unlinked status \<longleftrightarrow> status = - 2 \<or> status = - 104 \<or> status = - 108"

definition skel_write_bulk_callback :: "bool \<Rightarrow> int \<Rightarrow> nat \<Rightarrow> usb_sys \<Rightarrow> usb_sys option" where
  "skel_write_bulk_callback debug status i s =
     (if debug \<and> status \<noteq> 0 \<and> \<not> unlinked status \<and> skels s i = None then None
      else Some (s\<lparr>in_flight := remove1 i (in_flight s)\<rparr>))"

definition usb_skel_init :: "errno option \<Rightarrow> int outcome" where
  "usb_skel_init reg = (case reg of Some e \<Rightarrow> Fail e | None \<Rightarrow> Ret 0)"

text \<open>
  The driver does not set \<open>soft_unbind\<close>: before the core calls the disconnect method it disables the endpoints and ends every
  request in flight with -ESHUTDOWN, whose completions run first.
\<close>

fun usb_kill :: "bool \<Rightarrow> nat list \<Rightarrow> usb_sys \<Rightarrow> usb_sys option" where
  "usb_kill debug [] s = Some s"
| "usb_kill debug (i # is) s = do { t \<leftarrow> skel_write_bulk_callback debug (- 108) i s; usb_kill debug is t }"

definition usb_unbind :: "bool \<Rightarrow> usb_sys \<Rightarrow> usb_sys option" where
  "usb_unbind debug s = do { t \<leftarrow> usb_kill debug (in_flight s) s; skel_disconnect t }"

text \<open>Deregistering the driver disconnects the interface that it is attached to.\<close>

definition usb_skel_exit :: "bool \<Rightarrow> usb_sys \<Rightarrow> usb_sys option" where
  "usb_skel_exit debug s = (if intfdata s \<noteq> None then usb_unbind debug s else Some s)"

subsection \<open>Correctness\<close>



























definition demo_endpoints :: "endpoint list" where
  "demo_endpoints = [\<lparr>bEndpointAddress = 0x81, bmAttributes = 2, wMaxPacketSize = 64\<rparr>,
     \<lparr>bEndpointAddress = 0x02, bmAttributes = 2, wMaxPacketSize = 64\<rparr>]"


text \<open>Without the unlinking by the core a completion would use a freed structure: the callback itself takes no reference.\<close>

lemma callback_needs_unlinking:
  "map_option (\<lambda>s. Option.is_none (skel_write_bulk_callback True (- 71) 0 s)) (do {
     s1 \<leftarrow> Some (fst (skel_probe demo_endpoints [True, True] None usb_start));
     s2 \<leftarrow> map_option fst (skel_open s1);
     s3 \<leftarrow> map_option fst (skel_write True True 0 None [7] 0 s2);
     s4 \<leftarrow> skel_disconnect s3;
     map_option fst (skel_release (Some 0) s4) }) = Some True"
  by code_simp

text \<open>The error paths of the write: only the failing allocation of the buffer is survived.\<close>

lemma skel_write_errors:
  assumes "skels s i = Some d" "src \<noteq> []"
  shows "skel_write False b left e src i s = None"
    and "skel_write True False left e src i s = Some (s, Fail ENOMEM)"
    and "0 < left \<Longrightarrow> skel_write True True left e src i s = None"
    and "skel_write True True 0 (Some err) src i s = None"
  using assms by (simp_all add: skel_write_def skel_write_error_def)

end
