(* ===== verification/Silly.thy ===== *)
theory Silly
  imports Device_Interfaces
begin

unbundle bit_operations_syntax

section \<open>The silly driver\<close>

text \<open>
  \<open>misc-modules/silly.c\<close>: reads and writes of the ISA memory between 640 KB and 1 MB, in four ways chosen by the
  minor number. \<open>io\<close> is the mapped range. Values of several bytes are stored with the lowest byte first, as on the
  machines that have this memory, so that a value is the list of its bytes.
\<close>

definition ISA_BASE :: int where [code_consts]: "ISA_BASE = 0xA0000"
definition ISA_MAX :: int where [code_consts]: "ISA_MAX = 0x100000"

text \<open>The modes 0 to 3; a wider access is replaced by a narrower one where the range is not aligned.\<close>

definition silly_mode :: "nat \<Rightarrow> int \<Rightarrow> int \<Rightarrow> nat" where
  "silly_mode mode isa_addr count =
     (let m1 = (if mode = 2 \<and> (isa_addr OR count) AND 3 \<noteq> 0 then 1 else mode)
      in if m1 = 1 \<and> (isa_addr OR count) AND 1 \<noteq> 0 then 0 else m1)"

definition silly_count :: "int \<Rightarrow> int \<Rightarrow> int" where
  "silly_count isa_addr count =
     (if ISA_MAX < u64 (isa_addr + count) then u64 (ISA_MAX - isa_addr) else count)"

definition io_read :: "nat \<Rightarrow> nat \<Rightarrow> byte list \<Rightarrow> byte list option" where
  "io_read n add io = (if add + n \<le> length io then Some (take n (drop add io)) else None)"

text \<open>The reading loops, for accesses of \<open>w\<close> bytes.\<close>

function silly_read_loop :: "nat \<Rightarrow> nat \<Rightarrow> nat \<Rightarrow> byte list \<Rightarrow> byte list option" where
  "silly_read_loop w count add io =
     (if 0 < w \<and> w \<le> count then do {
        v \<leftarrow> io_read w add io;
        rest \<leftarrow> silly_read_loop w (count - w) (add + w) io;
        Some (v @ rest) }
      else Some [])"
  by pat_completeness auto
termination by (relation "measure (\<lambda>(w, count, add, io). count)") auto

declare silly_read_loop.simps [simp del]

definition silly_open :: int where "silly_open = 0"
definition silly_release :: int where "silly_release = 0"
definition silly_poll :: "bool \<times> bool" where "silly_poll = (True, True)"

text \<open>
  The file position, the bytes for the user and the result. \<open>ok\<close> is the answer of the allocator, which never
  has half of the address space. The position moves by the result even when that is an error.
\<close>

definition silly_read ::
  "nat \<Rightarrow> bool \<Rightarrow> nat \<Rightarrow> int \<Rightarrow> int \<Rightarrow> byte list \<Rightarrow> (int \<times> cell list \<times> int outcome) option" where
  "silly_read mode ok left count f_pos io =
     (let isa_addr = u64 (ISA_BASE + f_pos);
          n = silly_count isa_addr count;
          add = nat (u64 (isa_addr - ISA_BASE));
          retval = s32 n;
          m = silly_mode mode isa_addr n
      in if \<not> ok \<or> 2 ^ 63 \<le> n then Some (f_pos, [], Fail ENOMEM)
         else if 3 < m then Some (f_pos, [], Fail EINVAL)
         else do {
           bs \<leftarrow> (if m = 2 then silly_read_loop 4 (nat n) add io
                 else if m = 1 then silly_read_loop 2 (nat n) add io
                 else if m = 0 then silly_read_loop 1 (nat n) add io
                 else io_read (nat n) add io);
           let kbuf = map Some bs @ replicate (nat n - length bs) None;
           (if 0 < retval \<and> 0 < left then Some (f_pos - 14, [], Fail EFAULT)
            else Some (f_pos + retval, kbuf, Ret retval)) })"

text \<open>The writing loops store the first byte of each value, whatever its width.\<close>

function silly_write_loop :: "nat \<Rightarrow> nat \<Rightarrow> nat \<Rightarrow> byte list \<Rightarrow> byte list \<Rightarrow> byte list option" where
  "silly_write_loop w count add src io =
     (if 0 < w \<and> w \<le> count then
        (if length io \<le> add \<or> length src < w then None
         else silly_write_loop w (count - w) (add + w) (drop w src) (io[add := hd src]))
      else Some io)"
  by pat_completeness auto
termination by (relation "measure (\<lambda>(w, count, add, src, io). count)") auto

declare silly_write_loop.simps [simp del]

text \<open>\<open>left\<close> is what \<open>copy_from_user\<close> could not copy.\<close>

definition silly_write ::
  "nat \<Rightarrow> bool \<Rightarrow> bool \<Rightarrow> nat \<Rightarrow> byte list \<Rightarrow> int \<Rightarrow> byte list \<Rightarrow> (byte list \<times> int \<times> int outcome) option" where
  "silly_write mode rawio ok left src f_pos io =
     (let isa_addr = u64 (ISA_BASE + f_pos);
          n = silly_count isa_addr (int (length src));
          add = nat (u64 (isa_addr - ISA_BASE));
          retval = s32 n;
          m = silly_mode mode isa_addr n
      in if \<not> rawio then Some (io, f_pos, Fail EPERM)
         else if \<not> ok \<or> 2 ^ 63 \<le> n then Some (io, f_pos, Fail ENOMEM)
         else if 0 < min left (nat n) then Some (io, f_pos, Fail EFAULT)
         else if 3 < m then Some (io, f_pos, Fail EINVAL)
         else do {
           io' \<leftarrow> (if m = 2 then silly_write_loop 4 (nat n) add src io
                  else if m = 1 then silly_write_loop 2 (nat n) add src io
                  else if m = 0 then silly_write_loop 1 (nat n) add src io
                  else if add + nat n \<le> length io then Some (mem_write add (take (nat n) src) io) else None);
           Some (io', f_pos + retval, Ret retval) })"

definition silly_init :: "int outcome \<Rightarrow> bool \<times> bool \<times> int outcome" where
  "silly_init reg = (case reg of Ret _ \<Rightarrow> (True, True, Ret 0) | r \<Rightarrow> (False, False, r))"

text \<open>The mapping and the registration, released.\<close>

definition silly_cleanup :: "bool \<times> bool \<Rightarrow> bool \<times> bool" where
  "silly_cleanup s = (False, False)"

subsection \<open>Correctness\<close>

lemma io_read_split:
  "add + n \<le> length io \<Longrightarrow> w \<le> n \<Longrightarrow>
    take n (drop add io) = take w (drop add io) @ take (n - w) (drop (add + w) io)"
  by (metis add.commute drop_drop le_add_diff_inverse take_add)

lemma silly_read_loop_ok:
  "0 < w \<Longrightarrow> w dvd count \<Longrightarrow> add + count \<le> length io \<Longrightarrow> silly_read_loop w count add io = Some (take count (drop add io))"
proof (induction w count add io rule: silly_read_loop.induct)
  case (1 w count add io)
  show ?case
  proof (cases "w \<le> count")
    case True
    have r: "io_read w add io = Some (take w (drop add io))" using True 1(4) by (simp add: io_read_def)
    have "silly_read_loop w (count - w) (add + w) io = Some (take (count - w) (drop (add + w) io))"
      using 1(1)[OF _ r] 1(2-4) True by (simp add: dvd_minus_self)
    then show ?thesis using True 1(2) r io_read_split[OF 1(4) True]
      by (simp add: silly_read_loop.simps[of w count])
  next
    case False
    then have "count = 0" using 1(3) by (cases "count = 0") (auto dest: dvd_imp_le)
    then show ?thesis using 1(2) by (simp add: silly_read_loop.simps)
  qed
qed

lemma aligned3: "(a OR c) AND 3 = (0 :: int) \<longleftrightarrow> 4 dvd a \<and> 4 dvd c"
proof -
  have "x AND 3 = x mod 4" for x :: int using take_bit_eq_mask[of 2 x] by (simp add: take_bit_eq_mod mask_eq_exp_minus_1)
  moreover have "(a OR c) AND 3 = (a AND 3) OR (c AND 3)" by (rule bit.conj_disj_distrib2)
  ultimately show ?thesis by (simp only: or_eq_0_iff dvd_eq_mod_eq_0)
qed

lemma aligned1: "(a OR c) AND 1 = (0 :: int) \<longleftrightarrow> 2 dvd a \<and> 2 dvd c"
proof -
  have "x AND 1 = x mod 2" for x :: int by (simp add: and_one_eq)
  moreover have "(a OR c) AND 1 = (a AND 1) OR (c AND 1)" by (rule bit.conj_disj_distrib2)
  ultimately show ?thesis by (simp only: or_eq_0_iff dvd_eq_mod_eq_0)
qed

text \<open>The mode used fits the range.\<close>

lemma silly_mode_fits:
  fixes a :: int and n :: nat
  assumes "mode < 4"
  defines "m \<equiv> silly_mode mode a (int n)"
  shows "m < 4" "m = 2 \<Longrightarrow> 4 dvd n" "m = 1 \<Longrightarrow> 2 dvd n"
proof -
  show "m < 4" using assms(1) by (auto simp: m_def silly_mode_def Let_def)
  show "4 dvd n" if "m = 2"
  proof -
    have "(a OR int n) AND 3 = 0" using that by (auto simp: m_def silly_mode_def Let_def split: if_splits)
    then show ?thesis unfolding aligned3 by presburger
  qed
  show "2 dvd n" if "m = 1"
  proof -
    have "(a OR int n) AND 1 = 0" using that by (auto simp: m_def silly_mode_def Let_def split: if_splits)
    then show ?thesis unfolding aligned1 by presburger
  qed
qed

definition silly_len :: "int \<Rightarrow> int \<Rightarrow> nat" where
  "silly_len f_pos count = nat (min count (ISA_MAX - ISA_BASE - f_pos))"

lemma silly_range:
  assumes "0 \<le> f_pos" "f_pos \<le> ISA_MAX - ISA_BASE" "0 \<le> count" "count < 2 ^ 62"
  shows "u64 (ISA_BASE + f_pos) = ISA_BASE + f_pos" "silly_count (ISA_BASE + f_pos) count = int (silly_len f_pos count)"
    "nat (u64 (ISA_BASE + f_pos - ISA_BASE)) = nat f_pos" "nat f_pos + silly_len f_pos count \<le> nat (ISA_MAX - ISA_BASE)"
    "int (silly_len f_pos count) < 2 ^ 31"
  using assms by (auto simp: silly_count_def silly_len_def code_consts min_def)

text \<open>In the mapped range the four ways of reading return the same: the bytes from the position up to
  the count or the end of the range.\<close>

lemma silly_read_modes_agree:
  assumes "length io = nat (ISA_MAX - ISA_BASE)" "0 \<le> f_pos" "f_pos \<le> ISA_MAX - ISA_BASE"
    and "0 \<le> count" "count < 2 ^ 62" "mode < 4"
  shows "silly_read mode True 0 count f_pos io =
    (let n = silly_len f_pos count in Some (f_pos + int n, map Some (take n (drop (nat f_pos) io)), Ret (int n)))"
proof -
  let ?n = "silly_len f_pos count"
  note r = silly_range[OF assms(2-5)]
  define m where "m = silly_mode mode (ISA_BASE + f_pos) (int ?n)"
  note f = silly_mode_fits[OF assms(6), of "ISA_BASE + f_pos" ?n, folded m_def]
  have fit: "nat f_pos + ?n \<le> length io" using r(4) assms(1) by simp
  have bs: "(if m = 2 then silly_read_loop 4 ?n (nat f_pos) io
      else if m = 1 then silly_read_loop 2 ?n (nat f_pos) io
      else if m = 0 then silly_read_loop 1 ?n (nat f_pos) io
      else io_read ?n (nat f_pos) io) = Some (take ?n (drop (nat f_pos) io))"
    using f silly_read_loop_ok[OF _ _ fit] fit by (auto simp: io_read_def)
  have s: "s32 (int ?n) = int ?n" "\<not> 2 ^ 63 \<le> int ?n" using r(5) by auto
  have l: "length (take ?n (drop (nat f_pos) io)) = ?n" using fit by simp
  show ?thesis
    unfolding silly_read_def Let_def r(1,2,3) nat_int m_def[symmetric] bs Option.bind.bind_lunit
    using f(1) s l by simp
qed

lemma silly_read_modes_agree_example:
  "silly_read 2 True 0 8 4 (replicate (nat (ISA_MAX - ISA_BASE)) 7) = Some (12, replicate 8 (Some 7), Ret 8)"
  using silly_read_modes_agree[of "replicate (nat (ISA_MAX - ISA_BASE)) 7" 4 8 2]
  by (simp add: silly_len_def code_consts Let_def)

text \<open>A position behind the range makes the count huge, and the read fails for lack of memory.\<close>

lemma silly_read_behind:
  assumes "ISA_MAX - ISA_BASE < f_pos" "f_pos < 2 ^ 62" "0 \<le> count" "count < 2 ^ 62"
  shows "silly_read mode True 0 count f_pos io = Some (f_pos, [], Fail ENOMEM)"
proof -
  have u: "u64 (ISA_BASE + f_pos) = ISA_BASE + f_pos" using assms by (simp add: code_consts)
  have "ISA_MAX < u64 (ISA_BASE + f_pos + count)" using assms by (simp add: code_consts)
  moreover have "u64 (ISA_MAX - (ISA_BASE + f_pos)) = ISA_MAX - (ISA_BASE + f_pos) + 2 ^ 64"
  proof -
    have "u64 (ISA_MAX - (ISA_BASE + f_pos)) = (ISA_MAX - (ISA_BASE + f_pos) + 2 ^ 64) mod 2 ^ 64"
      by (simp add: u64_def)
    also have "\<dots> = ISA_MAX - (ISA_BASE + f_pos) + 2 ^ 64"
      using assms by (intro mod_pos_pos_trivial) (simp_all add: code_consts)
    finally show ?thesis .
  qed
  ultimately have "2 ^ 63 \<le> silly_count (ISA_BASE + f_pos) count"
    using assms by (simp add: silly_count_def code_consts)
  then show ?thesis unfolding silly_read_def Let_def u by simp
qed

text \<open>The wide writing modes lose bytes: of four aligned bytes only the first is stored.\<close>

lemma silly_write_loses_bytes:
  "\<exists>io. silly_write 2 True True 0 [1, 2, 3, 4] 0 (replicate 16 0) = Some (io, 4, Ret 4) \<and> io = [1] @ replicate 15 0"
proof -
  have "silly_write_loop 4 4 0 [1, 2, 3, 4] (replicate 16 0) = Some ((replicate 16 0)[0 := 1])"
    by (simp add: silly_write_loop.simps)
  then show ?thesis
    by (simp add: silly_write_def silly_count_def silly_mode_def code_consts Let_def numeral_eq_Suc)
qed

end
