(* ===== verification/Misc_Modules.thy ===== *)
theory Misc_Modules
  imports Parport_Format Device_Interfaces
begin

section \<open>The small modules\<close>

text \<open>
  The modules of \<open>misc-modules\<close> other than \<open>silly\<close>: two ways to wait for an event (\<open>sleepy.c\<close>, \<open>complete.c\<close>), a sequence
  file (\<open>seq.c\<close>), deliberate faults (\<open>faulty.c\<close>), delays and timers (\<open>jit.c\<close>), deferred work (\<open>jiq.c\<close>) and the messages of \<open>hello.c\<close> and \<open>hellop.c\<close>.
  Readings of the clock and the order of events are parameters.
\<close>

subsection \<open>sleepy\<close>

text \<open>
  A reader waits until the flag is set, then clears it; the test and the clearing are separate steps, so
  that other readers may come in between. A signal also ends the wait, and its error is ignored.
\<close>

datatype reader = Outside | Waiting | Passed

record sleepy_sys =
  flag :: bool
  readers :: "nat \<Rightarrow> reader"
  returned :: "nat list"

datatype sleepy_event = Read_starts nat | Read_tests nat | Read_signal nat | Read_returns nat | Writes

fun sleepy_step :: "sleepy_event \<Rightarrow> sleepy_sys \<Rightarrow> sleepy_sys option" where
  "sleepy_step (Read_starts i) s =
     (if readers s i = Outside then Some (s\<lparr>readers := (readers s)(i := Waiting)\<rparr>) else None)"
| "sleepy_step (Read_tests i) s =
     (if readers s i = Waiting \<and> flag s then Some (s\<lparr>readers := (readers s)(i := Passed)\<rparr>) else None)"
| "sleepy_step (Read_signal i) s =
     (if readers s i = Waiting then Some (s\<lparr>readers := (readers s)(i := Passed)\<rparr>) else None)"
| "sleepy_step (Read_returns i) s =
     (if readers s i = Passed
      then Some (s\<lparr>flag := False, readers := (readers s)(i := Outside), returned := returned s @ [i]\<rparr>) else None)"
| "sleepy_step Writes s = Some (s\<lparr>flag := True\<rparr>)"

definition sleepy_write :: "nat \<Rightarrow> sleepy_sys \<Rightarrow> sleepy_sys \<times> int outcome" where
  "sleepy_write count s = (s\<lparr>flag := True\<rparr>, Ret (int count))"

lemma exec_all_run:
  "exec_all f (\<lambda>_ _. True) es s = Some t \<Longrightarrow> run (\<lambda>s e t. f e s = Some t) s es t"
  by (induction es arbitrary: s) (auto intro: run.intros split: option.splits)

text \<open>One write may wake two readers.\<close>

lemma sleepy_two_for_one:
  assumes "readers s i = Outside" "readers s j = Outside" "i \<noteq> j"
  shows "\<exists>t. run (\<lambda>s e t. sleepy_step e s = Some t) s
    [Read_starts i, Read_starts j, Writes, Read_tests i, Read_tests j, Read_returns i, Read_returns j] t \<and>
    returned t = returned s @ [i, j]"
proof -
  let ?es = "[Read_starts i, Read_starts j, Writes, Read_tests i, Read_tests j, Read_returns i, Read_returns j]"
  obtain t where "exec_all sleepy_step (\<lambda>_ _. True) ?es s = Some t \<and> returned t = returned s @ [i, j]"
    using assms by simp
  then show ?thesis using exec_all_run[of sleepy_step ?es s t] by blast
qed

text \<open>A reader returns only after a write or a signal.\<close>

lemma sleepy_waits:
  assumes "run (\<lambda>s e t. sleepy_step e s = Some t) s es t" "\<not> flag s" "\<forall>i. readers s i \<noteq> Passed"
    and "Writes \<notin> set es" "\<forall>i. Read_signal i \<notin> set es"
  shows "returned t = returned s"
  using assms
proof (induction rule: run.induct)
  case (run_Cons s l t ls u)
  have "\<not> flag t \<and> (\<forall>i. readers t i \<noteq> Passed) \<and> returned t = returned s"
    using run_Cons.hyps(1) run_Cons.prems by (cases l) (auto split: if_splits)
  then show ?case using run_Cons by auto
qed simp

subsection \<open>complete\<close>

text \<open>A completion counts the calls of \<open>complete\<close> that nobody has waited for yet.\<close>

record comp_sys =
  comp_done :: nat
  comp_returned :: nat
  comp_written :: nat

datatype comp_event = Comp_write | Comp_read

fun comp_step :: "comp_event \<Rightarrow> comp_sys \<Rightarrow> comp_sys option" where
  "comp_step Comp_write s = Some (s\<lparr>comp_done := comp_done s + 1, comp_written := comp_written s + 1\<rparr>)"
| "comp_step Comp_read s =
     (if comp_done s = 0 then None else Some (s\<lparr>comp_done := comp_done s - 1, comp_returned := comp_returned s + 1\<rparr>))"

interpretation comp: invariant_system "\<lambda>s e t. comp_step e s = Some t"
  "\<lambda>s. comp_returned s + comp_done s = comp_written s"
proof
  fix s l t assume "comp_returned s + comp_done s = comp_written s" "comp_step l s = Some t"
  then show "comp_returned t + comp_done t = comp_written t" by (cases l) (auto split: if_splits)
qed

text \<open>With a completion no more readers return than writers have written.\<close>

lemma complete_one_for_one:
  assumes "run (\<lambda>s e t. comp_step e s = Some t) \<lparr>comp_done = 0, comp_returned = 0, comp_written = 0\<rparr> es s"
  shows "comp_returned s \<le> comp_written s"
proof -
  have "comp_returned s + comp_done s = comp_written s" by (rule comp.inv_run[OF assms]) simp
  then show ?thesis by simp
qed

text \<open>Registration and its release, as in all modules of this kind: the major number kept.\<close>

definition chrdev_init :: "int \<Rightarrow> int outcome \<Rightarrow> int \<times> bool \<times> int outcome" where
  "chrdev_init major reg =
     (case reg of
        Ret result \<Rightarrow> (if major = 0 then result else major, True, Ret 0)
      | r \<Rightarrow> (major, False, r))"

definition chrdev_cleanup :: "bool \<Rightarrow> bool" where
  "chrdev_cleanup registered = False"

definition sleepy_init where "sleepy_init = chrdev_init"
definition sleepy_cleanup where "sleepy_cleanup = chrdev_cleanup"
definition faulty_init where "faulty_init = chrdev_init"
definition faulty_cleanup where "faulty_cleanup = chrdev_cleanup"

text \<open>A dynamic number is kept for the next time, so that the module is loaded with the same number again.\<close>

lemma chrdev_dynamic:
  assumes "chrdev_init major (Ret n) = (m, True, Ret 0)" "n \<noteq> 0"
  shows "m \<noteq> 0" "fst (chrdev_init m reg) = m"
  using assms by (auto simp: chrdev_init_def split: if_splits outcome.splits)

subsection \<open>hello\<close>

text \<open>What the two modules log when they are loaded and unloaded.\<close>

definition hello_init :: "string list \<times> int" where "hello_init = ([''Hello, jblob''], 0)"
definition hello_exit :: "string list" where "hello_exit = [''Goodbye, jblob'']"

function hellop_loop :: "int \<Rightarrow> string \<Rightarrow> int \<Rightarrow> (int \<times> string) list" where
  "hellop_loop howmany whom i = (if i < howmany then (i, whom) # hellop_loop howmany whom (i + 1) else [])"
  by pat_completeness auto
termination by (relation "measure (\<lambda>(howmany, whom, i). nat (howmany - i))") auto

declare hellop_loop.simps [simp del]

definition hellop_init :: "int \<Rightarrow> string \<Rightarrow> (int \<times> string) list \<times> int" where
  "hellop_init howmany whom = (hellop_loop howmany whom 0, 0)"

definition hellop_exit :: "string list" where "hellop_exit = [''Goodbye, cruel world'']"

lemma hellop_loop_counts: "hellop_loop howmany whom i = map (\<lambda>k. (k, whom)) [i..howmany - 1]"
proof (induction howmany whom i rule: hellop_loop.induct)
  case (1 howmany whom i)
  show ?case
  proof (cases "i < howmany")
    case True
    then have "[i..howmany - 1] = i # [i + 1..howmany - 1]" by (simp add: upto_rec1)
    then show ?thesis using 1 True by (subst hellop_loop.simps) simp
  qed (simp add: hellop_loop.simps)
qed

lemma hellop_greets: "fst (hellop_init howmany whom) = map (\<lambda>k. (k, whom)) [0..howmany - 1]"
  by (simp add: hellop_init_def hellop_loop_counts)

subsection \<open>seq\<close>

text \<open>The iterator is a block that holds the position; the second component of the step is the position of the file.\<close>

definition ct_seq_start :: "bool \<Rightarrow> int \<Rightarrow> int option" where
  "ct_seq_start ok pos = (if ok then Some pos else None)"

definition ct_seq_next :: "int \<Rightarrow> int \<times> int" where
  "ct_seq_next spos = (s64 (spos + 1), s64 (spos + 1))"

definition ct_seq_stop :: "int option \<Rightarrow> int option" where
  "ct_seq_stop v = None"

definition ct_seq_show :: "int \<Rightarrow> byte list" where
  "ct_seq_show spos = (if spos < 0 then 45 # dec (nat (- spos)) else dec (nat spos)) @ [10]"

text \<open>What the sequence file prints in one go: \<open>n\<close> lines.\<close>

fun ct_lines :: "nat \<Rightarrow> int \<Rightarrow> byte list" where
  "ct_lines 0 spos = []"
| "ct_lines (Suc n) spos = ct_seq_show spos @ ct_lines n (fst (ct_seq_next spos))"

lemma ct_lines_counts:
  "0 \<le> p \<Longrightarrow> p + int n < 2 ^ 63 \<Longrightarrow> ct_lines n p = concat (map (\<lambda>k. dec (nat p + k) @ [10]) [0..<n])"
proof (induction n arbitrary: p)
  case (Suc n)
  have s: "s64 (p + 1) = p + 1" "nat (p + 1) = nat p + 1" using Suc.prems by simp_all
  have "[0..<Suc n] = 0 # map Suc [0..<n]" by (simp add: upt_conv_Cons map_Suc_upt del: upt_Suc)
  then show ?case using Suc.IH[of "p + 1"] Suc.prems s
    by (simp add: ct_seq_show_def ct_seq_next_def comp_def del: upt_Suc)
qed simp

subsection \<open>faulty\<close>

text \<open>Both operations are meant to crash: one writes behind an array of four bytes, the other to address 0.\<close>

definition faulty_read :: "nat \<Rightarrow> nat \<Rightarrow> int outcome option" where
  "faulty_read left count =
     (if length (replicate 4 (0 :: byte)) < 20 then None
      else Some (Ret (if left = 0 then int (min count 4) else int left)))"

definition faulty_write :: "nat \<Rightarrow> int outcome option" where
  "faulty_write count = None"

subsection \<open>jit\<close>

text \<open>\<open>js\<close> are the values that the clock shows at the successive readings.\<close>

definition time_before :: "int \<Rightarrow> int \<Rightarrow> bool" where
  "time_before a b \<longleftrightarrow> s64 (a - b) < 0"

fun jit_wait :: "int \<Rightarrow> int list \<Rightarrow> int list option" where
  "jit_wait j1 [] = None"
| "jit_wait j1 (j # js) = (if time_before j j1 then jit_wait j1 js else Some js)"

definition JIT_BUSY :: int where "JIT_BUSY = 0"
definition JIT_SCHED :: int where "JIT_SCHED = 1"

text \<open>The two other files sleep in the kernel. The line printed: start and end.\<close>

definition jit_fn_show :: "int \<Rightarrow> int \<Rightarrow> int \<Rightarrow> int list \<Rightarrow> (int \<times> int) option" where
  "jit_fn_show kind delay j0 js = do {
     js' \<leftarrow> (if kind = JIT_BUSY \<or> kind = JIT_SCHED then jit_wait (u64 (j0 + delay)) js else Some js);
     (case js' of [] \<Rightarrow> None | j1 # _ \<Rightarrow> Some (s64 j0, s64 j1)) }"

text \<open>A clock that goes forward: the delay is at least the one asked for.\<close>

lemma jit_wait_sorted:
  assumes "jit_wait j1 js = Some (j # js')" "sorted js" "\<forall>x \<in> set js. 0 \<le> x \<and> x < 2 ^ 62" "0 \<le> j1" "j1 < 2 ^ 62"
  shows "j1 \<le> j"
  using assms
proof (induction js)
  case (Cons x xs)
  have s: "s64 (x - j1) = x - j1" using Cons.prems by simp
  show ?case
  proof (cases "time_before x j1")
    case True
    then show ?thesis using Cons by simp
  next
    case False
    then have "xs = j # js'" "j1 \<le> x" using Cons.prems(1) s by (simp_all add: time_before_def)
    then show ?thesis using Cons.prems(2) by auto
  qed
qed simp

text \<open>The timer and the tasklet files print a line at each run. What is kept in the allocated block:\<close>

record jit_data =
  prevjiffies :: int
  jit_loops :: int
  jit_expires :: int
  jit_pending :: bool
  jit_out :: "(int \<times> int) list"

definition JIT_ASYNC_LOOPS :: int where "JIT_ASYNC_LOOPS = 5"

definition jit_timer_fn :: "int \<Rightarrow> int \<Rightarrow> jit_data \<Rightarrow> jit_data" where
  "jit_timer_fn tdelay j d =
     (let d1 = d\<lparr>jit_out := jit_out d @ [(j, u64 (j - prevjiffies d))], jit_loops := s32 (jit_loops d - 1)\<rparr>
      in if jit_loops d1 \<noteq> 0 then d1\<lparr>jit_expires := u64 (jit_expires d1 + tdelay), prevjiffies := j, jit_pending := True\<rparr>
         else d1\<lparr>jit_pending := False\<rparr>)"

definition jit_tasklet_fn :: "int \<Rightarrow> jit_data \<Rightarrow> jit_data" where
  "jit_tasklet_fn j d =
     (let d1 = d\<lparr>jit_out := jit_out d @ [(j, u64 (j - prevjiffies d))], jit_loops := s32 (jit_loops d - 1)\<rparr>
      in if jit_loops d1 \<noteq> 0 then d1\<lparr>prevjiffies := j, jit_pending := True\<rparr> else d1\<lparr>jit_pending := False\<rparr>)"

text \<open>The handler runs at the times \<open>js\<close> while it is pending.\<close>

fun jit_fire :: "(int \<Rightarrow> jit_data \<Rightarrow> jit_data) \<Rightarrow> int list \<Rightarrow> jit_data \<Rightarrow> jit_data" where
  "jit_fire handler [] d = d"
| "jit_fire handler (j # js) d = (if jit_pending d then jit_fire handler js (handler j d) else d)"

text \<open>
  The result and the block, if it is not freed: after a signal it stays, with the handler still pending or not.
  \<open>Blocked\<close>: the runs \<open>js\<close> are too few and no signal comes.
\<close>

definition jit_show :: "(int \<Rightarrow> jit_data \<Rightarrow> jit_data) \<Rightarrow> bool \<Rightarrow> bool \<Rightarrow> int \<Rightarrow> int \<Rightarrow> int list \<Rightarrow>
    (int \<times> int) list \<times> int outcome \<times> jit_data option" where
  "jit_show handler ok interrupted tdelay j js =
     (if \<not> ok then ([], Fail ENOMEM, None)
      else
        (let d0 = \<lparr>prevjiffies = j, jit_loops = JIT_ASYNC_LOOPS, jit_expires = u64 (j + tdelay), jit_pending = True,
               jit_out = [(j, 0)]\<rparr>;
             d = jit_fire handler js d0
         in if interrupted then (jit_out d, Fail ERESTARTSYS, Some d)
            else if jit_loops d \<noteq> 0 then (jit_out d, Blocked, Some d)
            else (jit_out d, Ret 0, None)))"

definition jit_timer_show where "jit_timer_show ok interrupted tdelay j js = jit_show (jit_timer_fn tdelay) ok interrupted tdelay j js"
definition jit_tasklet_show where "jit_tasklet_show ok interrupted j js = jit_show jit_tasklet_fn ok interrupted 0 j js"

lemma jit_fire_times:
  assumes "\<And>j d. jit_out (h j d) = jit_out d @ [(j, u64 (j - prevjiffies d))]"
    and "\<And>j d. jit_loops (h j d) = s32 (jit_loops d - 1)"
    and "\<And>j d. jit_pending (h j d) \<longleftrightarrow> s32 (jit_loops d - 1) \<noteq> 0"
  shows "jit_loops d = int n \<Longrightarrow> n < 2 ^ 31 \<Longrightarrow> jit_pending d \<longleftrightarrow> 0 < n \<Longrightarrow>
    map fst (jit_out (jit_fire h js d)) = map fst (jit_out d) @ take n js \<and>
    jit_loops (jit_fire h js d) = int (n - length js)"
proof (induction js arbitrary: d n)
  case (Cons j js)
  show ?case
  proof (cases n)
    case 0
    then show ?thesis using Cons.prems by simp
  next
    case (Suc m)
    then have l: "s32 (jit_loops d - 1) = int m" using Cons.prems by simp
    show ?thesis
      using Cons.IH[of "h j d" m] Cons.prems Suc assms l by simp
  qed
qed simp

text \<open>With enough runs the file gets its first line and five more, and the block is freed.\<close>

lemma jit_timer_show_lines:
  assumes "5 \<le> length js"
  shows "\<exists>out. jit_timer_show True False tdelay j js = (out, Ret 0, None) \<and> map fst out = j # take 5 js"
    and "\<exists>out. jit_tasklet_show True False j js = (out, Ret 0, None) \<and> map fst out = j # take 5 js"
proof -
  let ?d = "\<lambda>e. \<lparr>prevjiffies = j, jit_loops = JIT_ASYNC_LOOPS, jit_expires = e, jit_pending = True, jit_out = [(j, 0)]\<rparr>"
  have t: "map fst (jit_out (jit_fire (jit_timer_fn tdelay) js (?d e))) = j # take 5 js \<and>
      jit_loops (jit_fire (jit_timer_fn tdelay) js (?d e)) = 0" for e
    using jit_fire_times[of "jit_timer_fn tdelay" "?d e" 5 js] assms
    by (simp add: jit_timer_fn_def JIT_ASYNC_LOOPS_def Let_def)
  have u: "map fst (jit_out (jit_fire jit_tasklet_fn js (?d e))) = j # take 5 js \<and>
      jit_loops (jit_fire jit_tasklet_fn js (?d e)) = 0" for e
    using jit_fire_times[of jit_tasklet_fn "?d e" 5 js] assms
    by (simp add: jit_tasklet_fn_def JIT_ASYNC_LOOPS_def Let_def)
  show "\<exists>out. jit_timer_show True False tdelay j js = (out, Ret 0, None) \<and> map fst out = j # take 5 js"
    using t by (simp add: jit_timer_show_def jit_show_def Let_def)
  show "\<exists>out. jit_tasklet_show True False j js = (out, Ret 0, None) \<and> map fst out = j # take 5 js"
    using u by (simp add: jit_tasklet_show_def jit_show_def Let_def)
qed

text \<open>A signal during the first run leaves the block and its pending handler behind.\<close>

lemma jit_timer_show_leaks:
  "\<exists>out d. jit_timer_show True True tdelay j [] = (out, Fail ERESTARTSYS, Some d) \<and> jit_pending d"
  by (simp add: jit_timer_show_def jit_show_def)

subsection \<open>jiq\<close>

definition JIQ_LIMIT :: int where "JIQ_LIMIT = int PAGE_SIZE - 128"

record clientdata =
  cd_len :: int
  cd_jiffies :: int
  cd_delay :: int
  m_count :: int
  cd_out :: "(int \<times> int) list"
  cd_scheduled :: bool
  cd_woken :: bool

text \<open>\<open>w\<close> is the length of the line printed; the header has 42 characters.\<close>

definition jiq_print :: "int \<Rightarrow> int \<Rightarrow> clientdata \<Rightarrow> clientdata \<times> bool" where
  "jiq_print j w d =
     (if JIQ_LIMIT < cd_len d then (d\<lparr>cd_woken := True\<rparr>, False)
      else
        (let (d1, len) = (if cd_len d = 0 then (d\<lparr>m_count := m_count d + 42\<rparr>, m_count d + 42) else (d, 0));
             d2 = d1\<lparr>cd_out := cd_out d1 @ [(j, u64 (j - cd_jiffies d1))], m_count := m_count d1 + w\<rparr>
         in (d2\<lparr>cd_len := cd_len d2 + (len + m_count d2), cd_jiffies := j\<rparr>, True)))"

definition jiq_print_wq :: "int \<Rightarrow> int \<Rightarrow> clientdata \<Rightarrow> clientdata" where
  "jiq_print_wq j w d =
     (case jiq_print j w (d\<lparr>cd_scheduled := False\<rparr>) of
        (d', False) \<Rightarrow> d' | (d', True) \<Rightarrow> d'\<lparr>cd_scheduled := True\<rparr>)"

definition jiq_print_wq_delayed where "jiq_print_wq_delayed = jiq_print_wq"
definition jiq_print_tasklet where "jiq_print_tasklet = jiq_print_wq"

definition jiq_timedout :: "int \<Rightarrow> int \<Rightarrow> clientdata \<Rightarrow> clientdata" where
  "jiq_timedout j w d = (fst (jiq_print j w d))\<lparr>cd_woken := True\<rparr>"

text \<open>The runs of the deferred function, each with its time and line length.\<close>

fun jiq_runs :: "(int \<times> int) list \<Rightarrow> clientdata \<Rightarrow> clientdata" where
  "jiq_runs [] d = d"
| "jiq_runs ((j, w) # es) d = (if cd_scheduled d then jiq_runs es (jiq_print_wq j w d) else d)"

definition jiq_start :: "int \<Rightarrow> int \<Rightarrow> clientdata" where
  "jiq_start j delay =
     \<lparr>cd_len = 0, cd_jiffies = j, cd_delay = delay, m_count = 0, cd_out = [], cd_scheduled = True, cd_woken = False\<rparr>"

text \<open>A sleep without a condition ends when the process is woken, or by a signal.\<close>

definition jiq_read_wq_show :: "bool \<Rightarrow> int \<Rightarrow> (int \<times> int) list \<Rightarrow> clientdata \<times> int outcome" where
  "jiq_read_wq_show interrupted j es =
     (let d = jiq_runs es (jiq_start j 0) in (d, if cd_woken d \<or> interrupted then Ret 0 else Blocked))"

definition jiq_read_wq_delayed_show :: "int \<Rightarrow> bool \<Rightarrow> int \<Rightarrow> (int \<times> int) list \<Rightarrow> clientdata \<times> int outcome" where
  "jiq_read_wq_delayed_show delay interrupted j es =
     (let d = jiq_runs es (jiq_start j delay) in (d, if cd_woken d \<or> interrupted then Ret 0 else Blocked))"

text \<open>A wait for a condition that is constantly false ends only by a signal.\<close>

definition jiq_read_tasklet_show :: "bool \<Rightarrow> int \<Rightarrow> (int \<times> int) list \<Rightarrow> clientdata \<times> int outcome" where
  "jiq_read_tasklet_show interrupted j es =
     (let d = jiq_runs es (jiq_start j 0) in (d, if interrupted then Ret 0 else Blocked))"

definition jiq_read_run_timer_show ::
  "bool \<Rightarrow> int \<Rightarrow> int \<Rightarrow> (int \<times> int) option \<Rightarrow> clientdata \<times> int outcome" where
  "jiq_read_run_timer_show interrupted j w expiry =
     (let d0 = fst (jiq_print j w ((jiq_start j 0)\<lparr>cd_scheduled := False\<rparr>));
          d = (case expiry of None \<Rightarrow> d0 | Some (j', w') \<Rightarrow> jiq_timedout j' w' d0)
      in (d, if interrupted then Ret 0 else Blocked))"

text \<open>The work queue files end: each run adds at least one to the length.\<close>

lemma jiq_print_grows:
  assumes "0 < w" "0 \<le> m_count d" "0 \<le> cd_len d"
  shows "0 \<le> m_count (jiq_print_wq j w d) \<and>
    (cd_scheduled (jiq_print_wq j w d) \<and> cd_len d < cd_len (jiq_print_wq j w d) \<and> cd_len d \<le> JIQ_LIMIT \<or>
     cd_woken (jiq_print_wq j w d) \<and> \<not> cd_scheduled (jiq_print_wq j w d) \<and> JIQ_LIMIT < cd_len d)"
  using assms by (auto simp: jiq_print_wq_def jiq_print_def Let_def)

lemma jiq_runs_end:
  "\<forall>(j, w) \<in> set es. 0 < w \<Longrightarrow> 0 \<le> m_count d \<Longrightarrow> 0 \<le> cd_len d \<Longrightarrow> cd_scheduled d \<Longrightarrow>
    nat (JIQ_LIMIT + 1 - cd_len d) < length es \<Longrightarrow> cd_woken (jiq_runs es d)"
proof (induction es arbitrary: d)
  case (Cons e es)
  obtain j w where e: "e = (j, w)" by (cases e)
  let ?d = "jiq_print_wq j w d"
  have w: "0 < w" using Cons.prems(1) e by auto
  note g = jiq_print_grows[OF w Cons.prems(2,3), of j]
  show ?case
  proof (cases "cd_scheduled ?d")
    case True
    then have lt: "cd_len d < cd_len ?d" "cd_len d \<le> JIQ_LIMIT" "0 \<le> m_count ?d" using g by auto
    then have "nat (JIQ_LIMIT + 1 - cd_len ?d) < length es" using Cons.prems(5) by simp
    then have "cd_woken (jiq_runs es ?d)"
      using Cons.IH[of ?d] Cons.prems(1,3) lt True by auto
    then show ?thesis using e Cons.prems(4) by simp
  next
    case False
    then have "cd_woken ?d" using g by auto
    moreover have "jiq_runs es ?d = ?d" using False by (cases es) auto
    ultimately show ?thesis using e Cons.prems(4) by simp
  qed
qed simp

lemma jiq_wq_ends:
  assumes "\<forall>(j, w) \<in> set es. 0 < w" "3970 \<le> length es"
  shows "snd (jiq_read_wq_show False j es) = Ret 0"
  using jiq_runs_end[of es "jiq_start j 0"] assms
  by (simp add: jiq_read_wq_show_def jiq_start_def JIQ_LIMIT_def PAGE_SIZE_def Let_def)

text \<open>The tasklet and timer files never end by themselves, whatever runs.\<close>

lemma jiq_tasklet_hangs: "snd (jiq_read_tasklet_show False j es) = Blocked"
  by (simp add: jiq_read_tasklet_show_def Let_def)

lemma jiq_timer_hangs: "snd (jiq_read_run_timer_show False j w expiry) = Blocked"
  by (simp add: jiq_read_run_timer_show_def Let_def)

end
