(* ===== verification/Proc_Files.thy ===== *)
theory Proc_Files
  imports Misc_Modules
begin

section \<open>Files under /proc\<close>

text \<open>
  The files that the modules make in the root of /proc: the tables of their operations, the
  wrapper of \<open>include/proc_ops_version.h\<close>, and loading and unloading of \<open>jit.c\<close>, \<open>jiq.c\<close>, \<open>seq.c\<close> and of the
  listings of the scull drivers. The names of a directory are unique: the kernel refuses a second
  entry of the same name.
\<close>

subsection \<open>Tables of operations\<close>

text \<open>Which function prints a file that is opened, with its private data where it has some.\<close>

datatype proc_show =
  Jit_fn_show int
| Jit_currentime_show
| Jit_timer_show
| Jit_tasklet_show int
| Jiq_read_wq_show
| Jiq_read_wq_delayed_show
| Jiq_read_tasklet_show
| Jiq_read_run_timer_show
| Ct_seq_ops
| Scull_read_procmem
| Scull_seq_ops
| Scull_read_p_mem
| Scullc_read_procmem
| Scullp_read_procmem
| Scullv_read_procmem

text \<open>A function of a table: an open function, given the data of the entry, or one of the kernel.\<close>

datatype proc_handler = Opens "int \<Rightarrow> proc_show" | Seq_read | Seq_lseek | Single_release | Seq_release

record 'h fops =
  f_open :: "'h option"
  f_read :: "'h option"
  f_write :: "'h option"
  f_release :: "'h option"
  f_poll :: "'h option"
  f_unlocked_ioctl :: "'h option"
  f_mmap :: "'h option"
  f_get_unmapped_area :: "'h option"
  f_llseek :: "'h option"
  f_compat_ioctl :: "'h option"

record 'h pops =
  proc_open :: "'h option"
  proc_read :: "'h option"
  proc_write :: "'h option"
  proc_release :: "'h option"
  proc_poll :: "'h option"
  proc_ioctl :: "'h option"
  proc_mmap :: "'h option"
  proc_get_unmapped_area :: "'h option"
  proc_lseek :: "'h option"
  proc_compat_ioctl :: "'h option"

definition proc_ops_wrapper :: "'h fops \<Rightarrow> 'h pops" where
  "proc_ops_wrapper fo = \<lparr>proc_open = f_open fo, proc_read = f_read fo, proc_write = f_write fo,
     proc_release = f_release fo, proc_poll = f_poll fo, proc_ioctl = f_unlocked_ioctl fo, proc_mmap = f_mmap fo,
     proc_get_unmapped_area = f_get_unmapped_area fo, proc_lseek = f_llseek fo, proc_compat_ioctl = f_compat_ioctl fo\<rparr>"

text \<open>The members that an initialiser does not name are null.\<close>

definition no_fops :: "'h fops" where
  "no_fops = \<lparr>f_open = None, f_read = None, f_write = None, f_release = None, f_poll = None, f_unlocked_ioctl = None,
     f_mmap = None, f_get_unmapped_area = None, f_llseek = None, f_compat_ioctl = None\<rparr>"

definition single_fops :: "(int \<Rightarrow> proc_show) \<Rightarrow> proc_handler fops" where
  "single_fops f = no_fops\<lparr>f_open := Some (Opens f), f_read := Some Seq_read, f_llseek := Some Seq_lseek,
     f_release := Some Single_release\<rparr>"

definition seq_fops :: "(int \<Rightarrow> proc_show) \<Rightarrow> proc_handler fops" where
  "seq_fops f = no_fops\<lparr>f_open := Some (Opens f), f_read := Some Seq_read, f_llseek := Some Seq_lseek,
     f_release := Some Seq_release\<rparr>"

definition jit_fn_open :: "int \<Rightarrow> proc_show" where "jit_fn_open pde_data = Jit_fn_show pde_data"
definition jit_currentime_open :: "int \<Rightarrow> proc_show" where "jit_currentime_open pde_data = Jit_currentime_show"
definition jit_timer_open :: "int \<Rightarrow> proc_show" where "jit_timer_open pde_data = Jit_timer_show"
definition jit_tasklet_open :: "int \<Rightarrow> proc_show" where "jit_tasklet_open pde_data = Jit_tasklet_show pde_data"
definition jiq_read_wq_open :: "int \<Rightarrow> proc_show" where "jiq_read_wq_open pde_data = Jiq_read_wq_show"
definition jiq_read_wq_delayed_open :: "int \<Rightarrow> proc_show" where "jiq_read_wq_delayed_open pde_data = Jiq_read_wq_delayed_show"
definition jiq_read_tasklet_open :: "int \<Rightarrow> proc_show" where "jiq_read_tasklet_open pde_data = Jiq_read_tasklet_show"
definition jiq_read_run_timer_open :: "int \<Rightarrow> proc_show" where "jiq_read_run_timer_open pde_data = Jiq_read_run_timer_show"
definition ct_open :: "int \<Rightarrow> proc_show" where "ct_open pde_data = Ct_seq_ops"
definition scullmem_proc_open :: "int \<Rightarrow> proc_show" where "scullmem_proc_open pde_data = Scull_read_procmem"
definition scullseq_proc_open :: "int \<Rightarrow> proc_show" where "scullseq_proc_open pde_data = Scull_seq_ops"
definition scullpipe_proc_open :: "int \<Rightarrow> proc_show" where "scullpipe_proc_open pde_data = Scull_read_p_mem"
definition scullc_proc_open :: "int \<Rightarrow> proc_show" where "scullc_proc_open pde_data = Scullc_read_procmem"
definition scullp_proc_open :: "int \<Rightarrow> proc_show" where "scullp_proc_open pde_data = Scullp_read_procmem"
definition scullv_proc_open :: "int \<Rightarrow> proc_show" where "scullv_proc_open pde_data = Scullv_read_procmem"

definition jit_fn_fops where "jit_fn_fops = single_fops jit_fn_open"
definition jit_currentime_fops where "jit_currentime_fops = single_fops jit_currentime_open"
definition jit_timer_fops where "jit_timer_fops = single_fops jit_timer_open"
definition jit_tasklet_fops where "jit_tasklet_fops = single_fops jit_tasklet_open"
definition jiq_read_wq_fops where "jiq_read_wq_fops = single_fops jiq_read_wq_open"
definition jiq_read_wq_delayed_fops where "jiq_read_wq_delayed_fops = single_fops jiq_read_wq_delayed_open"
definition jiq_read_tasklet_fops where "jiq_read_tasklet_fops = single_fops jiq_read_tasklet_open"
definition jiq_read_run_timer_fops where "jiq_read_run_timer_fops = single_fops jiq_read_run_timer_open"
definition ct_file_ops where "ct_file_ops = seq_fops ct_open"
definition scullmem_proc_ops where "scullmem_proc_ops = single_fops scullmem_proc_open"
definition scullseq_proc_ops where "scullseq_proc_ops = seq_fops scullseq_proc_open"
definition scullpipe_proc_ops where "scullpipe_proc_ops = single_fops scullpipe_proc_open"
definition scullc_proc_ops where "scullc_proc_ops = single_fops scullc_proc_open"
definition scullp_proc_ops where "scullp_proc_ops = single_fops scullp_proc_open"
definition scullv_proc_ops where "scullv_proc_ops = single_fops scullv_proc_open"

lemmas proc_tables = jit_fn_fops_def jit_currentime_fops_def jit_timer_fops_def jit_tasklet_fops_def jiq_read_wq_fops_def
  jiq_read_wq_delayed_fops_def jiq_read_tasklet_fops_def jiq_read_run_timer_fops_def ct_file_ops_def
  single_fops_def seq_fops_def no_fops_def proc_ops_wrapper_def

lemmas proc_opens = jit_fn_open_def jit_currentime_open_def jit_timer_open_def jit_tasklet_open_def jiq_read_wq_open_def
  jiq_read_wq_delayed_open_def jiq_read_tasklet_open_def jiq_read_run_timer_open_def ct_open_def

subsection \<open>The directory\<close>

text \<open>\<open>ok\<close>: the kernel has the memory for the entry.\<close>

type_synonym proc_dir = "string \<Rightarrow> (proc_handler pops \<times> int) option"

definition proc_create_data :: "bool \<Rightarrow> string \<Rightarrow> proc_handler pops \<Rightarrow> int \<Rightarrow> proc_dir \<Rightarrow> proc_dir \<times> bool" where
  "proc_create_data ok name ops pde_data d =
     (if ok \<and> d name = None then (d(name \<mapsto> (ops, pde_data)), True) else (d, False))"

definition proc_create :: "bool \<Rightarrow> string \<Rightarrow> proc_handler pops \<Rightarrow> proc_dir \<Rightarrow> proc_dir \<times> bool" where
  "proc_create ok name ops d = proc_create_data ok name ops 0 d"

definition remove_proc_entry :: "string \<Rightarrow> proc_dir \<Rightarrow> proc_dir" where
  "remove_proc_entry name d = d(name := None)"

definition open_proc :: "string \<Rightarrow> proc_dir \<Rightarrow> proc_show option" where
  "open_proc name d =
     (case d name of
        None \<Rightarrow> None
      | Some (ops, pde_data) \<Rightarrow> (case proc_open ops of Some (Opens f) \<Rightarrow> Some (f pde_data) | _ \<Rightarrow> None))"

text \<open>A module that makes its entries one after the other, whether or not the earlier ones could be made.\<close>

fun create_entries :: "(string \<Rightarrow> bool) \<Rightarrow> (string \<times> proc_handler fops \<times> int) list \<Rightarrow> proc_dir \<Rightarrow> proc_dir" where
  "create_entries ok [] d = d"
| "create_entries ok ((name, fo, pde_data) # es) d =
     create_entries ok es (fst (proc_create_data (ok name) name (proc_ops_wrapper fo) pde_data d))"

definition remove_entries :: "string list \<Rightarrow> proc_dir \<Rightarrow> proc_dir" where
  "remove_entries names d = fold remove_proc_entry names d"

subsection \<open>Loading and unloading\<close>

definition JIT_QUEUE :: int where "JIT_QUEUE = 2"
definition JIT_SCHEDTO :: int where "JIT_SCHEDTO = 3"

definition jit_entries :: "(string \<times> proc_handler fops \<times> int) list" where
  "jit_entries = [(''currentime'', jit_currentime_fops, 0), (''jitbusy'', jit_fn_fops, JIT_BUSY),
     (''jitsched'', jit_fn_fops, JIT_SCHED), (''jitqueue'', jit_fn_fops, JIT_QUEUE),
     (''jitschedto'', jit_fn_fops, JIT_SCHEDTO), (''jitimer'', jit_timer_fops, 0),
     (''jitasklet'', jit_tasklet_fops, 0), (''jitasklethi'', jit_tasklet_fops, 1)]"

definition jit_init :: "(string \<Rightarrow> bool) \<Rightarrow> proc_dir \<Rightarrow> proc_dir \<times> int" where
  "jit_init ok d = (create_entries ok jit_entries d, 0)"

definition jit_cleanup :: "proc_dir \<Rightarrow> proc_dir" where
  "jit_cleanup d = remove_entries [''currentime'', ''jitbusy'', ''jitsched'', ''jitqueue'', ''jitschedto'', ''jitimer'',
     ''jitasklet'', ''jitasklethi''] d"

definition jiq_entries :: "(string \<times> proc_handler fops \<times> int) list" where
  "jiq_entries = [(''jiqwq'', jiq_read_wq_fops, 0), (''jiqwqdelay'', jiq_read_wq_delayed_fops, 0),
     (''jitimer'', jiq_read_run_timer_fops, 0), (''jiqtasklet'', jiq_read_tasklet_fops, 0)]"

definition jiq_init :: "(string \<Rightarrow> bool) \<Rightarrow> proc_dir \<Rightarrow> proc_dir \<times> int" where
  "jiq_init ok d = (create_entries ok jiq_entries d, 0)"

definition jiq_cleanup :: "proc_dir \<Rightarrow> proc_dir" where
  "jiq_cleanup d = remove_entries [''jiqwq'', ''jiqwqdelay'', ''jitimer'', ''jiqtasklet''] d"

definition ct_init :: "bool \<Rightarrow> proc_dir \<Rightarrow> proc_dir \<times> int outcome" where
  "ct_init ok d =
     (let (d', entry) = proc_create ok ''sequence'' (proc_ops_wrapper ct_file_ops) d
      in if \<not> entry then (d', Fail ENOMEM) else (d', Ret 0))"

definition ct_exit :: "proc_dir \<Rightarrow> proc_dir" where
  "ct_exit d = remove_proc_entry ''sequence'' d"

definition scull_create_proc :: "(string \<Rightarrow> bool) \<Rightarrow> proc_dir \<Rightarrow> proc_dir" where
  "scull_create_proc ok d =
     create_entries ok [(''scullmem'', scullmem_proc_ops, 0), (''scullseq'', scullseq_proc_ops, 0)] d"

definition scull_remove_proc :: "proc_dir \<Rightarrow> proc_dir" where
  "scull_remove_proc d = remove_entries [''scullmem'', ''scullseq''] d"

subsection \<open>What stays in the directory\<close>

lemma remove_entries_lookup: "remove_entries names d n = (if n \<in> set names then None else d n)"
  by (induction names arbitrary: d) (auto simp: remove_entries_def remove_proc_entry_def)

lemma create_entries_other: "n \<notin> fst ` set es \<Longrightarrow> create_entries ok es d n = d n"
  by (induction es arbitrary: d) (auto simp: proc_create_data_def)

lemma create_entries_taken: "d n = Some e \<Longrightarrow> create_entries ok es d n = Some e"
proof (induction es arbitrary: d)
  case (Cons x es)
  obtain m fo v where x: "x = (m, fo, v)" by (cases x)
  have "fst (proc_create_data (ok m) m (proc_ops_wrapper fo) v d) n = Some e"
    using Cons.prems by (auto simp: proc_create_data_def)
  then show ?case using Cons.IH by (simp add: x)
qed simp

lemma create_entries_new:
  "distinct (map fst es) \<Longrightarrow> (n, fo, pde_data) \<in> set es \<Longrightarrow> d n = None \<Longrightarrow>
    create_entries ok es d n = (if ok n then Some (proc_ops_wrapper fo, pde_data) else None)"
proof (induction es arbitrary: d)
  case (Cons e es)
  obtain n1 fo1 v1 where e: "e = (n1, fo1, v1)" by (cases e)
  show ?case
  proof (cases "n1 = n")
    case True
    then have "n \<notin> fst ` set es" using Cons.prems(1) e by simp
    moreover from this have "fo1 = fo" "v1 = pde_data" using Cons.prems(2) True e by (force, force)
    ultimately show ?thesis using Cons.prems(3) e True by (simp add: create_entries_other proc_create_data_def)
  next
    case False
    then have "create_entries ok es (fst (proc_create_data (ok n1) n1 (proc_ops_wrapper fo1) v1 d)) n =
        (if ok n then Some (proc_ops_wrapper fo, pde_data) else None)"
      using Cons.prems e by (intro Cons.IH) (auto simp: proc_create_data_def)
    then show ?thesis by (simp add: e)
  qed
qed simp

text \<open>Unloading removes exactly what loading made, whatever of it could be made.\<close>

lemma proc_unload_restores:
  assumes "fst ` set es = set names" "\<forall>n \<in> set names. d n = None"
  shows "remove_entries names (create_entries ok es d) = d"
  using assms by (auto simp: fun_eq_iff remove_entries_lookup create_entries_other)

lemma jit_unload: "\<forall>n \<in> fst ` set jit_entries. d n = None \<Longrightarrow> jit_cleanup (fst (jit_init ok d)) = d"
  unfolding jit_cleanup_def jit_init_def fst_conv by (rule proc_unload_restores) (auto simp: jit_entries_def)

lemma jiq_unload: "\<forall>n \<in> fst ` set jiq_entries. d n = None \<Longrightarrow> jiq_cleanup (fst (jiq_init ok d)) = d"
  unfolding jiq_cleanup_def jiq_init_def fst_conv by (rule proc_unload_restores) (auto simp: jiq_entries_def)

lemma ct_unload: "d ''sequence'' = None \<Longrightarrow> ct_exit (fst (ct_init ok d)) = d"
  by (auto simp: ct_exit_def ct_init_def proc_create_def proc_create_data_def remove_proc_entry_def fun_eq_iff)

text \<open>Each file prints with the function of its table and its data.\<close>

definition fops_show :: "proc_handler fops \<Rightarrow> int \<Rightarrow> proc_show option" where
  "fops_show fo pde_data = (case f_open fo of Some (Opens f) \<Rightarrow> Some (f pde_data) | _ \<Rightarrow> None)"

lemma created_opens:
  assumes "distinct (map fst es)" "\<forall>n \<in> fst ` set es. d n = None" "\<forall>n. ok n"
  shows "map (\<lambda>e. open_proc (fst e) (create_entries ok es d)) es = map (\<lambda>(n, fo, v). fops_show fo v) es"
proof (rule map_cong[OF refl])
  fix e assume e: "e \<in> set es"
  obtain n fo v where n: "e = (n, fo, v)" by (cases e)
  then have "d n = None" using assms(2) e by force
  then show "open_proc (fst e) (create_entries ok es d) = (case e of (n, fo, v) \<Rightarrow> fops_show fo v)"
    using create_entries_new[of es n fo v d ok] assms(1,3) e n by (simp add: open_proc_def fops_show_def proc_ops_wrapper_def)
qed

lemma jit_names: "distinct (map fst jit_entries)"
  unfolding jit_entries_def list.map fst_conv by code_simp

lemma jit_opens:
  assumes "\<forall>n \<in> fst ` set jit_entries. d n = None" "\<forall>n. ok n"
  shows "map (\<lambda>e. open_proc (fst e) (fst (jit_init ok d))) jit_entries =
    map Some [Jit_currentime_show, Jit_fn_show JIT_BUSY, Jit_fn_show JIT_SCHED, Jit_fn_show JIT_QUEUE,
      Jit_fn_show JIT_SCHEDTO, Jit_timer_show, Jit_tasklet_show 0, Jit_tasklet_show 1]"
proof -
  have "map (\<lambda>e. open_proc (fst e) (fst (jit_init ok d))) jit_entries = map (\<lambda>(n, fo, v). fops_show fo v) jit_entries"
    unfolding jit_init_def fst_conv by (rule created_opens[OF jit_names(1) assms])
  also have "\<dots> = map Some [Jit_currentime_show, Jit_fn_show JIT_BUSY, Jit_fn_show JIT_SCHED, Jit_fn_show JIT_QUEUE,
      Jit_fn_show JIT_SCHEDTO, Jit_timer_show, Jit_tasklet_show 0, Jit_tasklet_show 1]"
    by (simp add: jit_entries_def fops_show_def proc_tables proc_opens)
  finally show ?thesis .
qed

text \<open>
  jiq gives its timer file the name that jit uses: with both loaded, the file is that of jit, and
  unloading jiq removes it.
\<close>

lemma jit_jiq_clash:
  fixes ok ok' :: "string \<Rightarrow> bool" and d :: proc_dir
  defines "both \<equiv> fst (jiq_init ok' (fst (jit_init ok d)))"
  assumes "d ''jitimer'' = None" "ok ''jitimer''"
  shows "open_proc ''jitimer'' both = Some Jit_timer_show" "open_proc ''jitimer'' (jiq_cleanup both) = None"
proof -
  have "(''jitimer'', jit_timer_fops, 0) = jit_entries ! 5" "5 < length jit_entries" by (simp_all add: jit_entries_def)
  then have "(''jitimer'', jit_timer_fops, 0) \<in> set jit_entries" by simp
  then have "create_entries ok jit_entries d ''jitimer'' = Some (proc_ops_wrapper jit_timer_fops, 0)"
    using create_entries_new[OF jit_names, of "''jitimer''" jit_timer_fops 0 d ok] assms(2,3) by simp
  then have b: "both ''jitimer'' = Some (proc_ops_wrapper jit_timer_fops, 0)"
    unfolding both_def jiq_init_def jit_init_def fst_conv by (rule create_entries_taken)
  show "open_proc ''jitimer'' both = Some Jit_timer_show"
    unfolding open_proc_def b by (simp add: proc_tables proc_opens)
  show "open_proc ''jitimer'' (jiq_cleanup both) = None"
    by (simp add: open_proc_def jiq_cleanup_def remove_entries_lookup)
qed

subsection \<open>The current time\<close>

text \<open>The conversions of \<open>printk\<close> with a width: padded on the left, the sign before zeros.\<close>

definition pad :: "byte \<Rightarrow> nat \<Rightarrow> byte list \<Rightarrow> byte list" where
  "pad c n s = replicate (n - length s) c @ s"

fun hex :: "nat \<Rightarrow> byte list" where
  "hex n = (let digit = (\<lambda>d. if d < 10 then word_of_nat (48 + d) else word_of_nat (87 + d)) in
     if n < 16 then [digit n] else hex (n div 16) @ [digit (n mod 16)])"

definition signed_dec :: "int \<Rightarrow> byte list" where
  "signed_dec x = (if x < 0 then 45 # dec (nat (- x)) else dec (nat x))"

definition zero_dec :: "nat \<Rightarrow> int \<Rightarrow> byte list" where
  "zero_dec n x = (if x < 0 then 45 # pad 48 (n - 1) (dec (nat (- x))) else pad 48 n (dec (nat x)))"

text \<open>The seconds are converted to \<open>int\<close>. \<open>j1\<close>, \<open>j2\<close> are the clocks, then two times in seconds and nanoseconds.\<close>

definition jit_currentime_show :: "nat \<Rightarrow> nat \<Rightarrow> int \<times> int \<Rightarrow> int \<times> int \<Rightarrow> byte list \<times> int" where
  "jit_currentime_show j1 j2 tv1 tv2 =
     ([48, 120] @ pad 48 8 (hex j1) @ [32, 48, 120] @ pad 48 16 (hex j2) @ [32] @
      pad 32 10 (signed_dec (s32 (fst tv1))) @ [46] @ zero_dec 9 (s32 (snd tv1)) @ [10] @
      pad 32 40 (signed_dec (s32 (fst tv2))) @ [46] @ zero_dec 9 (s32 (snd tv2)) @ [10], 0)"

text \<open>From 2038 on the seconds that are printed are negative.\<close>

lemma currentime_2038:
  assumes "2 ^ 31 \<le> sec" "sec < 2 ^ 32"
  shows "hd (signed_dec (s32 sec)) = 45"
proof -
  have "(sec + 2 ^ 31) mod 2 ^ 32 = (sec + 2 ^ 31 - 2 ^ 32 + 2 ^ 32) mod 2 ^ 32" by (simp only: diff_add_cancel)
  also have "\<dots> = sec + 2 ^ 31 - 2 ^ 32" using assms by (simp only: mod_add_self2) simp
  finally have "s32 sec = sec - 2 ^ 32" unfolding s32_def by linarith
  then show ?thesis using assms by (simp add: signed_dec_def)
qed

lemma currentime_example:
  "fst (jit_currentime_show 10 17 (17, 5) (- 1, 7)) =
    [48, 120] @ replicate 7 48 @ [97, 32, 48, 120] @ replicate 14 48 @ [49, 49, 32] @
    replicate 8 32 @ [49, 55, 46] @ replicate 8 48 @ [53, 10] @
    replicate 38 32 @ [45, 49, 46] @ replicate 8 48 @ [55, 10]"
  by code_simp

end
