(* ===== verification/Skull.thy ===== *)
theory Skull
  imports Kernel_Prelude
begin

section \<open>The skull module\<close>

text \<open>
  \<open>skull/skull_init.c\<close>: at load time the module looks at every 2 KB of the ISA hole and says
  what is there, and then looks for its board at eight I/O ports. The memory is an argument:
  \<open>rd\<close> reads a byte of it and \<open>wr\<close> writes one (a ROM ignores it, a bus without a device may
  answer anything); \<open>busy\<close> is \<open>check_mem_region\<close>.
\<close>

definition ISA_REGION_BEGIN :: nat where [code_consts]: "ISA_REGION_BEGIN = 0xA0000"
definition ISA_REGION_END :: nat where [code_consts]: "ISA_REGION_END = 0x100000"
definition STEP :: nat where [code_consts]: "STEP = 2048"

datatype region =
  Allocated nat
| Ram nat
| Empty nat
| Expansion_rom nat int
| Rom nat

fun region_at :: "region \<Rightarrow> nat" where
  "region_at (Allocated a) = a"
| "region_at (Ram a) = a"
| "region_at (Empty a) = a"
| "region_at (Expansion_rom a sz) = a"
| "region_at (Rom a) = a"

text \<open>Five bytes of the block, of which one is neither 0 nor 255 nor the low byte of its address.\<close>

definition skull_is_rom :: "('m \<Rightarrow> nat \<Rightarrow> byte) \<Rightarrow> 'm \<Rightarrow> nat \<Rightarrow> bool" where
  "skull_is_rom rd m add \<longleftrightarrow>
     list_ex (\<lambda>i. let radd = add + 57 * (i + 1); val = rd m radd
       in val \<noteq> 0 \<and> val \<noteq> 0xFF \<and> val \<noteq> word_of_nat radd) [0..<5]"

text \<open>The step over an expansion ROM, the increment of the loop included.\<close>

definition skull_skip :: "nat \<Rightarrow> int \<Rightarrow> nat" where
  "skull_skip add sz = nat (u64 (u64 (int add + ((sz AND NOT 2048) - 2048)) + int STEP))"

text \<open>One iteration: the line it prints, the memory, and the next address.\<close>

definition skull_probe_at ::
  "(nat \<Rightarrow> bool) \<Rightarrow> ('m \<Rightarrow> nat \<Rightarrow> byte) \<Rightarrow> ('m \<Rightarrow> nat \<Rightarrow> byte \<Rightarrow> 'm) \<Rightarrow> nat \<Rightarrow> 'm
     \<Rightarrow> region \<times> 'm \<times> nat" where
  "skull_probe_at busy rd wr add m =
     (if busy add then (Allocated add, m, add + STEP)
      else
        (let oldval = rd m add;
             m1 = wr m add (oldval XOR 0xff);
             newval = rd m1 add;
             m2 = wr m1 add oldval
         in if oldval XOR newval = 0xff then (Ram add, m2, add + STEP)
            else if oldval XOR newval \<noteq> 0 then (Empty add, m2, add + STEP)
            else if oldval = 0x55 \<and> rd m2 (add + 1) = 0xaa then
              (let sz = 512 * uint (rd m2 (add + 2))
               in (Expansion_rom add sz, m2, skull_skip add sz))
            else (if skull_is_rom rd m2 add then Rom add else Empty add, m2, add + STEP)))"

text \<open>The loop need not end; then there is no value.\<close>

partial_function (option) skull_scan ::
  "(nat \<Rightarrow> bool) \<Rightarrow> ('m \<Rightarrow> nat \<Rightarrow> byte) \<Rightarrow> ('m \<Rightarrow> nat \<Rightarrow> byte \<Rightarrow> 'm) \<Rightarrow> nat \<Rightarrow> 'm \<Rightarrow> region list
     \<Rightarrow> (region list \<times> 'm) option" where
  "skull_scan busy rd wr add m acc =
     (if add < ISA_REGION_END then
        (let p = skull_probe_at busy rd wr add m
         in skull_scan busy rd wr (snd (snd p)) (fst (snd p)) (acc @ [fst p]))
      else Some (acc, m))"

subsection \<open>The board\<close>

definition SKULL_PORT_FLOOR :: int where [code_consts]: "SKULL_PORT_FLOOR = 0x280"
definition SKULL_PORT_CEIL :: int where [code_consts]: "SKULL_PORT_CEIL = 0x300"
definition SKULL_PORT_RANGE :: int where [code_consts]: "SKULL_PORT_RANGE = 0x10"

definition skull_probe_hw :: "int \<Rightarrow> int \<Rightarrow> int" where "skull_probe_hw port rng = - 1"
definition skull_init_board :: "int \<Rightarrow> int" where "skull_init_board port = 0"

text \<open>\<open>check\<close> is \<open>check_region\<close>; the list holds the ports that were requested.\<close>

definition skull_detect :: "(int \<Rightarrow> int) \<Rightarrow> int \<Rightarrow> int \<Rightarrow> int list \<Rightarrow> int list \<times> int" where
  "skull_detect check port rng ports =
     (if check port < 0 then (ports, check port)
      else if skull_probe_hw port rng \<noteq> 0 then (ports, - 19)
      else (port # ports, 0))"

function skull_find_loop :: "(int \<Rightarrow> int) \<Rightarrow> int \<Rightarrow> int \<Rightarrow> int \<Rightarrow> int list \<Rightarrow> int list \<times> int" where
  "skull_find_loop check port_base base result ports =
     (let (ports', r) = skull_detect check base SKULL_PORT_RANGE ports;
          result' = (if r = 0 then result + 1 else result);
          base' = base + SKULL_PORT_RANGE
      in if port_base = 0 \<and> base' < SKULL_PORT_CEIL
         then skull_find_loop check port_base base' result' ports'
         else (ports', result'))"
  by pat_completeness auto
termination by (relation "measure (\<lambda>(check, port_base, base, result, ports). nat (SKULL_PORT_CEIL - base))")
  (auto simp: code_consts)

definition skull_find_hw :: "(int \<Rightarrow> int) \<Rightarrow> int \<Rightarrow> int list \<times> int" where
  "skull_find_hw check port_base =
     skull_find_loop check port_base (if port_base \<noteq> 0 then port_base else SKULL_PORT_FLOOR) 0 []"

text \<open>
  Loading: what is printed, the memory, the ports that are held, and the result. A failed
  \<open>ioremap\<close> is not noticed: the accesses that follow have no meaning.
\<close>

definition skull_init ::
  "bool \<Rightarrow> (nat \<Rightarrow> bool) \<Rightarrow> ('m \<Rightarrow> nat \<Rightarrow> byte) \<Rightarrow> ('m \<Rightarrow> nat \<Rightarrow> byte \<Rightarrow> 'm) \<Rightarrow> (int \<Rightarrow> int) \<Rightarrow> int \<Rightarrow> 'm
     \<Rightarrow> (region list \<times> 'm \<times> int list \<times> int) option" where
  "skull_init ioremap_ok busy rd wr check port_base m =
     (if \<not> ioremap_ok then None
      else do {
        (ls, m') \<leftarrow> skull_scan busy rd wr ISA_REGION_BEGIN m [];
        Some (ls, m', fst (skull_find_hw check port_base), 0) })"

subsection \<open>Correctness\<close>

declare skull_find_loop.simps [simp del]

lemma skip_step: "list_all (\<lambda>b. b = 0 \<or> b = 4 \<or>
    512 \<le> (512 * b AND NOT 2048 :: int) \<and> (512 * b AND NOT 2048) \<le> 512 * 255) [0..255]"
  by code_simp

lemma skull_skip_eq: "skull_skip add sz = nat (u64 (int add + (sz AND NOT 2048)))"
  unfolding skull_skip_def STEP_def u64_def by (simp add: mod_add_left_eq)

lemma skull_skip_grows:
  assumes "add < ISA_REGION_END" "v \<noteq> 0" "v \<noteq> 4"
  shows "add + 512 \<le> skull_skip add (512 * uint (v :: byte))"
proof -
  have "uint v \<noteq> 0" "uint v \<noteq> 4"
    using assms(2,3) by (metis word_of_int_uint of_int_0 of_int_numeral)+
  moreover have "uint v \<in> set [0..255]" using uint_lt2p[of v] by simp
  ultimately have "512 \<le> (512 * uint v AND NOT 2048)" "(512 * uint v AND NOT 2048) \<le> 512 * 255"
    using skip_step unfolding list_all_iff by blast+
  then show ?thesis using assms(1)
    by (simp add: skull_skip_eq code_consts)
qed

text \<open>A memory in which the addresses of \<open>ram\<close> can be written and the others cannot.\<close>

definition store_ram :: "(nat \<Rightarrow> bool) \<Rightarrow> (nat \<Rightarrow> byte) \<Rightarrow> nat \<Rightarrow> byte \<Rightarrow> nat \<Rightarrow> byte" where
  "store_ram ram m a v = (if ram a then m(a := v) else m)"

text \<open>
  The header of an expansion ROM whose size, 0 or 2048 bytes, does not take the loop further.
\<close>

definition stuck_rom :: "(nat \<Rightarrow> byte) \<Rightarrow> nat \<Rightarrow> bool" where
  "stuck_rom m a \<longleftrightarrow> m a = 0x55 \<and> m (a + 1) = 0xaa \<and> (m (a + 2) = 0 \<or> m (a + 2) = 4)"

text \<open>What the lines should say.\<close>

definition region_ok :: "(nat \<Rightarrow> bool) \<Rightarrow> (nat \<Rightarrow> bool) \<Rightarrow> region \<Rightarrow> bool" where
  "region_ok busy ram l \<longleftrightarrow> ISA_REGION_BEGIN \<le> region_at l \<and> region_at l < ISA_REGION_END \<and>
     (busy (region_at l) \<longleftrightarrow> l = Allocated (region_at l)) \<and>
     (\<not> busy (region_at l) \<and> ram (region_at l) \<longleftrightarrow> l = Ram (region_at l))"

lemma probe_at_ok:
  assumes "ISA_REGION_BEGIN \<le> add" "add < ISA_REGION_END" "\<not> stuck_rom m add"
    and "skull_probe_at busy (\<lambda>m a. m a) (store_ram ram) add m = (l, m', add')"
  shows "m' = m \<and> add + 512 \<le> add' \<and> region_at l = add \<and> region_ok busy ram l"
proof (cases "busy add")
  case True
  then show ?thesis using assms by (auto simp: skull_probe_at_def region_ok_def STEP_def)
next
  case False
  have x: "m add XOR (m add XOR 0xff) = 0xff" by (simp flip: xor.assoc)
  have skip: "m add = 0x55 \<Longrightarrow> m (Suc add) = 0xaa \<Longrightarrow>
      add + 512 \<le> skull_skip add (512 * uint (m (Suc (Suc add))))"
    using skull_skip_grows[OF assms(2), of "m (add + 2)"] assms(3) by (auto simp: stuck_rom_def)
  show ?thesis
    using assms(1,2,4) False x skip
    by (cases "ram add") (auto simp: skull_probe_at_def store_ram_def region_ok_def STEP_def Let_def split: if_splits)
qed

lemma scan_ok:
  assumes "\<And>a. \<not> stuck_rom m a" "ISA_REGION_BEGIN \<le> add"
  shows "\<exists>ls. skull_scan busy (\<lambda>m a. m a) (store_ram ram) add m acc = Some (acc @ ls, m) \<and>
    512 * length ls \<le> ISA_REGION_END - add + 511 \<and> list_all (region_ok busy ram) ls"
  using assms(2)
proof (induction "ISA_REGION_END - add" arbitrary: add acc rule: less_induct)
  case less
  show ?case
  proof (cases "add < ISA_REGION_END")
    case True
    obtain l m' add' where p: "skull_probe_at busy (\<lambda>m a. m a) (store_ram ram) add m = (l, m', add')"
      by (metis prod_cases3)
    note ok = probe_at_ok[OF less.prems True assms(1) p]
    have "ISA_REGION_END - add' < ISA_REGION_END - add" "ISA_REGION_BEGIN \<le> add'"
      using ok True less.prems by auto
    from less.hyps[OF this, of "acc @ [l]"] obtain ls where
      ls: "skull_scan busy (\<lambda>m a. m a) (store_ram ram) add' m (acc @ [l]) = Some ((acc @ [l]) @ ls, m)"
      "512 * length ls \<le> ISA_REGION_END - add' + 511" "list_all (region_ok busy ram) ls" by blast
    have "skull_scan busy (\<lambda>m a. m a) (store_ram ram) add m acc = Some (acc @ (l # ls), m)"
      using ls(1) True ok by (subst skull_scan.simps) (simp add: p)
    moreover have "512 * length (l # ls) \<le> ISA_REGION_END - add + 511" 
      using ls(2) ok True by (cases ls; cases "ISA_REGION_END \<le> add'") auto
    ultimately show ?thesis using ls(3) ok by (intro exI[of _ "l # ls"]) simp
  qed (subst skull_scan.simps, auto)
qed

text \<open>Where no expansion ROM gives its size as 0 or 2048 bytes the probe of the ISA hole ends. It
  leaves the memory as it was, stays within the hole, prints at most a line per 512 bytes, and calls a
  place RAM just when its first byte can be written and nobody else holds it.\<close>

lemma skull_scan_correct:
  assumes "\<And>a. \<not> stuck_rom m a"
  shows "\<exists>ls. skull_scan busy (\<lambda>m a. m a) (store_ram ram) ISA_REGION_BEGIN m [] = Some (ls, m) \<and>
    length ls \<le> 768 \<and> list_all (region_ok busy ram) ls"
proof -
  obtain ls where ls: "skull_scan busy (\<lambda>m a. m a) (store_ram ram) ISA_REGION_BEGIN m [] = Some ([] @ ls, m)"
    "512 * length ls \<le> ISA_REGION_END - ISA_REGION_BEGIN + 511" "list_all (region_ok busy ram) ls"
    using scan_ok[OF assms order_refl] by blast
  have "length ls \<le> 768" using ls(2) by (simp add: code_consts)
  then show ?thesis using ls by (intro exI[of _ ls]) simp
qed

lemma skull_scan_correct_example:
  "\<exists>ls. skull_scan (\<lambda>_. False) (\<lambda>m a. m a) (store_ram (\<lambda>a. a < 0xC0000)) ISA_REGION_BEGIN (\<lambda>_. 7) [] = Some (ls, \<lambda>_. 7) \<and>
    length ls \<le> 768"
  using skull_scan_correct[of "\<lambda>_. 7" "\<lambda>_. False" "\<lambda>a. a < 0xC0000"] by (auto simp: stuck_rom_def)

text \<open>At an expansion ROM that gives its size as 0 or 2048 bytes the probe stays where it is: the
  step back of 2 KB undoes the step of the loop, and the module never finishes loading.\<close>

lemma skull_scan_hangs:
  assumes "stuck_rom m a" "\<not> ram a" "\<not> busy a" "a < ISA_REGION_END"
  shows "skull_scan busy (\<lambda>m a. m a) (store_ram ram) a m acc = None"
proof -
  have s0: "(0 :: int) AND NOT 2048 = 0" "(2048 :: int) AND NOT 2048 = 0" by code_simp+
  have "skull_skip a (512 * uint (m (a + 2))) = a"
    using assms(1,4) s0 by (auto simp: stuck_rom_def skull_skip_eq code_consts)
  then have p: "snd (skull_probe_at busy (\<lambda>m a. m a) (store_ram ram) a m) = (m, a)"
    using assms by (simp add: skull_probe_at_def store_ram_def stuck_rom_def Let_def)
  have "False" if "skull_scan busy (\<lambda>m a. m a) (store_ram ram) a m acc = Some r" for r
    using that p assms(4)
  proof (induction busy "\<lambda>m a :: nat. m a :: byte" "store_ram ram" a m acc r
      rule: skull_scan.raw_induct[rotated 1, consumes 1])
    case (1 scan busy a m acc r)
    then show ?case by (simp add: Let_def)
  qed
  then show ?thesis by (cases "skull_scan busy (\<lambda>m a. m a) (store_ram ram) a m acc") auto
qed

lemma skull_scan_hangs_example:
  "skull_scan (\<lambda>_. False) (\<lambda>m a. m a) (store_ram (\<lambda>_. False)) 0xC8000
     (\<lambda>a. if a = 0xC8000 then 0x55 else if a = 0xC8001 then 0xaa else if a = 0xC8002 then 4 else 0) [] = None"
  by (rule skull_scan_hangs) (simp_all add: stuck_rom_def code_consts)

text \<open>No port is ever requested, since the probe of the hardware finds nothing.\<close>

lemma skull_find_none: "skull_find_loop check port_base base result ports = (ports, result)"
proof (induction check port_base base result ports rule: skull_find_loop.induct)
  case (1 check port_base base result ports)
  have d: "fst (skull_detect check base SKULL_PORT_RANGE ports) = ports"
    "snd (skull_detect check base SKULL_PORT_RANGE ports) \<noteq> 0"
    by (auto simp: skull_detect_def skull_probe_hw_def)
  show ?case
    using 1[OF refl prod.collapse refl refl] d by (subst skull_find_loop.simps) (simp add: Let_def split_def)
qed

lemma skull_init_loads:
  assumes "skull_init ok busy rd wr check port_base m = Some (ls, m', ports, r)"
  shows "ports = [] \<and> r = 0"
  using assms by (auto simp: skull_init_def skull_find_hw_def skull_find_none Option.bind_eq_Some_conv split: if_splits)

end
