(* ===== verification/Misc_Progs.thy ===== *)
theory Misc_Progs
  imports Kernel_Prelude "HOL-Library.Char_ord"
begin

unbundle bit_operations_syntax

section \<open>Programs for the drivers\<close>

text \<open>
  User programs of \<open>misc-progs\<close>: \<open>inp.c\<close> and \<open>outp.c\<close> (ports by hand, in the build for machines
  other than i386), \<open>mapcmp.c\<close>, \<open>netifdebug.c\<close>, and the copy loops \<open>nbtest.c\<close> and \<open>polltest.c\<close>.
  What the kernel answers is an argument. \<open>argv\<close> is the list of arguments, the name
  of the program first.
\<close>

subsection \<open>Hexadecimal arguments\<close>

definition hex_digit :: "char \<Rightarrow> int option" where
  "hex_digit c =
     (let n = of_char c :: int in
      if 48 \<le> n \<and> n \<le> 57 then Some (n - 48)
      else if 97 \<le> n \<and> n \<le> 102 then Some (n - 87)
      else if 65 \<le> n \<and> n \<le> 70 then Some (n - 55) else None)"

fun hex_digits :: "int \<Rightarrow> string \<Rightarrow> int \<times> string" where
  "hex_digits n [] = (n, [])"
| "hex_digits n (c # cs) =
     (case hex_digit c of None \<Rightarrow> (n, c # cs) | Some d \<Rightarrow> hex_digits (16 * n + d) cs)"

definition c_space :: "char \<Rightarrow> bool" where
  "c_space c \<longleftrightarrow> (let n = of_char c :: int in n = 32 \<or> 9 \<le> n \<and> n \<le> 13)"

definition hex_sign :: "string \<Rightarrow> bool \<times> string" where
  "hex_sign s = (case s of [] \<Rightarrow> (False, [])
     | c # r \<Rightarrow> if c = CHR ''-'' then (True, r) else if c = CHR ''+'' then (False, r) else (False, s))"

definition hex_base :: "string \<Rightarrow> string" where
  "hex_base s = (case s of
       c # d # r \<Rightarrow> if c = CHR ''0'' \<and> (d = CHR ''x'' \<or> d = CHR ''X'') then r else s
     | _ \<Rightarrow> s)"

text \<open>
  \<open>sscanf\<close> with \<open>%x%n\<close>: the stored value and the number of characters read. A number that does
  not fit an \<open>unsigned long\<close> becomes the largest one; the low 32 bits are stored. As ISO C has it,
  \<open>0x\<close> without a digit is no number.
\<close>

definition scan_x :: "string \<Rightarrow> (int \<times> nat) option" where
  "scan_x s =
     (let (neg, s2) = hex_sign (dropWhile c_space s); s3 = hex_base s2 in
      if s3 = [] \<or> hex_digit (hd s3) = None then None
      else (let (n, r) = hex_digits 0 s3 in
        Some (u32 (if 2 ^ 64 \<le> n then 2 ^ 64 - 1 else if neg then u64 (- n) else n),
          length s - length r)))"

definition hex_arg :: "string \<Rightarrow> int option" where
  "hex_arg s = (case scan_x s of None \<Rightarrow> None | Some (v, n) \<Rightarrow> if n = length s then Some v else None)"

text \<open>The access size by the last letter of the program's name; an empty name has none.\<close>

definition data_size :: "string \<Rightarrow> int option" where
  "data_size prgname =
     (if prgname = [] then None
      else Some (if last prgname = CHR ''w'' then 2 else if last prgname = CHR ''l'' then 4 else 1))"

subsection \<open>inp and outp\<close>

text \<open>
  \<open>port_ok\<close>: whether \<open>/dev/port\<close> can be opened. The lists hold the accesses: port, size and value.
\<close>

type_synonym access = "int \<times> int \<times> int"

definition write_one :: "bool \<Rightarrow> int \<Rightarrow> int \<Rightarrow> int \<Rightarrow> access list \<Rightarrow> access list \<times> int" where
  "write_one port_ok port val sz io =
     (if \<not> port_ok then (io, 1)
      else (io @ [(port, sz, if sz = 4 then val else if sz = 2 then val mod 2 ^ 16 else val mod 2 ^ 8)], 0))"

definition outp_pair :: "bool \<Rightarrow> int \<Rightarrow> string \<Rightarrow> string \<Rightarrow> access list \<Rightarrow> access list \<times> int" where
  "outp_pair port_ok sz a b io =
     (case hex_arg a of
        None \<Rightarrow> (io, 1)
      | Some port \<Rightarrow>
          if port AND (sz - 1) \<noteq> 0 then (io, 1)
          else (case hex_arg b of
             None \<Rightarrow> (io, 1)
           | Some val \<Rightarrow>
               if sz < 4 \<and> (if sz = 1 then 0xff else 0xffff) < val then (io, 1)
               else write_one port_ok port val sz io))"

text \<open>The loop looks at the argument \<open>i\<close> and the next one, and goes on with \<open>i + 1\<close>.\<close>

fun outp_loop :: "bool \<Rightarrow> int \<Rightarrow> string list \<Rightarrow> access list \<Rightarrow> int \<Rightarrow> access list \<times> int" where
  "outp_loop port_ok sz (a # b # args) io error =
     (let (io', e) = outp_pair port_ok sz a b io in outp_loop port_ok sz (b # args) io' (error + e))"
| "outp_loop port_ok sz args io error = (io, error)"

text \<open>The exit status and the writes. Without a name the program has no defined behaviour.\<close>

definition outp_main :: "bool \<Rightarrow> string list \<Rightarrow> (int \<times> access list) option" where
  "outp_main port_ok argv =
     (case argv of
        [] \<Rightarrow> None
      | prgname # args \<Rightarrow> do {
          sz \<leftarrow> data_size prgname;
          let (io, error) = outp_loop port_ok sz args [] 0;
          Some (if error \<noteq> 0 then 1 else 0, io) })"

text \<open>\<open>rd\<close> is what the port delivers.\<close>

definition read_and_print_one ::
  "bool \<Rightarrow> (int \<Rightarrow> int \<Rightarrow> int) \<Rightarrow> int \<Rightarrow> int \<Rightarrow> access list \<Rightarrow> access list \<times> int" where
  "read_and_print_one port_ok rd port sz out =
     (if \<not> port_ok then (out, 1)
      else (out @ [(port, sz, if sz = 4 then rd port 4 else if sz = 2 then rd port 2 mod 2 ^ 16
              else rd port 1 mod 2 ^ 8)], 0))"

definition inp_arg ::
  "bool \<Rightarrow> (int \<Rightarrow> int \<Rightarrow> int) \<Rightarrow> int \<Rightarrow> string \<Rightarrow> access list \<Rightarrow> access list \<times> int" where
  "inp_arg port_ok rd sz a out =
     (case hex_arg a of
        None \<Rightarrow> (out, 1)
      | Some port \<Rightarrow>
          if port AND (sz - 1) \<noteq> 0 then (out, 1) else read_and_print_one port_ok rd port sz out)"

fun inp_loop ::
  "bool \<Rightarrow> (int \<Rightarrow> int \<Rightarrow> int) \<Rightarrow> int \<Rightarrow> string list \<Rightarrow> access list \<Rightarrow> int \<Rightarrow> access list \<times> int" where
  "inp_loop port_ok rd sz [] out error = (out, error)"
| "inp_loop port_ok rd sz (a # args) out error =
     (let (out', e) = inp_arg port_ok rd sz a out in inp_loop port_ok rd sz args out' (error + e))"

definition inp_main ::
  "bool \<Rightarrow> (int \<Rightarrow> int \<Rightarrow> int) \<Rightarrow> string list \<Rightarrow> (int \<times> access list) option" where
  "inp_main port_ok rd argv =
     (case argv of
        [] \<Rightarrow> None
      | prgname # args \<Rightarrow> do {
          sz \<leftarrow> data_size prgname;
          let (out, error) = inp_loop port_ok rd sz args [] 0;
          Some (if error \<noteq> 0 then 1 else 0, out) })"

subsection \<open>netifdebug\<close>

definition IFNAMSIZ :: nat where [code_consts]: "IFNAMSIZ = 16"
definition IFF_DEBUG :: int where [code_consts]: "IFF_DEBUG = 4"

definition s16 :: "int \<Rightarrow> int" where "s16 x = (x + 2 ^ 15) mod 2 ^ 16 - 2 ^ 15"

text \<open>What the words ask for; -1 when they are none of these.\<close>

definition netif_action :: "string \<Rightarrow> int" where
  "netif_action actname =
     (if actname \<in> {''off'', ''-'', ''0''} then 0
      else if actname \<in> {''on'', ''+'', ''1''} then IFF_DEBUG else - 1)"

text \<open>
  The exit status, what is shown (\<open>tell\<close>), and the flags that are stored in the interface.
  \<open>flags\<close> is what the interface has, \<open>None\<close> when the call fails. \<open>strcpy\<close> of a name that does not
  fit the request has no defined behaviour.
\<close>

definition netifdebug ::
  "string list \<Rightarrow> bool \<Rightarrow> int option \<Rightarrow> bool \<Rightarrow> (int \<times> bool option \<times> int option) option" where
  "netifdebug argv sock_ok flags set_ok =
     (if length argv < 2 then Some (1, None, flags)
      else
        (let actname = (if length argv = 2 then ''tell'' else argv ! 2) in
         if \<not> sock_ok then Some (1, None, flags)
         else if IFNAMSIZ \<le> length (argv ! 1) then None
         else (case flags of
            None \<Rightarrow> Some (1, None, flags)
          | Some fl \<Rightarrow>
              if actname \<noteq> [] \<and> hd actname = CHR ''t'' then Some (0, Some (fl AND IFF_DEBUG \<noteq> 0), flags)
              else
                (let fl' = s16 (s16 (fl AND NOT IFF_DEBUG) OR netif_action actname) in
                 if \<not> set_ok then Some (1, None, flags) else Some (0, None, Some fl')))))"

subsection \<open>mapcmp\<close>

definition MAPCMP_PAGE :: int where [code_consts]: "MAPCMP_PAGE = 4096"

datatype comparison = Identical | Differ nat

text \<open>A mapped area; an access behind the end of the file ends the program with a signal (\<open>None\<close>).\<close>

type_synonym area = "nat \<Rightarrow> byte option"

function mapcmp_loop :: "nat \<Rightarrow> area \<Rightarrow> area \<Rightarrow> nat \<Rightarrow> comparison option" where
  "mapcmp_loop sz addr1 addr2 i =
     (if i < sz then
        (case (addr1 i, addr2 i) of
           (Some a, Some b) \<Rightarrow> if a \<noteq> b then Some (Differ i) else mapcmp_loop sz addr1 addr2 (i + 1)
         | _ \<Rightarrow> None)
      else Some Identical)"
  by pat_completeness auto
termination by (relation "measure (\<lambda>(sz, addr1, addr2, i). sz - i)") auto

declare mapcmp_loop.simps [simp del]

text \<open>
  The exit status and what is printed. \<open>offset\<close> and \<open>pages\<close> are the values of \<open>strtoul\<close> and \<open>atoi\<close>;
  \<open>mapdev\<close> maps a device or fails. The product of a large number of pages overflows an \<open>int\<close>.
\<close>

definition mapcmp_main ::
  "string list \<Rightarrow> int \<Rightarrow> int \<Rightarrow> (string \<Rightarrow> int \<Rightarrow> int \<Rightarrow> area option) \<Rightarrow> (int \<times> comparison option) option" where
  "mapcmp_main argv offset pages mapdev =
     (if length argv \<noteq> 5 then Some (1, None)
      else if pages * MAPCMP_PAGE < - (2 ^ 31) \<or> 2 ^ 31 \<le> pages * MAPCMP_PAGE then None
      else
        (let sz = u64 (pages * MAPCMP_PAGE) in
         case mapdev (argv ! 1) offset sz of
           None \<Rightarrow> Some (1, None)
         | Some addr1 \<Rightarrow>
             (case mapdev (argv ! 2) offset sz of
                None \<Rightarrow> Some (1, None)
              | Some addr2 \<Rightarrow> do {
                  c \<leftarrow> mapcmp_loop (nat sz) addr1 addr2 0;
                  Some (0, Some c) })))"

subsection \<open>The copy loops\<close>

text \<open>
  The answers of \<open>read\<close> and of \<open>write\<close>, the latter the number of bytes taken. The result is why the
  loop ended, if it did (\<open>True\<close>: standard input), and what was written.
\<close>

fun nbtest_loop ::
  "((errno + byte list) \<times> (errno + nat)) list \<Rightarrow> byte list \<Rightarrow> bool option \<times> byte list" where
  "nbtest_loop [] out = (None, out)"
| "nbtest_loop ((Inl e, _) # rest) out =
     (if e \<noteq> EAGAIN then (Some True, out) else nbtest_loop rest out)"
| "nbtest_loop ((Inr buf, Inl e) # rest) out =
     (if e \<noteq> EAGAIN then (Some False, out) else nbtest_loop rest out)"
| "nbtest_loop ((Inr buf, Inr m) # rest) out = nbtest_loop rest (out @ take m buf)"

text \<open>The answer of \<open>poll\<close> comes last.\<close>

fun polltest_loop ::
  "((errno + byte list) \<times> (errno + nat) \<times> bool) list \<Rightarrow> byte list \<Rightarrow> bool option \<times> byte list" where
  "polltest_loop [] out = (None, out)"
| "polltest_loop ((r, w, poll_ok) # rest) out =
     (let out' = (case (r, w) of (Inr buf, Inr m) \<Rightarrow> out @ take m buf | _ \<Rightarrow> out)
      in if poll_ok then polltest_loop rest out' else (Some True, out'))"

subsection \<open>Correctness\<close>

lemma data_size_cases: "data_size p = Some sz \<Longrightarrow> sz \<in> {1, 2, 4}"
  by (auto simp: data_size_def split: if_splits)

lemma and_mask_mod:
  "(p :: int) AND 0 = p mod 1" "p AND 1 = p mod 2" "p AND 3 = p mod 4"
proof -
  have "mask 2 = (3 :: int)" by code_simp
  then show "p AND 3 = p mod 4" using take_bit_eq_mask[of 2 p] take_bit_eq_mod[of 2 p] by simp
qed (simp_all add: and_one_eq)

lemma hex_arg_u32: "hex_arg s = Some v \<Longrightarrow> 0 \<le> v \<and> v < 2 ^ 32"
proof -
  assume "hex_arg s = Some v"
  then have "\<exists>x. v = u32 x"
    by (auto simp: hex_arg_def scan_x_def Let_def split: option.splits if_splits prod.splits)
  then show ?thesis using u32_bounds by auto
qed

text \<open>An access the port can do: aligned to its size, with a value of that size.\<close>

definition access_ok :: "int \<Rightarrow> access \<Rightarrow> bool" where
  "access_ok sz w \<longleftrightarrow> (case w of (port, n, v) \<Rightarrow> n = sz \<and> 0 \<le> port \<and> port < 2 ^ 32 \<and> port mod sz = 0 \<and>
     0 \<le> v \<and> v < 2 ^ (8 * nat sz))"

lemma outp_pair_ok:
  assumes "sz \<in> {1, 2, 4}" "outp_pair port_ok sz a b io = (io', e)"
  shows "e = 0 \<and> (\<exists>w. io' = io @ [w] \<and> access_ok sz w \<and> hex_arg a = Some (fst w) \<and> hex_arg b = Some (snd (snd w))) \<or>
    e = 1 \<and> io' = io"
  using assms hex_arg_u32[of a] hex_arg_u32[of b]
  by (auto simp: outp_pair_def write_one_def access_ok_def and_mask_mod split: option.splits if_splits)

lemma outp_loop_ok:
  "sz \<in> {1, 2, 4} \<Longrightarrow>
    \<exists>ws n. outp_loop port_ok sz args io error = (io @ ws, error + int n) \<and> list_all (access_ok sz) ws \<and>
      length ws + n = length args - 1"
proof (induction port_ok sz args io error rule: outp_loop.induct)
  case (1 port_ok sz a b args io error)
  obtain io' e where p: "outp_pair port_ok sz a b io = (io', e)" by (metis prod.exhaust)
  obtain ws n where ws: "outp_loop port_ok sz (b # args) io' (error + e) = (io' @ ws, error + e + int n)"
    "list_all (access_ok sz) ws" "length ws + n = length (b # args) - 1"
    using 1(1)[OF p[symmetric] refl 1(2)] by blast
  from outp_pair_ok[OF 1(2) p] show ?case
  proof (elim disjE conjE exE)
    fix w
    assume "e = 0" "io' = io @ [w]" "access_ok sz w"
    then show ?thesis using p ws by (intro exI[of _ "w # ws"] exI[of _ n]) simp
  next
    assume "e = 1" "io' = io"
    then show ?thesis using p ws by (intro exI[of _ ws] exI[of _ "Suc n"]) simp
  qed
qed auto

text \<open>Whatever its arguments are, \<open>outp\<close> makes only accesses that a port can do: aligned to the size that
  its name asks for, the value within that size. Its exit status is 0 just when every
  argument but the last was taken as a port.\<close>

lemma outp_correct:
  assumes "outp_main port_ok (prgname # args) = Some (status, ws)"
  shows "\<exists>sz. data_size prgname = Some sz \<and> list_all (access_ok sz) ws \<and> length ws \<le> length args - 1 \<and>
    (status = 0 \<longleftrightarrow> length ws = length args - 1)"
proof -
  obtain sz where sz: "data_size prgname = Some sz"
    using assms by (cases "data_size prgname") (simp_all add: outp_main_def)
  obtain ws' n where "outp_loop port_ok sz args [] 0 = (ws', int n)" "list_all (access_ok sz) ws'"
    "length ws' + n = length args - 1"
    using outp_loop_ok[OF data_size_cases[OF sz], of port_ok args "[]" 0] by auto
  then show ?thesis using assms sz by (auto simp: outp_main_def Let_def split: if_splits)
qed

lemma outp_correct_example:
  "list_all (access_ok 1) [(0x378, 1, 0xff :: int)]"
proof -
  have "outp_main True [''outb'', ''378'', ''ff''] = Some (0, [(0x378, 1, 0xff)])"
    "data_size ''outb'' = Some 1" by code_simp+
  with outp_correct[of True "''outb''" "[''378'', ''ff'']" 0 "[(0x378, 1, 0xff)]"] show ?thesis by simp
qed

text \<open>The loop of \<open>outp\<close> goes on by one argument where it has used two: each value but the last is
  then used as a port. With two ports and two values it makes three writes.\<close>

lemma outp_values_become_ports:
  assumes "hex_arg a = Some p" "hex_arg b = Some v" "hex_arg c = Some q" "hex_arg d = Some w"
    and "v \<le> 0xff" "q \<le> 0xff" "w \<le> 0xff"
  shows "outp_main True [''outb'', a, b, c, d] = Some (0, [(p, 1, v), (v, 1, q), (q, 1, w)])"
proof -
  have "data_size ''outb'' = Some 1" by code_simp
  then show ?thesis
    using assms hex_arg_u32[of b] hex_arg_u32[of c] hex_arg_u32[of d]
    by (simp add: outp_main_def outp_pair_def write_one_def)
qed

lemma outp_values_become_ports_example:
  "outp_main True [''outb'', ''378'', ''20'', ''7a'', ''21''] =
    Some (0, [(0x378, 1, 0x20), (0x20, 1, 0x7a), (0x7a, 1, 0x21)])"
proof -
  have "hex_arg ''378'' = Some 0x378" "hex_arg ''20'' = Some 0x20" "hex_arg ''7a'' = Some 0x7a"
    "hex_arg ''21'' = Some 0x21" by code_simp+
  with outp_values_become_ports[of "''378''" "0x378" "''20''" "0x20" "''7a''" "0x7a" "''21''" "0x21"]
  show ?thesis by simp
qed

text \<open>\<open>inp\<close> reads every port that is named properly, once and in order.\<close>

definition port_arg :: "int \<Rightarrow> string \<Rightarrow> int option" where
  "port_arg sz a = (case hex_arg a of None \<Rightarrow> None | Some p \<Rightarrow> if p AND (sz - 1) = 0 then Some p else None)"

lemma inp_loop_ok:
  "map fst (fst (inp_loop True rd sz args out error)) = map fst out @ List.map_filter (port_arg sz) args \<and>
    snd (inp_loop True rd sz args out error) = error + int (length (filter (\<lambda>a. port_arg sz a = None) args))"
proof (induction args arbitrary: out error)
  case (Cons a args)
  then show ?case
    by (auto simp: inp_arg_def read_and_print_one_def port_arg_def map_filter_simps split: option.split)
qed (simp add: map_filter_simps)

lemma netif_actions:
  "netif_action ''on'' = 4" "netif_action ''off'' = 0" "netif_action ''debug'' = - 1"
  by (simp_all add: netif_action_def code_consts)

text \<open>A word that the program does not know sets every flag of the interface.\<close>

lemma netifdebug_unknown_word:
  assumes "length name < IFNAMSIZ" "act \<noteq> []" "hd act \<noteq> CHR ''t''"
    "act \<notin> {''on'', ''+'', ''1'', ''off'', ''-'', ''0''}"
  shows "netifdebug [prg, name, act] True (Some fl) True = Some (0, None, Some (- 1))"
  using assms by (simp add: netifdebug_def netif_action_def s16_def)

lemma netifdebug_unknown_word_example:
  "netifdebug [''netifdebug'', ''sn0'', ''yes''] True (Some 0x43) True = Some (0, None, Some (- 1))"
  by (rule netifdebug_unknown_word) (simp_all add: code_consts)

text \<open>The comparison finds the first difference, or there is none.\<close>

lemma mapcmp_loop_correct:
  assumes "\<forall>j < sz. addr1 j \<noteq> None \<and> addr2 j \<noteq> None" "i \<le> sz"
  shows "case mapcmp_loop sz addr1 addr2 i of
      None \<Rightarrow> False
    | Some Identical \<Rightarrow> \<forall>j. i \<le> j \<and> j < sz \<longrightarrow> addr1 j = addr2 j
    | Some (Differ k) \<Rightarrow> i \<le> k \<and> k < sz \<and> addr1 k \<noteq> addr2 k \<and> (\<forall>j. i \<le> j \<and> j < k \<longrightarrow> addr1 j = addr2 j)"
  using assms(2)
proof (induction "sz - i" arbitrary: i)
  case 0
  then show ?case by (subst mapcmp_loop.simps) auto
next
  case (Suc n)
  then have lt: "i < sz" by simp
  then obtain a b where ab: "addr1 i = Some a" "addr2 i = Some b" using assms(1) by auto
  show ?case
  proof (cases "a = b")
    case False
    then show ?thesis using lt ab by (subst mapcmp_loop.simps) auto
  next
    case True
    have split: "i \<le> j \<longleftrightarrow> j = i \<or> i + 1 \<le> j" for j by auto
    have "mapcmp_loop sz addr1 addr2 i = mapcmp_loop sz addr1 addr2 (i + 1)"
      using lt ab True by (subst mapcmp_loop.simps) simp
    moreover have "n = sz - (i + 1)" "i + 1 \<le> sz" using Suc.hyps(2) lt by auto
    note Suc.hyps(1)[OF this]
    ultimately show ?thesis
      using ab True unfolding split by (auto split: option.splits comparison.splits)
  qed
qed

text \<open>A write that takes less than what was read, or would block, loses the rest.\<close>

lemma nbtest_loses:
  "nbtest_loop [(Inr [104, 105], Inl EAGAIN), (Inr [33], Inr 1)] [] = (None, [33])"
  "nbtest_loop [(Inr [104, 105], Inr 1), (Inr [33], Inr 1)] [] = (None, [104, 33])"
  by simp_all

end
