(* ===== verification/Misc_Progs_More.thy ===== *)
theory Misc_Progs_More
  imports Misc_Progs Parport_Format
begin

section \<open>More programs for the drivers\<close>

text \<open>
  The build of \<open>inp.c\<close> and \<open>outp.c\<close> for i386, which uses the port instructions, and the programs \<open>mapper.c\<close>,
  \<open>asynctest.c\<close>, \<open>setlevel.c\<close>, \<open>setconsole.c\<close> and \<open>load50.c\<close> of \<open>misc-progs\<close>. The answers of the kernel and of
  the number parsers of the C library are arguments.
\<close>

subsection \<open>inp and outp on i386\<close>

text \<open>\<open>iopldone\<close> is the static counter; \<open>iopl\<close> tells whether \<open>iopl(3)\<close> succeeds, \<open>ioperm port size\<close> whether the range is granted.\<close>

record port_rights =
  iopl :: bool
  ioperm :: "int \<Rightarrow> int \<Rightarrow> bool"

definition i386_enable :: "port_rights \<Rightarrow> int \<Rightarrow> int \<Rightarrow> nat \<Rightarrow> nat \<times> bool" where
  "i386_enable rights port sz iopldone =
     (if 1024 < port then
        if iopldone = 0 \<and> \<not> iopl rights then (iopldone, False) else (Suc iopldone, True)
      else (iopldone, ioperm rights port sz))"

definition i386_read_and_print_one ::
  "port_rights \<Rightarrow> (int \<Rightarrow> int \<Rightarrow> int) \<Rightarrow> int \<Rightarrow> int \<Rightarrow> nat \<times> access list \<Rightarrow> (nat \<times> access list) \<times> int" where
  "i386_read_and_print_one rights rd port sz st =
     (let (iopldone, enabled) = i386_enable rights port sz (fst st) in
      if \<not> enabled then ((iopldone, snd st), 1)
      else ((iopldone, snd st @ [(port, sz, if sz = 4 then rd port 4 mod 2 ^ 32 else if sz = 2 then rd port 2 mod 2 ^ 16
              else rd port 1 mod 2 ^ 8)]), 0))"

definition i386_write_one ::
  "port_rights \<Rightarrow> int \<Rightarrow> int \<Rightarrow> int \<Rightarrow> nat \<times> access list \<Rightarrow> (nat \<times> access list) \<times> int" where
  "i386_write_one rights port val sz st =
     (let (iopldone, enabled) = i386_enable rights port sz (fst st) in
      if \<not> enabled then ((iopldone, snd st), 1)
      else ((iopldone, snd st @ [(port, sz, if sz = 4 then val else if sz = 2 then val mod 2 ^ 16 else val mod 2 ^ 8)]), 0))"

text \<open>
  \<open>ioperm\<close> covers the ports below 0x400. The test lets port 0x400 go to \<open>ioperm\<close>, so that it cannot be reached
  although the program may use all ports.
\<close>

definition root_rights :: port_rights where
  "root_rights = \<lparr>iopl = True, ioperm = (\<lambda>port sz. 0 \<le> port \<and> port + sz \<le> 1024)\<rparr>"

lemma i386_enable_ports:
  "0 \<le> port \<Longrightarrow> 0 < sz \<Longrightarrow> snd (i386_enable root_rights port sz n) \<longleftrightarrow> port + sz \<le> 1024 \<or> 1024 < port"
  by (auto simp: i386_enable_def root_rights_def)

lemma inp_port_1024: "snd (i386_read_and_print_one root_rights rd 1024 1 st) = 1"
  by (simp add: i386_read_and_print_one_def i386_enable_def root_rights_def)

text \<open>Elsewhere both builds transfer the same values.\<close>

lemma i386_write_same:
  assumes "snd (i386_enable rights port sz (fst st))"
  shows "(snd (fst (i386_write_one rights port val sz st)), snd (i386_write_one rights port val sz st)) =
    write_one True port val sz (snd st)"
  using assms by (auto simp: i386_write_one_def write_one_def split: prod.splits)

subsection \<open>mapper\<close>

text \<open>
  \<open>li\<close>, \<open>lx\<close>, \<open>lu\<close> are \<open>sscanf\<close> with \<open>%li\<close>, \<open>%lx\<close>, \<open>%lu\<close>; a failing second conversion leaves the offset. \<open>mmap off len\<close>
  is the mapped memory, \<open>None\<close> for a failure. The result is the exit status and what is written to the output.
\<close>

definition INT_MAX :: int where [code_consts]: "INT_MAX = 2 ^ 31 - 1"

definition mapper_offset :: "(string \<Rightarrow> int option) \<Rightarrow> (string \<Rightarrow> int option) \<Rightarrow> string \<Rightarrow> int \<Rightarrow> int" where
  "mapper_offset lx lu arg off =
     (if off = INT_MAX then
        (case (if 1 < length arg \<and> arg ! 1 = CHR ''x'' then lx (drop 2 arg) else lu arg) of None \<Rightarrow> off | Some v \<Rightarrow> v)
      else off)"

definition mapper ::
  "(string \<Rightarrow> int option) \<Rightarrow> (string \<Rightarrow> int option) \<Rightarrow> (string \<Rightarrow> int option) \<Rightarrow> bool \<Rightarrow>
   (int \<Rightarrow> int \<Rightarrow> byte list option) \<Rightarrow> string list \<Rightarrow> int \<times> byte list" where
  "mapper li lx lu opened mmap argv =
     (if length argv \<noteq> 4 then (1, [])
      else (case (li (argv ! 2), li (argv ! 3)) of
          (Some off, Some len) \<Rightarrow>
            (let offset = u64 (mapper_offset lx lu (argv ! 2) off) in
             if \<not> opened then (1, [])
             else (case mmap offset (u64 len) of None \<Rightarrow> (1, []) | Some mem \<Rightarrow> (0, take (nat (u64 len)) mem)))
        | _ \<Rightarrow> (1, [])))"

text \<open>
  A conversion with \<open>%li\<close> limits the value to that of a \<open>long\<close>. Where a \<open>long\<close> has 64 bits the limit is not \<open>INT_MAX\<close>, so
  that a larger offset is not read again but becomes the largest \<open>long\<close>.
\<close>

definition trim_long :: "int \<Rightarrow> int" where
  "trim_long v = (if 2 ^ 63 \<le> v then 2 ^ 63 - 1 else if v < - (2 ^ 63) then - (2 ^ 63) else v)"

lemma mapper_trims:
  assumes "2 ^ 63 \<le> v"
  shows "mapper_offset lx lu arg (trim_long v) = 2 ^ 63 - 1"
  using assms by (simp add: mapper_offset_def trim_long_def INT_MAX_def)

subsection \<open>asynctest\<close>

text \<open>
  One turn of the loop: \<open>woken\<close> signals end the sleep, \<open>count\<close> is the answer of \<open>read\<close> (the data, \<open>None\<close> for an error), and
  \<open>late\<close> signals arrive between it and the end of the turn. The state is \<open>gotdata\<close> and the output. A failing read is followed by a
  write with count -1, which fails.
\<close>

record async_turn =
  woken :: nat
  got :: "byte list option"
  late :: nat

definition sighandler :: "int \<Rightarrow> int \<Rightarrow> int" where
  "sighandler signo gotdata = (if signo = 29 then s32 (gotdata + 1) else gotdata)"

fun signals :: "nat \<Rightarrow> int \<Rightarrow> int" where
  "signals 0 gotdata = gotdata"
| "signals (Suc n) gotdata = signals n (sighandler 29 gotdata)"

definition async_step :: "async_turn \<Rightarrow> int \<times> byte list \<Rightarrow> int \<times> byte list" where
  "async_step t st =
     (let gotdata = signals (woken t) (fst st) in
      if gotdata = 0 then (gotdata, snd st)
      else (0, snd st @ (case got t of None \<Rightarrow> [] | Some bs \<Rightarrow> take 4096 bs)))"

text \<open>A signal that arrives after the read is forgotten: the next turn without a new signal reads nothing.\<close>

lemma asynctest_forgets:
  assumes "woken t = 1" "got t = Some bs" "woken t' = 0"
  shows "async_step t' (async_step t (0, [])) = (0, take 4096 bs)"
proof -
  have "signals 1 0 = 1" by (simp add: sighandler_def)
  then show ?thesis using assms by (simp add: async_step_def)
qed

subsection \<open>setlevel, setconsole, load50\<close>

text \<open>\<open>atoi\<close> is that of the C library. The exit status and the request that was made.\<close>

definition setlevel :: "(string \<Rightarrow> int) \<Rightarrow> (int \<Rightarrow> bool) \<Rightarrow> string list \<Rightarrow> int \<times> int option" where
  "setlevel atoi klogctl_ok argv =
     (if length argv \<noteq> 2 then (1, None)
      else (let level = atoi (argv ! 1) in if klogctl_ok level then (0, Some level) else (1, None)))"

definition setconsole :: "(string \<Rightarrow> int) \<Rightarrow> (int \<Rightarrow> bool) \<Rightarrow> string list \<Rightarrow> int \<times> (int \<times> int) option" where
  "setconsole atoi ioctl_ok argv =
     (if length argv \<noteq> 2 then (1, None)
      else (let c = (atoi (argv ! 1) + 2 ^ 7) mod 2 ^ 8 - 2 ^ 7 in if ioctl_ok c then (0, Some (11, c)) else (1, None)))"

text \<open>The processes that end up in the endless loop; the list are the answers of \<open>fork\<close> in the parent.\<close>

fun load_loop :: "int \<Rightarrow> int \<Rightarrow> bool list \<Rightarrow> nat" where
  "load_loop i load [] = 0"
| "load_loop i load (ok # forks) = (if i < load then (if ok then 1 else 0) + load_loop (i + 1) load forks else 0)"

definition load50 :: "(string \<Rightarrow> int) \<Rightarrow> string list \<Rightarrow> bool list \<Rightarrow> nat" where
  "load50 atoi argv forks = (let load = (if length argv = 2 then atoi (argv ! 1) else 50) in 1 + load_loop 0 load forks)"

lemma load_loop_all: "i \<le> load \<Longrightarrow> load_loop i load (replicate n True) = min n (nat (load - i))"
proof (induction n arbitrary: i)
  case (Suc n)
  show ?case
  proof (cases "i < load")
    case True
    then have "nat (load - i) = Suc (nat (load - (i + 1)))" by simp
    then show ?thesis using Suc.IH[of "i + 1"] True by simp
  qed (use Suc.prems in simp)
qed simp

text \<open>The parent loops as well: the load is one more than announced.\<close>

lemma load50_one_more: "load50 atoi [p] (replicate 50 True) = 51"
  using load_loop_all[of 0 50 50] by (simp add: load50_def)

subsection \<open>Sizes and alignments\<close>

text \<open>
  \<open>datasize.c\<close> and \<open>dataalign.c\<close> and the modules \<open>kdatasize.c\<close> and \<open>kdataalign.c\<close>: a line of ten numbers that the compiler
  chose for the types, which are arguments, behind the name of the machine. The modules refuse to stay loaded.
\<close>

record type_numbers =
  n_char :: nat
  n_short :: nat
  n_int :: nat
  n_long :: nat
  n_ptr :: nat
  n_llong :: nat
  n_u8 :: nat
  n_u16 :: nat
  n_u32 :: nat
  n_u64 :: nat

definition numbers_line :: "byte list \<Rightarrow> type_numbers \<Rightarrow> byte list" where
  "numbers_line machine t =
     (let n = (\<lambda>v. fmt_space 3 v) in
      machine @ replicate (12 - length machine) 32 @ [32, 32] @ n (n_char t) @ [32, 32, 32] @ n (n_short t) @ [32, 32, 32] @
      n (n_int t) @ [32, 32, 32] @ n (n_long t) @ [32, 32, 32] @ n (n_ptr t) @ [32, 32, 32] @ n (n_llong t) @
      replicate 6 32 @ n (n_u8 t) @ [32] @ n (n_u16 t) @ [32] @ n (n_u32 t) @ [32] @ n (n_u64 t) @ [10])"

definition datasize_main :: "byte list \<Rightarrow> type_numbers \<Rightarrow> byte list \<times> int" where
  "datasize_main machine sizeof = (numbers_line machine sizeof, 0)"

definition dataalign_main :: "byte list \<Rightarrow> type_numbers \<Rightarrow> byte list \<times> int" where
  "dataalign_main machine offset = (numbers_line machine offset, 0)"

definition kdatasize_init :: "byte list \<Rightarrow> type_numbers \<Rightarrow> byte list \<times> int outcome" where
  "kdatasize_init machine sizeof = (numbers_line machine sizeof, Fail ENODEV)"

definition kdataalign_init :: "byte list \<Rightarrow> type_numbers \<Rightarrow> byte list \<times> int outcome" where
  "kdataalign_init machine offset = (numbers_line machine offset, Fail ENODEV)"

text \<open>The line of a machine with 64-bit longs and pointers, whose name is \<open>x86_64\<close>.\<close>

lemma datasize_x86_64:
  "fst (datasize_main [120, 56, 54, 95, 54, 52] \<lparr>n_char = 1, n_short = 2, n_int = 4, n_long = 8, n_ptr = 8, n_llong = 8,
     n_u8 = 1, n_u16 = 2, n_u32 = 4, n_u64 = 8\<rparr>) =
    [120, 56, 54, 95, 54, 52] @ replicate 10 32 @ [49] @ replicate 5 32 @ [50] @ replicate 5 32 @ [52] @ replicate 5 32 @
    [56] @ replicate 5 32 @ [56] @ replicate 5 32 @ [56] @ replicate 8 32 @
    [49, 32, 32, 32, 50, 32, 32, 32, 52, 32, 32, 32, 56, 10]"
  by code_simp

end
