(* ===== verification/Bus_Examples.thy ===== *)
theory Bus_Examples
  imports Device_Interfaces
begin

section \<open>The bus of the examples, mappings of physical memory and the PCI skeleton\<close>

text \<open>
  \<open>lddbus/lddbus.c\<close>: a virtual bus whose drivers match devices by name. \<open>simple/simple.c\<close>: two ways of mapping
  physical memory. \<open>pci/pci_skel.c\<close>: probing. Answers of the driver core and of the PCI layer are parameters.
\<close>

subsection \<open>lddbus\<close>

text \<open>\<open>strncmp\<close> of the first \<open>n\<close> characters; strings end at their length.\<close>

fun strncmp_eq :: "nat \<Rightarrow> string \<Rightarrow> string \<Rightarrow> bool" where
  "strncmp_eq 0 s t = True"
| "strncmp_eq (Suc n) [] [] = True"
| "strncmp_eq (Suc n) [] (b # t) = False"
| "strncmp_eq (Suc n) (a # s) [] = False"
| "strncmp_eq (Suc n) (a # s) (b # t) = (a = b \<and> strncmp_eq n s t)"

definition ldd_match :: "string \<Rightarrow> string \<Rightarrow> bool" where
  "ldd_match dev driver = strncmp_eq (length driver) dev driver"

lemma strncmp_prefix: "strncmp_eq (length t) s t \<longleftrightarrow> take (length t) s = t"
proof (induction t arbitrary: s)
  case (Cons b t)
  then show ?case by (cases s) auto
qed simp

text \<open>A driver also gets the devices whose names are longer than its own.\<close>

lemma ldd_match_prefix: "ldd_match dev driver \<longleftrightarrow> (\<exists>rest. dev = driver @ rest)"
  unfolding ldd_match_def strncmp_prefix by (metis append_eq_conv_conj append_take_drop_id)

definition ldd_uevent :: "bool \<Rightarrow> string list \<Rightarrow> string list \<times> int outcome" where
  "ldd_uevent room env =
     (if \<not> room then (env, Fail ENOMEM) else (env @ [''LDDBUS_VERSION=$Revision: 1.9 $''], Ret 0))"

record ldd_state =
  ldd_bus_registered :: bool
  ldd0_registered :: bool
  ldd_drivers :: "string list"
  ldd_attrs :: "string list"
  ldd_devices :: "string list"

definition register_ldd_device :: "errno option \<Rightarrow> string \<Rightarrow> ldd_state \<Rightarrow> ldd_state \<times> int outcome" where
  "register_ldd_device err name s =
     (case err of Some e \<Rightarrow> (s, Fail e) | None \<Rightarrow> (s\<lparr>ldd_devices := name # ldd_devices s\<rparr>, Ret 0))"

definition unregister_ldd_device :: "string \<Rightarrow> ldd_state \<Rightarrow> ldd_state" where
  "unregister_ldd_device name s = s\<lparr>ldd_devices := remove1 name (ldd_devices s)\<rparr>"

definition register_ldd_driver ::
  "errno option \<Rightarrow> errno option \<Rightarrow> string \<Rightarrow> ldd_state \<Rightarrow> ldd_state \<times> int outcome" where
  "register_ldd_driver err attr_err name s =
     (case err of
        Some e \<Rightarrow> (s, Fail e)
      | None \<Rightarrow>
          (let t = s\<lparr>ldd_drivers := name # ldd_drivers s\<rparr>
           in case attr_err of Some e \<Rightarrow> (t, Fail e) | None \<Rightarrow> (t\<lparr>ldd_attrs := name # ldd_attrs t\<rparr>, Ret 0)))"

definition unregister_ldd_driver :: "string \<Rightarrow> ldd_state \<Rightarrow> ldd_state" where
  "unregister_ldd_driver name s =
     s\<lparr>ldd_drivers := remove1 name (ldd_drivers s), ldd_attrs := remove1 name (ldd_attrs s)\<rparr>"

definition show_version :: "string \<Rightarrow> string \<times> nat" where
  "show_version version = (version @ [CHR 0x0A], length version + 1)"

text \<open>The version file of the bus itself.\<close>

definition version_show :: "string \<times> nat" where
  "version_show = show_version ''$Revision: 1.9 $''"

definition ldd_bus_release :: "ldd_state \<Rightarrow> ldd_state" where "ldd_bus_release s = s"
definition ldd_dev_release :: "ldd_state \<Rightarrow> ldd_state" where "ldd_dev_release s = s"

text \<open>The failure of the attribute file is only logged.\<close>

definition ldd_bus_init :: "errno option \<Rightarrow> errno option \<Rightarrow> ldd_state \<Rightarrow> ldd_state \<times> int outcome" where
  "ldd_bus_init bus_err dev_err s =
     (case bus_err of
        Some e \<Rightarrow> (s, Fail e)
      | None \<Rightarrow>
          (case dev_err of
             Some e \<Rightarrow> (s\<lparr>ldd_bus_registered := False\<rparr>, Fail e)
           | None \<Rightarrow> (s\<lparr>ldd_bus_registered := True, ldd0_registered := True\<rparr>, Ret 0)))"

definition ldd_bus_exit :: "ldd_state \<Rightarrow> ldd_state" where
  "ldd_bus_exit s = s\<lparr>ldd0_registered := False, ldd_bus_registered := False\<rparr>"

text \<open>When the version file cannot be made the driver stays registered although the call fails.\<close>

lemma register_ldd_driver_keeps:
  "\<exists>t. register_ldd_driver None (Some e) name s = (t, Fail e) \<and> name \<in> set (ldd_drivers t)"
  by (simp add: register_ldd_driver_def)

lemma ldd_driver_round_trip:
  "ldd_drivers s = [] \<Longrightarrow> ldd_attrs s = [] \<Longrightarrow> unregister_ldd_driver name (fst (register_ldd_driver None attr name s)) = s"
  by (cases attr) (simp_all add: register_ldd_driver_def unregister_ldd_driver_def)

subsection \<open>simple\<close>

record vm_area =
  vm_start :: int
  vm_end :: int
  vm_pgoff :: int

definition simple_release :: int where "simple_release = 0"

text \<open>The frames a mapping shows at once, page by page; \<open>ok\<close> is the answer of \<open>remap_pfn_range\<close>.\<close>

definition simple_remap_mmap :: "bool \<Rightarrow> vm_area \<Rightarrow> (int \<Rightarrow> int option) \<times> int outcome" where
  "simple_remap_mmap ok vma =
     (if \<not> ok then (\<lambda>_. None, Fail EAGAIN)
      else (\<lambda>address. if vm_start vma \<le> address \<and> address < vm_end vma
              then Some (vm_pgoff vma + (address - vm_start vma) div 4096) else None, Ret 0))"

text \<open>The frame that a fault brings in, \<open>None\<close> when it is not valid.\<close>

definition simple_vma_nopage :: "(int \<Rightarrow> bool) \<Rightarrow> vm_area \<Rightarrow> int \<Rightarrow> int option" where
  "simple_vma_nopage pfn_valid vma address =
     (let offset = u64 (vm_pgoff vma * 4096);
          physaddr = u64 (address - vm_start vma + offset);
          pageframe = physaddr div 4096
      in if pfn_valid pageframe then Some pageframe else None)"

definition simple_nopage_mmap :: "vm_area \<Rightarrow> int outcome" where
  "simple_nopage_mmap vma = Ret 0"

text \<open>Both ways show the same frames, of valid memory.\<close>

lemma simple_mmaps_agree:
  assumes "vm_start vma mod 4096 = 0" "vm_start vma \<le> address" "address < vm_end vma" "vm_end vma < 2 ^ 62"
    and "0 \<le> vm_start vma" "0 \<le> vm_pgoff vma" "vm_pgoff vma < 2 ^ 50"
    and "simple_vma_nopage pfn_valid vma address = Some frame"
  shows "fst (simple_remap_mmap True vma) address = Some frame"
proof -
  have o: "u64 (vm_pgoff vma * 4096) = vm_pgoff vma * 4096" using assms(6,7) by simp
  have p: "u64 (address - vm_start vma + vm_pgoff vma * 4096) = address - vm_start vma + vm_pgoff vma * 4096"
    using assms(2-7) by simp
  have "(address - vm_start vma + vm_pgoff vma * 4096) div 4096 = vm_pgoff vma + (address - vm_start vma) div 4096"
    by simp
  then show ?thesis using assms(2,3,8) by (simp add: simple_vma_nopage_def simple_remap_mmap_def o p Let_def split: if_splits)
qed

record simple_state =
  simple_region :: bool
  simple_devs :: "nat list"

definition simple_setup_cdev :: "bool \<Rightarrow> nat \<Rightarrow> simple_state \<Rightarrow> simple_state" where
  "simple_setup_cdev ok minor s = (if ok then s\<lparr>simple_devs := simple_devs s @ [minor]\<rparr> else s)"

definition simple_init :: "errno option \<Rightarrow> bool \<Rightarrow> bool \<Rightarrow> simple_state \<Rightarrow> simple_state \<times> int outcome" where
  "simple_init reg ok0 ok1 s =
     (case reg of
        Some e \<Rightarrow> (s, Fail e)
      | None \<Rightarrow> (simple_setup_cdev ok1 1 (simple_setup_cdev ok0 0 (s\<lparr>simple_region := True\<rparr>)), Ret 0))"

definition simple_cleanup :: "simple_state \<Rightarrow> simple_state" where
  "simple_cleanup s = s\<lparr>simple_devs := [], simple_region := False\<rparr>"

subsection \<open>pci\<close>

text \<open>\<open>enable_ok\<close> and the configuration space are answers of the PCI layer; the first component of the result tells whether the device is enabled.\<close>

definition PCI_REVISION_ID :: nat where "PCI_REVISION_ID = 8"

definition skel_get_revision :: "(nat \<Rightarrow> 8 word) \<Rightarrow> 8 word" where
  "skel_get_revision pci_config = pci_config PCI_REVISION_ID"

definition pci_probe :: "bool \<Rightarrow> (nat \<Rightarrow> 8 word) \<Rightarrow> bool \<times> int outcome" where
  "pci_probe enable_ok pci_config =
     (if \<not> enable_ok then (False, Fail ENODEV)
      else if skel_get_revision pci_config = 0x42 then (True, Fail ENODEV)
      else (True, Ret 0))"

text \<open>Removing a device does nothing: it stays enabled. Whether the driver is registered after loading and unloading.\<close>

definition pci_remove :: "bool \<Rightarrow> bool" where "pci_remove enabled = enabled"

definition pci_skel_init :: "errno option \<Rightarrow> bool \<times> int outcome" where
  "pci_skel_init reg = (case reg of Some e \<Rightarrow> (False, Fail e) | None \<Rightarrow> (True, Ret 0))"

definition pci_skel_exit :: "bool \<Rightarrow> bool" where "pci_skel_exit registered = False"

text \<open>A device of the refused revision stays enabled.\<close>

lemma pci_probe_leaves_enabled: "c 8 = 0x42 \<Longrightarrow> pci_probe True c = (True, Fail ENODEV)"
  by (simp add: pci_probe_def skel_get_revision_def PCI_REVISION_ID_def)

end
