(* ===== verification/Assignments.thy ===== *)
theory Assignments
  imports Device_Interfaces
begin

section \<open>The assignment programs\<close>

text \<open>
  The user programs of the early assignments: running commands (\<open>examples/systemcalls\<close>), a thread
  that holds a mutex for a while (\<open>examples/threading\<close>) and the file writer (\<open>finder-app/writer.c\<close>). What
  the system calls answer is a parameter.
\<close>

subsection \<open>Running commands\<close>

text \<open>
  \<open>can_exec\<close> tells whether \<open>execv\<close> succeeds on a command, \<open>run_status\<close> is the wait status the program
  then ends with, \<open>returned_status\<close> the one of a child that returns to the caller of the function instead.
\<close>

record os_answers =
  fork_ret :: int
  can_exec :: "string list \<Rightarrow> bool"
  run_status :: "string list \<Rightarrow> nat"
  returned_status :: nat
  wait_ok :: bool
  open_fd :: int
  dup_ok :: bool

datatype child_end = Child_execs "string list" | Child_exits int | Child_returns bool

definition WIFEXITED :: "nat \<Rightarrow> bool" where
  "WIFEXITED st \<longleftrightarrow> st mod 128 = 0"

definition WEXITSTATUS :: "nat \<Rightarrow> nat" where
  "WEXITSTATUS st = st div 256 mod 256"

definition child_status :: "os_answers \<Rightarrow> child_end \<Rightarrow> nat" where
  "child_status os ch = (case ch of
     Child_execs c \<Rightarrow> run_status os c
   | Child_exits n \<Rightarrow> nat (n mod 256) * 256
   | Child_returns b \<Rightarrow> returned_status os)"

definition do_system :: "(string \<Rightarrow> int) \<Rightarrow> string \<Rightarrow> bool" where
  "do_system system cmd = (0 \<le> system cmd)"

text \<open>The array of arguments; fewer arguments than announced cannot be read.\<close>

definition command_array :: "int \<Rightarrow> string list \<Rightarrow> string list option" where
  "command_array count args = (if count < 0 \<or> length args < nat count then None else Some (take (nat count) args))"

definition run_child :: "os_answers \<Rightarrow> string list \<Rightarrow> child_end" where
  "run_child os c = (if c \<noteq> [] \<and> can_exec os c then Child_execs c else Child_exits (-1))"

text \<open>How the child ends, if there is one, and what the parent returns.\<close>

definition do_exec :: "os_answers \<Rightarrow> int \<Rightarrow> string list \<Rightarrow> (child_end option \<times> bool) option" where
  "do_exec os count args = do {
     c \<leftarrow> command_array count args;
     Some (if fork_ret os = -1 then (None, False)
       else
         (let ch = run_child os c
          in (Some ch,
              if \<not> wait_ok os then False
              else (let st = child_status os ch in WIFEXITED st \<and> WEXITSTATUS st = 0)))) }"

definition do_exec_redirect :: "os_answers \<Rightarrow> int \<Rightarrow> string list \<Rightarrow> (child_end option \<times> bool) option" where
  "do_exec_redirect os count args = do {
     c \<leftarrow> command_array count args;
     Some (if fork_ret os = -1 then (None, False)
       else
         (Some (if open_fd os < 0 then Child_returns False
            else if \<not> dup_ok os then Child_returns False
            else run_child os c), True)) }"

text \<open>\<open>do_exec\<close> says true exactly when the command ran and ended with exit code 0.\<close>

lemma do_exec_correct:
  assumes "do_exec os count args = Some (ch, r)"
  shows "r \<longleftrightarrow> (\<exists>c. c = take (nat count) args \<and> c \<noteq> [] \<and> fork_ret os \<noteq> -1 \<and> can_exec os c \<and> wait_ok os \<and>
    ch = Some (Child_execs c) \<and> WIFEXITED (run_status os c) \<and> WEXITSTATUS (run_status os c) = 0)"
  using assms
  by (auto simp: do_exec_def command_array_def run_child_def child_status_def Let_def WIFEXITED_def WEXITSTATUS_def
      split: if_splits)

text \<open>With redirection a command that does not exist is reported as success, and a child that cannot open the file returns.\<close>

lemma do_exec_redirect_claims_success:
  assumes "fork_ret os \<noteq> -1" "0 \<le> count" "nat count \<le> length args"
  shows "\<exists>ch. do_exec_redirect os count args = Some (Some ch, True) \<and>
    (open_fd os < 0 \<longrightarrow> ch = Child_returns False) \<and>
    (0 \<le> open_fd os \<and> dup_ok os \<and> \<not> can_exec os (take (nat count) args) \<longrightarrow> ch = Child_exits (-1))"
  using assms by (auto simp: do_exec_redirect_def command_array_def run_child_def)

text \<open>A command that ends with a failure is reported as success by \<open>do_system\<close>.\<close>

lemma do_system_claims_success: "do_system (\<lambda>_. 256) cmd"
  by (simp add: do_system_def)

subsection \<open>The thread that holds a mutex\<close>

text \<open>
  Each thread sleeps, takes the mutex, sleeps and releases it. The steps of the threads interleave; \<open>Lock_fails\<close> is
  the branch for an error of \<open>pthread_mutex_lock\<close>. Which thread owns the mutex is part of the state.
\<close>

datatype thread_pc = Sleeping | Locking | Holding | Complete

record mutex_state =
  owner :: "nat option"
  pc :: "nat \<Rightarrow> thread_pc"
  thread_complete_success :: "nat \<Rightarrow> bool"

datatype mutex_event = Wakes nat | Locks nat | Lock_fails nat | Releases nat

fun thread_step :: "mutex_event \<Rightarrow> mutex_state \<Rightarrow> mutex_state option" where
  "thread_step (Wakes i) s = (if pc s i = Sleeping then Some (s\<lparr>pc := (pc s)(i := Locking)\<rparr>) else None)"
| "thread_step (Locks i) s =
     (if pc s i = Locking \<and> owner s = None then Some (s\<lparr>pc := (pc s)(i := Holding), owner := Some i\<rparr>) else None)"
| "thread_step (Lock_fails i) s =
     (if pc s i = Locking then
        Some (s\<lparr>pc := (pc s)(i := Complete), thread_complete_success := (thread_complete_success s)(i := False)\<rparr>)
      else None)"
| "thread_step (Releases i) s =
     (if pc s i = Holding then
        Some (s\<lparr>pc := (pc s)(i := Complete), owner := None,
          thread_complete_success := (thread_complete_success s)(i := True)\<rparr>)
      else None)"

definition start_thread_obtaining_mutex :: "bool \<Rightarrow> bool \<Rightarrow> nat \<Rightarrow> mutex_state \<Rightarrow> mutex_state \<times> bool" where
  "start_thread_obtaining_mutex malloc_ok create_ok i s =
     (if \<not> malloc_ok then (s, False)
      else if \<not> create_ok then (s, False)
      else (s\<lparr>pc := (pc s)(i := Sleeping), thread_complete_success := (thread_complete_success s)(i := False)\<rparr>, True))"

definition mutex_inv :: "mutex_state \<Rightarrow> bool" where
  "mutex_inv s \<longleftrightarrow> (\<forall>i. pc s i = Holding \<longleftrightarrow> owner s = Some i) \<and> (\<forall>i. pc s i \<in> {Sleeping, Locking, Holding} \<longrightarrow> \<not> thread_complete_success s i)"

interpretation mutex: invariant_system "\<lambda>s e t. thread_step e s = Some t" mutex_inv
proof
  fix s l t assume "mutex_inv s" "thread_step l s = Some t"
  then show "mutex_inv t"
    by (cases l) (force simp: mutex_inv_def split: if_splits)+
qed

text \<open>At most one thread holds the mutex, and a thread is successful only after it has held it.\<close>

lemma mutual_exclusion:
  assumes "run (\<lambda>s e t. thread_step e s = Some t) s es t" "mutex_inv s" "pc t i = Holding" "pc t j = Holding"
  shows "i = j"
  using mutex.inv_run[OF assms(1,2)] assms(3,4) by (auto simp: mutex_inv_def)

lemma success_after_lock:
  assumes "run (\<lambda>s e t. thread_step e s = Some t) s es t" "mutex_inv s" "thread_complete_success t i"
    and "\<not> thread_complete_success s i"
  shows "Releases i \<in> set es \<and> pc t i = Complete"
  using assms
proof (induction rule: run.induct)
  case (run_Cons s l t ls u)
  note inv = mutex.inv_step[OF run_Cons.prems(1) run_Cons.hyps(1)]
  have "thread_complete_success t i \<Longrightarrow> l = Releases i"
    using run_Cons.hyps(1) run_Cons.prems(3) by (cases l) (auto split: if_splits)
  moreover have "pc u i = Complete"
  proof -
    have "mutex_inv u" by (rule mutex.inv_run[OF run_Cons.hyps(2) inv])
    then show ?thesis using run_Cons.prems(2) by (cases "pc u i") (auto simp: mutex_inv_def)
  qed
  ultimately show ?case using run_Cons.IH[OF inv run_Cons.prems(2)] by auto
qed simp

subsection \<open>The writer\<close>

text \<open>
  \<open>files\<close> are the contents of the files. \<open>stored\<close> is the number of bytes that reach the file when it is closed or the process
  ends; the result of closing is ignored.
\<close>

definition writer_main ::
  "string list \<Rightarrow> bool \<Rightarrow> bool \<Rightarrow> nat \<Rightarrow> (string \<Rightarrow> string option) \<Rightarrow> (string \<Rightarrow> string option) \<times> int" where
  "writer_main argv open_ok print_ok stored files =
     (if length argv \<noteq> 3 then (files, 1)
      else if \<not> open_ok then (files, 1)
      else (files(argv ! 1 \<mapsto> take stored (argv ! 2)), if print_ok then 0 else 1))"

lemma writer_correct:
  assumes "length argv = 3" "length (argv ! 2) \<le> stored"
  shows "\<exists>fs. writer_main argv True True stored files = (fs, 0) \<and> fs (argv ! 1) = Some (argv ! 2) \<and>
    (\<forall>f. f \<noteq> argv ! 1 \<longrightarrow> fs f = files f)"
  using assms by (simp add: writer_main_def)

text \<open>A disk that is full when the file is closed goes unnoticed.\<close>

lemma writer_misses_full_disk:
  "writer_main [''writer'', ''f'', ''abc''] True True 0 files = (files(''f'' \<mapsto> ''''), 0)"
  by (simp add: writer_main_def numeral_2_eq_2)

end
