(* ===== verification/Spec2Isabelle.thy ===== *)
theory Spec2Isabelle
  imports Aesd_System Aesd_Process Aesd_File_Mode Scull_Props Scull_Pipe_Threads Scull_Module Scull_System Scullx_Props Snull_Props Sbull_Props
    Short_Props Shortprint_Props Tiny_Tty Tiny_Serial Usb_Skeleton Silly Misc_Modules Proc_Files Skull Misc_Progs Misc_Progs_More
    Bus_Examples Assignments
begin

text \<open>
  This development models the C code of the repository: the character driver \<open>aesdchar\<close> and the socket
  server that uses it, and the example drivers and exercises beside them. It is a shallow embedding: each C function is a HOL function on the state it
  works on, with the names of the source.

  \<^bold>\<open>How the code is read.\<close> Integers are mathematical integers with every conversion of C written out
  (\<open>u32\<close>, \<open>u64\<close>, \<open>s32\<close>, \<open>s64\<close> in \<open>Kernel_Prelude\<close>), bytes are 8-bit words, and C division is \<open>sdiv\<close> and
  \<open>smod\<close>. A cell of memory that nothing wrote is \<open>None\<close>. A handler returns an \<open>outcome\<close>: \<open>Ret\<close> a value, \<open>Fail\<close> an
  error number, or \<open>Blocked\<close> when it sleeps and nobody wakes it. The option type around this is \<open>None\<close> where C gives
  the code no meaning: an access outside an object, a division by zero, a use of freed or missing
  memory. So \<open>f x = Some y\<close> says both that the code is safe and what it does. What comes from
  outside is an argument: the answers of the allocator (\<open>allocs\<close>, \<open>allocator\<close>), signals, faults of user copies
  (\<open>uleft\<close>), socket and file calls, port reads, the order of interrupts.

  \<^bold>\<open>Theories and sources.\<close>
  \<^item> \<open>Kernel_Prelude\<close>: outcomes, integers, memory, allocation, user copies, ioctl numbers. \<open>Device_Interfaces\<close>: the
    contracts as locales: \<open>invariant_system\<close> (steps keep an invariant), \<open>weighted_system\<close> (every schedule is bounded), \<open>fifo_channel\<close> (what goes in comes out in order),
    \<open>safe_handlers\<close> (event handlers never fail from a good state), \<open>simulation\<close>, \<open>call_refinement\<close> (calls whose answers
    a specification allows), \<open>open_guard\<close> (who may open
    a device), \<open>read_device\<close> (a file read in chunks), \<open>entry_log\<close> (a bounded log searched by offset); each is interpreted
    in the theory of the component that provides it.
  \<^item> \<open>Aesd_Circular_Buffer\<close> (\<open>aesd-circular-buffer.c\<close>, \<open>.h\<close>): the ring of ten entries and its lookup by offset;
    it holds the last ten entries in order. \<open>Aesd_Driver\<close>, \<open>Aesd_Driver_Correct\<close>, \<open>Aesd_Driver_Props\<close> (\<open>main.c\<close>,
    \<open>aesdchar.h\<close>, \<open>aesd_ioctl.h\<close>): every operation over an explicit heap of blocks; the driver refines a log of
    complete commands with a pending part, nothing is leaked or freed twice, and reads, seeks and the
    seek command work on the concatenation of the log.
  \<^item> \<open>Aesd_Socket\<close>, \<open>Aesd_Socket_Props\<close> (\<open>server/aesdsocket.c\<close> and the copy in the Yocto layer): one thread per connection
    that receives a message, writes it to the device or performs a seek command and sends back what the device
    returns; the accept loop and the list of threads; startup and shutdown. The device is
    any \<open>read_device\<close>, and the driver is one. \<open>Aesd_Server\<close>, \<open>Aesd_Server_Props\<close>: the thread of the Yocto copy on the
    arrays of the source with its log to the kernel, which does what the bare protocol says, and the whole process from its
    arguments to its exit, with signals before, during and after each \<open>accept\<close> and threads that may never end.
  \<^item> \<open>Aesd_System\<close>: the driver behind its table of operations, called through descriptors by any programs; the answers
    are those of a log of ten commands. \<open>Aesd_Clients\<close>: the connections of the server on that device, one after the other.
    \<open>Aesd_Threads\<close>, \<open>Aesd_Threads_Props\<close>, \<open>Aesd_Process\<close>: the same process with its threads in any order, a step per call: mutex,
    heap blocks of the threads, joins, signals, and peers that keep \<open>recv\<close> or \<open>send\<close> waiting; every schedule ends, the only undefined step is the scan
    of one kind of message, and the requests are serialised in the order of the mutex; an idle client blocks the exit. \<open>Aesd_File_Mode\<close>: the other configuration of the server, on a regular file with time stamps.
  \<^item> \<open>Scull\<close>, \<open>Scull_Correct\<close>, \<open>Scull_Props\<close> (\<open>scull/main.c\<close>, \<open>scull.h\<close>): the list of quantum sets, follow, read,
    write, trim, seek, ioctl, the seq file; over the map from block numbers to blocks each operation is exact, and a device
    without holes is a file. \<open>Scull_Pipe\<close>, \<open>Scull_Pipe_Props\<close> (\<open>pipe.c\<close>): the ring of the pipe, sleeping
    readers and writers. \<open>Scull_Pipe_Threads\<close>: its processes in any order, a step per point where another can come in; every schedule
    ends, no wake-up is lost between readers and writers, but an open loses one. \<open>Scull_Access\<close>, \<open>Scull_Access_Props\<close> (\<open>access.c\<close>): who may open. \<open>Scull_Module\<close>: loading, unloading, listing,
    and \<open>scull-shared/scull-async.c\<close>. \<open>Scull_Numbers\<close>: the tables of operations and the device numbers.
    \<open>Scull_System\<close>: the bare devices loaded and used through numbers and descriptors; they behave like files with holes.
  \<^item> \<open>Scullx\<close>, \<open>Scullx_Props\<close> (\<open>scullc\<close>, \<open>scullp\<close>, \<open>scullv\<close>, \<open>sculld\<close>: \<open>main.c\<close>, \<open>mmap.c\<close>, headers): the shared operations once,
    with the allocation of a quantum as argument, and an instance per driver; they are scull with cleared
    quanta, and a mapping shows what a read returns.
  \<^item> \<open>Snull\<close>, \<open>Snull_Props\<close> (\<open>snull/snull.c\<close>): two interfaces, packet pools, transmission from one to the other, interrupts and
    polling; no sequence of events breaks the pools. A poll is one event there; \<open>snull_poll_loses_frame\<close> is the race at its end.
  \<^item> \<open>Sbull\<close>, \<open>Sbull_Props\<close> (\<open>sbull/sbull.c\<close>): transfers to a RAM disk in the three request modes, loading, and media
    change on kernels that ask for it (before 5.9) and on those that do not.
  \<^item> \<open>Parport_Format\<close>; \<open>Short\<close>, \<open>Short_Props\<close> (\<open>short/short.c\<close>); \<open>Shortprint\<close>, \<open>Shortprint_Props\<close> (\<open>shortprint/shortprint.c\<close>):
    ports and memory-mapped I/O, interrupt records in a page, bottom halves, interrupt probing; the printer queue,
    its ring, sleeping writers and the work function.
  \<^item> \<open>Tiny_Tty\<close> (\<open>tty/tiny_tty.c\<close>): ports, their timers and counts stay consistent and unloading ends, unless a close meets a
    running handler (\<open>tiny_timer_outlives_close\<close>).
    \<open>Tiny_Serial\<close> (\<open>tty/tiny_serial.c\<close>): the transmission of the ring of the serial core.
  \<^item> \<open>Usb_Skeleton\<close> (\<open>usb/usb-skeleton.c\<close>): a structure per attachment, counted, and never used after it is freed, neither by
    an open file nor by the completion of a request, because the core ends the requests before the disconnect; the error path of the write is broken. \<open>Bus_Examples\<close> (\<open>lddbus\<close>, \<open>simple\<close>,
    \<open>pci\<close>): matching and registration, two mappings of the same frames, probing.
  \<^item> \<open>Silly\<close> (\<open>misc-modules/silly.c\<close>): the four ways of reading ISA memory agree. \<open>Misc_Modules\<close> (\<open>sleepy.c\<close>, \<open>complete.c\<close>, \<open>seq.c\<close>, \<open>faulty.c\<close>,
    \<open>jit.c\<close>, \<open>jiq.c\<close>): waiting and waking, sequence files, timers and deferred work. \<open>Proc_Files\<close>: the files
    that they and the listings of scull make under /proc (\<open>include/proc_ops_version.h\<close>).
  \<^item> \<open>Skull\<close> (\<open>skull/skull_init.c\<close>): the probe of the ISA hole ends, except at a ROM of 2 KB. \<open>Misc_Progs\<close> (\<open>misc-progs\<close>: \<open>inp.c\<close>, \<open>outp.c\<close>,
    \<open>netifdebug.c\<close>, \<open>mapcmp.c\<close>, \<open>nbtest.c\<close>, \<open>polltest.c\<close>): ports by hand, flags of an interface, comparison of mappings, copy loops. \<open>Misc_Progs_More\<close>: the
    other programs, and \<open>kdatasize.c\<close> and \<open>kdataalign.c\<close>.
  \<^item> \<open>Assignments\<close> (\<open>examples/systemcalls\<close>, \<open>examples/threading\<close>, \<open>finder-app/writer.c\<close>): when a command counts as executed, mutual exclusion of the
    threads, the written file.

  \<^bold>\<open>Bounds and fuel.\<close> Positions and sizes are assumed below \<open>2 ^ 62\<close>, which no device of these drivers reaches, so that
  sums of two of them do not wrap. A read by the server is at most \<open>chunk_max\<close> bytes, the kernel's limit. The bottom half of short
  runs with fuel \<open>NR_TIMEVAL\<close> = 512, the number of entries of its ring: \<open>short_bottom_half_ends\<close> shows that this
  is enough. Loops over answers from outside (receive, send, status reads, sleeps) recurse on the list of
  answers. Where the list ends without the exit condition the result says so (\<open>Blocked\<close>, \<open>None\<close>, or \<open>Serving\<close> for the server), with one
  exception: in the server's \<open>recv_loop\<close>, \<open>send_loop\<close> and their copies in \<open>Aesd_Server\<close>, which describe one connection from its start to its end, the
  end of the list is the end of the stream for \<open>recv\<close>, and \<open>send\<close> takes the rest. In the threads of \<open>Aesd_Threads\<close> that is so for a peer
  that is neither idle nor stalled (fields \<open>c_idle\<close> and \<open>c_stalled\<close>); with one that is, the call does not return (\<open>Waits\<close>). The
  loops of the server over the device and the probe of \<open>skull\<close> may run forever (\<open>partial_function\<close>, \<open>None\<close>): that they end, or
  where they do not, is proved. The
  allocator \<open>first_free\<close> with 64 blocks only serves to run examples.

  \<^bold>\<open>Concurrency.\<close> Code under a lock is one step. What is read outside the lock is an argument of the locked part
  (\<open>scull_write_locked\<close>), and steps that others may interleave with are steps of a relation
  (the threads of the server, the counter of \<open>scull_s_open\<close>, the sleeping loops of the pipe, the events of \<open>snull\<close>, \<open>tiny_tty\<close> and the USB skeleton, the rounds of the printer queue). Of these events, a
  poll of \<open>snull\<close> and a timer handler of \<open>tiny_tty\<close> hold no lock; their two parts are definitions of their own, and what happens when another event
  comes between them is proved beside the properties of the whole events.

  \<^bold>\<open>Not modelled.\<close> Build files and scripts; the registration tables of the drivers other than \<open>aesdchar\<close>, \<open>scull\<close> and the
  files under /proc; log messages other than those of the server's thread, \<open>hello\<close> and \<open>tiny_serial\<close>; the unit tests, which hold
  constants; \<open>scullc/mmap.c\<close>, which no module links.
\<close>

section \<open>Properties that span components\<close>

text \<open>C2. The server under any schedule of its threads, on a freshly loaded device: whenever the mutex is free, the requests
  served so far, in the order in which the threads took it, and the replies that the clients got are a
  behaviour of the log of the last ten commands, and the device holds that log. Each connection is served at most once.\<close>

theorem server_threads_serial:
  assumes "kheap (dev_state m) = Map.empty" "list_all arrival_ok arrivals" "sum_list (map arrival_bytes arrivals) < 2 ^ 61"
    and "run process_step (installed arrivals m) schedule p" "file_mutex (common p) = None"
  shows "\<exists>l. run log_reply ([], []) (zip (clients_of p (lock_order (common p))) (replies_of p (lock_order (common p)))) l \<and>
    aesd_rep (device (common p)) l \<and> distinct (lock_order (common p)) \<and>
    set (lock_order (common p)) = {i. i < length (threads p) \<and> entered (t_pc (threads p ! i))}"
proof -
  have inv: "process_inv (length arrivals) (dev_state (fst (aesd_init_module 0 0 m))) p"
    using server.inv_run[OF assms(4)] process_inv_installed[OF assms(1-3)] by blast
  then have "distinct (lock_order (common p))"
    "set (lock_order (common p)) = {i. i < length (threads p) \<and> entered (t_pc (threads p ! i))}"
    by (simp_all add: process_inv_def lock_ok_def)
  with process_calls[OF inv assms(5)] init_ok[OF assms(1), of 0 0] show ?thesis by blast
qed

theorem server_threads_serial_witness:
  "\<exists>p l. run process_step (installed demo_arrivals demo_module) demo_schedule p \<and> main_at p = Exited \<and>
    run log_reply ([], []) (zip (clients_of p [0, 1]) (replies_of p [0, 1])) l"
proof -
  obtain p where p: "run process_step (installed demo_arrivals demo_module) demo_schedule p" "main_at p = Exited"
    "lock_order (common p) = [0, 1]" "file_mutex (common p) = None" using demo_run by blast
  from server_threads_serial[OF empty_demo_heap demo_arrivals_ok(1,2) p(1,4)] obtain l where
    "run log_reply ([], []) (zip (clients_of p [0, 1]) (replies_of p [0, 1])) l" unfolding p(3) by blast
  then show ?thesis using p(1,2) by blast
qed



text \<open>C4. Whatever the schedule, when every client sends a message and takes its reply, and memory suffices, each of
  them gets the last ten messages in the order in which the threads took the mutex, up to and including its own, whole and in
  order, from the first connection after loading on.\<close>

theorem threads_see_last_ten:
  assumes "kheap (dev_state m) = Map.empty" "list_all arrival_ok arrivals" "sum_list (map arrival_bytes arrivals) < 2 ^ 61"
    and "list_all (arrives_with (\<lambda>c. writer c \<and> reliable (c_alloc c))) arrivals"
    and "run process_step (installed arrivals m) schedule p" "file_mutex (common p) = None"
    and "k < length (lock_order (common p))"
  shows "replies_of p (lock_order (common p)) ! k =
    map Some (concat (take_last 10 (map client_message (take (Suc k) (clients_of p (lock_order (common p)))))))"
proof -
  let ?order = "lock_order (common p)"
  note inv = server.inv_run[OF assms(5) process_inv_installed[OF assms(1-3)]]
  have "all_clients (\<lambda>c. writer c \<and> reliable (c_alloc c)) (installed arrivals m)"
    using assms(4) by (simp add: all_clients_def installed_def serving_def)
  from arrivals.inv_run[OF assms(5) this] have "list_all (\<lambda>t. writer (t_client t) \<and> reliable (c_alloc (t_client t))) (threads p)"
    by (simp add: all_clients_def)
  moreover have "set ?order \<subseteq> {..< length (threads p)}" using inv by (auto simp: process_inv_def lock_ok_def)
  ultimately have w: "list_all (\<lambda>c. writer c \<and> reliable (c_alloc c)) (clients_of p ?order)"
    by (auto simp: list_all_iff)
  obtain l where "run log_reply ([], []) (zip (clients_of p ?order) (replies_of p ?order)) l"
    using process_calls[OF inv assms(6)] init_ok[OF assms(1), of 0 0] by blast
  from run_writers[OF this _ w] show ?thesis using assms(7) by simp
qed

theorem threads_see_last_ten_witness:
  "\<exists>p. run process_step (installed demo_arrivals demo_module) demo_schedule p \<and>
    t_sent (threads p ! 1) = map Some [97, 10, 98, 10]"
proof -
  obtain p where p: "run process_step (installed demo_arrivals demo_module) demo_schedule p" "file_mutex (common p) = None"
    "lock_order (common p) = [0, 1]" "map (\<lambda>t. client_message (t_client t)) (threads p) = [[97, 10], [98, 10]]"
    using demo_run by (elim exE conjE)
  have two: "length (threads p) = 2" using arg_cong[OF p(4), of length] by simp
  have m: "client_message (t_client (threads p ! 0)) = [97, 10]" "client_message (t_client (threads p ! 1)) = [98, 10]"
    using arg_cong[OF p(4), of "\<lambda>ms. ms ! 0"] arg_cong[OF p(4), of "\<lambda>ms. ms ! 1"] two by simp_all
  have "replies_of p [0, 1] ! 1 = map Some (concat (take_last 10 (map client_message (take (Suc 1) (clients_of p [0, 1])))))"
    using threads_see_last_ten[OF empty_demo_heap demo_arrivals_ok(1-3) p(1,2), of 1] unfolding p(3) by simp
  then show ?thesis using p(1) m by (auto simp: take_last_def)
qed

end
